(* ===== verification/Lua_Prelude.thy ===== *)
theory Lua_Prelude
  imports Main "HOL-Library.Word"
begin

text \<open>
  Shared vocabulary of the development: the machine integers of the Rust sources as words,
  fallible computations as sums with their sequencing combinator, Rust's checked arithmetic on
  \<open>usize\<close>, and the generic list, option and word lemmas that the component theories use.
\<close>

named_theorems result_simps \<open>rewrite rules for computations that may fail\<close>
named_theorems byte_simps \<open>rewrite rules for byte encodings\<close>

type_synonym u8 = "8 word"
type_synonym u16 = "16 word"
type_synonym u32 = "32 word"
type_synonym u64 = "64 word"
type_synonym i64 = "64 word"
type_synonym bytes = "u8 list"

text \<open>
  A fallible computation returns \<open>Inl e\<close> for Rust's \<open>Err(e)\<close> and \<open>Inr x\<close> for \<open>Ok(x)\<close>.
  \<open>rbind\<close> is the \<open>?\<close> operator: it leaves with the error or goes on with the value.
\<close>

type_synonym ('e, 'a) result = "'e + 'a"

definition rbind :: "('e, 'a) result \<Rightarrow> ('a \<Rightarrow> ('e, 'b) result) \<Rightarrow> ('e, 'b) result" where
  "rbind m f = (case m of Inl e \<Rightarrow> Inl e | Inr x \<Rightarrow> f x)"

lemma rbind_simps [simp, result_simps]:
  "rbind (Inl e) f = Inl e"
  "rbind (Inr x) f = f x"
  by (simp_all add: rbind_def)

lemma rbind_Inr_iff [result_simps]:
  "rbind m f = Inr y \<longleftrightarrow> (\<exists>x. m = Inr x \<and> f x = Inr y)"
  by (cases m) auto

lemma rbind_Inl_iff [result_simps]:
  "rbind m f = Inl e \<longleftrightarrow> m = Inl e \<or> (\<exists>x. m = Inr x \<and> f x = Inl e)"
  by (cases m) auto

lemma rbind_InrE:
  assumes "rbind m f = Inr y"
  obtains x where "m = Inr x" and "f x = Inr y"
  using assms by (auto simp: rbind_Inr_iff)

lemma rbind_cong [fundef_cong]:
  assumes "m = m'" and "\<And>x. m' = Inr x \<Longrightarrow> f x = f' x"
  shows "rbind m f = rbind m' f'"
  using assms by (cases m') auto

text \<open>\<open>ok_or e\<close> is \<open>Option::ok_or\<close>.\<close>

definition ok_or :: "'e \<Rightarrow> 'a option \<Rightarrow> ('e, 'a) result" where
  "ok_or e x = (case x of None \<Rightarrow> Inl e | Some v \<Rightarrow> Inr v)"

lemma ok_or_simps [simp, result_simps]:
  "ok_or e None = Inl e"
  "ok_or e (Some v) = Inr v"
  by (simp_all add: ok_or_def)

lemma ok_or_Inr_iff [result_simps]: "ok_or e x = Inr v \<longleftrightarrow> x = Some v"
  by (cases x) auto

text \<open>A check that returns \<open>Err(e)\<close> early unless its condition holds.\<close>

definition ensure :: "bool \<Rightarrow> 'e \<Rightarrow> ('e, unit) result" where
  "ensure b e = (if b then Inr () else Inl e)"

lemma ensure_Inr_iff [result_simps, simp]: "ensure b e = Inr u \<longleftrightarrow> b"
  by (simp add: ensure_def)

lemma ensure_Inl_iff [result_simps, simp]: "ensure b e = Inl d \<longleftrightarrow> \<not> b \<and> d = e"
  by (auto simp: ensure_def)

lemma ensure_simps [simp, result_simps]:
  "ensure True e = Inr ()"
  "ensure False e = Inl e"
  by (simp_all add: ensure_def)

text \<open>
  Rust's \<open>usize\<close> is a natural number below \<open>2 ^ 64\<close>. Only the checked operations
  of the sources can leave that range, and they return \<open>None\<close> there.
\<close>

definition usize_max :: nat where
  "usize_max = 2 ^ 64 - 1"

definition checked_add_usize :: "nat \<Rightarrow> nat \<Rightarrow> nat option" where
  "checked_add_usize a b = (if a + b \<le> usize_max then Some (a + b) else None)"

definition checked_mul_usize :: "nat \<Rightarrow> nat \<Rightarrow> nat option" where
  "checked_mul_usize a b = (if a * b \<le> usize_max then Some (a * b) else None)"

lemma checked_add_usize_Some [simp]:
  "checked_add_usize a b = Some c \<longleftrightarrow> c = a + b \<and> a + b \<le> usize_max"
  by (auto simp: checked_add_usize_def)

lemma checked_mul_usize_Some [simp]:
  "checked_mul_usize a b = Some c \<longleftrightarrow> c = a * b \<and> a * b \<le> usize_max"
  by (auto simp: checked_mul_usize_def)

lemma checked_add_usize_code [code]:
  "checked_add_usize a b = (if int a + int b \<le> 18446744073709551615 then Some (a + b) else None)"
  unfolding checked_add_usize_def usize_max_def by simp

text \<open>\<open>slice.get(i)\<close>: \<open>None\<close> out of range.\<close>

definition get_at :: "'a list \<Rightarrow> nat \<Rightarrow> 'a option" where
  "get_at xs i = (if i < length xs then Some (xs ! i) else None)"

lemma get_at_Some [simp]: "get_at xs i = Some x \<longleftrightarrow> i < length xs \<and> xs ! i = x"
  by (auto simp: get_at_def)

lemma get_at_None [simp]: "get_at xs i = None \<longleftrightarrow> length xs \<le> i"
  by (auto simp: get_at_def)

text \<open>\<open>Ordering\<close> of the Rust standard library, and comparison of integers.\<close>

datatype ordering = Ord_Less | Ord_Equal | Ord_Greater

fun reverse_ordering :: "ordering \<Rightarrow> ordering" where
  "reverse_ordering Ord_Less = Ord_Greater"
| "reverse_ordering Ord_Equal = Ord_Equal"
| "reverse_ordering Ord_Greater = Ord_Less"

definition cmp_int :: "int \<Rightarrow> int \<Rightarrow> ordering" where
  "cmp_int a b = (if a < b then Ord_Less else if a = b then Ord_Equal else Ord_Greater)"

lemma cmp_int_iff [simp]:
  "cmp_int a b = Ord_Less \<longleftrightarrow> a < b"
  "cmp_int a b = Ord_Equal \<longleftrightarrow> a = b"
  "cmp_int a b = Ord_Greater \<longleftrightarrow> b < a"
  by (auto simp: cmp_int_def)

lemma cmp_int_reverse: "reverse_ordering (cmp_int a b) = cmp_int b a"
  by (auto simp: cmp_int_def)

lemma reverse_ordering_involutive [simp]: "reverse_ordering (reverse_ordering r) = r"
  by (cases r) auto

lemma le_div_int_iff:
  fixes k u d :: int
  assumes "0 < d"
  shows "k \<le> u div d \<longleftrightarrow> k * d \<le> u"
proof
  assume "k \<le> u div d"
  then have "k * d \<le> u div d * d" using assms by (simp add: mult_right_mono)
  also have "\<dots> \<le> u" using assms by (simp add: minus_mod_eq_div_mult [symmetric])
  finally show "k * d \<le> u" .
next
  assume "k * d \<le> u"
  then have "(k * d) div d \<le> u div d" using assms by (rule zdiv_mono1)
  then show "k \<le> u div d" using assms by simp
qed

text \<open>
  The contract of a partial comparison: it is undefined exactly on the invalid values (NaN),
  and on the valid ones it is the order of an integer key. The laws of an order follow once.
\<close>

locale exact_comparison =
  fixes cmp :: "'a \<Rightarrow> 'a \<Rightarrow> ordering option"
    and valid :: "'a \<Rightarrow> bool"
    and key :: "'a \<Rightarrow> int"
  assumes cmp_valid: "\<lbrakk>valid a; valid b\<rbrakk> \<Longrightarrow> cmp a b = Some (cmp_int (key a) (key b))"
    and cmp_invalid: "\<not> (valid a \<and> valid b) \<Longrightarrow> cmp a b = None"
begin

lemma cmp_eq: "cmp a b = (if valid a \<and> valid b then Some (cmp_int (key a) (key b)) else None)"
  using cmp_valid cmp_invalid by simp

lemma cmp_flip: "cmp b a = map_option reverse_ordering (cmp a b)"
  by (simp add: cmp_eq cmp_int_reverse)

lemma cmp_same: "valid a \<Longrightarrow> cmp a a = Some Ord_Equal"
  by (simp add: cmp_eq)

lemma cmp_total: "\<lbrakk>valid a; valid b\<rbrakk> \<Longrightarrow> cmp a b \<noteq> None"
  by (simp add: cmp_eq)

lemma cmp_less_trans:
  assumes "cmp a b = Some Ord_Less" and "cmp b c \<in> {Some Ord_Less, Some Ord_Equal}"
  shows "cmp a c = Some Ord_Less"
  using assms by (auto simp: cmp_eq split: if_splits)

lemma cmp_equal_trans:
  assumes "cmp a b = Some Ord_Equal"
  shows "cmp a c = cmp b c"
  using assms by (auto simp: cmp_eq split: if_splits)

end

text \<open>The number of binary digits of a natural number.\<close>

fun bit_width :: "nat \<Rightarrow> nat" where
  "bit_width n = (if n = 0 then 0 else Suc (bit_width (n div 2)))"

declare bit_width.simps [simp del]

lemma bit_width_0 [simp]: "bit_width 0 = 0"
  by (simp add: bit_width.simps)

lemma bit_width_upper: "n < 2 ^ bit_width n"
proof (induction n rule: bit_width.induct)
  case (1 n)
  show ?case
  proof (cases "n = 0")
    case False
    with "1.IH" have "n div 2 < 2 ^ bit_width (n div 2)" by simp
    then have "n < 2 * 2 ^ bit_width (n div 2)" by linarith
    with False show ?thesis by (simp add: bit_width.simps [of n])
  qed simp
qed

lemma bit_width_lower: "n \<noteq> 0 \<Longrightarrow> 2 ^ (bit_width n - 1) \<le> n"
proof (induction n rule: bit_width.induct)
  case (1 n)
  show ?case
  proof (cases "n div 2 = 0")
    case True
    with "1.prems" have "n = 1" by linarith
    then show ?thesis by (simp add: bit_width.simps)
  next
    case False
    with 1 have "2 ^ (bit_width (n div 2) - 1) \<le> n div 2" by simp
    then have "2 * 2 ^ (bit_width (n div 2) - 1) \<le> n" by linarith
    moreover have "bit_width (n div 2) \<noteq> 0"
      using False bit_width_upper [of "n div 2"] by (metis gr0I less_one power_0)
    ultimately show ?thesis
      using "1.prems" by (simp add: bit_width.simps [of n] power_eq_if)
  qed
qed

lemma bit_width_unique:
  assumes "2 ^ w \<le> n" and "n < 2 ^ Suc w"
  shows "bit_width n = Suc w"
proof -
  have "n \<noteq> 0" using assms(1) by (metis not_one_le_zero one_le_numeral one_le_power order_trans)
  then have low: "2 ^ (bit_width n - 1) \<le> n" by (rule bit_width_lower)
  have "bit_width n \<noteq> 0" using \<open>n \<noteq> 0\<close> by (simp add: bit_width.simps)
  have "(2::nat) ^ (bit_width n - 1) < 2 ^ Suc w" using low assms(2) by (rule order.strict_trans1)
  then have "bit_width n - 1 < Suc w" by (rule power_less_imp_less_exp [rotated]) simp
  moreover have "(2::nat) ^ w < 2 ^ bit_width n"
    using assms(1) bit_width_upper [of n] by (rule order.strict_trans1)
  then have "w < bit_width n" by (rule power_less_imp_less_exp [rotated]) simp
  ultimately show ?thesis by linarith
qed

end
