(* ===== verification/F64.thy ===== *)
theory F64
  imports Lua_Prelude
begin

text \<open>
  Rust's \<open>f64\<close>: IEEE 754 binary64, given by its bit pattern. The smallest positive
  double is \<open>2 ^ -1074\<close>, so the value of every finite double is an integral multiple of
  it. \<open>f64_units\<close> is that multiple: comparison, rounding and the arithmetic operations are
  then exact integer arithmetic followed by one rounding to nearest, ties to even.
  An operation with no numerical result returns the canonical quiet NaN; nothing in the
  development depends on the payload of a NaN.
\<close>

datatype f64 = F64 (to_bits: u64)

definition f64_sign :: "f64 \<Rightarrow> bool" where
  "f64_sign f \<longleftrightarrow> 2 ^ 63 \<le> unat (to_bits f)"

definition f64_mag :: "f64 \<Rightarrow> nat" where
  "f64_mag f = unat (to_bits f) mod 2 ^ 63"

definition f64_make :: "bool \<Rightarrow> nat \<Rightarrow> f64" where
  "f64_make s k = F64 (word_of_nat (if s then 2 ^ 63 + k else k))"

definition inf_mag :: nat where
  "inf_mag = 2047 * 2 ^ 52"

definition f64_nan :: f64 where
  "f64_nan = f64_make False (inf_mag + 2 ^ 51)"

definition is_nan :: "f64 \<Rightarrow> bool" where
  "is_nan f \<longleftrightarrow> inf_mag < f64_mag f"

definition is_infinite :: "f64 \<Rightarrow> bool" where
  "is_infinite f \<longleftrightarrow> f64_mag f = inf_mag"

definition is_finite :: "f64 \<Rightarrow> bool" where
  "is_finite f \<longleftrightarrow> f64_mag f < inf_mag"

text \<open>
  The magnitude field \<open>k\<close> holds an exponent (upper bits) and a fraction (lower 52 bits).
  Its value in units grows strictly with \<open>k\<close>; at \<open>inf_mag\<close> it is above every finite value.
\<close>

definition mag_units :: "nat \<Rightarrow> nat" where
  "mag_units k = (let e = k div 2 ^ 52; m = k mod 2 ^ 52
                  in if e = 0 then m else (2 ^ 52 + m) * 2 ^ (e - 1))"

definition one_units :: nat where
  "one_units = 2 ^ 1074"

definition f64_units :: "f64 \<Rightarrow> int" where
  "f64_units f = (if f64_sign f then - int (mag_units (f64_mag f)) else int (mag_units (f64_mag f)))"

text \<open>Rounding the quotient \<open>num / den\<close> (in units) to the nearest magnitude, ties to even.\<close>

definition round_mag :: "nat \<Rightarrow> nat \<Rightarrow> nat" where
  "round_mag num den =
     (let q = num div den; s = bit_width q - 53; m = q div 2 ^ s;
          r = num - m * 2 ^ s * den; h = 2 ^ s * den; k = s * 2 ^ 52 + m
      in min (if h < 2 * r \<or> (h = 2 * r \<and> odd m) then Suc k else k) inf_mag)"

definition f64_round :: "bool \<Rightarrow> nat \<Rightarrow> nat \<Rightarrow> f64" where
  "f64_round s num den = f64_make s (round_mag num den)"

definition f64_cmp :: "f64 \<Rightarrow> f64 \<Rightarrow> ordering option" where
  "f64_cmp a b = (if is_nan a \<or> is_nan b then None else Some (cmp_int (f64_units a) (f64_units b)))"

definition f64_eq :: "f64 \<Rightarrow> f64 \<Rightarrow> bool" where
  "f64_eq a b \<longleftrightarrow> f64_cmp a b = Some Ord_Equal"

definition f64_lt :: "f64 \<Rightarrow> f64 \<Rightarrow> bool" where
  "f64_lt a b \<longleftrightarrow> f64_cmp a b = Some Ord_Less"

definition f64_ge :: "f64 \<Rightarrow> f64 \<Rightarrow> bool" where
  "f64_ge a b \<longleftrightarrow> f64_cmp a b = Some Ord_Greater \<or> f64_cmp a b = Some Ord_Equal"

definition f64_neg :: "f64 \<Rightarrow> f64" where
  "f64_neg f = f64_make (\<not> f64_sign f) (f64_mag f)"

definition f64_inf :: "bool \<Rightarrow> f64" where
  "f64_inf s = f64_make s inf_mag"

definition f64_zero :: "bool \<Rightarrow> f64" where
  "f64_zero s = f64_make s 0"

definition f64_add :: "f64 \<Rightarrow> f64 \<Rightarrow> f64" where
  "f64_add a b =
     (if is_nan a \<or> is_nan b then f64_nan
      else if is_infinite a then (if is_infinite b \<and> f64_sign a \<noteq> f64_sign b then f64_nan else a)
      else if is_infinite b then b
      else let s = f64_units a + f64_units b
           in if s = 0 then f64_zero (f64_sign a \<and> f64_sign b) else f64_round (s < 0) (nat \<bar>s\<bar>) 1)"

definition f64_sub :: "f64 \<Rightarrow> f64 \<Rightarrow> f64" where
  "f64_sub a b = f64_add a (f64_neg b)"

definition f64_mul :: "f64 \<Rightarrow> f64 \<Rightarrow> f64" where
  "f64_mul a b =
     (let s = (f64_sign a \<noteq> f64_sign b); ua = mag_units (f64_mag a); ub = mag_units (f64_mag b)
      in if is_nan a \<or> is_nan b then f64_nan
         else if is_infinite a \<or> is_infinite b then (if ua = 0 \<or> ub = 0 then f64_nan else f64_inf s)
         else f64_round s (ua * ub) one_units)"

definition f64_div :: "f64 \<Rightarrow> f64 \<Rightarrow> f64" where
  "f64_div a b =
     (let s = (f64_sign a \<noteq> f64_sign b); ua = mag_units (f64_mag a); ub = mag_units (f64_mag b)
      in if is_nan a \<or> is_nan b then f64_nan
         else if is_infinite a then (if is_infinite b then f64_nan else f64_inf s)
         else if is_infinite b then f64_zero s
         else if ub = 0 then (if ua = 0 then f64_nan else f64_inf s)
         else f64_round s (ua * one_units) ub)"

text \<open>\<open>trunc\<close>, \<open>floor\<close>, \<open>ceil\<close> and \<open>fract\<close>.\<close>

definition f64_trunc :: "f64 \<Rightarrow> f64" where
  "f64_trunc f = (if is_finite f
     then f64_round (f64_sign f) (mag_units (f64_mag f) div one_units * one_units) 1 else f)"

definition f64_floor :: "f64 \<Rightarrow> f64" where
  "f64_floor f = (if is_finite f
     then f64_round (f64_sign f) (nat \<bar>f64_units f div int one_units\<bar> * one_units) 1 else f)"

definition f64_ceil :: "f64 \<Rightarrow> f64" where
  "f64_ceil f = (if is_finite f
     then f64_round (f64_sign f) (nat \<bar>(- f64_units f) div int one_units\<bar> * one_units) 1 else f)"

definition f64_fract :: "f64 \<Rightarrow> f64" where
  "f64_fract f = f64_sub f (f64_trunc f)"

text \<open>Casts: \<open>i as f64\<close> rounds to nearest, \<open>f as i64\<close> truncates and saturates, NaN gives 0.\<close>

definition f64_of_int :: "int \<Rightarrow> f64" where
  "f64_of_int i = f64_round (i < 0) (nat \<bar>i\<bar> * one_units) 1"

definition f64_int_part :: "f64 \<Rightarrow> int" where
  "f64_int_part f = (if f64_sign f then - int (mag_units (f64_mag f) div one_units)
                     else int (mag_units (f64_mag f) div one_units))"

definition f64_to_i64 :: "f64 \<Rightarrow> i64" where
  "f64_to_i64 f = (if is_nan f then 0
     else word_of_int (max (- (2 ^ 63)) (min (2 ^ 63 - 1) (f64_int_part f))))"

subsection \<open>Magnitudes and their values\<close>

lemma unat_to_bits_make:
  "k < 2 ^ 63 \<Longrightarrow> unat (to_bits (f64_make s k)) = (if s then 2 ^ 63 + k else k)"
  unfolding f64_make_def by (simp only: f64.sel unat_of_nat) (simp add: take_bit_eq_mod)

lemma f64_mag_make [simp]: "k < 2 ^ 63 \<Longrightarrow> f64_mag (f64_make s k) = k"
  unfolding f64_mag_def by (simp only: unat_to_bits_make) (simp add: mod_add_self1)

lemma f64_sign_make [simp]: "k < 2 ^ 63 \<Longrightarrow> f64_sign (f64_make s k) = s"
  unfolding f64_sign_def by (simp only: unat_to_bits_make) simp

lemma f64_make_eq [simp]: "f64_make (f64_sign f) (f64_mag f) = f"
proof (cases f)
  case (F64 w)
  have "unat w < 2 ^ 64" using unsigned_less [of w] by simp
  then have "(if 2 ^ 63 \<le> unat w then 2 ^ 63 + unat w mod 2 ^ 63 else unat w mod 2 ^ 63) = unat w"
    by (cases "2 ^ 63 \<le> unat w") (simp_all add: le_mod_geq)
  then show ?thesis
    using F64 by (simp only: f64_make_def f64_mag_def f64_sign_def f64.sel of_nat_unat) simp
qed

lemma inf_mag_less: "inf_mag < 2 ^ 63"
  by (simp add: inf_mag_def)

lemma mag_units_0 [simp]: "mag_units 0 = 0"
  by (simp add: mag_units_def)

lemma mag_units_split:
  assumes "m < 2 ^ 52"
  shows "mag_units (e * 2 ^ 52 + m) = (if e = 0 then m else (2 ^ 52 + m) * 2 ^ (e - 1))"
proof -
  have "(e * 2 ^ 52 + m) div 2 ^ 52 = e" "(e * 2 ^ 52 + m) mod 2 ^ 52 = m"
    using assms by (simp_all add: div_add1_eq)
  then show ?thesis by (simp only: mag_units_def Let_def)
qed

lemma mag_splitE:
  obtains e m :: nat where "k = e * 2 ^ 52 + m" and "m < 2 ^ 52"
  by (rule that [of "k div 2 ^ 52" "k mod 2 ^ 52"]) simp_all

lemma mag_units_Suc: "mag_units k < mag_units (Suc k)"
proof -
  obtain e m where k: "k = e * 2 ^ 52 + m" and m: "m < 2 ^ 52" by (rule mag_splitE)
  show ?thesis
  proof (cases "Suc m < 2 ^ 52")
    case True
    have "mag_units (Suc k) = mag_units (e * 2 ^ 52 + Suc m)" using k by simp
    then show ?thesis
      unfolding k mag_units_split [OF m] mag_units_split [OF True] by (cases e) simp_all
  next
    case False
    then have "Suc k = Suc e * 2 ^ 52 + 0" using m k by simp
    then have "mag_units (Suc k) = 2 ^ 52 * 2 ^ e"
      using mag_units_split [of 0 "Suc e"] by simp
    then show ?thesis
      unfolding k mag_units_split [OF m] using m by (cases e) simp_all
  qed
qed

lemma strict_mono_mag_units: "strict_mono mag_units"
  by (rule strict_mono_Suc_iff [THEN iffD2]) (simp add: mag_units_Suc)

lemmas mag_units_less_iff [simp] = strict_mono_less [OF strict_mono_mag_units]
lemmas mag_units_le_iff [simp] = strict_mono_less_eq [OF strict_mono_mag_units]
lemmas mag_units_eq_iff [simp] = strict_mono_eq [OF strict_mono_mag_units]

lemma mag_units_eq_0_iff [simp]: "mag_units k = 0 \<longleftrightarrow> k = 0"
  using mag_units_eq_iff [of k 0] by (simp del: mag_units_eq_iff)

lemma mag_units_shift:
  assumes "2 ^ 52 \<le> m" and "m < 2 ^ 53"
  shows "mag_units (s * 2 ^ 52 + m) = m * 2 ^ s"
proof -
  define d where "d = m - 2 ^ 52"
  have "m = 2 ^ 52 + d" "d < 2 ^ 52" using assms by (simp_all add: d_def)
  then have "(s * 2 ^ 52 + m) div 2 ^ 52 = Suc s" "(s * 2 ^ 52 + m) mod 2 ^ 52 = d"
    by (simp_all add: div_add1_eq)
  with \<open>m = 2 ^ 52 + d\<close> show ?thesis by (simp add: mag_units_def)
qed

lemma mag_units_small: "m < 2 ^ 53 \<Longrightarrow> mag_units m = m"
  using mag_units_shift [of m 0] by (cases "m < 2 ^ 52") (simp_all add: mag_units_def)

lemma mag_units_inf: "mag_units inf_mag = 2 ^ 2098"
  by (simp add: mag_units_def inf_mag_def flip: power_add)

subsection \<open>Rounding is exact on representable values\<close>

lemma bit_width_shift:
  assumes "2 ^ 52 \<le> m" and "m < 2 ^ 53"
  shows "bit_width (m * 2 ^ s) = 53 + s"
proof -
  have "bit_width (m * 2 ^ s) = Suc (52 + s)"
    using assms by (intro bit_width_unique) (simp_all add: power_add)
  then show ?thesis by simp
qed

lemma round_mag_shift:
  assumes "2 ^ 52 \<le> m" and "m < 2 ^ 53"
  shows "round_mag (m * 2 ^ s) 1 = min (s * 2 ^ 52 + m) inf_mag"
  using assms by (simp add: round_mag_def Let_def bit_width_shift)

lemma round_mag_units:
  assumes "k \<le> inf_mag"
  shows "round_mag (mag_units k) 1 = k"
proof (cases "k < 2 ^ 52")
  case True
  then have "mag_units k = k" by (simp add: mag_units_small)
  moreover have "bit_width k \<le> 53"
  proof (rule ccontr)
    assume "\<not> bit_width k \<le> 53"
    then have "(2::nat) ^ 53 \<le> 2 ^ (bit_width k - 1)" by (intro power_increasing) simp_all
    also have "\<dots> \<le> k" using \<open>\<not> bit_width k \<le> 53\<close> by (intro bit_width_lower) (auto intro: gr0I)
    finally show False using True by simp
  qed
  ultimately show ?thesis using assms by (simp add: round_mag_def Let_def)
next
  case False
  obtain e d where e: "k = e * 2 ^ 52 + d" and d: "d < 2 ^ 52" by (rule mag_splitE)
  define s m where "s = e - 1" and "m = 2 ^ 52 + d"
  have "e \<noteq> 0" using False e d by (cases e) simp_all
  then have k: "k = s * 2 ^ 52 + m" using e by (cases e) (simp_all add: s_def m_def)
  have m: "2 ^ 52 \<le> m" "m < 2 ^ 53" using d by (simp_all add: m_def)
  have "round_mag (mag_units k) 1 = round_mag (m * 2 ^ s) 1"
    using mag_units_shift [OF m, of s] k by simp
  also have "\<dots> = min k inf_mag" using round_mag_shift [OF m, of s] k by simp
  finally show ?thesis using assms by simp
qed

definition representable :: "nat \<Rightarrow> bool" where
  "representable x \<longleftrightarrow> x \<in> mag_units ` {..inf_mag}"

lemma representable_0 [simp]: "representable 0"
  unfolding representable_def by (rule image_eqI [of _ _ 0]) simp_all

lemma representable_shift:
  assumes "m \<le> 2 ^ 53" and "s \<le> 2045"
  shows "representable (m * 2 ^ s)"
  using assms
proof (induction s arbitrary: m)
  case 0
  show ?case
  proof (cases "m = 2 ^ 53")
    case True
    have "mag_units (1 * 2 ^ 52 + 2 ^ 52) = 2 ^ 52 * 2 ^ 1" by (rule mag_units_shift) simp_all
    then show ?thesis using True
      unfolding representable_def by (intro image_eqI [of _ _ "2 ^ 53"]) (simp_all add: inf_mag_def)
  next
    case False
    with 0 show ?thesis
      unfolding representable_def by (intro image_eqI [of _ _ m]) (simp_all add: mag_units_small inf_mag_def)
  qed
next
  case (Suc s)
  show ?case
  proof (cases "2 * m \<le> 2 ^ 53")
    case True
    with Suc.IH [of "2 * m"] Suc.prems show ?thesis by (simp add: mult.assoc mult.left_commute)
  next
    case False
    show ?thesis
    proof (cases "m = 2 ^ 53")
      case True
      have "mag_units (Suc (Suc s) * 2 ^ 52 + 2 ^ 52) = 2 ^ 52 * 2 ^ Suc (Suc s)"
        by (rule mag_units_shift) simp_all
      moreover have "Suc (Suc s) * 2 ^ 52 + 2 ^ 52 \<le> inf_mag" using Suc.prems by (simp add: inf_mag_def)
      ultimately show ?thesis using True unfolding representable_def
        by (intro image_eqI [of _ _ "Suc (Suc s) * 2 ^ 52 + 2 ^ 52"]) simp_all
    next
      case F: False
      have "mag_units (Suc s * 2 ^ 52 + m) = m * 2 ^ Suc s"
        using False F Suc.prems by (intro mag_units_shift) simp_all
      moreover have "Suc s * 2 ^ 52 + m \<le> inf_mag" using Suc.prems by (simp add: inf_mag_def)
      ultimately show ?thesis unfolding representable_def
        by (intro image_eqI [of _ _ "Suc s * 2 ^ 52 + m"]) simp_all
    qed
  qed
qed

lemma mag_units_round:
  assumes "representable x"
  shows "mag_units (round_mag x 1) = x" and "round_mag x 1 \<le> inf_mag"
  using assms by (auto simp: representable_def round_mag_units simp del: One_nat_def)

lemma round_mag_le: "round_mag num den \<le> inf_mag"
  by (simp add: round_mag_def Let_def)

lemma f64_round_mag [simp]: "f64_mag (f64_round s num den) = round_mag num den"
  unfolding f64_round_def using round_mag_le [of num den] inf_mag_less by (intro f64_mag_make) linarith

lemma f64_round_sign [simp]: "f64_sign (f64_round s num den) = s"
  unfolding f64_round_def using round_mag_le [of num den] inf_mag_less by (intro f64_sign_make) linarith

lemma f64_round_units:
  "representable x \<Longrightarrow> f64_units (f64_round s x 1) = (if s then - int x else int x)"
  by (simp add: f64_units_def mag_units_round del: One_nat_def)

lemma f64_round_not_nan [simp]: "\<not> is_nan (f64_round s num den)"
  using round_mag_le [of num den] by (simp add: is_nan_def)

subsection \<open>Truncation, floor and ceiling are exact\<close>

lemma mag_units_decompose:
  assumes "k < inf_mag"
  obtains m s where "mag_units k = m * 2 ^ s" and "m < 2 ^ 53" and "s \<le> 2045"
proof -
  obtain e d where k: "k = e * 2 ^ 52 + d" and d: "d < 2 ^ 52" by (rule mag_splitE)
  show ?thesis
  proof (cases e)
    case 0
    with k d show ?thesis by (intro that [of d 0]) (simp_all add: mag_units_small)
  next
    case (Suc s)
    have "s \<le> 2045" using assms Suc k by (simp add: inf_mag_def)
    moreover have "mag_units k = (2 ^ 52 + d) * 2 ^ s"
      using mag_units_split [OF d, of e] k Suc by simp
    ultimately show ?thesis using d by (intro that [of "2 ^ 52 + d" s]) simp_all
  qed
qed

lemma mult_power_div:
  assumes "s \<le> t"
  shows "m * 2 ^ s div 2 ^ t = m div (2 ^ (t - s) :: nat)"
proof -
  have "(2::nat) ^ t = 2 ^ s * 2 ^ (t - s)" using assms by (simp flip: power_add)
  then show ?thesis by (simp add: mult.commute [of m])
qed

lemma representable_whole:
  assumes "k < inf_mag"
  shows "representable (mag_units k div one_units * one_units)"
    and "mag_units k mod one_units \<noteq> 0 \<Longrightarrow> representable (Suc (mag_units k div one_units) * one_units)"
proof -
  obtain m s where x: "mag_units k = m * 2 ^ s" and m: "m < 2 ^ 53" and s: "s \<le> 2045"
    using assms by (rule mag_units_decompose)
  have whole: "one_units dvd mag_units k" if "1074 \<le> s"
    unfolding one_units_def x using that by (intro dvd_mult le_imp_power_dvd)
  have frac: "mag_units k div one_units = m div 2 ^ (1074 - s)" if "s < 1074"
    unfolding one_units_def x using that by (intro mult_power_div) simp
  show "representable (mag_units k div one_units * one_units)"
  proof (cases "s < 1074")
    case True
    have "m div 2 ^ (1074 - s) \<le> 2 ^ 53" using m div_le_dividend [of m "2 ^ (1074 - s)"] by linarith
    then show ?thesis unfolding frac [OF True] unfolding one_units_def
      by (rule representable_shift) simp
  next
    case False
    with x m s whole show ?thesis by (simp add: representable_shift)
  qed
  show "representable (Suc (mag_units k div one_units) * one_units)" if "mag_units k mod one_units \<noteq> 0"
  proof -
    have lt: "s < 1074" using whole that by (meson dvd_imp_mod_0 not_less)
    then obtain j where "1074 - s = Suc j" by (cases "1074 - s") simp_all
    then have "m div 2 ^ (1074 - s) \<le> m div 2" by (simp add: div_mult2_eq)
    then have "Suc (m div 2 ^ (1074 - s)) \<le> 2 ^ 53" using m by linarith
    then show ?thesis unfolding frac [OF lt] unfolding one_units_def
      by (rule representable_shift) simp
  qed
qed

lemma one_units_pos [simp]: "0 < one_units" "one_units \<noteq> 0"
  by (simp_all add: one_units_def)

lemma f64_units_trunc:
  assumes "is_finite f"
  shows "f64_units (f64_trunc f) = f64_int_part f * int one_units"
  using assms representable_whole(1) [of "f64_mag f"]
  by (simp add: f64_trunc_def is_finite_def f64_round_units f64_int_part_def del: One_nat_def)

lemma abs_minus_div:
  assumes "0 < d"
  shows "nat \<bar>(- int x) div int d\<bar> = (if x mod d = 0 then x div d else Suc (x div d))"
proof -
  have "(- int x) div int d = (if int x mod int d = 0 then - (int x div int d) else - (int x div int d) - 1)"
    using assms by (simp only: zdiv_zminus1_eq_if)
  also have "\<dots> = - int (if x mod d = 0 then x div d else Suc (x div d))"
    by (simp add: zdiv_int [symmetric] zmod_int [symmetric])
  finally show ?thesis by simp
qed

lemma representable_round_away:
  assumes "k < inf_mag"
  shows "representable (nat \<bar>(- int (mag_units k)) div int one_units\<bar> * one_units)"
  using representable_whole [OF assms] by (simp add: abs_minus_div del: mult_Suc)

lemma representable_round:
  assumes "is_finite f"
  shows "representable (nat \<bar>f64_units f div int one_units\<bar> * one_units)"
    and "representable (nat \<bar>(- f64_units f) div int one_units\<bar> * one_units)"
proof -
  define x where "x = mag_units (f64_mag f)"
  have "nat \<bar>int x div int one_units\<bar> = x div one_units" by (simp flip: zdiv_int)
  then have in_r: "representable (nat \<bar>int x div int one_units\<bar> * one_units)"
    using assms representable_whole(1) [of "f64_mag f"] by (simp add: x_def is_finite_def)
  have out_r: "representable (nat \<bar>(- int x) div int one_units\<bar> * one_units)"
    using assms representable_round_away [of "f64_mag f"] by (simp add: x_def is_finite_def)
  have u: "f64_units f = (if f64_sign f then - int x else int x)" by (simp add: f64_units_def x_def)
  show "representable (nat \<bar>f64_units f div int one_units\<bar> * one_units)"
    unfolding u using in_r out_r by presburger
  show "representable (nat \<bar>(- f64_units f) div int one_units\<bar> * one_units)"
    unfolding u using in_r out_r by (cases "f64_sign f") simp_all
qed

lemma f64_units_sign:
  "f64_sign f \<Longrightarrow> f64_units f \<le> 0"
  "\<not> f64_sign f \<Longrightarrow> 0 \<le> f64_units f"
  by (simp_all add: f64_units_def)

lemma f64_units_floor:
  assumes "is_finite f"
  shows "f64_units (f64_floor f) = f64_units f div int one_units * int one_units"
proof -
  let ?q = "f64_units f div int one_units"
  have "f64_units (f64_floor f) =
      (if f64_sign f then - int (nat \<bar>?q\<bar> * one_units) else int (nat \<bar>?q\<bar> * one_units))"
    using assms f64_round_units [OF representable_round(1) [OF assms]]
    by (simp only: f64_floor_def if_True)
  moreover have "f64_sign f \<Longrightarrow> ?q \<le> 0"
    using f64_units_sign(1) [of f] by (simp add: div_nonpos_pos_le0)
  moreover have "\<not> f64_sign f \<Longrightarrow> 0 \<le> ?q"
    using f64_units_sign(2) [of f] by (simp add: pos_imp_zdiv_nonneg_iff)
  ultimately show ?thesis by (cases "f64_sign f") simp_all
qed

lemma f64_units_ceil:
  assumes "is_finite f"
  shows "f64_units (f64_ceil f) = - ((- f64_units f) div int one_units) * int one_units"
proof -
  let ?q = "(- f64_units f) div int one_units"
  have "f64_units (f64_ceil f) =
      (if f64_sign f then - int (nat \<bar>?q\<bar> * one_units) else int (nat \<bar>?q\<bar> * one_units))"
    using assms f64_round_units [OF representable_round(2) [OF assms]]
    by (simp only: f64_ceil_def if_True)
  moreover have "f64_sign f \<Longrightarrow> 0 \<le> ?q"
    using f64_units_sign(1) [of f] by (simp add: pos_imp_zdiv_nonneg_iff)
  moreover have "\<not> f64_sign f \<Longrightarrow> ?q \<le> 0"
    using f64_units_sign(2) [of f] by (simp add: div_nonpos_pos_le0)
  ultimately show ?thesis by (cases "f64_sign f") simp_all
qed

subsection \<open>Integers as doubles\<close>

lemma f64_of_int_representable:
  assumes "representable (nat \<bar>i\<bar> * one_units)"
  shows "f64_units (f64_of_int i) = i * int one_units"
  unfolding f64_of_int_def f64_round_units [OF assms] by simp

lemma f64_of_int_exact:
  assumes "\<bar>i\<bar> \<le> 2 ^ 53"
  shows "f64_units (f64_of_int i) = i * int one_units"
proof (rule f64_of_int_representable)
  have "nat \<bar>i\<bar> \<le> 2 ^ 53" using assms by simp
  then show "representable (nat \<bar>i\<bar> * one_units)"
    unfolding one_units_def by (rule representable_shift) simp
qed

lemma f64_of_int_pow2:
  assumes "\<bar>i\<bar> = 2 ^ n" and "n \<le> 900"
  shows "f64_units (f64_of_int i) = i * int one_units"
proof (rule f64_of_int_representable)
  have "representable (1 * 2 ^ (n + 1074))" using assms(2) by (intro representable_shift) simp_all
  moreover have "nat \<bar>i\<bar> = 2 ^ n" using assms(1) by simp
  ultimately show "representable (nat \<bar>i\<bar> * one_units)"
    by (simp only: one_units_def power_add mult_1)
qed

lemma f64_of_int_not_nan [simp]: "\<not> is_nan (f64_of_int i)"
  by (simp add: f64_of_int_def)

definition inf_units :: int where
  "inf_units = int (mag_units inf_mag)"

lemma inf_mag_pos [simp]: "0 < inf_mag"
  by (simp add: inf_mag_def)

lemma inf_units_pos [simp]: "0 < inf_units" "inf_units \<noteq> 0"
  using mag_units_less_iff [of 0 inf_mag] by (simp_all add: inf_units_def)

lemma one_units_inf: "2 ^ 63 * int one_units < inf_units"
proof -
  have "2 ^ 63 * int one_units = 2 ^ 1137" by (simp only: one_units_def of_nat_power) simp
  also have "\<dots> < (2 ^ 2098 :: int)" by (rule power_strict_increasing) simp_all
  also have "\<dots> = inf_units" by (simp only: inf_units_def mag_units_inf of_nat_power) simp
  finally show ?thesis .
qed

lemma f64_units_infinite:
  "is_infinite f \<Longrightarrow> f64_units f = (if f64_sign f then - inf_units else inf_units)"
  by (simp add: f64_units_def is_infinite_def inf_units_def)

lemma f64_units_finite: "is_finite f \<longleftrightarrow> \<not> is_nan f \<and> \<bar>f64_units f\<bar> < inf_units"
proof -
  have "\<bar>f64_units f\<bar> < inf_units \<longleftrightarrow> f64_mag f < inf_mag"
    by (simp add: inf_units_def f64_units_def)
  then show ?thesis by (auto simp: is_finite_def is_nan_def)
qed

lemma f64_units_finite_bounds:
  "is_finite f \<Longrightarrow> f64_units f < inf_units" "is_finite f \<Longrightarrow> - inf_units < f64_units f"
  by (auto simp: f64_units_finite)

lemma f64_cases:
  obtains (nan) "is_nan f" | (inf) "is_infinite f" | (fin) "is_finite f"
  using linorder_less_linear by (metis is_finite_def is_infinite_def is_nan_def)

lemma f64_finite_not_nan [simp]: "is_finite f \<Longrightarrow> \<not> is_nan f"
  by (simp add: is_finite_def is_nan_def)

end
