(* ===== verification/Lua_Value.thy ===== *)
theory Lua_Value
  imports F64
begin

text \<open>
  The value model of \<open>rivetlua-core\<close>: \<open>value.rs\<close> (values, kinds, object identities and the
  process-wide identity counters), \<open>profile.rs\<close> (what the two language profiles enable) and
  \<open>error.rs\<close> (the checkable errors of the numeric core).
\<close>

subsection \<open>Language profiles\<close>

datatype lua_profile = Lua55 | Lua54

record profile_rules =
  global_declarations :: bool
  named_vararg :: bool
  readonly_for_control :: bool
  table_create :: bool

fun rules :: "lua_profile \<Rightarrow> profile_rules" where
  "rules Lua55 = \<lparr>global_declarations = True, named_vararg = True,
                  readonly_for_control = True, table_create = True\<rparr>"
| "rules Lua54 = \<lparr>global_declarations = False, named_vararg = False,
                  readonly_for_control = False, table_create = False\<rparr>"

subsection \<open>Identities\<close>

text \<open>
  \<open>fetch_update\<close> with \<open>checked_add(1)\<close>: the old value is handed out and the counter moves
  on, until the counter is at its maximum; then nothing is handed out any more.
  The second component is the counter afterwards.
\<close>

definition next_unique_id :: "u64 \<Rightarrow> u64 option \<times> u64" where
  "next_unique_id counter =
     (if counter = - 1 then (None, counter)
      else ((if counter = 0 then None else Some counter), counter + 1))"

record id_counters =
  next_opaque_id :: u64
  next_vm_id :: u64
  next_runtime_token :: u64
  next_host_function_id :: u64

definition initial_counters :: id_counters where
  "initial_counters = \<lparr>next_opaque_id = 1, next_vm_id = 1, next_runtime_token = 1,
                       next_host_function_id = 1\<rparr>"

datatype vm_id = VmId u64

record host_function_id =
  hf_vm :: vm_id
  hf_token :: u64

datatype generation = Generation u64

fun generation_next :: "generation \<Rightarrow> generation option" where
  "generation_next (Generation g) = (if g = - 1 then None else Some (Generation (g + 1)))"

record object_id =
  oi_vm :: vm_id
  oi_slot :: nat
  oi_generation :: generation

datatype object_ref = Opaque u64 | Heap object_id "u64 option"

definition vm_new_unique :: "id_counters \<Rightarrow> vm_id option \<times> id_counters" where
  "vm_new_unique c = (let (i, n) = next_unique_id (next_vm_id c)
                      in (map_option VmId i, c\<lparr>next_vm_id := n\<rparr>))"

definition host_function_new_unique ::
  "vm_id \<Rightarrow> id_counters \<Rightarrow> host_function_id option \<times> id_counters" where
  "host_function_new_unique vm c = (let (i, n) = next_unique_id (next_host_function_id c)
     in (map_option (\<lambda>t. \<lparr>hf_vm = vm, hf_token = t\<rparr>) i, c\<lparr>next_host_function_id := n\<rparr>))"

definition new_opaque :: "id_counters \<Rightarrow> object_ref option \<times> id_counters" where
  "new_opaque c = (let (i, n) = next_unique_id (next_opaque_id c)
                   in (map_option Opaque i, c\<lparr>next_opaque_id := n\<rparr>))"

definition from_id :: "object_id \<Rightarrow> object_ref" where
  "from_id oid = Heap oid None"

definition new_runtime :: "object_id \<Rightarrow> id_counters \<Rightarrow> object_ref option \<times> id_counters" where
  "new_runtime oid c = (let (t, n) = next_unique_id (next_runtime_token c)
                       in (map_option (\<lambda>t. Heap oid (Some t)) t, c\<lparr>next_runtime_token := n\<rparr>))"

fun identity :: "object_ref \<Rightarrow> object_id option" where
  "identity (Opaque _) = None"
| "identity (Heap oid _) = Some oid"

fun runtime_token :: "object_ref \<Rightarrow> u64 option" where
  "runtime_token (Heap _ token) = token"
| "runtime_token (Opaque _) = None"

subsection \<open>Values\<close>

datatype lua_value =
    V_Nil
  | V_Boolean bool
  | V_Integer i64
  | V_Float f64
  | V_LightUserdata nat
  | V_CFunction host_function_id
  | V_Object object_ref

datatype value_kind =
  K_Nil | K_Boolean | K_Integer | K_Float | K_LightUserdata | K_CFunction | K_Object

fun value_kind_of :: "lua_value \<Rightarrow> value_kind" where
  "value_kind_of V_Nil = K_Nil"
| "value_kind_of (V_Boolean _) = K_Boolean"
| "value_kind_of (V_Integer _) = K_Integer"
| "value_kind_of (V_Float _) = K_Float"
| "value_kind_of (V_LightUserdata _) = K_LightUserdata"
| "value_kind_of (V_CFunction _) = K_CFunction"
| "value_kind_of (V_Object _) = K_Object"

fun is_truthy :: "lua_value \<Rightarrow> bool" where
  "is_truthy V_Nil = False"
| "is_truthy (V_Boolean False) = False"
| "is_truthy _ = True"

definition select_and :: "lua_value \<Rightarrow> lua_value \<Rightarrow> lua_value" where
  "select_and left right = (if is_truthy left then right else left)"

definition select_or :: "lua_value \<Rightarrow> lua_value \<Rightarrow> lua_value" where
  "select_or left right = (if is_truthy left then left else right)"

subsection \<open>Errors of the numeric core\<close>

datatype num_operation =
    Op_FloorDivide | Op_Modulo | Op_BitAnd | Op_BitOr | Op_BitXor | Op_BitNot
  | Op_ShiftLeft | Op_ShiftRight | Op_ConvertToInteger | Op_ConvertToNumber

datatype core_error_kind = IntegerDivideByZero | IntegerModuloByZero | NotInteger | NotNumeric

record core_error =
  ce_operation :: num_operation
  ce_operand :: value_kind
  ce_kind :: core_error_kind

definition core_error_new :: "num_operation \<Rightarrow> value_kind \<Rightarrow> core_error_kind \<Rightarrow> core_error" where
  "core_error_new operation operand kind =
     \<lparr>ce_operation = operation, ce_operand = operand, ce_kind = kind\<rparr>"

subsection \<open>Properties\<close>

text \<open>Handing out \<open>n\<close> identities in a row, as \<open>n\<close> calls of \<open>next_unique_id\<close> on one counter.\<close>

fun draw_ids :: "nat \<Rightarrow> u64 \<Rightarrow> u64 option list" where
  "draw_ids 0 c = []"
| "draw_ids (Suc n) c = (let (i, c') = next_unique_id c in i # draw_ids n c')"

lemma unat_Suc_word: "(c :: u64) \<noteq> - 1 \<Longrightarrow> unat (c + 1) = Suc (unat c)"
  by (metis add.commute add_eq_0_iff unatSuc)

lemma draw_ids_bounds:
  "Some x \<in> set (draw_ids n c) \<Longrightarrow> unat c \<le> unat x \<and> x \<noteq> 0"
proof (induction n arbitrary: c)
  case (Suc n)
  then show ?case
    by (cases "c = - 1")
      (fastforce simp: next_unique_id_def Let_def unat_Suc_word split: if_splits)+
qed simp

lemma draw_ids_distinct:
  "\<lbrakk>i < j; j < n; draw_ids n c ! i = Some x; draw_ids n c ! j = Some y\<rbrakk> \<Longrightarrow> x \<noteq> y"
proof (induction n arbitrary: c i j)
  case (Suc n)
  show ?case
  proof (cases "c = - 1")
    case True
    have "draw_ids k (- 1) ! l = None" if "l < k" for k l
      using that by (induction k arbitrary: l) (auto simp: next_unique_id_def nth_Cons' Let_def)
    with True Suc.prems show ?thesis by (metis option.distinct(1) order.strict_trans)
  next
    case False
    define c' where "c' = c + 1"
    have step: "draw_ids (Suc n) c = (if c = 0 then None else Some c) # draw_ids n c'"
      using False by (simp add: next_unique_id_def c'_def)
    have len: "length (draw_ids n c') = n" by (induction n arbitrary: c') (auto simp: Let_def split: prod.split)
    show ?thesis
    proof (cases i)
      case 0
      with Suc.prems step have x: "x = c" by (simp split: if_splits)
      have "draw_ids n c' ! (j - 1) = Some y" and "j - 1 < n"
        using Suc.prems step 0 by (simp_all add: nth_Cons')
      then have "Some y \<in> set (draw_ids n c')" using len nth_mem by metis
      then have "unat c' \<le> unat y" by (simp add: draw_ids_bounds)
      then show ?thesis using x False by (auto simp: c'_def unat_Suc_word)
    next
      case (Suc i')
      with Suc.prems step Suc.IH [of i' "j - 1" c'] show ?thesis by (cases j) auto
    qed
  qed
qed simp

lemma select_and_or_operand:
  "select_and l r \<in> {l, r}" "select_or l r \<in> {l, r}"
  by (simp_all add: select_and_def select_or_def)

end
