(* ===== verification/Lua_Number.thy ===== *)
theory Lua_Number
  imports Lua_Value "HOL-Library.Signed_Division"
begin

text \<open>
  The numeric core of \<open>rivetlua-core\<close> (\<open>number.rs\<close>): the two number subtypes, arithmetic
  with wrap-around on integers, floor division and remainder, exact comparison across the
  subtypes, and the bitwise operations with their integer conversion.
  A 64-bit integer is a word read with \<open>sint\<close>; Rust's \<open>/\<close> and \<open>%\<close> truncate towards zero.
\<close>

unbundle bit_operations_syntax

datatype number = Num_Integer i64 | Num_Float f64

fun number_kind :: "number \<Rightarrow> value_kind" where
  "number_kind (Num_Integer _) = K_Integer"
| "number_kind (Num_Float _) = K_Float"

fun as_float :: "number \<Rightarrow> f64" where
  "as_float (Num_Integer v) = f64_of_int (sint v)"
| "as_float (Num_Float v) = v"

fun number_from_value :: "lua_value \<Rightarrow> (core_error, number) result" where
  "number_from_value (V_Integer n) = Inr (Num_Integer n)"
| "number_from_value (V_Float n) = Inr (Num_Float n)"
| "number_from_value other = Inl (core_error_new Op_ConvertToNumber (value_kind_of other) NotNumeric)"

fun add :: "number \<Rightarrow> number \<Rightarrow> number" where
  "add (Num_Integer l) (Num_Integer r) = Num_Integer (l + r)"
| "add l r = Num_Float (f64_add (as_float l) (as_float r))"

fun subtract :: "number \<Rightarrow> number \<Rightarrow> number" where
  "subtract (Num_Integer l) (Num_Integer r) = Num_Integer (l - r)"
| "subtract l r = Num_Float (f64_sub (as_float l) (as_float r))"

fun multiply :: "number \<Rightarrow> number \<Rightarrow> number" where
  "multiply (Num_Integer l) (Num_Integer r) = Num_Integer (l * r)"
| "multiply l r = Num_Float (f64_mul (as_float l) (as_float r))"

fun negate :: "number \<Rightarrow> number" where
  "negate (Num_Integer v) = Num_Integer (- v)"
| "negate (Num_Float v) = Num_Float (f64_neg v)"

definition divide_num :: "number \<Rightarrow> number \<Rightarrow> number" where
  "divide_num l r = Num_Float (f64_div (as_float l) (as_float r))"

text \<open>\<open>f64::powf\<close> is the platform's \<open>pow\<close>; it is a parameter.\<close>

definition power_num :: "(f64 \<Rightarrow> f64 \<Rightarrow> f64) \<Rightarrow> number \<Rightarrow> number \<Rightarrow> number" where
  "power_num powf l r = Num_Float (powf (as_float l) (as_float r))"

definition i64_min :: i64 where
  "i64_min = word_of_int (- (2 ^ 63))"

definition i64_quot :: "i64 \<Rightarrow> i64 \<Rightarrow> i64" where
  "i64_quot l r = word_of_int (sint l sdiv sint r)"

definition i64_rem :: "i64 \<Rightarrow> i64 \<Rightarrow> i64" where
  "i64_rem l r = word_of_int (sint l smod sint r)"

fun floor_divide :: "number \<Rightarrow> number \<Rightarrow> (core_error, number) result" where
  "floor_divide (Num_Integer l) (Num_Integer r) =
     (if r = 0 then Inl (core_error_new Op_FloorDivide K_Integer IntegerDivideByZero)
      else if l = i64_min \<and> r = - 1 then Inr (Num_Integer i64_min)
      else let q = i64_quot l r; m = i64_rem l r;
               q = (if m \<noteq> 0 \<and> (0 < sint m) \<noteq> (0 < sint r) then q - 1 else q)
           in Inr (Num_Integer q))"
| "floor_divide l r = Inr (Num_Float (f64_floor (f64_div (as_float l) (as_float r))))"

fun modulo_num :: "number \<Rightarrow> number \<Rightarrow> (core_error, number) result" where
  "modulo_num (Num_Integer l) (Num_Integer r) =
     (if r = 0 then Inl (core_error_new Op_Modulo K_Integer IntegerModuloByZero)
      else if l = i64_min \<and> r = - 1 then Inr (Num_Integer 0)
      else let m = i64_rem l r;
               m = (if m \<noteq> 0 \<and> (0 < sint m) \<noteq> (0 < sint r) then m + r else m)
           in Inr (Num_Integer m))"
| "modulo_num l r =
     (let q = f64_floor (f64_div (as_float l) (as_float r))
      in Inr (Num_Float (f64_sub (as_float l) (f64_mul q (as_float r)))))"

definition compare_integer_float :: "i64 \<Rightarrow> f64 \<Rightarrow> ordering option" where
  "compare_integer_float integer float =
     (if is_nan float then None
      else if f64_eq float (f64_inf False) then Some Ord_Less
      else if f64_eq float (f64_inf True) then Some Ord_Greater
      else if f64_lt float (f64_of_int (- (2 ^ 63))) then Some Ord_Greater
      else if f64_ge float (f64_of_int (2 ^ 63)) then Some Ord_Less
      else let truncated = f64_trunc float; converted = f64_to_i64 truncated
           in case cmp_int (sint integer) (sint converted) of
                Ord_Equal \<Rightarrow>
                  if f64_lt truncated float then Some Ord_Less
                  else if f64_lt float truncated then Some Ord_Greater
                  else Some Ord_Equal
              | o' \<Rightarrow> Some o')"

fun compare :: "number \<Rightarrow> number \<Rightarrow> ordering option" where
  "compare (Num_Integer l) (Num_Integer r) = Some (cmp_int (sint l) (sint r))"
| "compare (Num_Float l) (Num_Float r) = f64_cmp l r"
| "compare (Num_Integer i) (Num_Float f) = compare_integer_float i f"
| "compare (Num_Float f) (Num_Integer i) = map_option reverse_ordering (compare_integer_float i f)"

definition equal_num :: "number \<Rightarrow> number \<Rightarrow> bool" where
  "equal_num l r \<longleftrightarrow> compare l r = Some Ord_Equal"

fun to_integer :: "number \<Rightarrow> num_operation \<Rightarrow> (core_error, i64) result" where
  "to_integer (Num_Integer v) operation = Inr v"
| "to_integer (Num_Float v) operation =
     (if is_finite v \<and> f64_eq (f64_fract v) (f64_zero False)
         \<and> f64_ge v (f64_of_int (- (2 ^ 63))) \<and> f64_lt v (f64_of_int (2 ^ 63))
      then Inr (f64_to_i64 v)
      else Inl (core_error_new operation K_Float NotInteger))"

definition bit_and :: "number \<Rightarrow> number \<Rightarrow> (core_error, number) result" where
  "bit_and l r = rbind (to_integer l Op_BitAnd) (\<lambda>a.
     rbind (to_integer r Op_BitAnd) (\<lambda>b. Inr (Num_Integer (a AND b))))"

definition bit_or :: "number \<Rightarrow> number \<Rightarrow> (core_error, number) result" where
  "bit_or l r = rbind (to_integer l Op_BitOr) (\<lambda>a.
     rbind (to_integer r Op_BitOr) (\<lambda>b. Inr (Num_Integer (a OR b))))"

definition bit_xor :: "number \<Rightarrow> number \<Rightarrow> (core_error, number) result" where
  "bit_xor l r = rbind (to_integer l Op_BitXor) (\<lambda>a.
     rbind (to_integer r Op_BitXor) (\<lambda>b. Inr (Num_Integer (a XOR b))))"

definition bit_not :: "number \<Rightarrow> (core_error, number) result" where
  "bit_not v = rbind (to_integer v Op_BitNot) (\<lambda>a. Inr (Num_Integer (NOT a)))"

definition shift_num :: "number \<Rightarrow> number \<Rightarrow> num_operation \<Rightarrow> bool \<Rightarrow> (core_error, number) result" where
  "shift_num value shift operation left =
     rbind (to_integer value operation) (\<lambda>value.
     rbind (to_integer shift operation) (\<lambda>shift.
       let magnitude = nat \<bar>sint shift\<bar>
       in if 64 \<le> magnitude then Inr (Num_Integer 0)
          else Inr (Num_Integer (if (0 \<le> sint shift) = left then push_bit magnitude value
                                 else drop_bit magnitude value))))"

definition shift_left :: "number \<Rightarrow> number \<Rightarrow> (core_error, number) result" where
  "shift_left value amount = shift_num value amount Op_ShiftLeft True"

definition shift_right :: "number \<Rightarrow> number \<Rightarrow> (core_error, number) result" where
  "shift_right value amount = shift_num value amount Op_ShiftRight False"

subsection \<open>Signed words\<close>

lemma sint_i64_bounds: "- (2 ^ 63) \<le> sint (v :: i64)" "sint (v :: i64) < 2 ^ 63"
  using sint_range_size [of v] by (simp_all add: word_size)

lemma sint_word_of_int_i64:
  assumes "- (2 ^ 63) \<le> i" and "i < 2 ^ 63"
  shows "sint (word_of_int i :: i64) = i"
  using assms by (simp add: sint_sbintrunc' signed_take_bit_int_eq_self)

lemma word_of_int_sint [simp]: "word_of_int (sint w) = (w :: i64)"
  by simp

lemma sint_eq_iff: "sint a = sint b \<longleftrightarrow> a = (b :: i64)"
  by (metis word_of_int_sint)

lemma sint_i64_min [simp]: "sint i64_min = - (2 ^ 63)"
  unfolding i64_min_def by (rule sint_word_of_int_i64) simp_all

lemma sint_i64_eq_0 [simp]: "sint (v :: i64) = 0 \<longleftrightarrow> v = 0"
  using sint_eq_iff [of v 0] by simp

lemma int_floor_of_trunc:
  fixes k l :: int
  assumes "l \<noteq> 0"
  shows "k div l = (if k smod l \<noteq> 0 \<and> (0 < k smod l) \<noteq> (0 < l) then k sdiv l - 1 else k sdiv l)"
    and "k mod l = (if k smod l \<noteq> 0 \<and> (0 < k smod l) \<noteq> (0 < l) then k smod l + l else k smod l)"
proof -
  define q m where "q = k sdiv l" and "m = k smod l"
  have eq: "k = l * q + m" using mult_sdiv_smod_eq [of l k] by (simp add: q_def m_def)
  have bound: "\<bar>m\<bar> < \<bar>l\<bar>" using smod_int_range [OF assms, of k] by (auto simp: m_def)
  have adj: "k = l * (q - 1) + (m + l)" using eq by (simp add: algebra_simps)
  have d: "k div l = (if m \<noteq> 0 \<and> (0 < m) \<noteq> (0 < l) then q - 1 else q)"
  proof (cases "0 < l")
    case True
    then show ?thesis
      using int_div_pos_eq [OF eq] int_div_pos_eq [OF adj] bound by auto
  next
    case False
    with assms have "l < 0" by simp
    then show ?thesis
      using int_div_neg_eq [OF eq] int_div_neg_eq [OF adj] bound by auto
  qed
  then show "k div l = (if k smod l \<noteq> 0 \<and> (0 < k smod l) \<noteq> (0 < l) then k sdiv l - 1 else k sdiv l)"
    by (simp only: q_def m_def)
  have "k mod l = (if m \<noteq> 0 \<and> (0 < m) \<noteq> (0 < l) then m + l else m)"
    using eq mult_div_mod_eq [of l k] unfolding d by (auto simp: right_diff_distrib)
  then show "k mod l = (if k smod l \<noteq> 0 \<and> (0 < k smod l) \<noteq> (0 < l) then k smod l + l else k smod l)"
    by (simp only: m_def)
qed

lemma sint_i64_rem:
  assumes "r \<noteq> 0"
  shows "sint (i64_rem l r) = sint l smod sint r"
proof -
  have "sint r \<noteq> 0" using assms by simp
  then have "\<bar>sint l smod sint r\<bar> < \<bar>sint r\<bar>" using smod_int_range [of "sint r" "sint l"] by auto
  then show ?thesis
    unfolding i64_rem_def using sint_i64_bounds [of r] by (intro sint_word_of_int_i64) auto
qed

lemma sint_floor_quotient:
  assumes "sint (r :: i64) \<noteq> 0"
  shows "(- (2 ^ 63) \<le> sint l div sint r \<and> sint l div sint r < 2 ^ 63) \<or> (l = i64_min \<and> r = - 1)"
proof -
  have bound: "- (2 ^ 63) \<le> k div d \<and> (k div d < 2 ^ 63 \<or> d = 1 \<and> k = 2 ^ 63)"
    if "1 \<le> d" "- (2 ^ 63) \<le> k" "k \<le> 2 ^ 63" for k d :: int
  proof -
    have "(2 ^ 63 :: int) \<le> 2 ^ 63 * d" using that(1) by simp
    then have "- (2 ^ 63) * d \<le> k" using that(2) by simp
    moreover have "2 ^ 63 * d \<le> k \<Longrightarrow> d = 1 \<and> k = 2 ^ 63" using that by simp
    ultimately show ?thesis
      using that(1) le_div_int_iff [of d "- (2 ^ 63)" k] le_div_int_iff [of d "2 ^ 63" k] by linarith
  qed
  show ?thesis
  proof (cases "0 < sint r")
    case True
    then show ?thesis using bound [of "sint r" "sint l"] sint_i64_bounds [of l] by linarith
  next
    case False
    have "sint l div sint r = - sint l div - sint r" by simp
    moreover have "l = i64_min \<and> r = - 1" if "- sint r = 1" "- sint l = 2 ^ 63"
      using that sint_eq_iff [of r "- 1"] sint_eq_iff [of l i64_min] by simp
    ultimately show ?thesis
      using False assms bound [of "- sint r" "- sint l"] sint_i64_bounds [of l] by linarith
  qed
qed

lemma floor_divide_integers:
  assumes "r \<noteq> 0"
  shows "floor_divide (Num_Integer l) (Num_Integer r) =
           Inr (Num_Integer (word_of_int (sint l div sint r)))"
proof (cases "l = i64_min \<and> r = - 1")
  case True
  then have "sint l div sint r = 2 ^ 63" by simp
  moreover have "word_of_int (2 ^ 63) = i64_min" by (simp add: i64_min_def)
  ultimately show ?thesis using True by simp
next
  case False
  have r: "sint r \<noteq> 0" using assms by simp
  have m: "i64_rem l r = 0 \<longleftrightarrow> sint l smod sint r = 0"
    using sint_i64_rem [OF assms, of l] by (metis sint_i64_eq_0)
  have step: "floor_divide (Num_Integer l) (Num_Integer r) = Inr (Num_Integer
      (if i64_rem l r \<noteq> 0 \<and> (0 < sint (i64_rem l r)) \<noteq> (0 < sint r) then i64_quot l r - 1 else i64_quot l r))"
    unfolding floor_divide.simps if_not_P [OF assms] if_not_P [OF False] Let_def ..
  show ?thesis
    unfolding int_floor_of_trunc(1) [OF r, of "sint l"] step m sint_i64_rem [OF assms]
    by (simp add: i64_quot_def wi_hom_sub [symmetric])
qed

lemma modulo_integers:
  assumes "r \<noteq> 0"
  shows "modulo_num (Num_Integer l) (Num_Integer r) =
           Inr (Num_Integer (word_of_int (sint l mod sint r)))"
proof (cases "l = i64_min \<and> r = - 1")
  case True
  then show ?thesis by simp
next
  case False
  have r: "sint r \<noteq> 0" using assms by simp
  have m: "i64_rem l r = 0 \<longleftrightarrow> sint l smod sint r = 0"
    using sint_i64_rem [OF assms, of l] by (metis sint_i64_eq_0)
  have step: "modulo_num (Num_Integer l) (Num_Integer r) = Inr (Num_Integer
      (if i64_rem l r \<noteq> 0 \<and> (0 < sint (i64_rem l r)) \<noteq> (0 < sint r) then i64_rem l r + r else i64_rem l r))"
    unfolding modulo_num.simps if_not_P [OF assms] if_not_P [OF False] Let_def ..
  show ?thesis
    unfolding int_floor_of_trunc(2) [OF r, of "sint l"] step m sint_i64_rem [OF assms]
    by (simp add: i64_rem_def wi_hom_add [symmetric])
qed

subsection \<open>Comparison across the subtypes\<close>

lemma sdiv_bounds:
  fixes u d :: int
  assumes "0 < d"
  shows "(u sdiv d - 1) * d < u" and "u < (u sdiv d + 1) * d"
  using sdiv_mult_smod_eq [of u d] smod_int_range [of d u] assms by (auto simp: algebra_simps)

lemma f64_int_part_sdiv: "f64_int_part f = f64_units f sdiv int one_units"
  by (simp add: f64_int_part_def f64_units_def signed_divide_int_def sgn_if flip: zdiv_int)

lemma abs_sdiv_mult_le: "\<bar>u sdiv d * d\<bar> \<le> \<bar>u :: int\<bar>"
  by (simp add: signed_divide_int_def abs_mult abs_sgn_eq minus_mod_eq_div_mult [symmetric]
      pos_imp_zdiv_nonneg_iff)

lemma f64_trunc_finite:
  assumes "is_finite f"
  shows "is_finite (f64_trunc f)"
proof -
  have "\<bar>f64_units (f64_trunc f)\<bar> \<le> \<bar>f64_units f\<bar>"
    unfolding f64_units_trunc [OF assms] f64_int_part_sdiv by (rule abs_sdiv_mult_le)
  also have "\<dots> < inf_units" using assms by (simp add: f64_units_finite)
  finally have "\<bar>f64_units (f64_trunc f)\<bar> < inf_units" .
  moreover have "\<not> is_nan (f64_trunc f)" using assms by (simp add: f64_trunc_def)
  ultimately show ?thesis by (simp add: f64_units_finite)
qed

interpretation float_cmp: exact_comparison f64_cmp "\<lambda>f. \<not> is_nan f" f64_units
  by unfold_locales (auto simp: f64_cmp_def)

lemma f64_units_zero [simp]: "f64_units (f64_zero b) = 0" "\<not> is_nan (f64_zero b)"
  by (simp_all add: f64_zero_def f64_units_def is_nan_def)

lemma f64_cmp_not_nan:
  assumes "\<not> is_nan a" and "\<not> is_nan b"
  shows "f64_eq a b \<longleftrightarrow> f64_units a = f64_units b"
    and "f64_lt a b \<longleftrightarrow> f64_units a < f64_units b"
    and "f64_ge a b \<longleftrightarrow> f64_units b \<le> f64_units a"
  using assms by (auto simp: f64_eq_def f64_lt_def f64_ge_def float_cmp.cmp_valid)

lemma f64_inf_simps [simp]:
  "is_infinite (f64_inf s)" "\<not> is_nan (f64_inf s)" "f64_sign (f64_inf s) = s"
  using inf_mag_less by (simp_all add: f64_inf_def is_infinite_def is_nan_def)

lemma f64_units_inf: "f64_units (f64_inf s) = (if s then - inf_units else inf_units)"
  using f64_units_infinite [of "f64_inf s"] by (simp only: f64_inf_simps)

lemma f64_units_i64_limits:
  "f64_units (f64_of_int (- (2 ^ 63))) = - (2 ^ 63) * int one_units"
  "f64_units (f64_of_int (2 ^ 63)) = 2 ^ 63 * int one_units"
  by (rule f64_of_int_pow2 [of _ 63]; simp)+

lemma i64_units_bounds: "- inf_units < sint (i :: i64) * int one_units"
    "sint (i :: i64) * int one_units < inf_units"
proof -
  have "\<bar>sint i\<bar> \<le> 2 ^ 63" using sint_i64_bounds [of i] by linarith
  then have "\<bar>sint i * int one_units\<bar> \<le> 2 ^ 63 * int one_units"
    unfolding abs_mult by (intro mult_mono) simp_all
  then show "- inf_units < sint i * int one_units" "sint i * int one_units < inf_units"
    using one_units_inf by linarith+
qed

lemma f64_to_i64_trunc:
  assumes "is_finite f" and "- (2 ^ 63) * int one_units \<le> f64_units f"
    and "f64_units f < 2 ^ 63 * int one_units"
  shows "sint (f64_to_i64 f) = f64_units f sdiv int one_units"
proof -
  define u d q where "u = f64_units f" and "d = int one_units" and "q = u sdiv d"
  have d: "0 < d" by (simp add: d_def)
  have lo: "- (2 ^ 63) * d \<le> u" and hi: "u < 2 ^ 63 * d" using assms(2,3) by (simp_all only: u_def d_def)
  have "(q - 1) * d < 2 ^ 63 * d" using sdiv_bounds(1) [OF d, of u] hi unfolding q_def by linarith
  then have "q - 1 < 2 ^ 63" using d by (simp only: mult_less_cancel_right_pos)
  moreover have "q \<noteq> 2 ^ 63"
  proof
    assume q: "q = 2 ^ 63"
    then have "0 < u" using d pos_imp_zdiv_nonneg_iff [of d "- u"]
      by (auto simp: q_def signed_divide_int_def sgn_if split: if_splits)
    then have "q * d \<le> u" using d
      by (simp add: q_def signed_divide_int_def minus_mod_eq_div_mult [symmetric])
    then show False using q hi by simp
  qed
  ultimately have "q < 2 ^ 63" by linarith
  have "- (2 ^ 63) * d < (q + 1) * d" using sdiv_bounds(2) [OF d, of u] lo unfolding q_def by linarith
  then have "- (2 ^ 63) < q + 1" using d by (simp only: mult_less_cancel_right_pos)
  then have "- (2 ^ 63) \<le> q" by linarith
  moreover have "f64_to_i64 f = word_of_int (max (- (2 ^ 63)) (min (2 ^ 63 - 1) q))"
    using assms(1) by (simp only: f64_to_i64_def f64_finite_not_nan if_False f64_int_part_sdiv q_def u_def d_def)
  ultimately have "f64_to_i64 f = word_of_int q" using \<open>q < 2 ^ 63\<close> by simp
  then show ?thesis
    using sint_word_of_int_i64 [of q] \<open>q < 2 ^ 63\<close> \<open>- (2 ^ 63) \<le> q\<close> by (simp add: q_def u_def d_def)
qed

lemma compare_integer_float_exact:
  assumes "\<not> is_nan f"
  shows "compare_integer_float i f = Some (cmp_int (sint i * int one_units) (f64_units f))"
proof (cases f rule: f64_cases)
  case nan
  with assms show ?thesis by simp
next
  case inf
  then have u: "f64_units f = (if f64_sign f then - inf_units else inf_units)"
    by (rule f64_units_infinite)
  have b: "- inf_units < sint i * int one_units" "sint i * int one_units < inf_units"
    by (rule i64_units_bounds)+
  have "f64_eq f (f64_inf False) \<longleftrightarrow> \<not> f64_sign f" "f64_eq f (f64_inf True) \<longleftrightarrow> f64_sign f"
    unfolding f64_cmp_not_nan(1) [OF assms f64_inf_simps(2)] f64_units_inf u by simp_all
  then show ?thesis
    using assms b unfolding compare_integer_float_def u by (simp add: cmp_int_def)
next
  case fin
  let ?O = "int one_units" and ?u = "f64_units f"
  have ninf: "\<not> f64_eq f (f64_inf s)" for s
    unfolding f64_cmp_not_nan(1) [OF assms f64_inf_simps(2)] f64_units_inf
    using f64_units_finite_bounds [OF fin] by auto
  have lo: "f64_lt f (f64_of_int (- (2 ^ 63))) \<longleftrightarrow> ?u < - (2 ^ 63) * ?O"
    unfolding f64_cmp_not_nan(2) [OF assms f64_of_int_not_nan] f64_units_i64_limits ..
  have hi: "f64_ge f (f64_of_int (2 ^ 63)) \<longleftrightarrow> 2 ^ 63 * ?O \<le> ?u"
    unfolding f64_cmp_not_nan(3) [OF assms f64_of_int_not_nan] f64_units_i64_limits ..
  have ib: "- (2 ^ 63) * ?O \<le> sint i * ?O" "sint i * ?O < 2 ^ 63 * ?O"
    by (rule mult_right_mono mult_strict_right_mono; simp add: sint_i64_bounds [simplified])+
  consider (low) "?u < - (2 ^ 63) * ?O" | (high) "2 ^ 63 * ?O \<le> ?u"
    | (mid) "- (2 ^ 63) * ?O \<le> ?u" "?u < 2 ^ 63 * ?O" by linarith
  then show ?thesis
  proof cases
    case low
    then have "?u < sint i * ?O" using ib(1) by (rule order.strict_trans2)
    with low assms ninf lo show ?thesis by (simp add: compare_integer_float_def cmp_int_def)
  next
    case high
    have "sint i * ?O < ?u" using ib(2) high by (rule order.strict_trans2)
    moreover have "\<not> ?u < - (2 ^ 63) * ?O" using high ib by linarith
    ultimately show ?thesis
      using high assms ninf lo hi by (simp add: compare_integer_float_def cmp_int_def)
  next
    case mid
    define q where "q = ?u sdiv ?O"
    have t: "f64_units (f64_trunc f) = q * ?O"
      using fin by (simp add: f64_units_trunc f64_int_part_sdiv q_def)
    have tf: "is_finite (f64_trunc f)" using fin by (rule f64_trunc_finite)
    have qb: "(q - 1) * ?O < ?u" "?u < (q + 1) * ?O"
      unfolding q_def by (rule sdiv_bounds, simp)+
    have conv: "sint (f64_to_i64 (f64_trunc f)) = q"
    proof -
      have "sint (f64_to_i64 f) = q" unfolding q_def by (rule f64_to_i64_trunc [OF fin mid])
      then have "- (2 ^ 63) \<le> q" "q < 2 ^ 63" using sint_i64_bounds [of "f64_to_i64 f"] by simp_all
      then have "- (2 ^ 63) * ?O \<le> q * ?O" "q * ?O < 2 ^ 63 * ?O"
        by (simp_all only: mult_le_cancel_right_pos mult_less_cancel_right_pos of_nat_0_less_iff one_units_pos(1))
      then have "sint (f64_to_i64 (f64_trunc f)) = (q * ?O) sdiv ?O"
        using f64_to_i64_trunc [OF tf] by (simp only: t)
      then show ?thesis by (simp add: signed_divide_int_def abs_mult sgn_mult sgn_mult_abs)
    qed
    have "compare_integer_float i f = (case cmp_int (sint i) q of
        Ord_Equal \<Rightarrow> if q * ?O < ?u then Some Ord_Less else if ?u < q * ?O then Some Ord_Greater
          else Some Ord_Equal
      | o' \<Rightarrow> Some o')"
      using assms ninf lo hi mid tf unfolding compare_integer_float_def Let_def conv
      by (simp add: f64_cmp_not_nan t)
    moreover have "sint i * ?O < ?u" if "sint i < q"
      by (rule order.strict_trans1 [OF mult_right_mono qb(1)]) (use that in simp_all)
    moreover have "?u < sint i * ?O" if "q < sint i"
      by (rule order.strict_trans2 [OF qb(2) mult_right_mono]) (use that in simp_all)
    ultimately show ?thesis
      by (cases "sint i" q rule: linorder_cases) (simp_all add: cmp_int_def)
  qed
qed

subsection \<open>Conversion to integers\<close>

lemma round_mag_pos:
  assumes "0 < x"
  shows "0 < round_mag x 1"
proof -
  have "2 ^ (bit_width x - 53) \<le> x"
    by (rule order.trans [OF power_increasing [of _ "bit_width x - 1"] bit_width_lower])
      (use assms in simp_all)
  then have "0 < x div 2 ^ (bit_width x - 53)" by (simp add: div_greater_zero_iff)
  then show ?thesis by (simp add: round_mag_def Let_def)
qed

lemma f64_fract_zero:
  assumes "is_finite v"
  shows "f64_eq (f64_fract v) (f64_zero False) \<longleftrightarrow> f64_units v = f64_int_part v * int one_units"
proof -
  have tf: "is_finite (f64_trunc v)" using assms by (rule f64_trunc_finite)
  let ?n = "f64_neg (f64_trunc v)"
  have mag: "f64_mag (f64_trunc v) < 2 ^ 63" using tf inf_mag_less by (simp add: is_finite_def)
  then have neg: "f64_mag ?n = f64_mag (f64_trunc v)" "f64_sign ?n = (\<not> f64_sign (f64_trunc v))"
    by (simp_all add: f64_neg_def)
  then have un: "f64_units ?n = - (f64_int_part v * int one_units)" and nf: "is_finite ?n"
    using f64_units_trunc [OF assms] tf by (auto simp: f64_units_def is_finite_def)
  define s where "s = f64_units v + f64_units ?n"
  have fin: "\<not> is_infinite v" "\<not> is_infinite ?n" using assms nf by (simp_all add: is_infinite_def is_finite_def)
  have sum: "f64_fract v = (if s = 0 then f64_zero (f64_sign v \<and> f64_sign ?n)
      else f64_round (s < 0) (nat \<bar>s\<bar>) 1)"
    using assms nf fin by (simp add: f64_fract_def f64_sub_def f64_add_def Let_def s_def)
  have "f64_units (f64_fract v) = 0 \<longleftrightarrow> s = 0"
  proof (cases "s = 0")
    case False
    with round_mag_pos [of "nat \<bar>s\<bar>"] show ?thesis
      unfolding sum if_not_P [OF False] f64_units_def f64_round_mag
      by (cases "s < 0") (simp_all del: One_nat_def)
  qed (simp add: sum)
  moreover have "\<not> is_nan (f64_fract v)" unfolding sum by simp
  ultimately show ?thesis using f64_cmp_not_nan(1) [of "f64_fract v" "f64_zero False"] un
    by (simp add: s_def)
qed

lemma to_integer_float_exact:
  "to_integer (Num_Float v) op = Inr n \<longleftrightarrow> is_finite v \<and> f64_units v = sint n * int one_units"
proof (cases "is_finite v")
  case True
  let ?O = "int one_units"
  have lo: "f64_ge v (f64_of_int (- (2 ^ 63))) \<longleftrightarrow> - (2 ^ 63) * ?O \<le> f64_units v"
    unfolding f64_cmp_not_nan(3) [OF f64_finite_not_nan [OF True] f64_of_int_not_nan] f64_units_i64_limits ..
  have hi: "f64_lt v (f64_of_int (2 ^ 63)) \<longleftrightarrow> f64_units v < 2 ^ 63 * ?O"
    unfolding f64_cmp_not_nan(2) [OF f64_finite_not_nan [OF True] f64_of_int_not_nan] f64_units_i64_limits ..
  have eq: "to_integer (Num_Float v) op = Inr n \<longleftrightarrow>
      f64_units v = f64_int_part v * ?O \<and> - (2 ^ 63) * ?O \<le> f64_units v \<and> f64_units v < 2 ^ 63 * ?O
      \<and> f64_to_i64 v = n"
    unfolding to_integer.simps lo hi f64_fract_zero [OF True] using True by auto
  show ?thesis
  proof
    assume "to_integer (Num_Float v) op = Inr n"
    with eq f64_to_i64_trunc [OF True] show "is_finite v \<and> f64_units v = sint n * ?O"
      by (auto simp: True f64_int_part_sdiv)
  next
    assume a: "is_finite v \<and> f64_units v = sint n * ?O"
    have ib: "- (2 ^ 63) * ?O \<le> sint n * ?O" "sint n * ?O < 2 ^ 63 * ?O"
      by (rule mult_right_mono mult_strict_right_mono; simp add: sint_i64_bounds [simplified])+
    have q: "f64_units v sdiv ?O = sint n" using a by (simp add: signed_divide_int_def abs_mult sgn_mult sgn_mult_abs)
    moreover have "sint (f64_to_i64 v) = sint n" using f64_to_i64_trunc [OF True] a ib q by simp
    ultimately show "to_integer (Num_Float v) op = Inr n"
      using eq a ib by (simp add: f64_int_part_sdiv sint_eq_iff)
  qed
next
  case False
  then show ?thesis by simp
qed

lemma shift_integers:
  fixes v n :: i64
  defines "up \<equiv> \<lambda>k. word_of_int (uint v * 2 ^ k) :: i64" and "down \<equiv> \<lambda>k. word_of_int (uint v div 2 ^ k) :: i64"
  shows "shift_num (Num_Integer v) (Num_Integer n) op left = Inr (Num_Integer
     (if (0 \<le> sint n) = left then up (nat \<bar>sint n\<bar>) else down (nat \<bar>sint n\<bar>)))"
proof -
  have push: "push_bit k v = up k" for k
    unfolding up_def push_bit_eq_mult by (simp add: wi_hom_mult [symmetric])
  have drop: "drop_bit k v = down k" for k
    unfolding down_def by (rule bit_word_eqI) (simp add: bit_simps drop_bit_eq_div [symmetric])
  have "up k = 0" "down k = 0" if "64 \<le> k" for k
    using that by (auto intro!: bit_word_eqI simp: bit_simps simp flip: push drop)
  then show ?thesis by (simp add: shift_num_def push drop Let_def)
qed

subsection \<open>What the numeric core guarantees\<close>

text \<open>The exact value of a number, in units of the smallest positive double.\<close>

fun num_units :: "number \<Rightarrow> int" where
  "num_units (Num_Integer v) = sint v * int one_units"
| "num_units (Num_Float v) = f64_units v"

fun number_nan :: "number \<Rightarrow> bool" where
  "number_nan (Num_Integer _) = False"
| "number_nan (Num_Float v) = is_nan v"

interpretation number_cmp: exact_comparison compare "\<lambda>n. \<not> number_nan n" num_units
proof unfold_locales
  fix a b :: number
  show "compare a b = Some (cmp_int (num_units a) (num_units b))" if "\<not> number_nan a" "\<not> number_nan b"
    using that by (cases a; cases b)
      (auto simp: compare_integer_float_exact cmp_int_reverse float_cmp.cmp_valid cmp_int_def)
  show "compare a b = None" if "\<not> (\<not> number_nan a \<and> \<not> number_nan b)"
    using that by (cases a; cases b) (auto simp: f64_cmp_def compare_integer_float_def)
qed

text \<open>
  C15: Comparing two numbers of any subtypes is undefined exactly when one of them is NaN, and
  otherwise is the order of their exact values: no integer loses precision on the way.
\<close>

theorem compare_exact:
  "compare l r = (if number_nan l \<or> number_nan r then None
                  else Some (cmp_int (num_units l) (num_units r)))"
  by (simp add: number_cmp.cmp_eq)

text \<open>
  C18: The order is transitive through mixed subtypes: less than followed by at most is less
  than, and swapping the operands reverses the answer.
\<close>

theorem compare_transitive:
  assumes "compare a b = Some Ord_Less" and "compare b c \<in> {Some Ord_Less, Some Ord_Equal}"
  shows "compare a c = Some Ord_Less \<and> compare c a = Some Ord_Greater"
  using number_cmp.cmp_less_trans [OF assms] by (simp add: number_cmp.cmp_flip [of c a])

lemma compare_transitive_witness:
  "compare (Num_Integer 1) (Num_Integer 3) = Some Ord_Less
   \<and> compare (Num_Integer 3) (Num_Integer 1) = Some Ord_Greater"
  by (rule compare_transitive [of _ "Num_Integer 2"]) (simp_all add: cmp_int_def)

text \<open>
  C19: Integer floor division and remainder are the mathematical ones for every divisor but zero,
  with \<open>l = q * r + m\<close> on 64-bit integers even where the quotient wraps around (the least integer
  by -1), and a zero divisor is reported as its own error.
\<close>

theorem floor_divide_modulo_integers:
  fixes l r :: i64
  shows "if r = 0
     then floor_divide (Num_Integer l) (Num_Integer r) = Inl (core_error_new Op_FloorDivide K_Integer IntegerDivideByZero)
       \<and> modulo_num (Num_Integer l) (Num_Integer r) = Inl (core_error_new Op_Modulo K_Integer IntegerModuloByZero)
     else \<exists>q m. floor_divide (Num_Integer l) (Num_Integer r) = Inr (Num_Integer q)
       \<and> modulo_num (Num_Integer l) (Num_Integer r) = Inr (Num_Integer m)
       \<and> l = q * r + m \<and> sint m = sint l mod sint r
       \<and> (l = i64_min \<and> r = - 1 \<or> sint q = sint l div sint r)"
proof (cases "r = 0")
  case False
  let ?q = "word_of_int (sint l div sint r) :: i64" and ?m = "word_of_int (sint l mod sint r) :: i64"
  have r: "sint r \<noteq> 0" using False by simp
  have "?q * r + ?m = word_of_int (sint l div sint r * sint r + sint l mod sint r)"
    by (simp only: wi_hom_mult [symmetric] wi_hom_add [symmetric] word_of_int_sint)
  then have eq: "l = ?q * r + ?m" by simp
  have "\<bar>sint l mod sint r\<bar> < \<bar>sint r\<bar>" using r by (rule abs_mod_less)
  then have m: "sint ?m = sint l mod sint r"
    using sint_i64_bounds [of r] by (intro sint_word_of_int_i64) linarith+
  have q: "sint ?q = sint l div sint r" if "\<not> (l = i64_min \<and> r = - 1)"
    using sint_floor_quotient [OF r] that by (intro sint_word_of_int_i64) auto
  show ?thesis
    unfolding if_not_P [OF False] floor_divide_integers [OF False] modulo_integers [OF False]
    using eq m q by blast
qed simp

text \<open>
  C20: A float converts to an integer exactly when it is finite and has an integral value in the
  range of 64-bit integers; the integer then has that very value. Integers convert to themselves.
\<close>

theorem to_integer_exact:
  "to_integer n op = Inr i \<longleftrightarrow> num_units n = num_units (Num_Integer i) \<and> \<not> number_nan n"
proof (cases n)
  case (Num_Float v)
  have "\<bar>sint i * int one_units\<bar> < inf_units" using i64_units_bounds [of i] by linarith
  then show ?thesis unfolding Num_Float to_integer_float_exact by (auto simp: f64_units_finite)
qed (auto simp: sint_eq_iff)

text \<open>
  C21: Shifting a 64-bit integer left by \<open>n\<close> multiplies its unsigned value by \<open>2 ^ n\<close> modulo
  \<open>2 ^ 64\<close>, shifting right divides it (a logical shift), a negative amount shifts the
  other way, and amounts of 64 or more give zero, for every 64-bit amount.
\<close>

theorem shift_exact:
  fixes v n :: i64
  defines "up \<equiv> \<lambda>k. Num_Integer (word_of_int (uint v * 2 ^ k))"
    and "down \<equiv> \<lambda>k. Num_Integer (word_of_int (uint v div 2 ^ k))"
  shows "shift_left (Num_Integer v) (Num_Integer n) =
           Inr (if 0 \<le> sint n then up (nat (sint n)) else down (nat (- sint n)))
       \<and> shift_right (Num_Integer v) (Num_Integer n) =
           Inr (if 0 \<le> sint n then down (nat (sint n)) else up (nat (- sint n)))"
  by (simp add: shift_left_def shift_right_def shift_integers up_def down_def)

text \<open>
  C40: The float remainder is computed as \<open>l - floor (l / r) * r\<close>. With an infinite divisor the
  quotient is a zero and the product of that zero with infinity is NaN, so the remainder of a finite
  positive number by infinity is NaN, not the number itself.
\<close>

theorem modulo_infinite_divisor:
  assumes "is_finite (as_float l)"
  shows "modulo_num l (Num_Float (f64_inf False)) = Inr (Num_Float f64_nan)"
proof -
  have zm: "f64_mag (f64_zero s) = 0" "is_finite (f64_zero s)" for s
    by (simp_all add: f64_zero_def is_finite_def)
  have nf: "\<not> is_infinite (as_float l)" "\<not> is_nan (as_float l)"
    using assms by (simp_all add: is_infinite_def is_finite_def)
  then have "f64_div (as_float l) (f64_inf False) = f64_zero (f64_sign (as_float l))"
    by (simp add: f64_div_def)
  moreover have "f64_mag (f64_floor (f64_zero s)) = 0" for s
    using zm(2) by (simp add: f64_floor_def round_mag_def)
  then have "f64_mul (f64_floor (f64_zero s)) (f64_inf False) = f64_nan" for s
    by (simp add: f64_mul_def Let_def)
  moreover have "is_nan (f64_neg f64_nan)"
    by (simp add: f64_neg_def f64_nan_def is_nan_def inf_mag_def)
  ultimately show ?thesis by (cases l) (simp_all add: f64_sub_def f64_add_def)
qed

lemma modulo_infinite_divisor_witness:
  "is_finite (as_float (Num_Integer 1))
   \<and> modulo_num (Num_Integer 1) (Num_Float (f64_inf False)) = Inr (Num_Float f64_nan)"
proof -
  have "f64_units (f64_of_int 1) = int one_units" using f64_of_int_exact [of 1] by simp
  moreover have "int one_units < inf_units" using one_units_inf by simp
  ultimately have "is_finite (f64_of_int 1)" by (simp add: f64_units_finite)
  then have "is_finite (as_float (Num_Integer 1))" by simp
  then show ?thesis using modulo_infinite_divisor [of "Num_Integer 1"] by blast
qed

end
