(* ===== verification/Numeric_For.thy ===== *)
theory Numeric_For
  imports Lua_Number
begin

text \<open>
  The numeric \<open>for\<close> loop of the virtual machine (\<open>vm/numeric_for.rs\<close>): preparing the control
  state from the three operands and advancing it once per iteration. The error kinds are those of
  \<open>RuntimeErrorKind\<close> that these transitions raise.
\<close>

datatype for_error = For_Core core_error | NumericForZeroStep | InvalidNumericForState

datatype prepared = Skip | Enter lua_value lua_value lua_value lua_value

datatype advanced = Exit | Advance lua_value lua_value

text \<open>\<open>?\<close> on a core error converts it with \<open>From<CoreError> for RuntimeError\<close>.\<close>

definition lift_core :: "(core_error, 'a) result \<Rightarrow> (for_error, 'a) result" where
  "lift_core r = map_sum For_Core (\<lambda>x. x) r"

fun for_float :: "number \<Rightarrow> (for_error, f64) result" where
  "for_float (Num_Float v) = Inr v"
| "for_float (Num_Integer v) = (case add (Num_Float (f64_zero False)) (Num_Integer v) of
       Num_Float v' \<Rightarrow> Inr v' | Num_Integer _ \<Rightarrow> Inl InvalidNumericForState)"

fun integer_limit :: "number \<Rightarrow> bool \<Rightarrow> i64 option" where
  "integer_limit (Num_Integer v) positive = Some v"
| "integer_limit (Num_Float v) positive =
     (if is_nan v then (if \<not> positive then Some i64_min else None)
      else let rounded = (if positive then f64_floor v else f64_ceil v)
           in if f64_ge rounded (f64_of_int (2 ^ 63))
              then (if positive then Some (word_of_int (2 ^ 63 - 1)) else None)
              else if f64_lt rounded (f64_of_int (- (2 ^ 63)))
              then (if \<not> positive then Some i64_min else None)
              else Some (f64_to_i64 rounded))"

definition prepare :: "lua_value \<Rightarrow> lua_value \<Rightarrow> lua_value \<Rightarrow> (for_error, prepared) result" where
  "prepare initial limit step =
     rbind (lift_core (number_from_value initial)) (\<lambda>initial.
     rbind (lift_core (number_from_value step)) (\<lambda>step.
     rbind (ensure (\<not> (case step of Num_Integer s \<Rightarrow> s = 0 | Num_Float s \<Rightarrow> f64_eq s (f64_zero False)))
              NumericForZeroStep) (\<lambda>_.
     rbind (lift_core (number_from_value limit)) (\<lambda>limit.
     case (initial, step) of
       (Num_Integer i, Num_Integer s) \<Rightarrow>
         (let positive = (compare (Num_Integer s) (Num_Integer 0) = Some Ord_Greater)
          in case integer_limit limit positive of
               None \<Rightarrow> Inr Skip
             | Some l \<Rightarrow>
                 (let ord = compare (Num_Integer i) (Num_Integer l);
                      out_of_range = (if positive then ord = Some Ord_Greater else ord = Some Ord_Less)
                  in if out_of_range then Inr Skip
                     else Inr (Enter (V_Integer i) (V_Integer l) (V_Integer s) (V_Integer i))))
     | _ \<Rightarrow>
         rbind (for_float initial) (\<lambda>i.
         rbind (for_float limit) (\<lambda>l.
         rbind (for_float step) (\<lambda>s.
           let positive = (compare (Num_Float s) (Num_Float (f64_zero False)) = Some Ord_Greater);
               ord = compare (Num_Float i) (Num_Float l);
               out_of_range = (if positive then ord = Some Ord_Greater else ord = Some Ord_Less)
           in if out_of_range then Inr Skip
              else Inr (Enter (V_Float i) (V_Float l) (V_Float s) (V_Float i)))))))))"

text \<open>\<open>checked_add\<close> on \<open>i64\<close>.\<close>

definition checked_add_i64 :: "i64 \<Rightarrow> i64 \<Rightarrow> i64 option" where
  "checked_add_i64 a b =
     (if - (2 ^ 63) \<le> sint a + sint b \<and> sint a + sint b < 2 ^ 63 then Some (a + b) else None)"

fun for_next :: "lua_value \<Rightarrow> lua_value \<Rightarrow> lua_value \<Rightarrow> (for_error, advanced) result" where
  "for_next (V_Integer control) (V_Integer limit) (V_Integer step) =
     (if step = 0 then Inl InvalidNumericForState
      else case checked_add_i64 control step of
             None \<Rightarrow> Inr Exit
           | Some next \<Rightarrow>
               (let positive = (compare (Num_Integer step) (Num_Integer 0) = Some Ord_Greater);
                    ord = compare (Num_Integer next) (Num_Integer limit);
                    in_range = (if positive then ord \<in> {Some Ord_Less, Some Ord_Equal}
                                else ord \<in> {Some Ord_Greater, Some Ord_Equal})
                in if in_range then Inr (Advance (V_Integer next) (V_Integer next)) else Inr Exit))"
| "for_next (V_Float control) (V_Float limit) (V_Float step) =
     (if f64_eq step (f64_zero False) then Inl InvalidNumericForState
      else case add (Num_Float control) (Num_Float step) of
             Num_Integer _ \<Rightarrow> Inl InvalidNumericForState
           | Num_Float next \<Rightarrow>
               (let positive = (compare (Num_Float step) (Num_Float (f64_zero False)) = Some Ord_Greater);
                    ord = compare (Num_Float next) (Num_Float limit);
                    in_range = (if positive then ord \<in> {Some Ord_Less, Some Ord_Equal}
                                else ord \<in> {Some Ord_Greater, Some Ord_Equal})
                in if in_range then Inr (Advance (V_Float next) (V_Float next)) else Inr Exit))"
| "for_next _ _ _ = Inl InvalidNumericForState"

subsection \<open>The values a loop visits\<close>

text \<open>
  Running the loop from a prepared state: the visible value of each iteration until \<open>for_next\<close>
  exits. \<open>None\<close> is running out of the iterations allowed, an error ends the loop with \<open>Some (Inl _)\<close>.
\<close>

fun for_trace :: "nat \<Rightarrow> lua_value \<Rightarrow> lua_value \<Rightarrow> lua_value \<Rightarrow> lua_value \<Rightarrow>
    (for_error, lua_value list) result option" where
  "for_trace 0 control limit step visible = None"
| "for_trace (Suc n) control limit step visible =
     (case for_next control limit step of
        Inl e \<Rightarrow> Some (Inl e)
      | Inr Exit \<Rightarrow> Some (Inr [visible])
      | Inr (Advance control' visible') \<Rightarrow>
          map_option (map_sum (\<lambda>e. e) (\<lambda>vs. visible # vs)) (for_trace n control' limit step visible'))"

definition for_loop :: "nat \<Rightarrow> lua_value \<Rightarrow> lua_value \<Rightarrow> lua_value \<Rightarrow>
    (for_error, lua_value list) result option" where
  "for_loop n initial limit step =
     (case prepare initial limit step of
        Inl e \<Rightarrow> Some (Inl e)
      | Inr Skip \<Rightarrow> Some (Inr [])
      | Inr (Enter c l s v) \<Rightarrow> for_trace n c l s v)"

text \<open>The specification: the arithmetic progression of Lua's manual, on unbounded integers.\<close>

definition for_count :: "int \<Rightarrow> int \<Rightarrow> int \<Rightarrow> nat" where
  "for_count i l s = (if (0 < s \<and> i \<le> l) \<or> (s < 0 \<and> l \<le> i) then nat ((l - i) div s) + 1 else 0)"

definition for_values :: "int \<Rightarrow> int \<Rightarrow> int \<Rightarrow> int list" where
  "for_values i l s = map (\<lambda>k. i + int k * s) [0..<for_count i l s]"

lemma for_count_step:
  "for_count i l s = (if (0 < s \<and> i \<le> l) \<or> (s < 0 \<and> l \<le> i) then Suc (for_count (i + s) l s) else 0)"
proof -
  have less: "(l - i) div s = 0" if "0 < s \<and> i \<le> l \<and> l < i + s \<or> s < 0 \<and> l \<le> i \<and> i + s < l"
    using that by (auto simp: div_pos_pos_trivial div_neg_neg_trivial)
  have more: "nat ((l - i) div s) = Suc (nat ((l - (i + s)) div s))"
    if "0 < s \<and> i + s \<le> l \<or> s < 0 \<and> l \<le> i + s"
  proof -
    have "l - i = (l - (i + s)) + 1 * s" by simp
    then have "(l - i) div s = (l - (i + s)) div s + 1" using that by (metis add.commute div_mult_self1 less_irrefl)
    moreover have "0 \<le> (l - (i + s)) div s"
      using that by (auto simp: pos_imp_zdiv_nonneg_iff neg_imp_zdiv_nonneg_iff)
    ultimately show ?thesis by simp
  qed
  show ?thesis using less more by (auto simp: for_count_def)
qed

lemma for_values_step:
  "for_values i l s = (if (0 < s \<and> i \<le> l) \<or> (s < 0 \<and> l \<le> i) then i # for_values (i + s) l s else [])"
proof (cases "(0 < s \<and> i \<le> l) \<or> (s < 0 \<and> l \<le> i)")
  case True
  then have "for_count i l s = Suc (for_count (i + s) l s)" by (simp only: for_count_step [of i] if_True)
  then show ?thesis
    using True by (simp add: for_values_def upt_conv_Cons map_Suc_upt [symmetric] algebra_simps del: upt_Suc)
qed (simp add: for_values_def for_count_def)

lemma for_values_nth_mem:
  "i + int k * s \<in> set (for_values i l s) \<longleftrightarrow> k < for_count i l s" if "s \<noteq> 0"
  using that by (auto simp: for_values_def)

lemma for_next_integers:
  assumes "s \<noteq> 0"
  shows "for_next (V_Integer c) (V_Integer l) (V_Integer s) =
    Inr (if (0 < sint s \<and> sint c + sint s \<le> sint l) \<or> (sint s < 0 \<and> sint l \<le> sint c + sint s)
         then Advance (V_Integer (c + s)) (V_Integer (c + s)) else Exit)"
proof (cases "- (2 ^ 63) \<le> sint c + sint s \<and> sint c + sint s < 2 ^ 63")
  case True
  then have "sint (c + s) = sint c + sint s"
    using sint_word_of_int_i64 [of "sint c + sint s"] by (simp add: wi_hom_add [symmetric])
  moreover have "checked_add_i64 c s = Some (c + s)" using True by (simp only: checked_add_i64_def if_P)
  moreover have "sint s \<noteq> 0" using assms by simp
  ultimately show ?thesis using assms by (auto simp: Let_def cmp_int_def)
next
  case False
  then have "checked_add_i64 c s = None" unfolding checked_add_i64_def by (rule if_not_P)
  then show ?thesis using False assms sint_i64_bounds [of l] sint_i64_bounds [of c] by auto
qed

definition word_values :: "int list \<Rightarrow> lua_value list" where
  "word_values vs = map (\<lambda>v. V_Integer (word_of_int v)) vs"

lemma for_trace_integers:
  assumes "s \<noteq> 0" and "for_count (sint c) (sint l) (sint s) \<le> n"
    and "(0 < sint s \<and> sint c \<le> sint l) \<or> (sint s < 0 \<and> sint l \<le> sint c)"
  shows "for_trace n (V_Integer c) (V_Integer l) (V_Integer s) (V_Integer c) =
    Some (Inr (word_values (for_values (sint c) (sint l) (sint s))))"
  using assms
proof (induction n arbitrary: c)
  case 0
  then show ?case by (simp add: for_count_def)
next
  case (Suc n)
  let ?more = "(0 < sint s \<and> sint c + sint s \<le> sint l) \<or> (sint s < 0 \<and> sint l \<le> sint c + sint s)"
  have count: "for_count (sint c + sint s) (sint l) (sint s) \<le> n"
    using Suc.prems(2,3) by (simp add: for_count_step [of "sint c"])
  have vals: "for_values (sint c) (sint l) (sint s) = sint c # for_values (sint c + sint s) (sint l) (sint s)"
    using Suc.prems(3) by (simp only: for_values_step [of "sint c"] if_True)
  show ?case
  proof (cases ?more)
    case True
    have "sint (c + s) = sint c + sint s"
      using True sint_word_of_int_i64 [of "sint c + sint s"] sint_i64_bounds [of c] sint_i64_bounds [of l]
      by (auto simp: wi_hom_add [symmetric])
    with Suc.IH [of "c + s"] Suc.prems(1) count True show ?thesis
      by (simp del: for_next.simps add: for_next_integers vals word_values_def)
  next
    case False
    then have "for_values (sint c + sint s) (sint l) (sint s) = []" by (simp add: for_values_step)
    then show ?thesis
      unfolding for_trace.simps for_next_integers [OF Suc.prems(1)] if_not_P [OF False] vals
      by (simp add: word_values_def)
  qed
qed

lemma prepare_integer_step:
  assumes "s \<noteq> 0" and "number_from_value limit = Inr l"
  shows "prepare (V_Integer i) limit (V_Integer s) = Inr (case integer_limit l (0 < sint s) of
     None \<Rightarrow> Skip
   | Some b \<Rightarrow> if (if 0 < sint s then sint b < sint i else sint i < sint b) then Skip
       else Enter (V_Integer i) (V_Integer b) (V_Integer s) (V_Integer i))"
  using assms by (auto simp: prepare_def lift_core_def split: option.split)

lemma for_loop_integer_limit:
  assumes "s \<noteq> 0" and "number_from_value limit = Inr l"
    and "\<And>b. integer_limit l (0 < sint s) = Some b \<Longrightarrow> for_count (sint i) (sint b) (sint s) \<le> n"
  shows "for_loop n (V_Integer i) limit (V_Integer s) = Some (Inr (case integer_limit l (0 < sint s) of
     None \<Rightarrow> [] | Some b \<Rightarrow> word_values (for_values (sint i) (sint b) (sint s))))"
proof -
  have s: "sint s \<noteq> 0" using assms(1) by simp
  have "for_values (sint i) (sint b) (sint s) = []" if "if 0 < sint s then sint b < sint i else sint i < sint b" for b
    using that s by (subst for_values_step) auto
  moreover have "for_trace n (V_Integer i) (V_Integer b) (V_Integer s) (V_Integer i) =
      Some (Inr (word_values (for_values (sint i) (sint b) (sint s))))"
    if "integer_limit l (0 < sint s) = Some b" and "\<not> (if 0 < sint s then sint b < sint i else sint i < sint b)" for b
  proof (rule for_trace_integers [OF assms(1) assms(3) [OF that(1)]])
    show "(0 < sint s \<and> sint i \<le> sint b) \<or> (sint s < 0 \<and> sint b \<le> sint i)"
      using that(2) s by (cases "0 < sint s"; simp only: if_True if_False simp_thms; linarith)
  qed
  ultimately show ?thesis
    unfolding for_loop_def prepare_integer_step [OF assms(1,2)]
    by (auto split: option.split simp: word_values_def)
qed

subsection \<open>Floating-point limits of an integer loop\<close>

text \<open>
  A limit clips the integers of the loop: with a positive step it admits the integers at most
  the limit, with a negative step those at least the limit.
\<close>

definition admits :: "bool \<Rightarrow> int \<Rightarrow> int \<Rightarrow> bool" where
  "admits positive limit v \<longleftrightarrow> (if positive then v \<le> limit else limit \<le> v)"

definition whole_round :: "bool \<Rightarrow> f64 \<Rightarrow> f64" where
  "whole_round positive v = (if positive then f64_floor v else f64_ceil v)"

lemma whole_round_not_nan:
  "\<not> is_nan v \<Longrightarrow> \<not> is_nan (whole_round positive v)"
  by (simp add: whole_round_def f64_floor_def f64_ceil_def)

lemma whole_round_finite:
  assumes "is_finite v"
  shows "\<exists>q. f64_units (whole_round positive v) = q * int one_units"
  using f64_units_floor [OF assms] f64_units_ceil [OF assms] unfolding whole_round_def by metis

lemma whole_round_admits:
  assumes "\<not> is_nan v"
  shows "admits positive (f64_units (whole_round positive v)) (k * int one_units)
     \<longleftrightarrow> admits positive (f64_units v) (k * int one_units)"
proof (cases "is_finite v")
  case True
  have up: "k * d \<le> u div d * d \<longleftrightarrow> k * d \<le> u" if "0 < d" for u d :: int
    using that by (simp only: mult_le_cancel_right_pos le_div_int_iff)
  have down: "- (- u div d) * d \<le> k * d \<longleftrightarrow> u \<le> k * d" if "0 < d" for u d :: int
  proof -
    have "- (- u div d) * d \<le> k * d \<longleftrightarrow> - k \<le> - u div d" using that by (simp only: mult_le_cancel_right_pos) linarith
    also have "\<dots> \<longleftrightarrow> - k * d \<le> - u" using that by (simp add: le_div_int_iff)
    finally show ?thesis by simp
  qed
  show ?thesis
    unfolding admits_def whole_round_def
    by (cases positive) (simp_all only: if_True if_False f64_units_floor [OF True] f64_units_ceil [OF True]
        up down of_nat_0_less_iff one_units_pos(1))
next
  case False
  then show ?thesis by (simp add: whole_round_def f64_floor_def f64_ceil_def)
qed

lemma whole_round_converts:
  assumes "\<not> is_nan v" and "- (2 ^ 63) * int one_units \<le> f64_units (whole_round positive v)"
    and "f64_units (whole_round positive v) < 2 ^ 63 * int one_units"
  shows "f64_units (whole_round positive v) = sint (f64_to_i64 (whole_round positive v)) * int one_units"
proof -
  let ?r = "whole_round positive v" and ?O = "int one_units"
  have rf: "is_finite ?r"
    using assms(2,3) one_units_inf whole_round_not_nan [OF assms(1)] unfolding f64_units_finite by auto
  then have "is_finite v" by (auto simp: whole_round_def f64_floor_def f64_ceil_def split: if_splits)
  then obtain q where q: "f64_units ?r = q * ?O" using whole_round_finite by blast
  have "sint (f64_to_i64 ?r) = f64_units ?r sdiv ?O" by (rule f64_to_i64_trunc [OF rf assms(2,3)])
  then show ?thesis unfolding q by (simp add: signed_divide_int_def abs_mult sgn_mult sgn_mult_abs)
qed

lemma integer_limit_admits:
  assumes "\<not> is_nan v"
  shows "case integer_limit (Num_Float v) positive of
      None \<Rightarrow> \<not> admits positive (f64_units v) (sint i * int one_units)
    | Some b \<Rightarrow> admits positive (sint b) (sint i) = admits positive (f64_units v) (sint (i :: i64) * int one_units)"
proof -
  let ?r = "whole_round positive v" and ?O = "int one_units"
  have rn: "\<not> is_nan ?r" using assms by (rule whole_round_not_nan)
  have ge: "f64_ge ?r (f64_of_int (2 ^ 63)) \<longleftrightarrow> 2 ^ 63 * ?O \<le> f64_units ?r"
    unfolding f64_cmp_not_nan(3) [OF rn f64_of_int_not_nan] f64_units_i64_limits ..
  have lt: "f64_lt ?r (f64_of_int (- (2 ^ 63))) \<longleftrightarrow> f64_units ?r < - (2 ^ 63) * ?O"
    unfolding f64_cmp_not_nan(2) [OF rn f64_of_int_not_nan] f64_units_i64_limits ..
  have il: "integer_limit (Num_Float v) positive =
     (if 2 ^ 63 * ?O \<le> f64_units ?r then (if positive then Some (word_of_int (2 ^ 63 - 1)) else None)
      else if f64_units ?r < - (2 ^ 63) * ?O then (if \<not> positive then Some i64_min else None)
      else Some (f64_to_i64 ?r))"
    unfolding integer_limit.simps if_not_P [OF assms] Let_def
      whole_round_def [symmetric] ge lt ..
  have ib: "- (2 ^ 63) * ?O \<le> sint i * ?O" "sint i * ?O < 2 ^ 63 * ?O"
    by (rule mult_right_mono mult_strict_right_mono; simp add: sint_i64_bounds [simplified])+
  have mx: "sint (word_of_int (2 ^ 63 - 1) :: i64) = 2 ^ 63 - 1" by (rule sint_word_of_int_i64) simp_all
  consider (high) "2 ^ 63 * ?O \<le> f64_units ?r"
    | (low) "\<not> 2 ^ 63 * ?O \<le> f64_units ?r" "f64_units ?r < - (2 ^ 63) * ?O"
    | (mid) "\<not> 2 ^ 63 * ?O \<le> f64_units ?r" "\<not> f64_units ?r < - (2 ^ 63) * ?O"
    by blast
  then show ?thesis
  proof cases
    case high
    have "sint i * ?O < f64_units ?r" using ib(2) high by (rule order.strict_trans2)
    moreover have "sint i \<le> 2 ^ 63 - 1" using sint_i64_bounds(2) [of i] by linarith
    ultimately show ?thesis
      unfolding il if_P [OF high] whole_round_admits [OF assms, symmetric]
      by (cases positive) (simp_all only: admits_def mx if_True if_False option.simps not_le less_imp_le)
  next
    case low
    have "f64_units ?r < sint i * ?O" using low(2) ib(1) by (rule order.strict_trans2)
    then show ?thesis
      unfolding il if_not_P [OF low(1)] if_P [OF low(2)] whole_round_admits [OF assms, symmetric]
      using sint_i64_bounds [of i] by (cases positive) (simp_all add: admits_def)
  next
    case mid
    then have "f64_units ?r = sint (f64_to_i64 ?r) * ?O"
      by (intro whole_round_converts [OF assms]) (simp_all only: not_le not_less)
    then show ?thesis
      unfolding il if_not_P [OF mid(1)] if_not_P [OF mid(2)] whole_round_admits [OF assms, symmetric]
      by (simp add: admits_def)
  qed
qed

lemma for_count_admits:
  assumes "s \<noteq> 0"
  shows "k < for_count i b s \<longleftrightarrow> admits (0 < s) b (i + int k * s)"
proof (cases "0 < s")
  case True
  then have "int k \<le> (b - i) div s \<longleftrightarrow> i + int k * s \<le> b" by (simp add: le_div_int_iff) linarith
  moreover have "i \<le> b" if "i + int k * s \<le> b"
    using that True by (meson add_increasing2 le_add_same_cancel1 mult_nonneg_nonneg of_nat_0_le_iff order_trans less_imp_le)
  moreover have "0 \<le> (b - i) div s \<longleftrightarrow> i \<le> b" using True by (simp add: pos_imp_zdiv_nonneg_iff)
  ultimately show ?thesis using True by (auto simp: for_count_def admits_def)
next
  case False
  then have s: "s < 0" "0 < - s" using assms by simp_all
  have flip: "(b - i) div s = (i - b) div (- s)" by (metis minus_diff_eq div_minus_minus)
  have "int k \<le> (b - i) div s \<longleftrightarrow> b \<le> i + int k * s"
    unfolding flip le_div_int_iff [OF s(2)] by (simp add: algebra_simps)
  moreover have "b \<le> i" if "b \<le> i + int k * s"
    using that s(1) mult_nonneg_nonpos [of "int k" s] by linarith
  moreover have "0 \<le> (b - i) div s \<longleftrightarrow> b \<le> i" using s(1) by (simp add: neg_imp_zdiv_nonneg_iff)
  ultimately show ?thesis using False s by (auto simp: for_count_def admits_def)
qed

lemma admits_between:
  assumes "admits (0 < s) b (i + int k * s)" and "s \<noteq> 0"
  shows "min i b \<le> i + int k * s \<and> i + int k * s \<le> max i b"
proof (cases "0 < s")
  case True
  then have "0 \<le> int k * s" by simp
  with assms True show ?thesis by (simp add: admits_def min_le_iff_disj)
next
  case False
  then have "int k * s \<le> 0" by (simp add: mult_nonneg_nonpos)
  with assms False show ?thesis by (auto simp: admits_def)
qed

lemma integer_limit_number_admits:
  assumes "\<not> number_nan l" and "v = sint (i :: i64)"
  shows "case integer_limit l positive of
      None \<Rightarrow> \<not> admits positive (num_units l) (v * int one_units)
    | Some b \<Rightarrow> admits positive (sint b) v = admits positive (num_units l) (v * int one_units)"
proof (cases l)
  case (Num_Integer n)
  then show ?thesis by (simp add: admits_def)
next
  case (Num_Float f)
  with assms(1) have "\<not> is_nan f" by simp
  then show ?thesis
    unfolding Num_Float assms(2) num_units.simps by (rule integer_limit_admits)
qed

text \<open>
  C17: An integer loop terminates and visits exactly the arithmetic progression of its start and
  step, as far as the limit (of either number subtype, not NaN) admits it: the \<open>k\<close>-th value is
  visited when it is a 64-bit integer on the right side of the exact value of the limit. It never
  wraps around, and enough iterations always suffice.
\<close>

theorem for_loop_progression:
  fixes i s :: i64
  assumes "s \<noteq> 0" and "number_from_value limit = Inr l" and "\<not> number_nan l"
  shows "\<exists>count. (\<forall>n\<ge>count. for_loop n (V_Integer i) limit (V_Integer s) =
             Some (Inr (map (\<lambda>k. V_Integer (word_of_int (sint i + int k * sint s))) [0..<count])))
     \<and> (\<forall>k. k < count \<longleftrightarrow>
          - (2 ^ 63) \<le> sint i + int k * sint s \<and> sint i + int k * sint s < 2 ^ 63
          \<and> admits (0 < sint s) (num_units l) ((sint i + int k * sint s) * int one_units))"
proof -
  have s: "sint s \<noteq> 0" using assms(1) by simp
  let ?v = "\<lambda>k. sint i + int k * sint s"
  define count where "count = (case integer_limit l (0 < sint s) of
      None \<Rightarrow> 0 | Some b \<Rightarrow> for_count (sint i) (sint b) (sint s))"
  have in_range: "- (2 ^ 63) \<le> ?v k \<and> ?v k < 2 ^ 63" if "admits (0 < sint s) (sint (b :: i64)) (?v k)" for k b
    using admits_between [OF that s] sint_i64_bounds [of i] sint_i64_bounds [of b] by linarith
  have spec: "case integer_limit l (0 < sint s) of
      None \<Rightarrow> \<not> admits (0 < sint s) (num_units l) (?v k * int one_units)
    | Some b \<Rightarrow> admits (0 < sint s) (sint b) (?v k) = admits (0 < sint s) (num_units l) (?v k * int one_units)"
    if "- (2 ^ 63) \<le> ?v k \<and> ?v k < 2 ^ 63" for k
    by (rule integer_limit_number_admits [OF assms(3) sint_word_of_int_i64 [symmetric]])
      (use that in \<open>blast+\<close>)
  have "k < count \<longleftrightarrow> - (2 ^ 63) \<le> ?v k \<and> ?v k < 2 ^ 63
      \<and> admits (0 < sint s) (num_units l) (?v k * int one_units)" for k
  proof (cases "integer_limit l (0 < sint s)")
    case None
    then show ?thesis using spec [of k] by (auto simp only: count_def option.case)
  next
    case (Some b)
    then have "k < count \<longleftrightarrow> admits (0 < sint s) (sint b) (?v k)"
      by (simp add: count_def for_count_admits [OF s])
    then show ?thesis using in_range [of b k] spec [of k] unfolding Some option.case by blast
  qed
  moreover have "for_loop n (V_Integer i) limit (V_Integer s) =
      Some (Inr (map (\<lambda>k. V_Integer (word_of_int (?v k))) [0..<count]))" if "count \<le> n" for n
    using for_loop_integer_limit [OF assms(1,2), of i n] that
    by (auto simp: count_def word_values_def for_values_def comp_def split: option.splits)
  ultimately show ?thesis by blast
qed

lemma for_loop_progression_witness:
  "\<exists>count. (\<forall>n\<ge>count. for_loop n (V_Integer 5) (V_Integer 1) (V_Integer (- 2)) =
             Some (Inr (map (\<lambda>k. V_Integer (word_of_int (sint (5 :: i64) + int k * sint (- 2 :: i64)))) [0..<count])))
     \<and> (\<forall>k. k < count \<longleftrightarrow>
          - (2 ^ 63) \<le> sint (5 :: i64) + int k * sint (- 2 :: i64) \<and> sint (5 :: i64) + int k * sint (- 2 :: i64) < 2 ^ 63
          \<and> admits (0 < sint (- 2 :: i64)) (num_units (Num_Integer 1))
              ((sint (5 :: i64) + int k * sint (- 2 :: i64)) * int one_units))"
  by (rule for_loop_progression [of "- 2" "V_Integer 1" "Num_Integer 1" 5]) simp_all

text \<open>
  C22: The errors of preparing a loop, in the order the code checks its operands: a start or a
  step that is no number, then a zero step of either subtype, then a limit that is no number.
  With three numbers and a non-zero step preparing always succeeds.
\<close>

theorem prepare_errors:
  "(case prepare initial limit step of Inl e \<Rightarrow> Some e | Inr _ \<Rightarrow> None) =
     (case number_from_value initial of Inl e \<Rightarrow> Some (For_Core e) | Inr i \<Rightarrow>
      case number_from_value step of Inl e \<Rightarrow> Some (For_Core e) | Inr s \<Rightarrow>
      if num_units s = 0 \<and> \<not> number_nan s then Some NumericForZeroStep else
      case number_from_value limit of Inl e \<Rightarrow> Some (For_Core e) | Inr l \<Rightarrow> None)"
proof -
  have zero: "(case s of Num_Integer s \<Rightarrow> s = 0 | Num_Float s \<Rightarrow> f64_eq s (f64_zero False))
      \<longleftrightarrow> num_units s = 0 \<and> \<not> number_nan s" for s
    by (cases s) (auto simp: f64_eq_def f64_cmp_def)
  have ff: "\<exists>f. for_float n = Inr f" for n by (cases n) simp_all
  show ?thesis
  proof (cases "number_from_value initial")
    case initial: (Inr i)
    show ?thesis
    proof (cases "number_from_value step")
      case step: (Inr s)
      show ?thesis
      proof (cases "number_from_value limit")
        case limit: (Inr l)
        obtain fi fs fl where "for_float i = Inr fi" "for_float s = Inr fs" "for_float l = Inr fl"
          using ff by metis
        then show ?thesis
          by (cases i; cases s) (simp_all add: initial step limit prepare_def lift_core_def zero Let_def
              split: option.split)
      qed (simp add: initial step prepare_def lift_core_def zero ensure_def)
    qed (simp add: initial prepare_def lift_core_def)
  qed (simp add: prepare_def lift_core_def)
qed

end
