(* ===== verification/Alloc_Ledger.thy ===== *)
theory Alloc_Ledger
  imports Lua_Value "HOL-Library.Multiset"
begin

text \<open>
  The allocation ledger of the runtime (\<open>alloc.rs\<close>): logical quotas with reservations that are
  committed to charges or rolled back when they are dropped. A ledger is a shared cell, so the
  operations act on a world of cells; the host's admission callbacks are parameters that may change
  the whole world. \<open>Drop\<close> implementations are explicit operations, called where Rust runs them.
  The answer of Rust's fallible allocator (\<open>try_reserve_exact\<close>) and the \<open>track_caller\<close> location are
  arguments.
\<close>

subsection \<open>Sites, attempts and the ledger state\<close>

datatype fail_point =
    SlotReserve | ObjectReserve | ObjectInitialize | ModuleConstantsReserve | StringBytesReserve
  | UserdataBytesReserve | UserdataUservaluesReserve | TableArrayReserve | TableHashReserve
  | TableKeyReserve | TableInsert | TableArrayGrow | TableHashGrow | TableRehash | RootReserve
  | HostLease | ChildReserve | MarkReserve | WorkReserve | RememberedReserve
  | FrameRegistersReserve | FrameRootsReserve | CallFrameReserve | ReturnReserve
  | ClosureCapturesReserve | OpenUpvaluesReserve

datatype allocation_domain = LuaHeap | Host

definition fp_domain :: "fail_point \<Rightarrow> allocation_domain" where
  "fp_domain p =
     (if p \<in> {SlotReserve, ObjectReserve, ModuleConstantsReserve, StringBytesReserve,
             UserdataBytesReserve, UserdataUservaluesReserve, TableArrayReserve, TableHashReserve,
             TableKeyReserve, TableArrayGrow, TableHashGrow, ChildReserve, ClosureCapturesReserve}
      then LuaHeap else Host)"

record allocation_site =
  site_file :: string
  site_line :: u32
  site_column :: u32

definition ends_with :: "string \<Rightarrow> string \<Rightarrow> bool" where
  "ends_with s suffix \<longleftrightarrow> length suffix \<le> length s \<and> drop (length s - length suffix) s = suffix"

definition domain_at :: "fail_point \<Rightarrow> allocation_site \<Rightarrow> allocation_domain" where
  "domain_at p site =
     (if (p = ClosureCapturesReserve \<and> \<not> ends_with (site_file site) ''closure.rs'')
         \<or> (p = StringBytesReserve \<and> \<not> ends_with (site_file site) ''string.rs'')
      then Host else fp_domain p)"

record allocation_attempt =
  at_site :: allocation_site
  at_ordinal :: u64
  at_domain :: allocation_domain
  at_bytes :: nat
  at_point :: "fail_point option"

datatype allocation_failure_kind =
  Fail_Arithmetic | Fail_Budget | Fail_Injection | Fail_Admission | Fail_RustReserve

record allocation_failure =
  af_attempt :: allocation_attempt
  af_kind :: allocation_failure_kind

record allocation_trace =
  next_ordinal :: u64
  last_attempt :: "allocation_attempt option"
  last_failure :: "allocation_failure option"

record ledger_snapshot =
  limit :: nat
  committed :: nat
  reserved :: nat
  lua_heap_bytes :: nat
  host_allocation_bytes :: nat
  shared_rss_observation :: "nat option"

record allocation_peaks =
  pk_committed :: nat
  pk_outstanding :: nat
  pk_lua_heap_bytes :: nat
  pk_host_allocation_bytes :: nat

record ledger_state =
  snapshot :: ledger_snapshot
  peaks :: allocation_peaks
  fail_once :: "fail_point option"
  poisoned :: bool
  lua_reserved :: nat
  host_reserved :: nat
  trace :: allocation_trace
  fail_at_ordinal :: "u64 option"

text \<open>The errors of the VM; those of host resources, which only the host layer raises, are left out.\<close>

datatype vm_error =
    VmIdExhausted | AllocationFailed | IdentityExhausted | Vm_RootIdExhausted | WrongVm | StaleObject | StaleRoot
  | WrongObjectType | NilTableKey | NaNTableKey | ArithmeticOverflow | LedgerInvariant | InvalidGcStepBudget
  | WrongGcPhase | InvalidGcConfig | FinalizerGcReentry | HostConfigurationBusy | HostWarningFailed | Interrupted
  | InjectedFailure fail_point | InjectedAllocation allocation_attempt

definition record_peaks :: "ledger_state \<Rightarrow> (vm_error, ledger_state) result" where
  "record_peaks st = rbind (ok_or ArithmeticOverflow
       (checked_add_usize (committed (snapshot st)) (reserved (snapshot st)))) (\<lambda>outstanding.
     Inr (st\<lparr>peaks := \<lparr>
       pk_committed = max (pk_committed (peaks st)) (committed (snapshot st)),
       pk_outstanding = max (pk_outstanding (peaks st)) outstanding,
       pk_lua_heap_bytes = max (pk_lua_heap_bytes (peaks st)) (lua_heap_bytes (snapshot st)),
       pk_host_allocation_bytes =
         max (pk_host_allocation_bytes (peaks st)) (host_allocation_bytes (snapshot st))\<rparr>\<rparr>))"

subsection \<open>Ledgers, admission and tickets\<close>

record 'h world =
  cells :: "nat \<Rightarrow> ledger_state"
  host :: 'h

record 'h admission =
  admit :: "nat \<Rightarrow> 'h world \<Rightarrow> nat option \<times> 'h world"
  release :: "nat \<Rightarrow> nat \<Rightarrow> 'h world \<Rightarrow> 'h world"

definition internal_admission :: "'h admission" where
  "internal_admission = \<lparr>admit = (\<lambda>_ w. (Some 1, w)), release = (\<lambda>_ _ w. w)\<rparr>"

record 'h ledger =
  inner :: nat
  lg_admission :: "'h admission"
  external_admission :: bool

record 'h reservation =
  rv_ledger :: "'h ledger"
  rv_bytes :: nat
  rv_domain :: allocation_domain
  rv_attempt :: allocation_attempt
  rv_token :: "nat option"
  rv_active :: bool

record 'h charge =
  ch_ledger :: "'h ledger"
  ch_bytes :: nat
  ch_domain :: allocation_domain
  ch_token :: "nat option"

definition get_cell :: "'h ledger \<Rightarrow> 'h world \<Rightarrow> ledger_state" where
  "get_cell l w = cells w (inner l)"

definition set_cell :: "'h ledger \<Rightarrow> ledger_state \<Rightarrow> 'h world \<Rightarrow> 'h world" where
  "set_cell l st w = w\<lparr>cells := (cells w)(inner l := st)\<rparr>"

definition initial_ledger_state :: "nat \<Rightarrow> ledger_state" where
  "initial_ledger_state lim = \<lparr>
     snapshot = \<lparr>limit = lim, committed = 0, reserved = 0, lua_heap_bytes = 0,
                 host_allocation_bytes = 0, shared_rss_observation = None\<rparr>,
     peaks = \<lparr>pk_committed = 0, pk_outstanding = 0, pk_lua_heap_bytes = 0,
              pk_host_allocation_bytes = 0\<rparr>,
     fail_once = None, poisoned = False, lua_reserved = 0, host_reserved = 0,
     trace = \<lparr>next_ordinal = 1, last_attempt = None, last_failure = None\<rparr>,
     fail_at_ordinal = None\<rparr>"

text \<open>\<open>with_admission_kind\<close> puts the new state in a cell at the address \<open>addr\<close> that \<open>Rc::new\<close> returns.\<close>

definition with_admission_kind ::
  "nat \<Rightarrow> nat \<Rightarrow> 'h admission \<Rightarrow> bool \<Rightarrow> 'h world \<Rightarrow> 'h ledger \<times> 'h world" where
  "with_admission_kind addr lim adm external w =
     (let l = \<lparr>inner = addr, lg_admission = adm, external_admission = external\<rparr>
      in (l, set_cell l (initial_ledger_state lim) w))"

text \<open>The balance of one domain: \<open>match domain { LuaHeap => .., Host => .. }\<close>.\<close>

fun domain_bytes :: "allocation_domain \<Rightarrow> ledger_state \<Rightarrow> nat" where
  "domain_bytes LuaHeap st = lua_heap_bytes (snapshot st)"
| "domain_bytes Host st = host_allocation_bytes (snapshot st)"

fun set_domain_bytes :: "allocation_domain \<Rightarrow> nat \<Rightarrow> ledger_state \<Rightarrow> ledger_state" where
  "set_domain_bytes LuaHeap n st = st\<lparr>snapshot := (snapshot st)\<lparr>lua_heap_bytes := n\<rparr>\<rparr>"
| "set_domain_bytes Host n st = st\<lparr>snapshot := (snapshot st)\<lparr>host_allocation_bytes := n\<rparr>\<rparr>"

fun domain_reserved :: "allocation_domain \<Rightarrow> ledger_state \<Rightarrow> nat" where
  "domain_reserved LuaHeap st = lua_reserved st"
| "domain_reserved Host st = host_reserved st"

fun set_domain_reserved :: "allocation_domain \<Rightarrow> nat \<Rightarrow> ledger_state \<Rightarrow> ledger_state" where
  "set_domain_reserved LuaHeap n st = st\<lparr>lua_reserved := n\<rparr>"
| "set_domain_reserved Host n st = st\<lparr>host_reserved := n\<rparr>"

definition checked_sub_usize :: "nat \<Rightarrow> nat \<Rightarrow> nat option" where
  "checked_sub_usize a b = (if b \<le> a then Some (a - b) else None)"

subsection \<open>Operations of the ledger\<close>

definition observe_shared_rss :: "'h ledger \<Rightarrow> nat \<Rightarrow> 'h world \<Rightarrow> 'h world" where
  "observe_shared_rss l bytes w = (let st = get_cell l w
     in set_cell l (st\<lparr>snapshot := (snapshot st)\<lparr>shared_rss_observation := Some bytes\<rparr>\<rparr>) w)"

definition fail_once_at_ordinal :: "'h ledger \<Rightarrow> u64 \<Rightarrow> 'h world \<Rightarrow> 'h world" where
  "fail_once_at_ordinal l ordinal w =
     set_cell l ((get_cell l w)\<lparr>fail_at_ordinal := Some ordinal\<rparr>) w"

definition record_preflight_overflow ::
  "'h ledger \<Rightarrow> allocation_domain \<Rightarrow> fail_point \<Rightarrow> allocation_site \<Rightarrow> 'h world \<Rightarrow> 'h world" where
  "record_preflight_overflow l domain point site w =
     (let st = get_cell l w;
          ordinal = next_ordinal (trace st);
          st = (if ordinal \<noteq> - 1 then st\<lparr>trace := (trace st)\<lparr>next_ordinal := ordinal + 1\<rparr>\<rparr>
                else st\<lparr>poisoned := True\<rparr>);
          attempt = \<lparr>at_site = site, at_ordinal = ordinal, at_domain = domain,
                     at_bytes = usize_max, at_point = Some point\<rparr>
      in set_cell l (st\<lparr>trace := (trace st)\<lparr>last_attempt := Some attempt,
            last_failure := Some \<lparr>af_attempt = attempt, af_kind = Fail_Arithmetic\<rparr>\<rparr>\<rparr>) w)"

definition fail_trace :: "allocation_attempt \<Rightarrow> allocation_failure_kind \<Rightarrow> ledger_state \<Rightarrow> ledger_state" where
  "fail_trace attempt kind st =
     st\<lparr>trace := (trace st)\<lparr>last_failure := Some \<lparr>af_attempt = attempt, af_kind = kind\<rparr>\<rparr>\<rparr>"

definition record_failure ::
  "'h ledger \<Rightarrow> allocation_attempt \<Rightarrow> allocation_failure_kind \<Rightarrow> 'h world \<Rightarrow> 'h world" where
  "record_failure l attempt kind w = set_cell l (fail_trace attempt kind (get_cell l w)) w"

definition set_limit :: "'h ledger \<Rightarrow> nat \<Rightarrow> 'h world \<Rightarrow> 'h world" where
  "set_limit l lim w = (let st = get_cell l w
     in set_cell l (st\<lparr>snapshot := (snapshot st)\<lparr>limit := lim\<rparr>\<rparr>) w)"

definition fail_once_at :: "'h ledger \<Rightarrow> fail_point \<Rightarrow> 'h world \<Rightarrow> 'h world" where
  "fail_once_at l point w = set_cell l ((get_cell l w)\<lparr>fail_once := Some point\<rparr>) w"

definition checkpoint :: "'h ledger \<Rightarrow> fail_point \<Rightarrow> 'h world \<Rightarrow> (vm_error, unit) result \<times> 'h world" where
  "checkpoint l point w =
     (let st = get_cell l w
      in if poisoned st then (Inl LedgerInvariant, w)
         else if fail_once st = Some point
         then (Inl (InjectedFailure point), set_cell l (st\<lparr>fail_once := None\<rparr>) w)
         else (Inr (), w))"

text \<open>Dropping a \<open>PendingAdmission\<close> releases its token.\<close>

definition drop_pending :: "'h ledger \<Rightarrow> nat option \<Rightarrow> nat \<Rightarrow> 'h world \<Rightarrow> 'h world" where
  "drop_pending l token bytes w =
     (case token of None \<Rightarrow> w | Some t \<Rightarrow> release (lg_admission l) t bytes w)"

text \<open>The second half of \<open>reserve_at\<close>: with the admission obtained, publish the reservation.\<close>

definition publish_reservation ::
  "'h ledger \<Rightarrow> nat \<Rightarrow> allocation_domain \<Rightarrow> allocation_attempt \<Rightarrow> nat option \<Rightarrow> 'h world \<Rightarrow>
     (vm_error, 'h reservation) result \<times> 'h world" where
  "publish_reservation l bytes domain attempt token w =
     (let st = get_cell l w
      in case rbind (ensure (\<not> poisoned st) LedgerInvariant) (\<lambda>_.
              rbind (ok_or ArithmeticOverflow (checked_add_usize (reserved (snapshot st)) bytes)) (\<lambda>r.
              rbind (ok_or ArithmeticOverflow (checked_add_usize (domain_reserved domain st) bytes)) (\<lambda>d.
                record_peaks (set_domain_reserved domain d
                  (st\<lparr>snapshot := (snapshot st)\<lparr>reserved := r\<rparr>\<rparr>))))) of
           Inl e \<Rightarrow> (Inl e, drop_pending l token bytes w)
         | Inr st' \<Rightarrow>
             (Inr \<lparr>rv_ledger = l, rv_bytes = bytes, rv_domain = domain, rv_attempt = attempt,
                   rv_token = token, rv_active = True\<rparr>,
              set_cell l st' w))"

definition reserve_at ::
  "'h ledger \<Rightarrow> nat \<Rightarrow> allocation_domain \<Rightarrow> fail_point option \<Rightarrow> allocation_site \<Rightarrow> 'h world \<Rightarrow>
     (vm_error, 'h reservation) result \<times> 'h world" where
  "reserve_at l bytes domain point site w =
     (let st = get_cell l w; ordinal = next_ordinal (trace st)
      in if poisoned st then (Inl LedgerInvariant, w)
         else if ordinal = - 1 then (Inl ArithmeticOverflow, w)
         else
           let attempt = \<lparr>at_site = site, at_ordinal = ordinal, at_domain = domain,
                          at_bytes = bytes, at_point = point\<rparr>;
               st = st\<lparr>trace := (trace st)\<lparr>next_ordinal := ordinal + 1, last_attempt := Some attempt\<rparr>\<rparr>
           in case checked_add_usize (committed (snapshot st)) (reserved (snapshot st)) of
                None \<Rightarrow> (Inl ArithmeticOverflow, set_cell l (fail_trace attempt Fail_Arithmetic st) w)
              | Some outstanding \<Rightarrow>
                  (case checked_add_usize outstanding bytes of
                     None \<Rightarrow> (Inl ArithmeticOverflow, set_cell l (fail_trace attempt Fail_Arithmetic st) w)
                   | Some grand \<Rightarrow>
                       if limit (snapshot st) < grand
                       then (Inl AllocationFailed, set_cell l (fail_trace attempt Fail_Budget st) w)
                       else if fail_at_ordinal st = Some ordinal
                       then (Inl (InjectedAllocation attempt),
                             set_cell l (fail_trace attempt Fail_Injection (st\<lparr>fail_at_ordinal := None\<rparr>)) w)
                       else let w = set_cell l st w
                            in if bytes = 0 then publish_reservation l bytes domain attempt None w
                               else (case admit (lg_admission l) bytes w of
                                      (None, w) \<Rightarrow>
                                        (Inl AllocationFailed, record_failure l attempt Fail_Admission w)
                                    | (Some token, w) \<Rightarrow>
                                        publish_reservation l bytes domain attempt (Some token) w)))"

definition reserve :: "'h ledger \<Rightarrow> nat \<Rightarrow> allocation_site \<Rightarrow> 'h world \<Rightarrow>
    (vm_error, 'h reservation) result \<times> 'h world" where
  "reserve l bytes site w = reserve_at l bytes Host None site w"

text \<open>\<open>Drop for Reservation\<close>: an active reservation gives its token and its bytes back.\<close>

definition drop_reservation :: "'h reservation \<Rightarrow> 'h world \<Rightarrow> 'h world" where
  "drop_reservation r w =
     (if rv_active r then
        let l = rv_ledger r;
            w = drop_pending l (rv_token r) (rv_bytes r) w;
            st = get_cell l w
        in set_cell l
             (case checked_sub_usize (reserved (snapshot st)) (rv_bytes r) of
                None \<Rightarrow> st\<lparr>poisoned := True\<rparr>
              | Some n \<Rightarrow>
                  (let st = st\<lparr>snapshot := (snapshot st)\<lparr>reserved := n\<rparr>\<rparr>
                   in case checked_sub_usize (domain_reserved (rv_domain r) st) (rv_bytes r) of
                        None \<Rightarrow> st\<lparr>poisoned := True\<rparr>
                      | Some balance \<Rightarrow> set_domain_reserved (rv_domain r) balance st)) w
      else w)"

definition reserve_lua_backing_excess ::
  "'h ledger \<Rightarrow> nat \<Rightarrow> fail_point \<Rightarrow> allocation_site \<Rightarrow> 'h world \<Rightarrow>
     (vm_error, 'h reservation) result \<times> 'h world" where
  "reserve_lua_backing_excess l bytes point site w =
     (case reserve_at l bytes LuaHeap (Some point) site w of
        (Inl e, w) \<Rightarrow> (Inl e, w)
      | (Inr ticket, w) \<Rightarrow>
          (case checkpoint l point w of
             (Inl e, w) \<Rightarrow>
               (Inl e, drop_reservation ticket (record_failure l (rv_attempt ticket) Fail_Injection w))
           | (Inr _, w) \<Rightarrow> (Inr ticket, w)))"

definition refund_domain :: "'h ledger \<Rightarrow> nat \<Rightarrow> allocation_domain \<Rightarrow> 'h world \<Rightarrow>
    (vm_error, unit) result \<times> 'h world" where
  "refund_domain l bytes domain w =
     (let st = get_cell l w
      in if poisoned st then (Inl LedgerInvariant, w)
         else case (checked_sub_usize (committed (snapshot st)) bytes,
                    checked_sub_usize (domain_bytes domain st) bytes) of
                (Some c, Some balance) \<Rightarrow>
                  (Inr (), set_cell l (set_domain_bytes domain balance
                     (st\<lparr>snapshot := (snapshot st)\<lparr>committed := c\<rparr>\<rparr>)) w)
              | _ \<Rightarrow> (Inl LedgerInvariant, w))"

definition refund :: "'h ledger \<Rightarrow> nat \<Rightarrow> 'h world \<Rightarrow> (vm_error, unit) result \<times> 'h world" where
  "refund l bytes w = refund_domain l bytes Host w"

definition refund_on_drop_domain :: "'h ledger \<Rightarrow> nat \<Rightarrow> allocation_domain \<Rightarrow> 'h world \<Rightarrow> 'h world" where
  "refund_on_drop_domain l bytes domain w =
     (let st = get_cell l w
      in set_cell l
           (case (checked_sub_usize (committed (snapshot st)) bytes,
                  checked_sub_usize (domain_bytes domain st) bytes) of
              (Some c, Some balance) \<Rightarrow>
                if \<not> poisoned st
                then set_domain_bytes domain balance (st\<lparr>snapshot := (snapshot st)\<lparr>committed := c\<rparr>\<rparr>)
                else st\<lparr>poisoned := True\<rparr>
            | _ \<Rightarrow> st\<lparr>poisoned := True\<rparr>) w)"

text \<open>\<open>Drop for AllocationCharge\<close>.\<close>

definition drop_charge :: "'h charge \<Rightarrow> 'h world \<Rightarrow> 'h world" where
  "drop_charge c w = refund_on_drop_domain (ch_ledger c) (ch_bytes c) (ch_domain c)
     (drop_pending (ch_ledger c) (ch_token c) (ch_bytes c) w)"

definition rust_reserve_failure :: "'h reservation \<Rightarrow> 'h world \<Rightarrow> vm_error \<times> 'h world" where
  "rust_reserve_failure r w =
     (AllocationFailed, record_failure (rv_ledger r) (rv_attempt r) Fail_RustReserve w)"

text \<open>Committing consumes the reservation; on an error it is dropped while still active.\<close>

definition commit_charge :: "'h reservation \<Rightarrow> 'h world \<Rightarrow> (vm_error, 'h charge) result \<times> 'h world" where
  "commit_charge r w =
     (let l = rv_ledger r; d = rv_domain r; st = get_cell l w
      in case rbind (ensure (\<not> poisoned st) LedgerInvariant) (\<lambda>_.
              rbind (ok_or LedgerInvariant (checked_sub_usize (reserved (snapshot st)) (rv_bytes r))) (\<lambda>rest.
              rbind (ok_or ArithmeticOverflow (checked_add_usize (committed (snapshot st)) (rv_bytes r))) (\<lambda>c.
              rbind (ok_or LedgerInvariant (checked_sub_usize (domain_reserved d st) (rv_bytes r))) (\<lambda>dr.
              rbind (ok_or ArithmeticOverflow (checked_add_usize (domain_bytes d st) (rv_bytes r))) (\<lambda>dc.
                let st = set_domain_bytes d dc (set_domain_reserved d dr st)
                in record_peaks (st\<lparr>snapshot := (snapshot st)\<lparr>reserved := rest, committed := c\<rparr>\<rparr>)))))) of
           Inl e \<Rightarrow> (Inl e, drop_reservation r w)
         | Inr st' \<Rightarrow>
             (Inr \<lparr>ch_ledger = l, ch_bytes = rv_bytes r, ch_domain = d, ch_token = rv_token r\<rparr>,
              set_cell l st' w))"

definition detach_internal :: "'h charge \<Rightarrow> 'h world \<Rightarrow> 'h world" where
  "detach_internal c w = drop_charge (c\<lparr>ch_token := None, ch_bytes := 0\<rparr>) w"

definition commit :: "'h reservation \<Rightarrow> 'h world \<Rightarrow> (vm_error, unit) result \<times> 'h world" where
  "commit r w =
     (if external_admission (rv_ledger r) then (Inl LedgerInvariant, drop_reservation r w)
      else case commit_charge r w of
             (Inl e, w) \<Rightarrow> (Inl e, w)
           | (Inr c, w) \<Rightarrow> (Inr (), detach_internal c w))"

definition checked_bytes :: "nat \<Rightarrow> nat \<Rightarrow> (vm_error, nat) result" where
  "checked_bytes n elem = ok_or ArithmeticOverflow (checked_mul_usize n elem)"

definition reserve_vec ::
  "'h ledger \<Rightarrow> nat \<Rightarrow> nat \<Rightarrow> bool \<Rightarrow> fail_point \<Rightarrow> allocation_site \<Rightarrow> 'h world \<Rightarrow>
     (vm_error, 'h reservation) result \<times> 'h world" where
  "reserve_vec l additional elem allocator_ok point site w =
     (let domain = domain_at point site
      in case checked_bytes additional elem of
           Inl e \<Rightarrow> (Inl e, record_preflight_overflow l domain point site w)
         | Inr bytes \<Rightarrow>
             (case reserve_at l bytes domain (Some point) site w of
                (Inl e, w) \<Rightarrow> (Inl e, w)
              | (Inr ticket, w) \<Rightarrow>
                  (case checkpoint l point w of
                     (Inl e, w) \<Rightarrow>
                       (Inl e, drop_reservation ticket (record_failure l (rv_attempt ticket) Fail_Injection w))
                   | (Inr _, w) \<Rightarrow>
                       if allocator_ok then (Inr ticket, w)
                       else (let (e, w) = rust_reserve_failure ticket w
                             in (Inl e, drop_reservation ticket w)))))"

subsection \<open>Pairs and collections of charges\<close>

record charge_part =
  cp_bytes :: nat
  cp_token :: "nat option"

definition empty_part :: charge_part where
  "empty_part = \<lparr>cp_bytes = 0, cp_token = None\<rparr>"

record 'h paired_charges =
  pc_ledger :: "'h ledger"
  pc_first :: charge_part
  pc_second :: charge_part

definition paired_new :: "'h ledger \<Rightarrow> 'h paired_charges" where
  "paired_new l = \<lparr>pc_ledger = l, pc_first = empty_part, pc_second = empty_part\<rparr>"

text \<open>
  Taking the bytes and the token out of a charge; the emptied charge is then dropped, which
  refunds nothing but runs through the ledger.
\<close>

definition take_part :: "'h charge \<Rightarrow> 'h world \<Rightarrow> charge_part \<times> 'h world" where
  "take_part c w = (\<lparr>cp_bytes = ch_bytes c, cp_token = ch_token c\<rparr>,
                    drop_charge (c\<lparr>ch_bytes := 0, ch_token := None\<rparr>) w)"

definition release_part :: "'h ledger \<Rightarrow> charge_part \<Rightarrow> 'h world \<Rightarrow> 'h world" where
  "release_part l part w =
     refund_on_drop_domain l (cp_bytes part) LuaHeap (drop_pending l (cp_token part) (cp_bytes part) w)"

definition replace_first :: "'h paired_charges \<Rightarrow> 'h charge \<Rightarrow> 'h world \<Rightarrow> 'h paired_charges \<times> 'h world" where
  "replace_first p c w = (let (next, w) = take_part c w
     in (p\<lparr>pc_first := next\<rparr>, release_part (pc_ledger p) (pc_first p) w))"

definition replace_second :: "'h paired_charges \<Rightarrow> 'h charge \<Rightarrow> 'h world \<Rightarrow> 'h paired_charges \<times> 'h world" where
  "replace_second p c w = (let (next, w) = take_part c w
     in (p\<lparr>pc_second := next\<rparr>, release_part (pc_ledger p) (pc_second p) w))"

definition clear_second :: "'h paired_charges \<Rightarrow> 'h world \<Rightarrow> 'h paired_charges \<times> 'h world" where
  "clear_second p w = (p\<lparr>pc_second := empty_part\<rparr>, release_part (pc_ledger p) (pc_second p) w)"

definition drop_paired :: "'h paired_charges \<Rightarrow> 'h world \<Rightarrow> 'h world" where
  "drop_paired p w = release_part (pc_ledger p) (pc_second p) (release_part (pc_ledger p) (pc_first p) w)"

type_synonym 'h charges = "'h charge list"

fun total_bytes :: "'h charges \<Rightarrow> (vm_error, nat) result" where
  "total_bytes entries = foldl (\<lambda>acc c. rbind acc (\<lambda>n.
     ok_or ArithmeticOverflow (checked_add_usize n (ch_bytes c)))) (Inr 0) entries"

definition push_prepared :: "'h charges \<Rightarrow> 'h charge \<Rightarrow> 'h charges" where
  "push_prepared entries c = entries @ [c]"

definition same_account :: "'h charge \<Rightarrow> 'h charge \<Rightarrow> bool" where
  "same_account a b \<longleftrightarrow> inner (ch_ledger a) = inner (ch_ledger b) \<and> ch_domain a = ch_domain b"

definition try_push :: "bool \<Rightarrow> 'h charges \<Rightarrow> 'h charge \<Rightarrow> (vm_error \<times> 'h charge, 'h charges) result" where
  "try_push allocator_ok entries c =
     (if (case entries of [] \<Rightarrow> False | first # _ \<Rightarrow> \<not> same_account first c)
      then Inl (LedgerInvariant, c)
      else if \<not> allocator_ok then Inl (AllocationFailed, c)
      else Inr (entries @ [c]))"

definition try_absorb :: "bool \<Rightarrow> 'h charges \<Rightarrow> 'h charges \<Rightarrow> (vm_error, unit) result \<times> 'h charges \<times> 'h charges" where
  "try_absorb allocator_ok entries other =
     (if (case (entries, other) of (first # _, next # _) \<Rightarrow> \<not> same_account first next | _ \<Rightarrow> False)
      then (Inl LedgerInvariant, entries, other)
      else if \<not> allocator_ok then (Inl AllocationFailed, entries, other)
      else (Inr (), entries @ other, []))"

record 'h partial_normalization =
  pn_actual :: nat
  pn_ledger :: "'h ledger"
  pn_domain :: allocation_domain
  pn_excess :: nat
  pn_before :: ledger_state
  pn_token :: "nat option"

datatype 'h prepared_normalization =
  Norm_Equal | Norm_Zero | Norm_Partial "'h partial_normalization"

definition prepare_normalize ::
  "bool \<Rightarrow> 'h charges \<Rightarrow> nat \<Rightarrow> 'h world \<Rightarrow> (vm_error, 'h prepared_normalization) result \<times> 'h world" where
  "prepare_normalize allocator_ok entries actual w =
     (case total_bytes entries of
        Inl e \<Rightarrow> (Inl e, w)
      | Inr all \<Rightarrow>
          if all < actual then (Inl ArithmeticOverflow, w)
          else if actual = all then (Inr Norm_Equal, w)
          else if actual = 0 then (Inr Norm_Zero, w)
          else (case entries of
             [] \<Rightarrow> (Inl LedgerInvariant, w)
           | first # _ \<Rightarrow>
               (let l = ch_ledger first; d = ch_domain first; before = get_cell l w; excess = all - actual
                in if poisoned before \<or> committed (snapshot before) < excess \<or> domain_bytes d before < excess
                   then (Inl LedgerInvariant, w)
                   else (case admit (lg_admission l) actual w of
                      (None, w) \<Rightarrow> (Inl AllocationFailed, w)
                    | (Some token, w) \<Rightarrow>
                        (let st = get_cell l w
                         in if \<not> allocator_ok
                            then (Inl AllocationFailed, drop_pending l (Some token) actual w)
                            else if poisoned st \<or> committed (snapshot st) \<noteq> committed (snapshot before)
                              \<or> reserved (snapshot st) \<noteq> reserved (snapshot before)
                              \<or> domain_bytes d st \<noteq> domain_bytes d before
                            then (Inl LedgerInvariant, drop_pending l (Some token) actual w)
                            else (Inr (Norm_Partial \<lparr>pn_actual = actual, pn_ledger = l, pn_domain = d,
                                   pn_excess = excess, pn_before = before, pn_token = Some token\<rparr>), w))))))"

definition drop_charges :: "'h charges \<Rightarrow> 'h world \<Rightarrow> 'h world" where
  "drop_charges entries w = foldl (\<lambda>w c. drop_charge c w) w entries"

text \<open>
  Committing returns the emptied collection, the new one and the world. In the partial case the
  tokens of the old entries are released and the emptied entries are dropped before the ledger gets
  the state saved by the preparation, less the excess.
\<close>

definition commit_normalize ::
  "'h charges \<Rightarrow> 'h prepared_normalization \<Rightarrow> 'h world \<Rightarrow> 'h charges \<times> 'h charges \<times> 'h world" where
  "commit_normalize entries prepared w =
     (case prepared of
        Norm_Equal \<Rightarrow> ([], entries, w)
      | Norm_Zero \<Rightarrow> ([], [], drop_charges entries w)
      | Norm_Partial p \<Rightarrow>
          (let l = pn_ledger p;
               w = foldl (\<lambda>w c. drop_pending l (ch_token c) (ch_bytes c) w) w entries;
               w = drop_charges (map (\<lambda>c. c\<lparr>ch_token := None, ch_bytes := 0\<rparr>) entries) w;
               st = (pn_before p)\<lparr>peaks := peaks (get_cell l w)\<rparr>;
               st = st\<lparr>snapshot := (snapshot st)\<lparr>committed := committed (snapshot st) - pn_excess p\<rparr>\<rparr>;
               st = set_domain_bytes (pn_domain p) (domain_bytes (pn_domain p) st - pn_excess p) st
           in ([], [\<lparr>ch_ledger = l, ch_bytes = pn_actual p, ch_domain = pn_domain p,
                     ch_token = pn_token p\<rparr>], set_cell l st w)))"

definition normalize :: "bool \<Rightarrow> 'h charges \<Rightarrow> nat \<Rightarrow> 'h world \<Rightarrow>
    (vm_error, 'h charges) result \<times> 'h charges \<times> 'h world" where
  "normalize allocator_ok entries actual w =
     (case prepare_normalize allocator_ok entries actual w of
        (Inl e, w) \<Rightarrow> (Inl e, entries, w)
      | (Inr prepared, w) \<Rightarrow>
          (let (entries, next, w) = commit_normalize entries prepared w in (Inr next, entries, w)))"

subsection \<open>Balanced ledgers\<close>

text \<open>
  A ledger state balances given amounts, per domain, of reserved and of committed bytes when every
  counter of the code is the corresponding sum.
\<close>

type_synonym amounts = "allocation_domain \<Rightarrow> nat"

definition balances :: "ledger_state \<Rightarrow> amounts \<Rightarrow> amounts \<Rightarrow> bool" where
  "balances st R C \<longleftrightarrow> \<not> poisoned st
     \<and> lua_reserved st = R LuaHeap \<and> host_reserved st = R Host
     \<and> lua_heap_bytes (snapshot st) = C LuaHeap \<and> host_allocation_bytes (snapshot st) = C Host
     \<and> reserved (snapshot st) = R LuaHeap + R Host \<and> committed (snapshot st) = C LuaHeap + C Host
     \<and> committed (snapshot st) + reserved (snapshot st) \<le> usize_max"

lemma get_set_cell [simp]: "get_cell l (set_cell l st w) = st"
  by (simp add: get_cell_def set_cell_def)

lemma checked_sub_usize_Some [simp]:
  "checked_sub_usize a b = Some c \<longleftrightarrow> b \<le> a \<and> c = a - b"
  by (auto simp: checked_sub_usize_def)

lemma domain_bytes_balances: "balances st R C \<Longrightarrow> domain_bytes d st = C d"
  by (cases d) (simp_all add: balances_def)

lemma domain_reserved_balances: "balances st R C \<Longrightarrow> domain_reserved d st = R d"
  by (cases d) (simp_all add: balances_def)

lemma fail_trace_simps [simp]:
  "balances (fail_trace a k st) R C = balances st R C"
  "snapshot (fail_trace a k st) = snapshot st"
  by (simp_all add: balances_def fail_trace_def)

lemma le_domain_sum: "(R :: amounts) d \<le> R LuaHeap + R Host"
  by (cases d) simp_all

lemma balances_reserve:
  assumes "balances st R C" and "committed (snapshot st) + reserved (snapshot st) + b \<le> usize_max"
  shows "\<exists>st'. rbind (ok_or ArithmeticOverflow (checked_add_usize (reserved (snapshot st)) b)) (\<lambda>r.
              rbind (ok_or ArithmeticOverflow (checked_add_usize (domain_reserved d st) b)) (\<lambda>n.
                record_peaks (set_domain_reserved d n (st\<lparr>snapshot := (snapshot st)\<lparr>reserved := r\<rparr>\<rparr>)))) = Inr st'
           \<and> balances st' (R(d := R d + b)) C \<and> limit (snapshot st') = limit (snapshot st)"
  using assms le_domain_sum [of R d]
  by (cases d) (auto simp: balances_def record_peaks_def checked_add_usize_def)

lemma balances_release_reserved:
  assumes "balances st R C" and "b \<le> R d"
  shows "balances (set_domain_reserved d (R d - b) (st\<lparr>snapshot := (snapshot st)\<lparr>reserved := reserved (snapshot st) - b\<rparr>\<rparr>))
           (R(d := R d - b)) C"
  using assms by (cases d) (auto simp: balances_def)

lemma balances_refund:
  assumes "balances st R C" and "b \<le> C d"
  shows "balances (set_domain_bytes d (C d - b) (st\<lparr>snapshot := (snapshot st)\<lparr>committed := committed (snapshot st) - b\<rparr>\<rparr>))
           R (C(d := C d - b))"
  using assms by (cases d) (auto simp: balances_def)

lemma balances_commit:
  assumes "balances st R C" and "b \<le> R d"
  shows "\<exists>st'. rbind (ensure (\<not> poisoned st) LedgerInvariant) (\<lambda>_.
              rbind (ok_or LedgerInvariant (checked_sub_usize (reserved (snapshot st)) b)) (\<lambda>rest.
              rbind (ok_or ArithmeticOverflow (checked_add_usize (committed (snapshot st)) b)) (\<lambda>c.
              rbind (ok_or LedgerInvariant (checked_sub_usize (domain_reserved d st) b)) (\<lambda>dr.
              rbind (ok_or ArithmeticOverflow (checked_add_usize (domain_bytes d st) b)) (\<lambda>dc.
                let st = set_domain_bytes d dc (set_domain_reserved d dr st)
                in record_peaks (st\<lparr>snapshot := (snapshot st)\<lparr>reserved := rest, committed := c\<rparr>\<rparr>)))))) = Inr st'
           \<and> balances st' (R(d := R d - b)) (C(d := C d + b)) \<and> limit (snapshot st') = limit (snapshot st)"
  using assms
  by (cases d) (auto simp: balances_def record_peaks_def checked_add_usize_def checked_sub_usize_def)

text \<open>
  The contract of the host's admission: it may refuse and it may keep its own state, but it does
  not touch the cell of the ledger that calls it.
\<close>

locale quiet_admission =
  fixes l :: "'h ledger"
  assumes admit_quiet: "admit (lg_admission l) n w = (answer, w') \<Longrightarrow> get_cell l w' = get_cell l w"
    and release_quiet: "get_cell l (release (lg_admission l) t n w) = get_cell l w"
begin

lemma drop_pending_quiet [simp]: "get_cell l (drop_pending l token n w) = get_cell l w"
  by (simp add: drop_pending_def release_quiet split: option.split)

lemma publish_balances:
  assumes "balances (get_cell l w) R C"
    and "committed (snapshot (get_cell l w)) + reserved (snapshot (get_cell l w)) + b \<le> usize_max"
  shows "\<exists>w'. publish_reservation l b d attempt token w =
       (Inr \<lparr>rv_ledger = l, rv_bytes = b, rv_domain = d, rv_attempt = attempt, rv_token = token,
             rv_active = True\<rparr>, w')
     \<and> balances (get_cell l w') (R(d := R d + b)) C
     \<and> limit (snapshot (get_cell l w')) = limit (snapshot (get_cell l w))"
proof -
  have "\<not> poisoned (get_cell l w)" using assms(1) by (simp add: balances_def)
  with balances_reserve [OF assms, of d] show ?thesis
    by (auto simp: publish_reservation_def Let_def)
qed

lemma admit_publish_balances:
  assumes "balances (get_cell l w) R C"
    and "committed (snapshot (get_cell l w)) + reserved (snapshot (get_cell l w)) + b \<le> usize_max"
    and "(if b = 0 then publish_reservation l b d attempt None w
          else (case admit (lg_admission l) b w of
             (None, w) \<Rightarrow> (Inl AllocationFailed, record_failure l attempt Fail_Admission w)
           | (Some token, w) \<Rightarrow> publish_reservation l b d attempt (Some token) w)) = (answer, w')"
  shows "(case answer of
      Inl _ \<Rightarrow> balances (get_cell l w') R C
    | Inr r \<Rightarrow> balances (get_cell l w') (R(d := R d + b)) C
        \<and> rv_ledger r = l \<and> rv_bytes r = b \<and> rv_domain r = d \<and> rv_active r)
    \<and> limit (snapshot (get_cell l w')) = limit (snapshot (get_cell l w))"
proof (cases "b = 0")
  case True
  then show ?thesis using publish_balances [OF assms(1,2), of d attempt None] assms(3) by auto
next
  case False
  obtain reply w1 where adm: "admit (lg_admission l) b w = (reply, w1)" by fastforce
  then have same: "get_cell l w1 = get_cell l w" by (rule admit_quiet)
  show ?thesis
  proof (cases reply)
    case None
    with assms(1,3) False adm same show ?thesis by (auto simp: record_failure_def)
  next
    case (Some token)
    then show ?thesis
      using publish_balances [of w1 R C b d attempt "Some token"] assms False adm same by auto
  qed
qed

lemma reserve_at_balances:
  assumes "balances (get_cell l w) R C" and "reserve_at l b d p site w = (answer, w')"
  shows "(case answer of
      Inl _ \<Rightarrow> balances (get_cell l w') R C
    | Inr r \<Rightarrow> balances (get_cell l w') (R(d := R d + b)) C
        \<and> rv_ledger r = l \<and> rv_bytes r = b \<and> rv_domain r = d \<and> rv_active r
        \<and> committed (snapshot (get_cell l w)) + reserved (snapshot (get_cell l w)) + b
            \<le> limit (snapshot (get_cell l w)))
    \<and> limit (snapshot (get_cell l w')) = limit (snapshot (get_cell l w))"
proof -
  let ?st = "get_cell l w"
  define attempt where "attempt = \<lparr>at_site = site, at_ordinal = next_ordinal (trace ?st), at_domain = d,
    at_bytes = b, at_point = p\<rparr>"
  define st1 where "st1 = ?st\<lparr>trace := (trace ?st)\<lparr>next_ordinal := next_ordinal (trace ?st) + 1,
    last_attempt := Some attempt\<rparr>\<rparr>"
  have b1: "balances st1 R C" and s1: "snapshot st1 = snapshot ?st"
    using assms(1) by (simp_all add: st1_def balances_def)
  have b2: "balances (st1\<lparr>fail_at_ordinal := None\<rparr>) R C" using b1 by (simp add: balances_def)
  have np: "\<not> poisoned ?st" using assms(1) by (simp add: balances_def)
  let ?sum = "committed (snapshot ?st) + reserved (snapshot ?st)"
  have le: "?sum \<le> usize_max" using assms(1) by (simp add: balances_def)
  show ?thesis
  proof (cases "next_ordinal (trace ?st) = - 1 \<or> usize_max < ?sum + b \<or> limit (snapshot ?st) < ?sum + b
      \<or> fail_at_ordinal st1 = Some (next_ordinal (trace ?st))")
    case True
    have same: "balances (get_cell l w') R C \<and> limit (snapshot (get_cell l w')) = limit (snapshot ?st)
        \<and> (\<exists>e. answer = Inl e)"
      using assms True np b1 b2 s1 le unfolding reserve_at_def Let_def attempt_def [symmetric] st1_def [symmetric]
      by (auto simp: checked_add_usize_def split: if_splits)
    then show ?thesis by auto
  next
    case False
    then have "(if b = 0 then publish_reservation l b d attempt None (set_cell l st1 w)
          else (case admit (lg_admission l) b (set_cell l st1 w) of
             (None, w) \<Rightarrow> (Inl AllocationFailed, record_failure l attempt Fail_Admission w)
           | (Some token, w) \<Rightarrow> publish_reservation l b d attempt (Some token) w)) = (answer, w')"
      using assms(2) np s1 le unfolding reserve_at_def Let_def attempt_def [symmetric] st1_def [symmetric]
      by (simp add: checked_add_usize_def)
    from admit_publish_balances [OF _ _ this, of R C] False b1 s1 show ?thesis
      by (auto split: sum.splits)
  qed
qed

lemma drop_reservation_balances:
  assumes "balances (get_cell l w) R C" and "rv_ledger r = l" and "rv_active r"
    and "rv_bytes r \<le> R (rv_domain r)"
  shows "balances (get_cell l (drop_reservation r w)) (R(rv_domain r := R (rv_domain r) - rv_bytes r)) C
    \<and> limit (snapshot (get_cell l (drop_reservation r w))) = limit (snapshot (get_cell l w))"
proof -
  let ?d = "rv_domain r" and ?st = "get_cell l w"
  have "rv_bytes r \<le> reserved (snapshot ?st)"
    using assms(1,4) le_domain_sum [of R ?d] by (simp add: balances_def)
  moreover have "domain_reserved ?d (?st\<lparr>snapshot := s\<rparr>) = R ?d" for s
    using domain_reserved_balances [OF assms(1), of ?d] by (cases ?d) simp_all
  ultimately have "get_cell l (drop_reservation r w) = set_domain_reserved ?d (R ?d - rv_bytes r)
      (?st\<lparr>snapshot := (snapshot ?st)\<lparr>reserved := reserved (snapshot ?st) - rv_bytes r\<rparr>\<rparr>)"
    using assms(2-4) by (simp add: drop_reservation_def checked_sub_usize_def Let_def)
  then show ?thesis using balances_release_reserved [OF assms(1,4)] by (cases ?d) auto
qed

lemma commit_charge_balances:
  assumes "balances (get_cell l w) R C" and "rv_ledger r = l" and "rv_bytes r \<le> R (rv_domain r)"
  shows "\<exists>w'. commit_charge r w = (Inr \<lparr>ch_ledger = l, ch_bytes = rv_bytes r,
            ch_domain = rv_domain r, ch_token = rv_token r\<rparr>, w')
     \<and> balances (get_cell l w') (R(rv_domain r := R (rv_domain r) - rv_bytes r))
          (C(rv_domain r := C (rv_domain r) + rv_bytes r))
     \<and> limit (snapshot (get_cell l w')) = limit (snapshot (get_cell l w))"
  using balances_commit [OF assms(1,3)] by (auto simp: commit_charge_def Let_def assms(2))

lemma drop_charge_balances:
  assumes "balances (get_cell l w) R C" and "ch_ledger c = l" and "ch_bytes c \<le> C (ch_domain c)"
  shows "balances (get_cell l (drop_charge c w)) R (C(ch_domain c := C (ch_domain c) - ch_bytes c))
    \<and> limit (snapshot (get_cell l (drop_charge c w))) = limit (snapshot (get_cell l w))"
proof -
  let ?d = "ch_domain c" and ?st = "get_cell l w"
  have "ch_bytes c \<le> committed (snapshot ?st)" "\<not> poisoned ?st"
    using assms(1,3) le_domain_sum [of C ?d] by (simp_all add: balances_def)
  then have "get_cell l (drop_charge c w) = set_domain_bytes ?d (C ?d - ch_bytes c)
      (?st\<lparr>snapshot := (snapshot ?st)\<lparr>committed := committed (snapshot ?st) - ch_bytes c\<rparr>\<rparr>)"
    using assms(2,3) domain_bytes_balances [OF assms(1), of ?d]
    by (simp add: drop_charge_def refund_on_drop_domain_def checked_sub_usize_def Let_def)
  then show ?thesis using balances_refund [OF assms(1,3)] by (cases ?d) auto
qed

lemma checkpoint_balances:
  assumes "balances (get_cell l w) R C" and "checkpoint l p w = (answer, w')"
  shows "balances (get_cell l w') R C \<and> limit (snapshot (get_cell l w')) = limit (snapshot (get_cell l w))"
  using assms by (auto simp: checkpoint_def Let_def balances_def split: if_splits)

lemma cancel_reservation_balances:
  assumes "balances (get_cell l w) (R(rv_domain r := R (rv_domain r) + rv_bytes r)) C"
    and "rv_ledger r = l" and "rv_active r"
  shows "balances (get_cell l (drop_reservation r (record_failure l a k w))) R C
    \<and> limit (snapshot (get_cell l (drop_reservation r (record_failure l a k w)))) = limit (snapshot (get_cell l w))"
proof -
  have "balances (get_cell l (record_failure l a k w)) (R(rv_domain r := R (rv_domain r) + rv_bytes r)) C"
    using assms(1) by (simp add: record_failure_def)
  from drop_reservation_balances [OF this assms(2,3)] show ?thesis by (simp add: record_failure_def)
qed

lemma reserve_vec_balances:
  assumes "balances (get_cell l w) R C" and "reserve_vec l n e ok p site w = (answer, w')"
    and "next_ordinal (trace (get_cell l w)) \<noteq> - 1"
  shows "(case answer of
      Inl _ \<Rightarrow> balances (get_cell l w') R C
    | Inr r \<Rightarrow> balances (get_cell l w') (R(rv_domain r := R (rv_domain r) + rv_bytes r)) C
        \<and> rv_ledger r = l \<and> rv_bytes r = n * e \<and> rv_active r
        \<and> committed (snapshot (get_cell l w)) + reserved (snapshot (get_cell l w)) + n * e
            \<le> limit (snapshot (get_cell l w)))
    \<and> limit (snapshot (get_cell l w')) = limit (snapshot (get_cell l w))"
proof (cases "n * e \<le> usize_max")
  case False
  then show ?thesis
    using assms by (auto simp: reserve_vec_def Let_def checked_bytes_def checked_mul_usize_def
        record_preflight_overflow_def balances_def)
next
  case True
  obtain a1 w1 where r1: "reserve_at l (n * e) (domain_at p site) (Some p) site w = (a1, w1)" by fastforce
  note rb = reserve_at_balances [OF assms(1) r1]
  show ?thesis
  proof (cases a1)
    case (Inl err)
    with True assms(2) r1 rb show ?thesis
      by (auto simp: reserve_vec_def Let_def checked_bytes_def checked_mul_usize_def)
  next
    case (Inr ticket)
    obtain a2 w2 where r2: "checkpoint l p w1 = (a2, w2)" by fastforce
    have tick: "balances (get_cell l w1) (R(rv_domain ticket := R (rv_domain ticket) + rv_bytes ticket)) C"
      "rv_ledger ticket = l" "rv_active ticket" "rv_bytes ticket = n * e"
      "limit (snapshot (get_cell l w1)) = limit (snapshot (get_cell l w))"
      using rb Inr by auto
    note cb = checkpoint_balances [OF tick(1) r2]
    note cancel = cancel_reservation_balances [OF cb [THEN conjunct1] tick(2,3)]
    show ?thesis
      using assms(2) True r1 r2 Inr rb cb cancel tick
      by (auto simp: reserve_vec_def Let_def checked_bytes_def checked_mul_usize_def
          rust_reserve_failure_def split: sum.splits if_splits)
  qed
qed

lemma drop_charges_balances:
  assumes "balances (get_cell l w) R C" and "\<forall>c\<in>set es. ch_ledger c = l \<and> ch_domain c = d"
    and "sum_list (map ch_bytes es) \<le> C d"
  shows "balances (get_cell l (drop_charges es w)) R (C(d := C d - sum_list (map ch_bytes es)))
    \<and> limit (snapshot (get_cell l (drop_charges es w))) = limit (snapshot (get_cell l w))"
  using assms
proof (induction es arbitrary: w C)
  case Nil
  then show ?case by (simp add: drop_charges_def)
next
  case (Cons c es)
  let ?C = "C(d := C d - ch_bytes c)"
  have first: "balances (get_cell l (drop_charge c w)) R ?C"
      "limit (snapshot (get_cell l (drop_charge c w))) = limit (snapshot (get_cell l w))"
    using drop_charge_balances [OF Cons.prems(1), of c] Cons.prems(2,3) by auto
  have "sum_list (map ch_bytes es) \<le> ?C d" using Cons.prems(3) by simp
  with Cons.prems(2) have "balances (get_cell l (drop_charges es (drop_charge c w))) R
        (?C(d := ?C d - sum_list (map ch_bytes es)))
      \<and> limit (snapshot (get_cell l (drop_charges es (drop_charge c w)))) = limit (snapshot (get_cell l w))"
    unfolding first(2) [symmetric] by (intro Cons.IH [OF first(1)]) auto
  then show ?case
    by (simp only: drop_charges_def foldl.simps list.map sum_list.Cons fun_upd_upd fun_upd_same diff_diff_add)
qed

end

lemma total_bytes_sum: "total_bytes es = Inr n \<Longrightarrow> n = sum_list (map ch_bytes es)"
proof -
  have err: "foldl (\<lambda>acc c. rbind acc (\<lambda>n. ok_or ArithmeticOverflow (checked_add_usize n (ch_bytes c))))
      (Inl e) es = Inl e" for e and es :: "'h charges"
    by (induction es) simp_all
  have "foldl (\<lambda>acc c. rbind acc (\<lambda>n. ok_or ArithmeticOverflow (checked_add_usize n (ch_bytes c))))
      (Inr k) es = Inr n \<Longrightarrow> n = k + sum_list (map ch_bytes es)" for k
  proof (induction es arbitrary: k)
    case (Cons a es)
    then show ?case
      by (cases "checked_add_usize k (ch_bytes a)") (auto simp: err add.assoc dest!: Cons.IH)
  qed simp
  from this [of 0] show "total_bytes es = Inr n \<Longrightarrow> n = sum_list (map ch_bytes es)" by simp
qed

context quiet_admission
begin

lemma release_all_quiet:
  "get_cell l (foldl (\<lambda>w c. drop_pending l (ch_token c) (ch_bytes c) w) w es) = get_cell l w"
  by (induction es arbitrary: w) simp_all

lemma normalize_balances:
  assumes "balances (get_cell l w) R C" and "\<forall>c\<in>set es. ch_ledger c = l \<and> ch_domain c = d"
    and "sum_list (map ch_bytes es) \<le> C d" and "normalize ok es actual w = (answer, es', w')"
  shows "(case answer of
      Inl _ \<Rightarrow> balances (get_cell l w') R C \<and> es' = es
    | Inr next \<Rightarrow> balances (get_cell l w') R (C(d := C d - sum_list (map ch_bytes es) + actual))
        \<and> es' = [] \<and> actual \<le> sum_list (map ch_bytes es)
        \<and> sum_list (map ch_bytes next) = actual \<and> (\<forall>c\<in>set next. ch_ledger c = l \<and> ch_domain c = d))
    \<and> limit (snapshot (get_cell l w')) = limit (snapshot (get_cell l w))"
proof -
  let ?S = "sum_list (map ch_bytes es)"
  obtain a1 w1 where prep: "prepare_normalize ok es actual w = (a1, w1)" by fastforce
  show ?thesis
  proof (cases a1)
    case (Inl err)
    then have "get_cell l w1 = get_cell l w"
      using prep assms(2) admit_quiet [of actual w] drop_pending_quiet
      by (auto simp: prepare_normalize_def Let_def simp del: total_bytes.simps drop_pending_quiet split: sum.splits if_splits list.splits prod.splits option.splits)
    with assms(1,4) prep Inl show ?thesis by (auto simp: normalize_def)
  next
    case (Inr prepared)
    then have tot: "total_bytes es = Inr ?S" and le: "actual \<le> ?S"
      using prep total_bytes_sum [of es] by (auto simp: prepare_normalize_def simp del: total_bytes.simps
          split: sum.splits if_splits)
    show ?thesis
    proof (cases prepared)
      case Norm_Equal
      then have "w1 = w" "actual = ?S"
        using prep Inr tot by (auto simp: prepare_normalize_def Let_def simp del: total_bytes.simps
            split: if_splits list.splits prod.splits option.splits)
      with assms prep Inr Norm_Equal show ?thesis by (auto simp: normalize_def commit_normalize_def)
    next
      case Norm_Zero
      then have "w1 = w" "actual = 0"
        using prep Inr tot by (auto simp: prepare_normalize_def Let_def simp del: total_bytes.simps
            split: if_splits list.splits prod.splits option.splits)
      with assms prep Inr Norm_Zero drop_charges_balances [OF assms(1-3)] show ?thesis
        by (auto simp: normalize_def commit_normalize_def)
    next
      case (Norm_Partial p)
      then have p: "pn_ledger p = l" "pn_domain p = d" "pn_excess p = ?S - actual" "pn_actual p = actual"
          "pn_before p = get_cell l w"
        using prep Inr tot assms(2) by (auto simp: prepare_normalize_def Let_def simp del: total_bytes.simps
            split: if_splits list.splits prod.splits option.splits)
      have fin: "answer = Inr [\<lparr>ch_ledger = l, ch_bytes = actual, ch_domain = d, ch_token = pn_token p\<rparr>] \<and> es' = []
        \<and> (\<exists>x. get_cell l w' = (let st = (get_cell l w)\<lparr>peaks := x\<rparr>;
              st = st\<lparr>snapshot := (snapshot st)\<lparr>committed := committed (snapshot st) - (?S - actual)\<rparr>\<rparr>
            in set_domain_bytes d (domain_bytes d st - (?S - actual)) st))"
        using assms(4) prep Inr Norm_Partial p
        by (auto simp: normalize_def commit_normalize_def Let_def)
      then obtain x where x: "get_cell l w' = (let st = (get_cell l w)\<lparr>peaks := x\<rparr>;
              st = st\<lparr>snapshot := (snapshot st)\<lparr>committed := committed (snapshot st) - (?S - actual)\<rparr>\<rparr>
            in set_domain_bytes d (domain_bytes d st - (?S - actual)) st)" by blast
      have peaks: "balances ((get_cell l w)\<lparr>peaks := x\<rparr>) R C" using assms(1) by (simp add: balances_def)
      have "C d - (?S - actual) = C d - ?S + actual" and le': "?S - actual \<le> C d"
        using le assms(3) by simp_all
      moreover have "domain_bytes d ((get_cell l w)\<lparr>peaks := x, snapshot := (snapshot (get_cell l w))
          \<lparr>committed := n\<rparr>\<rparr>) = C d" for n
        using domain_bytes_balances [OF assms(1), of d] by (cases d) simp_all
      ultimately have "balances (get_cell l w') R (C(d := C d - ?S + actual))"
        using balances_refund [OF peaks le'] by (simp only: x Let_def) simp
      moreover have "limit (snapshot (get_cell l w')) = limit (snapshot (get_cell l w))"
        unfolding x Let_def by (cases d) simp_all
      ultimately show ?thesis using fin le by simp
    qed
  qed
qed

end

subsection \<open>The life of a ledger\<close>

text \<open>
  A system is the world with the reservations and charges that are alive. Each step is one call of
  the ledger, successful or not, or one drop of a ticket. A reservation for a vector is taken while
  attempt ordinals remain: when they are exhausted, an overflow found before reserving poisons the ledger.
\<close>

type_synonym 'h ledger_system = "'h world \<times> 'h reservation multiset \<times> 'h charge multiset"

inductive ledger_step :: "'h ledger \<Rightarrow> 'h ledger_system \<Rightarrow> 'h ledger_system \<Rightarrow> bool" for l where
  step_reserve: "reserve_at l b d p site w = (Inr r, w') \<Longrightarrow>
    ledger_step l (w, rs, cs) (w', add_mset r rs, cs)"
| step_reserve_refused: "reserve_at l b d p site w = (Inl e, w') \<Longrightarrow>
    ledger_step l (w, rs, cs) (w', rs, cs)"
| step_reserve_vec: "\<lbrakk>next_ordinal (trace (get_cell l w)) \<noteq> - 1;
    reserve_vec l n elem ok p site w = (Inr r, w')\<rbrakk> \<Longrightarrow>
    ledger_step l (w, rs, cs) (w', add_mset r rs, cs)"
| step_reserve_vec_refused: "\<lbrakk>next_ordinal (trace (get_cell l w)) \<noteq> - 1;
    reserve_vec l n elem ok p site w = (Inl e, w')\<rbrakk> \<Longrightarrow>
    ledger_step l (w, rs, cs) (w', rs, cs)"
| step_commit: "\<lbrakk>r \<in># rs; commit_charge r w = (Inr c, w')\<rbrakk> \<Longrightarrow>
    ledger_step l (w, rs, cs) (w', rs - {#r#}, add_mset c cs)"
| step_commit_refused: "\<lbrakk>r \<in># rs; commit_charge r w = (Inl e, w')\<rbrakk> \<Longrightarrow>
    ledger_step l (w, rs, cs) (w', rs - {#r#}, cs)"
| step_drop_reservation: "r \<in># rs \<Longrightarrow>
    ledger_step l (w, rs, cs) (drop_reservation r w, rs - {#r#}, cs)"
| step_drop_charge: "c \<in># cs \<Longrightarrow>
    ledger_step l (w, rs, cs) (drop_charge c w, rs, cs - {#c#})"
| step_normalize: "\<lbrakk>\<forall>c\<in>set es. ch_domain c = d;
    normalize ok es actual w = (Inr next, es', w')\<rbrakk> \<Longrightarrow>
    ledger_step l (w, rs, cs + mset es) (w', rs, cs + mset next)"
| step_normalize_refused: "\<lbrakk>\<forall>c\<in>set es. ch_domain c = d;
    normalize ok es actual w = (Inl e, es', w')\<rbrakk> \<Longrightarrow>
    ledger_step l (w, rs, cs + mset es) (w', rs, cs + mset es)"
| step_checkpoint: "checkpoint l p w = (answer, w') \<Longrightarrow> ledger_step l (w, rs, cs) (w', rs, cs)"
| step_fail_once: "ledger_step l (w, rs, cs) (fail_once_at l p w, rs, cs)"
| step_fail_ordinal: "ledger_step l (w, rs, cs) (fail_once_at_ordinal l n w, rs, cs)"
| step_observe: "ledger_step l (w, rs, cs) (observe_shared_rss l n w, rs, cs)"
| step_limit: "ledger_step l (w, rs, cs) (set_limit l n w, rs, cs)"

definition reserved_amounts :: "'h reservation multiset \<Rightarrow> amounts" where
  "reserved_amounts rs d = (\<Sum>r\<in>#rs. if rv_domain r = d then rv_bytes r else 0)"

definition charged_amounts :: "'h charge multiset \<Rightarrow> amounts" where
  "charged_amounts cs d = (\<Sum>c\<in>#cs. if ch_domain c = d then ch_bytes c else 0)"

definition system_ok :: "'h ledger \<Rightarrow> 'h ledger_system \<Rightarrow> bool" where
  "system_ok l s \<longleftrightarrow> (case s of (w, rs, cs) \<Rightarrow>
     balances (get_cell l w) (reserved_amounts rs) (charged_amounts cs)
     \<and> (\<forall>r\<in>#rs. rv_ledger r = l \<and> rv_active r) \<and> (\<forall>c\<in>#cs. ch_ledger c = l))"

lemma reserved_amounts_add:
  "reserved_amounts (add_mset r rs) =
     (reserved_amounts rs)(rv_domain r := reserved_amounts rs (rv_domain r) + rv_bytes r)"
  by (rule ext) (simp add: reserved_amounts_def)

lemma charged_amounts_add:
  "charged_amounts (add_mset c cs) =
     (charged_amounts cs)(ch_domain c := charged_amounts cs (ch_domain c) + ch_bytes c)"
  by (rule ext) (simp add: charged_amounts_def)

lemma reserved_amounts_remove:
  assumes "r \<in># rs"
  shows "rv_bytes r \<le> reserved_amounts rs (rv_domain r)"
    and "reserved_amounts (rs - {#r#}) =
      (reserved_amounts rs)(rv_domain r := reserved_amounts rs (rv_domain r) - rv_bytes r)"
proof -
  obtain rs' where rs: "rs = add_mset r rs'" using assms by (metis mset_add)
  show "rv_bytes r \<le> reserved_amounts rs (rv_domain r)" by (simp add: rs reserved_amounts_add)
  show "reserved_amounts (rs - {#r#}) =
      (reserved_amounts rs)(rv_domain r := reserved_amounts rs (rv_domain r) - rv_bytes r)"
    by (rule ext) (simp add: rs reserved_amounts_add)
qed

lemma charged_amounts_list:
  assumes "\<forall>c\<in>set es. ch_domain c = d"
  shows "charged_amounts (cs + mset es) = (charged_amounts cs)(d := charged_amounts cs d + sum_list (map ch_bytes es))"
proof
  fix x
  have "(\<Sum>c\<in>#mset es. if ch_domain c = x then ch_bytes c else 0) = (if x = d then sum_list (map ch_bytes es) else 0)"
    using assms by (induction es) auto
  then show "charged_amounts (cs + mset es) x =
      ((charged_amounts cs)(d := charged_amounts cs d + sum_list (map ch_bytes es))) x"
    by (simp add: charged_amounts_def)
qed

lemma charged_amounts_remove:
  assumes "c \<in># cs"
  shows "ch_bytes c \<le> charged_amounts cs (ch_domain c)"
    and "charged_amounts (cs - {#c#}) =
      (charged_amounts cs)(ch_domain c := charged_amounts cs (ch_domain c) - ch_bytes c)"
proof -
  obtain cs' where cs: "cs = add_mset c cs'" using assms by (metis mset_add)
  show "ch_bytes c \<le> charged_amounts cs (ch_domain c)" by (simp add: cs charged_amounts_add)
  show "charged_amounts (cs - {#c#}) =
      (charged_amounts cs)(ch_domain c := charged_amounts cs (ch_domain c) - ch_bytes c)"
    by (rule ext) (simp add: cs charged_amounts_add)
qed

lemma amounts_total:
  "reserved_amounts rs LuaHeap + reserved_amounts rs Host = (\<Sum>r\<in>#rs. rv_bytes r)"
  "charged_amounts cs LuaHeap + charged_amounts cs Host = (\<Sum>c\<in>#cs. ch_bytes c)"
proof -
  have dom: "d \<noteq> LuaHeap \<Longrightarrow> d = Host" for d by (cases d) simp_all
  show "reserved_amounts rs LuaHeap + reserved_amounts rs Host = (\<Sum>r\<in>#rs. rv_bytes r)"
    unfolding reserved_amounts_def by (induction rs) (auto dest: dom)
  show "charged_amounts cs LuaHeap + charged_amounts cs Host = (\<Sum>c\<in>#cs. ch_bytes c)"
    unfolding charged_amounts_def by (induction cs) (auto dest: dom)
qed

lemma outstanding_total:
  assumes "system_ok l (w, rs, cs)"
  shows "committed (snapshot (get_cell l w)) + reserved (snapshot (get_cell l w)) =
     (\<Sum>r\<in>#rs. rv_bytes r) + (\<Sum>c\<in>#cs. ch_bytes c)"
  using assms amounts_total(1) [of rs] amounts_total(2) [of cs]
  by (simp add: system_ok_def balances_def)

lemma sum_mset_remove: "x \<in># M \<Longrightarrow> (\<Sum>y\<in>#M - {#x#}. f y) + (f x :: nat) = (\<Sum>y\<in>#M. f y)"
  by (metis (no_types, lifting) add.commute image_mset_add_mset insert_DiffM sum_mset.add_mset)

context quiet_admission
begin

lemma ledger_step_ok:
  assumes "ledger_step l s s'" and "system_ok l s"
  shows "system_ok l s'"
  using assms
proof (cases rule: ledger_step.cases)
  case (step_reserve b d p site w r w' rs cs)
  with assms(2) reserve_at_balances [of w _ _ b d p site "Inr r" w'] show ?thesis
    by (force simp: system_ok_def reserved_amounts_add)
next
  case (step_reserve_refused b d p site w e w' rs cs)
  with assms(2) reserve_at_balances [of w _ _ b d p site "Inl e" w'] show ?thesis
    by (force simp: system_ok_def)
next
  case (step_reserve_vec w n elem ok p site r w' rs cs)
  with assms(2) reserve_vec_balances [of w _ _ n elem ok p site "Inr r" w'] show ?thesis
    by (force simp: system_ok_def reserved_amounts_add)
next
  case (step_reserve_vec_refused w n elem ok p site e w' rs cs)
  with assms(2) reserve_vec_balances [of w _ _ n elem ok p site "Inl e" w'] show ?thesis
    by (force simp: system_ok_def)
next
  case (step_commit r rs w c w' cs)
  with assms(2) commit_charge_balances [of w "reserved_amounts rs" "charged_amounts cs" r]
    reserved_amounts_remove [of r rs] show ?thesis
    by (auto simp: system_ok_def charged_amounts_add dest: in_diffD)
next
  case (step_commit_refused r rs w e w' cs)
  with assms(2) commit_charge_balances [of w "reserved_amounts rs" "charged_amounts cs" r]
    reserved_amounts_remove [of r rs] show ?thesis
    by (auto simp: system_ok_def)
next
  case (step_drop_reservation r rs w cs)
  with assms(2) drop_reservation_balances [of w "reserved_amounts rs" "charged_amounts cs" r]
    reserved_amounts_remove [of r rs] show ?thesis
    by (auto simp: system_ok_def dest: in_diffD)
next
  case (step_drop_charge c cs w rs)
  with assms(2) drop_charge_balances [of w "reserved_amounts rs" "charged_amounts cs" c]
    charged_amounts_remove [of c cs] show ?thesis
    by (auto simp: system_ok_def dest: in_diffD)
next
  case (step_normalize es d ok actual w "next" es' w' rs cs)
  let ?C = "charged_amounts (cs + mset es)"
  have acc: "\<forall>c\<in>set es. ch_ledger c = l \<and> ch_domain c = d"
    using assms(2) step_normalize by (auto simp: system_ok_def)
  have C: "?C = (charged_amounts cs)(d := charged_amounts cs d + sum_list (map ch_bytes es))"
    using charged_amounts_list [of es d] step_normalize by blast
  note nb = normalize_balances [of w "reserved_amounts rs" ?C es d ok actual "Inr next" es' w']
  have "balances (get_cell l w') (reserved_amounts rs) ((charged_amounts cs)(d := charged_amounts cs d + actual))"
    "sum_list (map ch_bytes next) = actual" "\<forall>c\<in>set next. ch_ledger c = l \<and> ch_domain c = d"
    using nb assms(2) step_normalize acc by (simp_all add: system_ok_def C)
  with assms(2) step_normalize charged_amounts_list [of "next" d cs] show ?thesis
    by (auto simp: system_ok_def)
next
  case (step_normalize_refused es d ok actual w e es' w' rs cs)
  let ?C = "charged_amounts (cs + mset es)"
  have acc: "\<forall>c\<in>set es. ch_ledger c = l \<and> ch_domain c = d"
    using assms(2) step_normalize_refused by (auto simp: system_ok_def)
  have C: "?C = (charged_amounts cs)(d := charged_amounts cs d + sum_list (map ch_bytes es))"
    using charged_amounts_list [of es d] step_normalize_refused by blast
  show ?thesis
    using normalize_balances [of w "reserved_amounts rs" ?C es d ok actual "Inl e" es' w']
      assms(2) step_normalize_refused acc by (simp add: system_ok_def C)
next
  case (step_checkpoint p w answer w' rs cs)
  with assms(2) checkpoint_balances [of w _ _ p answer w'] show ?thesis by (force simp: system_ok_def)
qed (auto simp: system_ok_def balances_def fail_once_at_def fail_once_at_ordinal_def
    observe_shared_rss_def set_limit_def Let_def)

lemma ledger_steps_ok: "(ledger_step l)\<^sup>*\<^sup>* s s' \<Longrightarrow> system_ok l s \<Longrightarrow> system_ok l s'"
  by (induction rule: rtranclp_induct) (auto intro: ledger_step_ok)

lemma ledger_step_outstanding:
  assumes "ledger_step l (w, rs, cs) (w', rs', cs')" and "system_ok l (w, rs, cs)"
  shows "committed (snapshot (get_cell l w')) + reserved (snapshot (get_cell l w'))
     \<le> max (limit (snapshot (get_cell l w)))
           (committed (snapshot (get_cell l w)) + reserved (snapshot (get_cell l w)))"
proof -
  have ok: "system_ok l (w', rs', cs')" using assms by (rule ledger_step_ok)
  let ?R = "\<lambda>rs. \<Sum>r\<in>#rs. rv_bytes r" and ?C = "\<lambda>cs. \<Sum>c\<in>#cs. ch_bytes c"
  have bal: "balances (get_cell l w) (reserved_amounts rs) (charged_amounts cs)"
    using assms(2) by (simp add: system_ok_def)
  have "?R rs' + ?C cs' \<le> max (limit (snapshot (get_cell l w))) (?R rs + ?C cs)"
    using assms(1)
  proof (cases rule: ledger_step.cases)
    case (step_reserve b d p site r)
    with reserve_at_balances [OF bal step_reserve(3)] outstanding_total [OF assms(2)] show ?thesis by auto
  next
    case (step_reserve_vec n elem ok p site r)
    with reserve_vec_balances [OF bal step_reserve_vec(4,3)] outstanding_total [OF assms(2)] show ?thesis by auto
  next
    case (step_commit r c)
    then have "ch_bytes c = rv_bytes r"
      by (auto simp: commit_charge_def Let_def split: sum.splits)
    with step_commit sum_mset_remove [of r rs rv_bytes] show ?thesis by simp
  next
    case (step_commit_refused r e)
    with sum_mset_remove [of r rs rv_bytes] show ?thesis by simp
  next
    case (step_drop_reservation r)
    with sum_mset_remove [of r rs rv_bytes] show ?thesis by simp
  next
    case (step_drop_charge c)
    with sum_mset_remove [of c cs ch_bytes] show ?thesis by simp
  next
    case (step_normalize es d ok actual "next" es' cs0)
    have "\<forall>c\<in>set es. ch_ledger c = l \<and> ch_domain c = d"
      using assms(2) step_normalize by (auto simp: system_ok_def)
    moreover have "sum_list (map ch_bytes es) \<le> charged_amounts cs d"
      using charged_amounts_list [of es d cs0] step_normalize by simp
    ultimately have "sum_list (map ch_bytes next) \<le> sum_list (map ch_bytes es)"
      using normalize_balances [OF bal _ _ step_normalize(5)] by auto
    with step_normalize show ?thesis by (simp add: sum_mset_sum_list [symmetric])
  qed simp_all
  then show ?thesis by (simp only: outstanding_total [OF ok] outstanding_total [OF assms(2)])
qed

end

lemma balances_initial: "balances (initial_ledger_state lim) (\<lambda>_. 0) (\<lambda>_. 0)"
  by (simp add: balances_def initial_ledger_state_def)

lemma amounts_empty: "reserved_amounts {#} = (\<lambda>_. 0)" "charged_amounts {#} = (\<lambda>_. 0)"
  by (simp_all add: reserved_amounts_def charged_amounts_def fun_eq_iff)

text \<open>A ledger without host admission meets the contract.\<close>

definition internal_ledger :: "nat \<Rightarrow> 'h ledger" where
  "internal_ledger addr = \<lparr>inner = addr, lg_admission = internal_admission, external_admission = False\<rparr>"

interpretation internal: quiet_admission "internal_ledger addr" for addr
  by unfold_locales (simp_all add: internal_ledger_def internal_admission_def)

lemma system_ok_initial: "get_cell l w0 = initial_ledger_state lim \<Longrightarrow> system_ok l (w0, {#}, {#})"
  by (simp add: system_ok_def amounts_empty balances_initial)


definition example_world :: "unit world" where
  "example_world = \<lparr>cells = (\<lambda>_. initial_ledger_state 64), host = ()\<rparr>"

definition example_site :: allocation_site where
  "example_site = \<lparr>site_file = ''vm.rs'', site_line = 1, site_column = 1\<rparr>"

lemma example_reserve:
  "\<exists>r w. reserve_at (internal_ledger 0) 40 LuaHeap None example_site example_world = (Inr r, w) \<and> rv_bytes r = 40"
  by (simp add: reserve_at_def example_world_def initial_ledger_state_def get_cell_def set_cell_def
      checked_add_usize_def usize_max_def internal_ledger_def internal_admission_def
      publish_reservation_def record_peaks_def Let_def)


text \<open>
  C8: The quota holds: no step of a ledger raises the bytes it has handed out (reserved and
  committed together) above the limit in force, even across normalizations and failures.
\<close>

theorem ledger_within_limit:
  assumes "quiet_admission l" and "get_cell l w0 = initial_ledger_state lim"
    and "(ledger_step l)\<^sup>*\<^sup>* (w0, {#}, {#}) (w, rs, cs)"
    and "ledger_step l (w, rs, cs) (w', rs', cs')"
  shows "committed (snapshot (get_cell l w')) + reserved (snapshot (get_cell l w'))
     \<le> max (limit (snapshot (get_cell l w)))
           (committed (snapshot (get_cell l w)) + reserved (snapshot (get_cell l w)))"
  using quiet_admission.ledger_step_outstanding [OF assms(1,4)]
    quiet_admission.ledger_steps_ok [OF assms(1,3)] system_ok_initial [OF assms(2)] by blast

lemma ledger_within_limit_witness:
  "\<exists>r w. ledger_step (internal_ledger 0) (example_world, {#}, {#}) (w, {#r#}, {#})
     \<and> committed (snapshot (get_cell (internal_ledger 0) w)) + reserved (snapshot (get_cell (internal_ledger 0) w)) \<le> 64"
proof -
  obtain r w where r: "reserve_at (internal_ledger 0) 40 LuaHeap None example_site example_world = (Inr r, w)"
    "rv_bytes r = 40" using example_reserve by blast
  have "ledger_step (internal_ledger 0) (example_world, {#}, {#}) (w, {#r#}, {#})"
    by (rule step_reserve [OF r(1)])
  with ledger_within_limit [OF internal.quiet_admission_axioms _ rtranclp.rtrancl_refl this, of 64]
  show ?thesis by (auto simp: get_cell_def example_world_def initial_ledger_state_def)
qed

text \<open>
  C23: A reservation that was granted can always be committed: in every state a ledger can reach,
  committing a live reservation succeeds and moves exactly its bytes.
\<close>

theorem ledger_commit_succeeds:
  assumes "quiet_admission l" and "get_cell l w0 = initial_ledger_state lim"
    and "(ledger_step l)\<^sup>*\<^sup>* (w0, {#}, {#}) (w, rs, cs)" and "r \<in># rs"
  shows "\<exists>c w'. commit_charge r w = (Inr c, w')
     \<and> committed (snapshot (get_cell l w')) = committed (snapshot (get_cell l w)) + rv_bytes r
     \<and> reserved (snapshot (get_cell l w')) + rv_bytes r = reserved (snapshot (get_cell l w))"
proof -
  have "system_ok l (w, rs, cs)"
    using quiet_admission.ledger_steps_ok [OF assms(1,3)] system_ok_initial [OF assms(2)] by blast
  then have bal: "balances (get_cell l w) (reserved_amounts rs) (charged_amounts cs)" and rl: "rv_ledger r = l"
    using assms(4) by (auto simp: system_ok_def)
  note le = reserved_amounts_remove(1) [OF assms(4)]
  from quiet_admission.commit_charge_balances [OF assms(1) bal rl le] obtain c w'
    where c: "commit_charge r w = (Inr c, w')"
      "balances (get_cell l w') ((reserved_amounts rs)(rv_domain r := reserved_amounts rs (rv_domain r) - rv_bytes r))
         ((charged_amounts cs)(rv_domain r := charged_amounts cs (rv_domain r) + rv_bytes r))"
    by blast
  with bal le show ?thesis by (cases "rv_domain r") (auto simp: balances_def)
qed

lemma ledger_commit_succeeds_witness:
  "\<exists>r w c w'. reserve_at (internal_ledger 0) 40 LuaHeap None example_site example_world = (Inr r, w)
     \<and> commit_charge r w = (Inr c, w') \<and> committed (snapshot (get_cell (internal_ledger 0) w'))
         = committed (snapshot (get_cell (internal_ledger 0) w)) + 40"
proof -
  obtain r w where r: "reserve_at (internal_ledger 0) 40 LuaHeap None example_site example_world = (Inr r, w)"
    "rv_bytes r = 40" using example_reserve by blast
  have "(ledger_step (internal_ledger 0))\<^sup>*\<^sup>* (example_world, {#}, {#}) (w, {#r#}, {#})"
    using step_reserve [OF r(1), of "{#}" "{#}"] by simp
  with ledger_commit_succeeds [OF internal.quiet_admission_axioms _ this, of 64 r] r show ?thesis
    by (auto simp: get_cell_def example_world_def)
qed

end
