(* ===== verification/Gc_State.thy ===== *)
theory Gc_State
  imports Alloc_Ledger
begin

text \<open>
  The state of the garbage collector (\<open>gc/mod.rs\<close>): the paged bit sets that hold occupancy and
  colours of the slots, the search for the next occupied or reusable slot, the encoding of tuning
  parameters in a byte, and the reset of a cycle. An index outside the pages panics in Rust: the
  operations that index directly return \<open>None\<close> there.
\<close>

unbundle bit_operations_syntax

datatype gc_phase = GcPause | RootMark | Propagate | Atomic | Sweep

datatype gc_color = White | Gray | Black

record gc_slot_bits =
  occupied :: u64
  reusable_free :: u64
  gray :: u64
  black :: u64

datatype gc_mode = Incremental | Generational

datatype gc_cycle_kind = Cycle_Full | Cycle_Minor | Cycle_Major

datatype atomic_finalizer_stage = BeforeWeakValues | BeforeSeparation | AfterSeparation

record 'h gc_state =
  automatic_running :: bool
  pause_code :: u8
  stepmul_code :: u8
  stepsize_code :: u8
  minor_mul_code :: u8
  major_minor_code :: u8
  minor_major_code :: u8
  stepsize_exponent :: u8
  major_followup :: bool
  major_threshold_override :: bool
  last_major_lua_heap_bytes :: nat
  cycle_start_lua_heap_bytes :: nat
  cycle_start_reclaimed :: nat
  debt_threshold_override :: "nat option"
  phase :: gc_phase
  gc_mode_of :: gc_mode
  cycle :: gc_cycle_kind
  slot_bits :: "gc_slot_bits list"
  slot_bit_charges :: "'h charge list"
  occupied_count :: nat
  work_capacity :: nat
  work :: "object_ref list"
  roots :: "object_ref list"
  root_cursor :: nat
  remembered_cursor :: nat
  sweep_cursor :: nat
  debt_bytes :: nat
  debt_threshold :: nat
  incremental_debt_threshold :: nat
  major_debt_bytes :: nat
  major_threshold_bytes :: nat
  promotion_survivals :: u8
  remembered :: "object_ref list"
  remembered_charge :: nat
  remembered_charges :: "'h charges"
  barrier_count :: nat
  reclaimed_bytes :: nat
  reclaimed_objects :: nat
  transition_count :: nat
  ephemeron_cursor :: nat
  ephemeron_iterations :: nat
  ephemeron_last_key :: "object_ref option"
  ephemeron_converged :: bool
  weak_cleared_pairs :: nat
  finalizer_stage :: atomic_finalizer_stage
  gc_charge :: nat
  cycle_charges :: "'h charges"
  growth_charges :: "(nat \<times> 'h charge) list"

subsection \<open>Tuning parameters in a byte\<close>

text \<open>
  \<open>code_param\<close> stores a percentage as a four-bit exponent and a four-bit mantissa; the width of
  a \<open>u128\<close> less its leading zeros is \<open>bit_width\<close>.
\<close>

definition code_param :: "int \<Rightarrow> u8" where
  "code_param value =
     (let value = nat (max value 0)
      in if 396800 \<le> value then - 1
         else let scaled = (value * 128 + 99) div 100
              in if scaled < 16 then of_nat scaled
                 else let log = bit_width scaled - 5
                      in of_nat (scaled div 2 ^ log - 16) OR push_bit 4 (of_nat (log + 1)))"

definition saturating_mul_usize :: "nat \<Rightarrow> nat \<Rightarrow> nat" where
  "saturating_mul_usize a b = min (a * b) usize_max"

definition apply_param :: "u8 \<Rightarrow> nat" where
  "apply_param code =
     (let high = unat (drop_bit 4 code);
          mantissa = (if high = 0 then unat code else unat ((code AND 15) + 16) * 2 ^ (high - 1))
      in saturating_mul_usize mantissa 100 div 128)"

definition gc_new :: "lua_profile \<Rightarrow> 'h gc_state" where
  "gc_new profile = \<lparr>
     automatic_running = True,
     pause_code = (case profile of Lua54 \<Rightarrow> 200 div 4 | Lua55 \<Rightarrow> code_param 250),
     stepmul_code = (case profile of Lua54 \<Rightarrow> 100 div 4 | Lua55 \<Rightarrow> code_param 200),
     stepsize_code = code_param 9600,
     minor_mul_code = (case profile of Lua54 \<Rightarrow> 20 | Lua55 \<Rightarrow> code_param 20),
     major_minor_code = code_param 50,
     minor_major_code = (case profile of Lua54 \<Rightarrow> 100 div 4 | Lua55 \<Rightarrow> code_param 70),
     stepsize_exponent = 13, major_followup = False, major_threshold_override = False,
     last_major_lua_heap_bytes = 0, cycle_start_lua_heap_bytes = 0, cycle_start_reclaimed = 0,
     debt_threshold_override = None, phase = GcPause, gc_mode_of = Generational, cycle = Cycle_Full,
     slot_bits = [], slot_bit_charges = [], occupied_count = 0, work_capacity = 0, work = [],
     roots = [], root_cursor = 0, remembered_cursor = 0, sweep_cursor = 0, debt_bytes = 0,
     debt_threshold = 1024 * 1024, incremental_debt_threshold = 1024 * 1024,
     major_debt_bytes = 0, major_threshold_bytes = 4 * 1024 * 1024, promotion_survivals = 2,
     remembered = [], remembered_charge = 0, remembered_charges = [], barrier_count = 0,
     reclaimed_bytes = 0, reclaimed_objects = 0, transition_count = 0, ephemeron_cursor = 0,
     ephemeron_iterations = 0, ephemeron_last_key = None, ephemeron_converged = False,
     weak_cleared_pairs = 0, finalizer_stage = BeforeWeakValues, gc_charge = 0,
     cycle_charges = [], growth_charges = []\<rparr>"

subsection \<open>Slots and colours\<close>

definition slot_mask :: "nat \<Rightarrow> u64" where
  "slot_mask index = push_bit (index mod 64) 1"

definition color :: "'h gc_state \<Rightarrow> nat \<Rightarrow> gc_color option" where
  "color g index =
     (case get_at (slot_bits g) (index div 64) of
        None \<Rightarrow> None
      | Some page \<Rightarrow>
          (let msk = slot_mask index
           in if occupied page AND msk = 0 then None
              else if gray page AND msk \<noteq> 0 then Some Gray
              else if black page AND msk \<noteq> 0 then Some Black
              else Some White))"

definition update_page :: "(gc_slot_bits \<Rightarrow> gc_slot_bits) \<Rightarrow> nat \<Rightarrow> 'h gc_state \<Rightarrow> 'h gc_state option" where
  "update_page f index g =
     (if index div 64 < length (slot_bits g)
      then Some (g\<lparr>slot_bits := (slot_bits g)[index div 64 := f (slot_bits g ! (index div 64))]\<rparr>)
      else None)"

definition color_page :: "u64 \<Rightarrow> gc_color \<Rightarrow> gc_slot_bits \<Rightarrow> gc_slot_bits" where
  "color_page msk c page =
     (let page = page\<lparr>gray := gray page AND NOT msk, black := black page AND NOT msk\<rparr>
      in case c of
           White \<Rightarrow> page
         | Gray \<Rightarrow> page\<lparr>gray := gray page OR msk\<rparr>
         | Black \<Rightarrow> page\<lparr>black := black page OR msk\<rparr>)"

definition set_color :: "'h gc_state \<Rightarrow> nat \<Rightarrow> gc_color \<Rightarrow> 'h gc_state option" where
  "set_color g index c = update_page (color_page (slot_mask index) c) index g"

definition clear_colors :: "'h gc_state \<Rightarrow> 'h gc_state" where
  "clear_colors g = g\<lparr>slot_bits := map (\<lambda>page. page\<lparr>gray := 0, black := 0\<rparr>) (slot_bits g)\<rparr>"

definition publish_page :: "u64 \<Rightarrow> gc_slot_bits \<Rightarrow> gc_slot_bits" where
  "publish_page msk page = page\<lparr>occupied := occupied page OR msk,
     reusable_free := reusable_free page AND NOT msk,
     gray := gray page AND NOT msk, black := black page AND NOT msk\<rparr>"

definition publish_occupied :: "'h gc_state \<Rightarrow> nat \<Rightarrow> 'h gc_state option" where
  "publish_occupied g index =
     map_option (\<lambda>g. g\<lparr>occupied_count := occupied_count g + 1\<rparr>)
       (update_page (publish_page (slot_mask index)) index g)"

definition retire_page :: "u64 \<Rightarrow> bool \<Rightarrow> gc_slot_bits \<Rightarrow> gc_slot_bits" where
  "retire_page msk reusable page = page\<lparr>occupied := occupied page AND NOT msk,
     gray := gray page AND NOT msk, black := black page AND NOT msk,
     reusable_free := (if reusable then reusable_free page OR msk else reusable_free page AND NOT msk)\<rparr>"

definition retire_or_free :: "'h gc_state \<Rightarrow> nat \<Rightarrow> bool \<Rightarrow> 'h gc_state option" where
  "retire_or_free g index reusable =
     map_option (\<lambda>g. g\<lparr>occupied_count := (occupied_count g + usize_max) mod 2 ^ 64\<rparr>)
       (update_page (retire_page (slot_mask index) reusable) index g)"

definition trailing_zeros :: "u64 \<Rightarrow> nat" where
  "trailing_zeros w = length (takeWhile (\<lambda>i. \<not> bit w i) [0..<64])"

text \<open>One page of the search: the bits of the page at and above \<open>offset\<close> and below \<open>end\<close>.\<close>

definition page_bits :: "gc_slot_bits \<Rightarrow> bool \<Rightarrow> nat \<Rightarrow> nat \<Rightarrow> u64" where
  "page_bits page free offset remaining =
     (let bits = (if free then reusable_free page else occupied page) AND push_bit offset (- 1)
      in if remaining < 64 then bits AND (push_bit remaining 1 - 1) else bits)"

function next_bit_loop :: "gc_slot_bits list \<Rightarrow> bool \<Rightarrow> nat \<Rightarrow> nat \<Rightarrow> nat \<Rightarrow> nat option" where
  "next_bit_loop pages free stop page_index offset =
     (if length pages \<le> page_index then None
      else if stop \<le> page_index * 64 then None
      else let bits = page_bits (pages ! page_index) free offset (stop - page_index * 64)
           in if bits \<noteq> 0 then Some (page_index * 64 + trailing_zeros bits)
              else next_bit_loop pages free stop (page_index + 1) 0)"
  by pat_completeness auto
termination
  by (relation "measure (\<lambda>(pages, _, _, i, _). length pages - i)") auto

definition next_bit :: "'h gc_state \<Rightarrow> nat \<Rightarrow> nat \<Rightarrow> bool \<Rightarrow> nat option" where
  "next_bit g start stop free =
     (if stop \<le> start then None
      else next_bit_loop (slot_bits g) free stop (start div 64) (start mod 64))"

definition next_occupied :: "'h gc_state \<Rightarrow> nat \<Rightarrow> nat \<Rightarrow> nat option" where
  "next_occupied g start stop = next_bit g start stop False"

definition next_reusable_free :: "'h gc_state \<Rightarrow> nat \<Rightarrow> nat \<Rightarrow> nat option" where
  "next_reusable_free g start stop = next_bit g start stop True"

text \<open>Popping the pages past the wanted count drops the charge of each with it.\<close>

function pop_pages :: "nat \<Rightarrow> 'h gc_state \<Rightarrow> 'h world \<Rightarrow> 'h gc_state \<times> 'h world" where
  "pop_pages wanted g w =
     (if wanted < length (slot_bits g) then
        (let w = (if slot_bit_charges g = [] then w else drop_charge (last (slot_bit_charges g)) w)
         in pop_pages wanted (g\<lparr>slot_bits := butlast (slot_bits g),
              slot_bit_charges := butlast (slot_bit_charges g)\<rparr>) w)
      else (g, w))"
  by pat_completeness auto
termination
  by (relation "measure (\<lambda>(_, g, _). length (slot_bits g))") auto

definition truncate_slot_pages :: "'h gc_state \<Rightarrow> nat \<Rightarrow> 'h world \<Rightarrow> 'h gc_state \<times> 'h world" where
  "truncate_slot_pages g physical_slots w =
     (let wanted = physical_slots div 64 + (if physical_slots mod 64 \<noteq> 0 then 1 else 0);
          (g, w) = pop_pages wanted g w
      in (if physical_slots mod 64 \<noteq> 0 \<and> slot_bits g \<noteq> []
          then let valid = push_bit (physical_slots mod 64) 1 - 1; page = last (slot_bits g)
               in g\<lparr>slot_bits := butlast (slot_bits g) @ [page\<lparr>reusable_free := reusable_free page AND valid,
                    gray := gray page AND valid, black := black page AND valid\<rparr>]\<rparr>
          else g, w))"

subsection \<open>Phases and cycles\<close>

definition transition :: "'h gc_state \<Rightarrow> gc_phase \<Rightarrow> 'h gc_state" where
  "transition g next =
     (if phase g \<noteq> next then g\<lparr>phase := next, transition_count := transition_count g + 1\<rparr> else g)"

definition clear_cycle :: "'h gc_state \<Rightarrow> 'h world \<Rightarrow> 'h gc_state \<times> 'h world" where
  "clear_cycle g w =
     (let g = clear_colors g;
          w = drop_charges (cycle_charges g) w;
          w = drop_charges (map snd (growth_charges g)) w;
          g = g\<lparr>work := [], roots := [], cycle_charges := [], growth_charges := [], gc_charge := 0,
                work_capacity := 0, root_cursor := 0, remembered_cursor := 0, sweep_cursor := 0,
                ephemeron_cursor := 0, finalizer_stage := BeforeWeakValues, debt_bytes := 0\<rparr>;
          g = (if cycle g \<noteq> Cycle_Minor then g\<lparr>major_debt_bytes := 0\<rparr> else g)
      in (transition g GcPause, w))"

definition clear_remembered :: "'h gc_state \<Rightarrow> 'h world \<Rightarrow> 'h gc_state \<times> 'h world" where
  "clear_remembered g w =
     (g\<lparr>remembered := [], remembered_charges := [], remembered_charge := 0, remembered_cursor := 0\<rparr>,
      drop_charges (remembered_charges g) w)"

subsection \<open>Bits of a slot\<close>

lemma bit_slot_mask: "bit (slot_mask i) n \<longleftrightarrow> n = i mod 64"
  by (auto simp: slot_mask_def bit_simps)

lemma and_slot_mask_zero: "w AND slot_mask i = 0 \<longleftrightarrow> \<not> bit w (i mod 64)"
proof
  assume "w AND slot_mask i = 0"
  then have "\<not> bit (w AND slot_mask i) (i mod 64)" by simp
  then show "\<not> bit w (i mod 64)" by (simp add: bit_and_iff bit_slot_mask)
next
  assume "\<not> bit w (i mod 64)"
  then show "w AND slot_mask i = 0" by (auto intro!: bit_word_eqI simp: bit_and_iff bit_slot_mask)
qed

definition slot_bit :: "'h gc_state \<Rightarrow> (gc_slot_bits \<Rightarrow> u64) \<Rightarrow> nat \<Rightarrow> bool" where
  "slot_bit g field i \<longleftrightarrow> i div 64 < length (slot_bits g) \<and> bit (field (slot_bits g ! (i div 64))) (i mod 64)"

lemma color_slot_bit:
  "color g i = (if slot_bit g occupied i
     then Some (if slot_bit g gray i then Gray else if slot_bit g black i then Black else White)
     else None)"
  by (auto simp: color_def slot_bit_def and_slot_mask_zero Let_def split: option.split)

lemma slot_index_neq: "i \<noteq> j \<Longrightarrow> i div 64 = j div 64 \<Longrightarrow> i mod 64 \<noteq> j mod (64 :: nat)"
  by (metis mod_div_mult_eq)

lemma slot_bit_update:
  assumes "update_page f i g = Some g'"
    and "\<And>page n. bit (field (f page)) n = (if n = i mod 64 then v else bit (field page) n)"
  shows "slot_bit g' field j = (if j = i then v else slot_bit g field j)"
  using assms slot_index_neq [of i j]
  by (auto simp: update_page_def slot_bit_def nth_list_update split: if_splits)

lemma update_page_same:
  "update_page f i g = Some g' \<Longrightarrow> occupied_count g' = occupied_count g \<and> length (slot_bits g') = length (slot_bits g)"
  by (auto simp: update_page_def split: if_splits)

lemma slot_bit_in_range: "slot_bit g field i \<Longrightarrow> i div 64 < length (slot_bits g)"
  by (simp add: slot_bit_def)

lemma bit_color_page:
  "bit (occupied (color_page (slot_mask i) c page)) n = bit (occupied page) n"
  "bit (reusable_free (color_page (slot_mask i) c page)) n = bit (reusable_free page) n"
  "bit (gray (color_page (slot_mask i) c page)) n = (if n = i mod 64 then c = Gray else bit (gray page) n)"
  "bit (black (color_page (slot_mask i) c page)) n = (if n = i mod 64 then c = Black else bit (black page) n)"
  by (cases c; auto simp: color_page_def bit_simps bit_slot_mask Let_def dest: bit_imp_le_length)+

lemma bit_publish_page:
  "bit (occupied (publish_page (slot_mask i) page)) n = (if n = i mod 64 then True else bit (occupied page) n)"
  "bit (reusable_free (publish_page (slot_mask i) page)) n = (if n = i mod 64 then False else bit (reusable_free page) n)"
  "bit (gray (publish_page (slot_mask i) page)) n = (if n = i mod 64 then False else bit (gray page) n)"
  "bit (black (publish_page (slot_mask i) page)) n = (if n = i mod 64 then False else bit (black page) n)"
  by (auto simp: publish_page_def bit_simps bit_slot_mask dest: bit_imp_le_length)

lemma bit_retire_page:
  "bit (occupied (retire_page (slot_mask i) r page)) n = (if n = i mod 64 then False else bit (occupied page) n)"
  "bit (reusable_free (retire_page (slot_mask i) r page)) n = (if n = i mod 64 then r else bit (reusable_free page) n)"
  "bit (gray (retire_page (slot_mask i) r page)) n = (if n = i mod 64 then False else bit (gray page) n)"
  "bit (black (retire_page (slot_mask i) r page)) n = (if n = i mod 64 then False else bit (black page) n)"
  by (auto simp: retire_page_def bit_simps bit_slot_mask dest: bit_imp_le_length)

lemma bit_color_page_occupied:
  "bit (occupied (color_page (slot_mask i) c page)) n = (if n = i mod 64 then bit (occupied page) (i mod 64) else bit (occupied page) n)"
  by (simp add: bit_color_page)

lemma slot_bit_set_color:
  assumes "set_color g i c = Some g'"
  shows "slot_bit g' occupied j = slot_bit g occupied j"
    and "slot_bit g' reusable_free j = slot_bit g reusable_free j"
    and "slot_bit g' gray j = (if j = i then c = Gray else slot_bit g gray j)"
    and "slot_bit g' black j = (if j = i then c = Black else slot_bit g black j)"
proof -
  have u: "update_page (color_page (slot_mask i) c) i g = Some g'" using assms by (simp add: set_color_def)
  then show "slot_bit g' occupied j = slot_bit g occupied j"
    and "slot_bit g' reusable_free j = slot_bit g reusable_free j"
    by (auto simp: update_page_def slot_bit_def nth_list_update bit_color_page split: if_splits)
  show "slot_bit g' gray j = (if j = i then c = Gray else slot_bit g gray j)"
    "slot_bit g' black j = (if j = i then c = Black else slot_bit g black j)"
    by (rule slot_bit_update [OF u], simp add: bit_color_page)+
qed

text \<open>
  The contract of a store of colours: setting the colour of a live slot succeeds and changes that
  slot and no other.
\<close>

locale color_store =
  fixes get :: "'s \<Rightarrow> nat \<Rightarrow> 'c option"
    and put :: "'s \<Rightarrow> nat \<Rightarrow> 'c \<Rightarrow> 's option"
  assumes put_live: "get s i \<noteq> None \<Longrightarrow> put s i c \<noteq> None"
    and get_put: "\<lbrakk>get s i \<noteq> None; put s i c = Some s'\<rbrakk> \<Longrightarrow> get s' j = (if j = i then Some c else get s j)"
begin

fun paint :: "'s \<Rightarrow> nat list \<Rightarrow> 'c \<Rightarrow> 's option" where
  "paint s [] c = Some s"
| "paint s (i # is) c = Option.bind (put s i c) (\<lambda>s'. paint s' is c)"

lemma paint_live:
  assumes "\<forall>i\<in>set is. get s i \<noteq> None"
  shows "\<exists>s'. paint s is c = Some s' \<and> (\<forall>j. get s' j = (if j \<in> set is then Some c else get s j))"
  using assms
proof (induction "is" arbitrary: s)
  case (Cons i "is")
  then obtain s1 where s1: "put s i c = Some s1" using put_live [of s i c] by auto
  have g1: "get s1 j = (if j = i then Some c else get s j)" for j
    using get_put [OF _ s1, of j] Cons.prems by auto
  then have "\<forall>k\<in>set is. get s1 k \<noteq> None" using Cons.prems by auto
  from Cons.IH [OF this] obtain s2 where "paint s1 is c = Some s2"
    "\<forall>j. get s2 j = (if j \<in> set is then Some c else get s1 j)" by blast
  with s1 g1 show ?case by auto
qed simp

lemma put_twice:
  assumes "get s i \<noteq> None" and "put s i c = Some s1" and "put s1 i c' = Some s2"
  shows "get s2 j = (if j = i then Some c' else get s j)"
  using get_put [OF assms(1,2)] get_put [OF _ assms(3)] by auto

end

interpretation gc_colors: color_store color set_color
proof unfold_locales
  fix g :: "'h gc_state" and i c
  show "set_color g i c \<noteq> None" if "color g i \<noteq> None"
    using that by (auto simp: color_slot_bit set_color_def update_page_def slot_bit_def split: if_splits)
  show "color g' j = (if j = i then Some c else color g j)"
    if "color g i \<noteq> None" "set_color g i c = Some g'" for g' j
    using that(1) by (cases c) (auto simp: color_slot_bit slot_bit_set_color [OF that(2)] split: if_splits)
qed

subsection \<open>The search for a slot\<close>

declare next_bit_loop.simps [simp del] pop_pages.simps [simp del]

lemma trailing_zeros_props:
  assumes "w \<noteq> 0"
  shows "bit w (trailing_zeros w)" and "trailing_zeros w < 64" and "j < trailing_zeros w \<Longrightarrow> \<not> bit w j"
proof -
  let ?t = "takeWhile (\<lambda>i. \<not> bit w i) [0..<64]"
  have "\<exists>i<64. bit w i"
  proof (rule ccontr)
    assume "\<not> (\<exists>i<64. bit w i)"
    then have "w = 0" by (intro bit_word_eqI) simp
    with assms show False ..
  qed
  then have ex: "\<exists>i\<in>set [0..<64]. \<not> \<not> bit w i" by auto
  then have len: "length ?t < length [0..<64::nat]"
    by (metis length_takeWhile_le order_le_less takeWhile_eq_all_conv takeWhile_eq_take take_all_iff order_refl)
  then show lt: "trailing_zeros w < 64" by (simp add: trailing_zeros_def)
  have "\<not> \<not> bit w ([0..<64] ! length ?t)" using len by (rule nth_length_takeWhile)
  then show "bit w (trailing_zeros w)" using lt by (simp add: trailing_zeros_def)
  show "j < trailing_zeros w \<Longrightarrow> \<not> bit w j"
  proof -
    assume j: "j < trailing_zeros w"
    then have "?t ! j \<in> set ?t" by (simp add: trailing_zeros_def)
    moreover have "?t ! j = j" using j lt by (simp add: trailing_zeros_def takeWhile_nth)
    ultimately show "\<not> bit w j" by (metis set_takeWhileD)
  qed
qed

lemma bit_page_bits:
  "bit (page_bits page free offset remaining) n \<longleftrightarrow>
     n < 64 \<and> bit (if free then reusable_free page else occupied page) n \<and> offset \<le> n \<and> n < remaining"
proof -
  have m: "push_bit remaining 1 - 1 = (mask remaining :: u64)"
    by (simp add: mask_eq_exp_minus_1 push_bit_eq_mult)
  have "bit w n \<Longrightarrow> n < 64" for w :: u64 using bit_imp_le_length [of w n] by simp
  then show ?thesis unfolding page_bits_def m Let_def by (auto simp: bit_simps)
qed

definition search_field :: "bool \<Rightarrow> gc_slot_bits \<Rightarrow> u64" where
  "search_field free = (if free then reusable_free else occupied)"

definition page_bit :: "gc_slot_bits list \<Rightarrow> bool \<Rightarrow> nat \<Rightarrow> bool" where
  "page_bit pages free i \<longleftrightarrow> i div 64 < length pages \<and> bit (search_field free (pages ! (i div 64))) (i mod 64)"

definition first_bit :: "gc_slot_bits list \<Rightarrow> bool \<Rightarrow> nat \<Rightarrow> nat \<Rightarrow> nat option \<Rightarrow> bool" where
  "first_bit pages free start stop r \<longleftrightarrow> (case r of
     None \<Rightarrow> \<forall>j. start \<le> j \<and> j < stop \<longrightarrow> \<not> page_bit pages free j
   | Some i \<Rightarrow> start \<le> i \<and> i < stop \<and> page_bit pages free i
       \<and> (\<forall>j. start \<le> j \<and> j < i \<longrightarrow> \<not> page_bit pages free j))"

lemma first_bit_extend:
  assumes "first_bit pages free mid stop r" and "lo \<le> mid"
    and "\<And>j. \<lbrakk>lo \<le> j; j < mid; j < stop\<rbrakk> \<Longrightarrow> \<not> page_bit pages free j"
  shows "first_bit pages free lo stop r"
proof (cases r)
  case None
  then show ?thesis using assms unfolding first_bit_def by (simp, metis not_le)
next
  case (Some i)
  then have i: "mid \<le> i" "i < stop" "page_bit pages free i" "\<And>j. mid \<le> j \<Longrightarrow> j < i \<Longrightarrow> \<not> page_bit pages free j"
    using assms(1) by (auto simp: first_bit_def)
  have "\<not> page_bit pages free j" if "lo \<le> j" "j < i" for j
    using assms(3) [of j] i(4) [of j] i(2) that by (cases "mid \<le> j") auto
  with i assms(2) Some show ?thesis by (auto simp: first_bit_def)
qed

lemma page_bit_split:
  assumes "n < 64"
  shows "page_bit pages free (p * 64 + n) \<longleftrightarrow> p < length pages \<and> bit (search_field free (pages ! p)) n"
  using assms by (simp add: page_bit_def)

lemma next_bit_loop_first:
  "offset < 64 \<Longrightarrow> first_bit pages free (page_index * 64 + offset) stop (next_bit_loop pages free stop page_index offset)"
proof (induction pages free stop page_index offset rule: next_bit_loop.induct)
  case (1 pages free stop p offset)
  let ?bits = "page_bits (pages ! p) free offset (stop - p * 64)" and ?lo = "p * 64 + offset"
  note step = next_bit_loop.simps [of pages free stop p offset]
  show ?case
  proof (cases "length pages \<le> p \<or> stop \<le> p * 64")
    case True
    have "\<not> page_bit pages free j" if "?lo \<le> j" "j < stop" for j
    proof -
      have "p \<le> j div 64" using that(1) by (metis add_leD1 div_le_mono nonzero_mult_div_cancel_right zero_neq_numeral)
      then show ?thesis using True that by (auto simp: page_bit_def)
    qed
    with True show ?thesis by (auto simp: step first_bit_def)
  next
    case False
    have bits: "bit ?bits n \<longleftrightarrow> n < 64 \<and> page_bit pages free (p * 64 + n) \<and> offset \<le> n \<and> p * 64 + n < stop" for n
      using False by (auto simp: bit_page_bits page_bit_split search_field_def split: if_splits)
    have here: "page_bit pages free j \<Longrightarrow> ?lo \<le> j \<Longrightarrow> j < stop \<Longrightarrow> j < Suc p * 64 \<Longrightarrow> bit ?bits (j - p * 64)" for j
      unfolding bits by auto
    show ?thesis
    proof (cases "?bits = 0")
      case True
      have rec: "next_bit_loop pages free stop p offset = next_bit_loop pages free stop (p + 1) 0"
        using False True by (simp add: step)
      have rest: "first_bit pages free (Suc p * 64) stop (next_bit_loop pages free stop (p + 1) 0)"
        using "1.IH" [OF _ _ refl] False True by (simp add: add.commute)
      have none: "\<not> page_bit pages free j" if "?lo \<le> j" "j < Suc p * 64" "j < stop" for j
        using here [OF _ that(1,3,2)] True by auto
      show ?thesis unfolding rec
        by (rule first_bit_extend [OF rest _ none]) (use "1.prems" in simp_all)
    next
      case nz: False
      let ?t = "trailing_zeros ?bits"
      have r: "next_bit_loop pages free stop p offset = Some (p * 64 + ?t)"
        using False nz by (simp add: step)
      have t: "page_bit pages free (p * 64 + ?t)" "offset \<le> ?t" "p * 64 + ?t < stop" "?t < 64"
        using trailing_zeros_props(1) [OF nz] unfolding bits by auto
      have "\<not> page_bit pages free j" if "?lo \<le> j" "j < p * 64 + ?t" for j
      proof
        assume "page_bit pages free j"
        then have "bit ?bits (j - p * 64)" using here [of j] that t by auto
        moreover have "j - p * 64 < ?t" using that by auto
        ultimately show False using trailing_zeros_props(3) [OF nz] by blast
      qed
      with r t show ?thesis by (auto simp: first_bit_def)
    qed
  qed
qed

text \<open>
  C25: The search for the next slot finds the first one in the range \<open>[start, stop)\<close> whose bit is
  set, skipping whole pages, and reports none only when there is none.
\<close>

theorem next_bit_first:
  "next_bit g start stop free =
     (let hits = {j. start \<le> j \<and> j < stop \<and> slot_bit g (search_field free) j}
      in if hits = {} then None else Some (Min hits))"
proof -
  let ?hits = "{j. start \<le> j \<and> j < stop \<and> slot_bit g (search_field free) j}"
  have same: "slot_bit g (search_field free) = page_bit (slot_bits g) free"
    by (simp add: slot_bit_def page_bit_def fun_eq_iff)
  have first: "first_bit (slot_bits g) free start stop (next_bit g start stop free)"
  proof (cases "stop \<le> start")
    case True
    then show ?thesis by (auto simp: next_bit_def first_bit_def)
  next
    case False
    have "start div 64 * 64 + start mod 64 = start" by simp
    with next_bit_loop_first [of "start mod 64" "slot_bits g" free "start div 64" stop] False show ?thesis
      by (simp add: next_bit_def)
  qed
  show ?thesis
  proof (cases "next_bit g start stop free")
    case None
    with first show ?thesis by (auto simp: first_bit_def same)
  next
    case (Some i)
    with first have i: "i \<in> ?hits" "\<And>j. j \<in> ?hits \<Longrightarrow> i \<le> j"
      by (auto simp: first_bit_def same dest: leI)
    have "finite ?hits" by (rule finite_subset [of _ "{..<stop}"]) auto
    then have "Min ?hits = i" using i by (intro Min_eqI) auto
    with Some i(1) show ?thesis by (auto simp: Let_def)
  qed
qed

subsection \<open>The invariant of the slot summary\<close>

text \<open>A new summary page, as the heap appends one together with its charge.\<close>

definition push_page :: "'h gc_state \<Rightarrow> 'h charge \<Rightarrow> 'h gc_state" where
  "push_page g c = g\<lparr>slot_bits := slot_bits g @ [\<lparr>occupied = 0, reusable_free = 0, gray = 0, black = 0\<rparr>],
     slot_bit_charges := slot_bit_charges g @ [c]\<rparr>"

definition gc_ok :: "'h gc_state \<Rightarrow> bool" where
  "gc_ok g \<longleftrightarrow> occupied_count g = card {i. slot_bit g occupied i}
     \<and> (\<forall>i. \<not> (slot_bit g occupied i \<and> slot_bit g reusable_free i))
     \<and> (\<forall>i. slot_bit g gray i \<or> slot_bit g black i \<longrightarrow> slot_bit g occupied i)
     \<and> (\<forall>i. \<not> (slot_bit g gray i \<and> slot_bit g black i))
     \<and> 64 * length (slot_bits g) \<le> usize_max"

text \<open>The operations on the summary, guarded by the assertions the code states.\<close>

inductive gc_step :: "'h gc_state \<Rightarrow> 'h gc_state \<Rightarrow> bool" where
  gc_push: "64 * Suc (length (slot_bits g)) \<le> usize_max \<Longrightarrow> gc_step g (push_page g c)"
| gc_publish: "\<lbrakk>\<not> slot_bit g occupied i; publish_occupied g i = Some g'\<rbrakk> \<Longrightarrow> gc_step g g'"
| gc_retire: "\<lbrakk>slot_bit g occupied i; retire_or_free g i r = Some g'\<rbrakk> \<Longrightarrow> gc_step g g'"
| gc_paint: "\<lbrakk>slot_bit g occupied i; set_color g i c = Some g'\<rbrakk> \<Longrightarrow> gc_step g g'"
| gc_clear: "gc_step g (clear_colors g)"
| gc_truncate: "\<lbrakk>n \<le> 64 * length (slot_bits g); \<And>i. slot_bit g occupied i \<Longrightarrow> i < n;
    truncate_slot_pages g n w = (g', w')\<rbrakk> \<Longrightarrow> gc_step g g'"
| gc_transition: "gc_step g (transition g p)"
| gc_clear_cycle: "clear_cycle g w = (g', w') \<Longrightarrow> gc_step g g'"
| gc_clear_remembered: "clear_remembered g w = (g', w') \<Longrightarrow> gc_step g g'"

lemma slot_bit_range: "{i. slot_bit g field i} \<subseteq> {..<64 * length (slot_bits g)}"
  by (auto simp: slot_bit_def div_less_iff_less_mult mult.commute)

lemma finite_slots: "finite {i. slot_bit g field i}"
  by (rule finite_subset [OF slot_bit_range]) simp

lemma slots_bound: "card {i. slot_bit g field i} \<le> 64 * length (slot_bits g)"
  using card_mono [OF _ slot_bit_range [of g field]] by simp

lemma gc_ok_shrink:
  assumes "gc_ok g" and "\<And>i. slot_bit g' occupied i = slot_bit g occupied i"
    and "\<And>i. slot_bit g' reusable_free i \<Longrightarrow> slot_bit g reusable_free i"
    and "\<And>i. slot_bit g' gray i \<Longrightarrow> slot_bit g gray i"
    and "\<And>i. slot_bit g' black i \<Longrightarrow> slot_bit g black i"
    and "occupied_count g' = occupied_count g" and "length (slot_bits g') \<le> length (slot_bits g)"
  shows "gc_ok g'"
proof -
  have "slot_bit g' occupied = slot_bit g occupied" using assms(2) by (simp add: fun_eq_iff)
  then show ?thesis using assms(1,3-7) unfolding gc_ok_def
    by simp (meson le_trans mult_le_mono2)
qed

lemma gc_ok_same:
  assumes "gc_ok g" and "slot_bits g' = slot_bits g" and "occupied_count g' = occupied_count g"
  shows "gc_ok g'"
  using assms by (intro gc_ok_shrink [OF assms(1)]) (simp_all add: slot_bit_def)

lemma gc_ok_clear_colors: "gc_ok g \<Longrightarrow> gc_ok (clear_colors g)"
  by (rule gc_ok_shrink) (auto simp: slot_bit_def clear_colors_def)

lemma slot_bit_push:
  assumes "field \<lparr>occupied = 0, reusable_free = 0, gray = 0, black = 0\<rparr> = 0"
  shows "slot_bit (push_page g c) field i = slot_bit g field i"
  using assms by (auto simp: slot_bit_def push_page_def nth_append less_Suc_eq)

lemma publish_slot_bits:
  assumes "publish_occupied g i = Some g'"
  shows "slot_bit g' occupied j = (j = i \<or> slot_bit g occupied j)"
    "slot_bit g' reusable_free j = (j \<noteq> i \<and> slot_bit g reusable_free j)"
    "slot_bit g' gray j = (j \<noteq> i \<and> slot_bit g gray j)"
    "slot_bit g' black j = (j \<noteq> i \<and> slot_bit g black j)"
    "occupied_count g' = occupied_count g + 1" "length (slot_bits g') = length (slot_bits g)"
proof -
  obtain h where h: "update_page (publish_page (slot_mask i)) i g = Some h"
    "g' = h\<lparr>occupied_count := occupied_count h + 1\<rparr>"
    using assms by (auto simp: publish_occupied_def)
  have sb: "slot_bit g' f j = slot_bit h f j" for f by (simp add: h(2) slot_bit_def)
  show "slot_bit g' occupied j = (j = i \<or> slot_bit g occupied j)"
    "slot_bit g' reusable_free j = (j \<noteq> i \<and> slot_bit g reusable_free j)"
    "slot_bit g' gray j = (j \<noteq> i \<and> slot_bit g gray j)"
    "slot_bit g' black j = (j \<noteq> i \<and> slot_bit g black j)"
    unfolding sb using slot_bit_update [OF h(1), of _ _ j] by (simp_all add: bit_publish_page)
  show "occupied_count g' = occupied_count g + 1" "length (slot_bits g') = length (slot_bits g)"
    using update_page_same [OF h(1)] by (simp_all add: h(2))
qed

lemma retire_slot_bits:
  assumes "retire_or_free g i r = Some g'"
  shows "slot_bit g' occupied j = (j \<noteq> i \<and> slot_bit g occupied j)"
    "slot_bit g' reusable_free j = (if j = i then r else slot_bit g reusable_free j)"
    "slot_bit g' gray j = (j \<noteq> i \<and> slot_bit g gray j)"
    "slot_bit g' black j = (j \<noteq> i \<and> slot_bit g black j)"
    "occupied_count g' = (occupied_count g + usize_max) mod 2 ^ 64" "length (slot_bits g') = length (slot_bits g)"
proof -
  obtain h where h: "update_page (retire_page (slot_mask i) r) i g = Some h"
    "g' = h\<lparr>occupied_count := (occupied_count h + usize_max) mod 2 ^ 64\<rparr>"
    using assms by (auto simp: retire_or_free_def)
  have sb: "slot_bit g' f j = slot_bit h f j" for f by (simp add: h(2) slot_bit_def)
  show "slot_bit g' occupied j = (j \<noteq> i \<and> slot_bit g occupied j)"
    "slot_bit g' reusable_free j = (if j = i then r else slot_bit g reusable_free j)"
    "slot_bit g' gray j = (j \<noteq> i \<and> slot_bit g gray j)"
    "slot_bit g' black j = (j \<noteq> i \<and> slot_bit g black j)"
    unfolding sb using slot_bit_update [OF h(1), of _ _ j] by (simp_all add: bit_retire_page)
  show "occupied_count g' = (occupied_count g + usize_max) mod 2 ^ 64" "length (slot_bits g') = length (slot_bits g)"
    using update_page_same [OF h(1)] by (simp_all add: h(2))
qed

lemma pop_pages_take:
  "slot_bits (fst (pop_pages wanted g w)) = take wanted (slot_bits g)
   \<and> occupied_count (fst (pop_pages wanted g w)) = occupied_count g"
proof (induction wanted g w rule: pop_pages.induct)
  case (1 wanted g w)
  show ?case
  proof (cases "wanted < length (slot_bits g)")
    case True
    with "1.IH" [OF True refl] show ?thesis
      by (simp add: pop_pages.simps [of wanted g w] Let_def butlast_conv_take min_absorb1)
  qed (simp add: pop_pages.simps [of wanted g w])
qed

definition valid_page :: "u64 \<Rightarrow> gc_slot_bits \<Rightarrow> gc_slot_bits" where
  "valid_page v page = page\<lparr>reusable_free := reusable_free page AND v, gray := gray page AND v,
     black := black page AND v\<rparr>"

lemma truncate_pages:
  assumes "truncate_slot_pages g n w = (g', w')" and "n \<le> 64 * length (slot_bits g)"
  shows "occupied_count g' = occupied_count g
     \<and> slot_bits g' = (if n mod 64 = 0 then take (n div 64) (slot_bits g)
          else (take (Suc (n div 64)) (slot_bits g))
             [n div 64 := valid_page (push_bit (n mod 64) 1 - 1) (slot_bits g ! (n div 64))])"
proof -
  obtain h w1 where h: "pop_pages (n div 64 + (if n mod 64 \<noteq> 0 then 1 else 0)) g w = (h, w1)" by fastforce
  have take: "slot_bits h = take (n div 64 + (if n mod 64 \<noteq> 0 then 1 else 0)) (slot_bits g)"
    "occupied_count h = occupied_count g"
    using pop_pages_take [of "n div 64 + (if n mod 64 \<noteq> 0 then 1 else 0)" g w] by (simp_all only: h fst_conv)
  show ?thesis
  proof (cases "n mod 64 = 0")
    case True
    with assms(1) h take show ?thesis by (auto simp: truncate_slot_pages_def Let_def)
  next
    case False
    then have lt: "n div 64 < length (slot_bits g)"
      using assms(2) by (cases "n = 64 * length (slot_bits g)") (simp_all add: div_less_iff_less_mult mult.commute)
    then have split: "take (Suc (n div 64)) (slot_bits g) = take (n div 64) (slot_bits g) @ [slot_bits g ! (n div 64)]"
      by (rule take_Suc_conv_app_nth)
    with False assms(1) h take lt show ?thesis
      by (auto simp: truncate_slot_pages_def Let_def valid_page_def list_update_append)
  qed
qed

lemma truncate_nth:
  assumes "truncate_slot_pages g n w = (g', w')" and "n \<le> 64 * length (slot_bits g)"
  shows "length (slot_bits g') = min (n div 64 + (if n mod 64 \<noteq> 0 then 1 else 0)) (length (slot_bits g))"
    and "p < length (slot_bits g') \<Longrightarrow> \<exists>v. slot_bits g' ! p = valid_page v (slot_bits g ! p) \<or> slot_bits g' ! p = slot_bits g ! p"
proof -
  note tp = truncate_pages [OF assms, THEN conjunct2]
  show "length (slot_bits g') = min (n div 64 + (if n mod 64 \<noteq> 0 then 1 else 0)) (length (slot_bits g))"
    unfolding tp by (simp add: min.commute)
  show "p < length (slot_bits g') \<Longrightarrow> \<exists>v. slot_bits g' ! p = valid_page v (slot_bits g ! p) \<or> slot_bits g' ! p = slot_bits g ! p"
    unfolding tp by (cases "p = n div 64") auto
qed

lemma bit_valid_page:
  "occupied (valid_page v page) = occupied page"
  "bit (reusable_free (valid_page v page)) n \<Longrightarrow> bit (reusable_free page) n"
  "bit (gray (valid_page v page)) n \<Longrightarrow> bit (gray page) n"
  "bit (black (valid_page v page)) n \<Longrightarrow> bit (black page) n"
  by (simp_all add: valid_page_def bit_and_iff)

lemma truncate_slot_bits:
  assumes "truncate_slot_pages g n w = (g', w')" and "n \<le> 64 * length (slot_bits g)"
    and "\<And>i. slot_bit g occupied i \<Longrightarrow> i < n"
  shows "slot_bit g' occupied i = slot_bit g occupied i"
    and "slot_bit g' reusable_free i \<Longrightarrow> slot_bit g reusable_free i"
    and "slot_bit g' gray i \<Longrightarrow> slot_bit g gray i"
    and "slot_bit g' black i \<Longrightarrow> slot_bit g black i"
    and "length (slot_bits g') \<le> length (slot_bits g)"
proof -
  note len = truncate_nth(1) [OF assms(1,2)] and nth = truncate_nth(2) [OF assms(1,2), of "i div 64"]
  have "i div 64 < n div 64 + (if n mod 64 \<noteq> 0 then 1 else 0)" if "i < n"
  proof (cases "n mod 64 = 0")
    case True
    then have "n div 64 * 64 = n" by (simp add: mod_eq_0_iff_dvd)
    with True that show ?thesis by (simp add: div_less_iff_less_mult)
  next
    case False
    have "i div 64 \<le> n div 64" using that by (simp add: div_le_mono)
    with False show ?thesis by simp
  qed
  then have "i div 64 < length (slot_bits g')" if "slot_bit g occupied i"
    using assms(3) [OF that] slot_bit_in_range [OF that] by (simp add: len)
  moreover have "slot_bit g' occupied i \<longleftrightarrow> i div 64 < length (slot_bits g') \<and> slot_bit g occupied i"
    using nth len by (auto simp: slot_bit_def bit_valid_page)
  ultimately show "slot_bit g' occupied i = slot_bit g occupied i" by blast
  show "slot_bit g' reusable_free i \<Longrightarrow> slot_bit g reusable_free i"
    "slot_bit g' gray i \<Longrightarrow> slot_bit g gray i" "slot_bit g' black i \<Longrightarrow> slot_bit g black i"
    "length (slot_bits g') \<le> length (slot_bits g)"
    using nth len by (auto simp: slot_bit_def dest: bit_valid_page(2-4))
qed

lemma gc_step_ok: "gc_step g g' \<Longrightarrow> gc_ok g \<Longrightarrow> gc_ok g'"
proof (induction rule: gc_step.induct)
  case (gc_push g c)
  then show ?case by (simp add: gc_ok_def slot_bit_push) (simp add: push_page_def)
next
  case (gc_publish g i g')
  have "{j. slot_bit g' occupied j} = insert i {j. slot_bit g occupied j}"
    by (auto simp: publish_slot_bits [OF gc_publish(2)])
  then have "card {j. slot_bit g' occupied j} = Suc (card {j. slot_bit g occupied j})"
    using gc_publish(1) finite_slots [of g occupied] by simp
  then show ?case using gc_publish by (auto simp: gc_ok_def publish_slot_bits [OF gc_publish(2)])
next
  case (gc_retire g i r g')
  have "{j. slot_bit g' occupied j} = {j. slot_bit g occupied j} - {i}"
    by (auto simp: retire_slot_bits [OF gc_retire(2)])
  then have c: "card {j. slot_bit g' occupied j} = card {j. slot_bit g occupied j} - 1"
    and pos: "0 < card {j. slot_bit g occupied j}"
    using gc_retire(1) finite_slots [of g occupied] by (auto simp: card_gt_0_iff)
  have le: "card {j. slot_bit g occupied j} \<le> usize_max"
    using slots_bound [of g occupied] gc_retire(3) by (simp add: gc_ok_def)
  have "(c + usize_max) mod 2 ^ 64 = c - 1" if "0 < c" "c \<le> usize_max" for c
    using that by (simp add: usize_max_def mod_if)
  then have "(occupied_count g + usize_max) mod 2 ^ 64 = card {j. slot_bit g occupied j} - 1"
    using pos le gc_retire(3) by (simp add: gc_ok_def)
  then show ?case using gc_retire c by (auto simp: gc_ok_def retire_slot_bits [OF gc_retire(2)])
next
  case (gc_paint g i c g')
  have "occupied_count g' = occupied_count g \<and> length (slot_bits g') = length (slot_bits g)"
    using gc_paint(2) update_page_same by (auto simp: set_color_def)
  with gc_paint show ?case by (auto simp: gc_ok_def slot_bit_set_color [OF gc_paint(2)])
next
  case (gc_clear g)
  then show ?case by (rule gc_ok_clear_colors)
next
  case (gc_truncate n g w g' w')
  note tr = truncate_slot_bits [OF gc_truncate(3,1,2)]
  show ?case using gc_truncate(4)
    by (rule gc_ok_shrink) (use tr truncate_pages [OF gc_truncate(3,1)] in auto)
next
  case (gc_transition g p)
  then show ?case by (rule gc_ok_same) (simp_all add: transition_def)
next
  case (gc_clear_cycle g w g' w')
  from gc_ok_clear_colors [OF gc_clear_cycle(2)] show ?case
    by (rule gc_ok_same) (use gc_clear_cycle(1) in \<open>auto simp: clear_cycle_def transition_def Let_def\<close>)
next
  case (gc_clear_remembered g w g' w')
  from gc_clear_remembered(2) show ?case
    by (rule gc_ok_same) (use gc_clear_remembered(1) in \<open>auto simp: clear_remembered_def\<close>)
qed

lemma gc_ok_new: "gc_ok (gc_new profile)"
  by (simp add: gc_ok_def gc_new_def slot_bit_def)

text \<open>
  C24: From a new collector, whatever sequence of page growth, allocation, freeing, painting, clearing and
  truncation the summary goes through (each under the assertion the code states), the occupied
  count is the number of occupied slots, no slot is both occupied and free for reuse, only
  occupied slots carry a colour, and no slot is gray and black at once.
\<close>

theorem gc_summary_consistent:
  assumes "gc_step\<^sup>*\<^sup>* (gc_new profile) g"
  shows "occupied_count g = card {i. color g i \<noteq> None}
     \<and> \<not> (slot_bit g occupied i \<and> slot_bit g reusable_free i)
     \<and> \<not> (slot_bit g gray i \<and> slot_bit g black i)
     \<and> (slot_bit g gray i \<or> slot_bit g black i \<longrightarrow> color g i \<noteq> None)"
proof -
  have "gc_ok g" using assms by (induction rule: rtranclp_induct) (auto intro: gc_ok_new gc_step_ok)
  moreover have "{i. color g i \<noteq> None} = {i. slot_bit g occupied i}" by (auto simp: color_slot_bit)
  ultimately show ?thesis by (auto simp: gc_ok_def color_slot_bit)
qed

lemma gc_summary_consistent_witness:
  "\<exists>g :: unit gc_state. gc_step\<^sup>*\<^sup>* (gc_new Lua54) g \<and> length (slot_bits g) = 1
     \<and> occupied_count g = card {i. color g i \<noteq> None}"
proof -
  define c :: "unit charge" where "c = \<lparr>ch_ledger = internal_ledger 0, ch_bytes = 0, ch_domain = LuaHeap, ch_token = None\<rparr>"
  have "gc_step (gc_new Lua54) (push_page (gc_new Lua54) c)"
    by (rule gc_push) (simp add: gc_new_def usize_max_def)
  then have r: "gc_step\<^sup>*\<^sup>* (gc_new Lua54) (push_page (gc_new Lua54) c)" by simp
  moreover have "length (slot_bits (push_page (gc_new Lua54) c)) = 1" by (simp add: push_page_def gc_new_def)
  ultimately show ?thesis using gc_summary_consistent [OF r] by blast
qed

subsection \<open>Painting and resetting\<close>

text \<open>
  Painting a live slot succeeds and changes the colour of that slot only, and leaves the
  occupied count as it was.
\<close>

theorem set_color_exact:
  assumes "color g i \<noteq> None"
  shows "\<exists>g'. set_color g i c = Some g' \<and> occupied_count g' = occupied_count g
     \<and> color g' j = (if j = i then Some c else color g j)"
proof -
  obtain g' where g': "set_color g i c = Some g'" using gc_colors.put_live [OF assms] by blast
  then show ?thesis
    using gc_colors.get_put [OF assms g', of j] update_page_same by (auto simp: set_color_def)
qed

definition one_slot :: "unit gc_state" where
  "one_slot = (gc_new Lua54)\<lparr>slot_bits := [\<lparr>occupied = 1, reusable_free = 0, gray = 0, black = 0\<rparr>],
     occupied_count := 1\<rparr>"

text \<open>
  Ending a cycle leaves every live slot white, the collector in its pause phase with empty work
  lists and no debt, and gives the charges of the cycle back to their ledger.
\<close>

theorem clear_cycle_resets:
  "color (fst (clear_cycle g w)) i = (if color g i = None then None else Some White)
   \<and> phase (fst (clear_cycle g w)) = GcPause
   \<and> work (fst (clear_cycle g w)) = [] \<and> roots (fst (clear_cycle g w)) = []
   \<and> debt_bytes (fst (clear_cycle g w)) = 0
   \<and> occupied_count (fst (clear_cycle g w)) = occupied_count g
   \<and> snd (clear_cycle g w) = drop_charges (cycle_charges g @ map snd (growth_charges g)) w"
proof -
  have "slot_bits (fst (clear_cycle g w)) = slot_bits (clear_colors g)"
    by (simp add: clear_cycle_def transition_def Let_def)
  then have "color (fst (clear_cycle g w)) i = (if color g i = None then None else Some White)"
    by (auto simp: color_slot_bit slot_bit_def clear_colors_def)
  then show ?thesis
    by (simp add: clear_cycle_def transition_def Let_def clear_colors_def drop_charges_def)
qed

subsection \<open>Coding parameters\<close>

lemma bit_nat_less: "m < 2 ^ k \<Longrightarrow> bit m n \<Longrightarrow> n < k" for m :: nat
proof (rule ccontr)
  assume m: "m < 2 ^ k" "bit m n" and "\<not> n < k"
  then have "(2 :: nat) ^ k \<le> 2 ^ n" by (simp add: power_increasing)
  with m(1) have "m < 2 ^ n" by (rule less_le_trans)
  with m(2) show False by (simp add: bit_nat_def)
qed

lemma unat_u8_of_nat: "n < 256 \<Longrightarrow> unat (of_nat n :: u8) = n"
  by (simp add: unsigned_of_nat take_bit_nat_eq_self)

lemma code_word:
  assumes "m < 16"
  shows "(of_nat m OR push_bit 4 (of_nat k) :: u8) = of_nat (m + 16 * k)"
proof -
  have "(of_nat m AND push_bit 4 (of_nat k) :: u8) = 0"
    using assms by (auto intro!: bit_word_eqI simp: bit_simps dest: bit_nat_less [of m 4, simplified])
  then have "(of_nat m OR push_bit 4 (of_nat k) :: u8) = of_nat m + push_bit 4 (of_nat k)"
    by (simp add: disjunctive_add_eq_or)
  then show ?thesis by (simp add: push_bit_eq_mult mult.commute)
qed

lemma apply_param_code:
  assumes "m < 16" and "0 < k" and "k < 16"
  shows "apply_param (of_nat (m + 16 * k)) = (m + 16) * 2 ^ (k - 1) * 100 div 128"
proof -
  have u: "unat (of_nat (m + 16 * k) :: u8) = m + 16 * k"
    using assms by (intro unat_u8_of_nat) simp
  have high: "unat (drop_bit 4 (of_nat (m + 16 * k) :: u8)) = k"
    using assms by (simp only: unat_drop_bit_eq u) (simp add: drop_bit_eq_div)
  have "unat (take_bit 4 (of_nat (m + 16 * k) :: u8)) = m"
    using assms(1) by (simp only: unsigned_take_bit_eq u) (simp add: take_bit_eq_mod)
  moreover have "(of_nat (m + 16 * k) :: u8) AND 15 = take_bit 4 (of_nat (m + 16 * k))"
    by (simp add: take_bit_eq_mask mask_eq_exp_minus_1)
  ultimately have "unat ((of_nat (m + 16 * k) :: u8) AND 15) = unat (of_nat m :: u8)"
    using assms(1) unat_u8_of_nat [of m] by simp
  then have "(of_nat (m + 16 * k) :: u8) AND 15 = of_nat m" by (rule unsigned_word_eqI)
  then have low: "unat (((of_nat (m + 16 * k) :: u8) AND 15) + 16) = m + 16"
    using assms(1) unat_u8_of_nat [of "m + 16"] by simp
  have "(m + 16) * 2 ^ (k - 1) * 100 \<le> 31 * 2 ^ 14 * 100"
    using assms by (intro mult_le_mono power_increasing) simp_all
  then have "(m + 16) * 2 ^ (k - 1) * 100 \<le> usize_max" by (simp add: usize_max_def)
  then show ?thesis
    using assms(2) by (simp only: apply_param_def high low saturating_mul_usize_def Let_def min_absorb1) simp
qed

lemma apply_param_small: "n < 16 \<Longrightarrow> apply_param (of_nat n) = n * 100 div 128"
proof -
  assume n: "n < 16"
  then have u: "unat (of_nat n :: u8) = n" by (intro unat_u8_of_nat) simp
  have "unat (drop_bit 4 (of_nat n :: u8)) = 0"
    using n by (simp only: unat_drop_bit_eq u) (simp add: drop_bit_eq_div)
  then show ?thesis using n
    by (simp only: apply_param_def u saturating_mul_usize_def Let_def) (simp add: usize_max_def)
qed

text \<open>
  C26: Storing a percentage in a byte and reading it back never exceeds the percentage and
  loses at most a sixteenth of it (and rounding); percentages of 396800 and more read back as the
  largest representable value.
\<close>

theorem code_param_bounds:
  assumes "0 \<le> v" and "v < 396800"
  shows "int (apply_param (code_param v)) \<le> v \<and> 16 * v \<le> 17 * int (apply_param (code_param v)) + 16"
proof -
  define n where "n = nat v"
  define s where "s = (n * 128 + 99) div 100"
  have v: "v = int n" "n < 396800" using assms by (simp_all add: n_def)
  have s1: "n * 128 \<le> s * 100" "s * 100 \<le> n * 128 + 99" unfolding s_def by linarith+
  have code: "code_param v = (if s < 16 then of_nat s
      else of_nat (s div 2 ^ (bit_width s - 5) - 16) OR push_bit 4 (of_nat (bit_width s - 5 + 1)))"
    using v by (simp add: code_param_def Let_def s_def)
  show ?thesis
  proof (cases "s < 16")
    case True
    then have "apply_param (code_param v) = s * 100 div 128" by (simp add: code apply_param_small)
    then show ?thesis using s1 v by auto
  next
    case False
    define k where "k = bit_width s - 5"
    have lo: "2 ^ (bit_width s - 1) \<le> s" and hi: "s < 2 ^ bit_width s"
      using False bit_width_lower [of s] bit_width_upper [of s] by simp_all
    have "\<not> bit_width s \<le> 4"
      using False hi power_increasing [of "bit_width s" 4 "2 :: nat"] by auto
    then have w: "bit_width s = k + 5" by (simp add: k_def)
    have "(2 :: nat) ^ (bit_width s - 1) < 2 ^ 19" using lo s1 v(2) by simp
    then have "bit_width s - 1 < 19" by (rule power_less_imp_less_exp [rotated]) simp
    then have k14: "k \<le> 14" using w by simp
    define m where "m = s div 2 ^ k"
    have b: "16 * 2 ^ k \<le> s" "s < 32 * 2 ^ k" using lo hi by (simp_all add: w power_add)
    then have m: "16 \<le> m" "m < 32"
      by (simp_all add: m_def less_eq_div_iff_mult_less_eq div_less_iff_less_mult)
    have ms: "m * 2 ^ k \<le> s" "s < m * 2 ^ k + 2 ^ k"
      unfolding m_def using dividend_less_div_times [of "2 ^ k" s] by (simp_all add: div_times_less_eq_dividend add.commute)
    have "code_param v = of_nat ((m - 16) + 16 * (k + 1))"
      using False m code_word [of "m - 16" "k + 1"] by (simp only: code if_False m_def k_def)
    then have a: "apply_param (code_param v) = m * 2 ^ k * 100 div 128"
      using apply_param_code [of "m - 16" "k + 1"] m k14 by simp
    have "16 * 2 ^ k \<le> m * 2 ^ k" using m(1) by simp
    then have "16 * s \<le> 17 * (m * 2 ^ k)" using ms(2) by linarith
    then have "16 * n \<le> 17 * (m * 2 ^ k * 100 div 128) + 16" "m * 2 ^ k * 100 div 128 \<le> n"
      using s1 ms(1) by linarith+
    then have "apply_param (code_param v) \<le> n" "16 * n \<le> 17 * apply_param (code_param v) + 16"
      by (simp_all only: a)
    then show ?thesis using v(1) by linarith
  qed
qed

lemma code_param_bounds_witness:
  "int (apply_param (code_param 250)) \<le> 250 \<and> 16 * 250 \<le> 17 * int (apply_param (code_param 250)) + 16"
  by (rule code_param_bounds) simp_all

end
