(* ===== verification/Root_Set.thy ===== *)
theory Root_Set
  imports Alloc_Ledger
begin

text \<open>
  The strong roots of a virtual machine (\<open>roots.rs\<close>): registered objects with identities that
  are never reused, each paid for by a charge of the allocation ledger. A root of the host shares a
  lease with its handle; leases are shared cells, kept in a store by address. The sizes of the
  entries (\<open>size_of\<close>) and the answers of the allocator are arguments.
\<close>

datatype root_kind = Root_Stack | Root_Registry | Root_Global | Root_Temporary | Root_Coroutine | Root_Host

record root_id =
  ri_vm :: vm_id
  ri_sequence :: u64

record 'h root_entry =
  re_id :: root_id
  re_kind :: root_kind
  re_object :: object_ref
  re_lease :: "nat option"
  re_charge :: "'h charge option"

record 'h lease =
  ls_active :: bool
  ls_charge :: "'h charge option"

record 'h root_world =
  rw_world :: "'h world"
  rw_leases :: "nat \<Rightarrow> 'h lease"

record 'h root_set =
  rt_vm :: vm_id
  rt_entries :: "'h root_entry list"
  rt_next_sequence :: u64

datatype root_error = Root_Vm vm_error | RootIdExhausted | WrongVm | StaleRoot

definition entry_active :: "(nat \<Rightarrow> 'h lease) \<Rightarrow> 'h root_entry \<Rightarrow> bool" where
  "entry_active leases e = (case re_lease e of None \<Rightarrow> True | Some a \<Rightarrow> ls_active (leases a))"

text \<open>Taking a charge out of its cell drops it.\<close>

definition drop_charge_option :: "'h charge option \<Rightarrow> 'h world \<Rightarrow> 'h world" where
  "drop_charge_option c w = (case c of None \<Rightarrow> w | Some c \<Rightarrow> drop_charge c w)"

definition deactivate :: "nat \<Rightarrow> 'h root_world \<Rightarrow> 'h root_world" where
  "deactivate a rw =
     (let l = rw_leases rw a; off = l\<lparr>ls_active := False\<rparr>
      in if ls_active l
         then rw\<lparr>rw_leases := (rw_leases rw)(a := off\<lparr>ls_charge := None\<rparr>),
                 rw_world := drop_charge_option (ls_charge l) (rw_world rw)\<rparr>
         else rw\<lparr>rw_leases := (rw_leases rw)(a := off)\<rparr>)"

definition root_set_new :: "vm_id \<Rightarrow> 'h root_set" where
  "root_set_new vm = \<lparr>rt_vm = vm, rt_entries = [], rt_next_sequence = 1\<rparr>"

definition next_id :: "'h root_set \<Rightarrow> (root_error, root_id) result" where
  "next_id rs = (if rt_next_sequence rs = - 1 then Inl RootIdExhausted
                 else Inr \<lparr>ri_vm = rt_vm rs, ri_sequence = rt_next_sequence rs\<rparr>)"

definition compact :: "'h root_world \<Rightarrow> 'h root_set \<Rightarrow> 'h root_set" where
  "compact rw rs = rs\<lparr>rt_entries := filter (entry_active (rw_leases rw)) (rt_entries rs)\<rparr>"

text \<open>
  Reserving and committing the charge of an entry, with the fail points the code checks before
  and after growing the vector; on each early return the ticket is dropped.
\<close>

definition root_charge ::
  "'h ledger \<Rightarrow> nat \<Rightarrow> bool \<Rightarrow> bool \<Rightarrow> allocation_site \<Rightarrow> 'h world \<Rightarrow> (vm_error, 'h charge) result \<times> 'h world" where
  "root_charge l bytes allocator_ok lease_point site w =
     (case reserve l bytes site w of
        (Inl e, w) \<Rightarrow> (Inl e, w)
      | (Inr ticket, w) \<Rightarrow>
          (case checkpoint l RootReserve w of
             (Inl e, w) \<Rightarrow> (Inl e, drop_reservation ticket w)
           | (Inr _, w) \<Rightarrow>
               if \<not> allocator_ok
               then (let (e, w) = rust_reserve_failure ticket w in (Inl e, drop_reservation ticket w))
               else if lease_point
               then (case checkpoint l HostLease w of
                       (Inl e, w) \<Rightarrow> (Inl e, drop_reservation ticket w)
                     | (Inr _, w) \<Rightarrow> commit_charge ticket w)
               else commit_charge ticket w))"

definition root_add ::
  "nat \<Rightarrow> bool \<Rightarrow> allocation_site \<Rightarrow> 'h ledger \<Rightarrow> root_kind \<Rightarrow> object_ref \<Rightarrow> 'h root_set \<Rightarrow> 'h root_world \<Rightarrow>
     (root_error, root_id) result \<times> 'h root_set \<times> 'h root_world" where
  "root_add entry_size allocator_ok site l kind object rs rw =
     (let rs = compact rw rs
      in case next_id rs of
           Inl e \<Rightarrow> (Inl e, rs, rw)
         | Inr rid \<Rightarrow>
             (case root_charge l entry_size allocator_ok False site (rw_world rw) of
                (Inl e, w) \<Rightarrow> (Inl (Root_Vm e), rs, rw\<lparr>rw_world := w\<rparr>)
              | (Inr c, w) \<Rightarrow>
                  (Inr rid, rs\<lparr>rt_next_sequence := rt_next_sequence rs + 1,
                     rt_entries := rt_entries rs @ [\<lparr>re_id = rid, re_kind = kind, re_object = object,
                                                     re_lease = None, re_charge = Some c\<rparr>]\<rparr>,
                   rw\<lparr>rw_world := w\<rparr>)))"

text \<open>
  \<open>add_host\<close> also puts a lease in a new cell, at the address \<open>addr\<close> that \<open>Rc::new\<close> returns;
  the lease holds the charge.
\<close>

definition root_add_host ::
  "nat \<Rightarrow> nat \<Rightarrow> nat \<Rightarrow> bool \<Rightarrow> nat \<Rightarrow> allocation_site \<Rightarrow> 'h ledger \<Rightarrow> object_ref \<Rightarrow> 'h root_set \<Rightarrow> 'h root_world \<Rightarrow>
     (root_error, root_id \<times> nat) result \<times> 'h root_set \<times> 'h root_world" where
  "root_add_host entry_size lease_size usize_size allocator_ok addr site l object rs rw =
     (let rs = compact rw rs
      in case next_id rs of
           Inl e \<Rightarrow> (Inl e, rs, rw)
         | Inr rid \<Rightarrow>
             (case rbind (ok_or ArithmeticOverflow (Option.bind (checked_mul_usize usize_size 2)
                      (\<lambda>header. checked_add_usize header lease_size))) (\<lambda>host_cost.
                    ok_or ArithmeticOverflow (checked_add_usize entry_size host_cost)) of
                Inl e \<Rightarrow> (Inl (Root_Vm e), rs, rw)
              | Inr bytes \<Rightarrow>
                  (case root_charge l bytes allocator_ok True site (rw_world rw) of
                     (Inl e, w) \<Rightarrow> (Inl (Root_Vm e), rs, rw\<lparr>rw_world := w\<rparr>)
                   | (Inr c, w) \<Rightarrow>
                       (Inr (rid, addr), rs\<lparr>rt_next_sequence := rt_next_sequence rs + 1,
                          rt_entries := rt_entries rs @ [\<lparr>re_id = rid, re_kind = Root_Host, re_object = object,
                                                          re_lease = Some addr, re_charge = None\<rparr>]\<rparr>,
                        rw\<lparr>rw_world := w,
                           rw_leases := (rw_leases rw)(addr := \<lparr>ls_active = True, ls_charge = Some c\<rparr>)\<rparr>))))"

definition position :: "('a \<Rightarrow> bool) \<Rightarrow> 'a list \<Rightarrow> nat option" where
  "position p xs = (let n = length (takeWhile (\<lambda>x. \<not> p x) xs) in if n < length xs then Some n else None)"

text \<open>\<open>Vec::swap_remove\<close>: the last element takes the place of the removed one.\<close>

definition swap_remove :: "'a list \<Rightarrow> nat \<Rightarrow> 'a \<times> 'a list" where
  "swap_remove xs i = (xs ! i, butlast (xs[i := last xs]))"

definition root_remove ::
  "root_id \<Rightarrow> 'h root_set \<Rightarrow> 'h root_world \<Rightarrow> (root_error, object_ref) result \<times> 'h root_set \<times> 'h root_world" where
  "root_remove rid rs rw =
     (if ri_vm rid \<noteq> rt_vm rs then (Inl WrongVm, rs, rw)
      else case position (\<lambda>e. re_id e = rid) (rt_entries rs) of
             None \<Rightarrow> (Inl StaleRoot, rs, rw)
           | Some index \<Rightarrow>
               (let was_active = entry_active (rw_leases rw) (rt_entries rs ! index);
                    rw = (case re_lease (rt_entries rs ! index) of None \<Rightarrow> rw | Some a \<Rightarrow> deactivate a rw);
                    (entry, rest) = swap_remove (rt_entries rs) index;
                    rw = rw\<lparr>rw_world := drop_charge_option (re_charge entry) (rw_world rw)\<rparr>
                in (if was_active then Inr (re_object entry) else Inl StaleRoot,
                    rs\<lparr>rt_entries := rest\<rparr>, rw)))"

definition release_entry :: "'h root_entry \<Rightarrow> 'h root_world \<Rightarrow> 'h root_world" where
  "release_entry e rw =
     (let rw = (case re_lease e of None \<Rightarrow> rw | Some a \<Rightarrow> deactivate a rw)
      in rw\<lparr>rw_world := drop_charge_option (re_charge e) (rw_world rw)\<rparr>)"

definition release_all_on_vm_drop :: "'h root_set \<Rightarrow> 'h root_world \<Rightarrow> 'h root_set \<times> 'h root_world" where
  "release_all_on_vm_drop rs rw =
     (rs\<lparr>rt_entries := []\<rparr>, foldl (\<lambda>rw e. release_entry e rw) rw (rt_entries rs))"

definition root_count :: "'h root_world \<Rightarrow> 'h root_set \<Rightarrow> root_kind \<Rightarrow> nat" where
  "root_count rw rs kind =
     length (filter (\<lambda>e. re_kind e = kind \<and> entry_active (rw_leases rw) e) (rt_entries rs))"

definition root_total_count :: "'h root_world \<Rightarrow> 'h root_set \<Rightarrow> nat" where
  "root_total_count rw rs = length (filter (entry_active (rw_leases rw)) (rt_entries rs))"

text \<open>Visiting calls a closure on each active root in order; the closure threads its own state.\<close>

definition root_visit :: "'h root_world \<Rightarrow> root_kind \<Rightarrow> (object_ref \<Rightarrow> 's \<Rightarrow> 's) \<Rightarrow> 'h root_set \<Rightarrow> 's \<Rightarrow> 's" where
  "root_visit rw kind f rs s = foldl (\<lambda>s e. if re_kind e = kind \<and> entry_active (rw_leases rw) e
     then f (re_object e) s else s) s (rt_entries rs)"

definition root_visit_labeled ::
  "'h root_world \<Rightarrow> (root_kind \<Rightarrow> root_id \<Rightarrow> object_ref \<Rightarrow> 's \<Rightarrow> 's) \<Rightarrow> 'h root_set \<Rightarrow> 's \<Rightarrow> 's" where
  "root_visit_labeled rw f rs s = foldl (\<lambda>s e. if entry_active (rw_leases rw) e
     then f (re_kind e) (re_id e) (re_object e) s else s) s (rt_entries rs)"

definition active_object :: "'h root_world \<Rightarrow> 'h root_set \<Rightarrow> root_id \<Rightarrow> object_ref option" where
  "active_object rw rs rid = map_option re_object
     (find (\<lambda>e. re_id e = rid \<and> entry_active (rw_leases rw) e) (rt_entries rs))"

fun try_visit_entries ::
  "'h root_world \<Rightarrow> (root_kind \<Rightarrow> root_id \<Rightarrow> object_ref \<Rightarrow> 's \<Rightarrow> (root_error, unit) result \<times> 's) \<Rightarrow>
     'h root_entry list \<Rightarrow> 's \<Rightarrow> (root_error, unit) result \<times> 's" where
  "try_visit_entries rw f [] s = (Inr (), s)"
| "try_visit_entries rw f (e # es) s =
     (if entry_active (rw_leases rw) e
      then (case f (re_kind e) (re_id e) (re_object e) s of
              (Inl err, s) \<Rightarrow> (Inl err, s)
            | (Inr _, s) \<Rightarrow> try_visit_entries rw f es s)
      else try_visit_entries rw f es s)"

definition try_visit_labeled ::
  "'h root_world \<Rightarrow> (root_kind \<Rightarrow> root_id \<Rightarrow> object_ref \<Rightarrow> 's \<Rightarrow> (root_error, unit) result \<times> 's) \<Rightarrow>
     'h root_set \<Rightarrow> 's \<Rightarrow> (root_error, unit) result \<times> 's" where
  "try_visit_labeled rw f rs s = try_visit_entries rw f (rt_entries rs) s"

definition try_visit_all ::
  "'h root_world \<Rightarrow> (object_ref \<Rightarrow> 's \<Rightarrow> (root_error, unit) result \<times> 's) \<Rightarrow>
     'h root_set \<Rightarrow> 's \<Rightarrow> (root_error, unit) result \<times> 's" where
  "try_visit_all rw f rs s = try_visit_labeled rw (\<lambda>_ _ object s. f object s) rs s"

subsection \<open>Root identities\<close>

definition entries_ok :: "vm_id \<Rightarrow> u64 \<Rightarrow> 'h root_entry list \<Rightarrow> bool" where
  "entries_ok vm bound es \<longleftrightarrow> distinct (map re_id es)
     \<and> (\<forall>e\<in>set es. ri_vm (re_id e) = vm \<and> unat (ri_sequence (re_id e)) < unat bound)
     \<and> (\<forall>a. \<forall>e\<in>set es. \<forall>e'\<in>set es. re_lease e = Some a \<and> re_lease e' = Some a \<longrightarrow> e = e')"

definition roots_ok :: "'h root_set \<Rightarrow> bool" where
  "roots_ok rs \<longleftrightarrow> entries_ok (rt_vm rs) (rt_next_sequence rs) (rt_entries rs)"

definition lease_used :: "'h root_set \<Rightarrow> nat \<Rightarrow> bool" where
  "lease_used rs a \<longleftrightarrow> (\<exists>e\<in>set (rt_entries rs). re_lease e = Some a)"

lemma compact_simps [simp]:
  "rt_vm (compact rw rs) = rt_vm rs" "rt_next_sequence (compact rw rs) = rt_next_sequence rs"
  "rt_entries (compact rw rs) = filter (entry_active (rw_leases rw)) (rt_entries rs)"
  by (simp_all add: compact_def)

lemma entries_ok_filter: "entries_ok vm b es \<Longrightarrow> entries_ok vm b (filter P es)"
  by (auto simp: entries_ok_def distinct_map_filter)

lemma compact_ok: "roots_ok rs \<Longrightarrow> roots_ok (compact rw rs)"
  by (simp add: roots_ok_def entries_ok_filter)

lemma compact_active: "active_object (rw :: 'h root_world) (compact rw rs) rid = active_object rw rs rid"
proof -
  have "find (\<lambda>e. P e \<and> Q e) (filter Q es) = find (\<lambda>e. P e \<and> Q e) es" for P Q and es :: "'h root_entry list"
    by (induction es) auto
  then show ?thesis by (simp add: active_object_def)
qed

lemma entries_ok_append:
  assumes "entries_ok vm b es" and "b \<noteq> - 1" and "re_id e = \<lparr>ri_vm = vm, ri_sequence = b\<rparr>"
    and "\<And>a. re_lease e = Some a \<Longrightarrow> \<not> (\<exists>e'\<in>set es. re_lease e' = Some a)"
  shows "entries_ok vm (b + 1) (es @ [e])"
proof -
  have b: "unat (b + 1) = Suc (unat b)" using assms(2) by (rule unat_Suc_word)
  have "re_id x \<noteq> re_id e" if "x \<in> set es" for x
  proof
    assume "re_id x = re_id e"
    then have "ri_sequence (re_id x) = b" by (simp add: assms(3))
    then show False using assms(1) that by (auto simp: entries_ok_def)
  qed
  then have "re_id e \<notin> re_id ` set es" by force
  then show ?thesis using assms by (auto simp: entries_ok_def b less_Suc_eq)
qed

lemma find_None_notin: "rid \<notin> re_id ` set es \<Longrightarrow> find (\<lambda>e. re_id e = rid \<and> P e) es = None"
  by (auto simp: find_None_iff)

lemma find_append: "find P (xs @ ys) = (case find P xs of None \<Rightarrow> find P ys | Some x \<Rightarrow> Some x)"
  by (induction xs) auto

text \<open>What a new entry changes: its own identity becomes active, every other root is as before.\<close>

lemma append_entry:
  assumes "roots_ok rs" and "next_id rs = Inr rid" and "re_id e = rid"
    and "\<And>a. re_lease e = Some a \<Longrightarrow> \<not> lease_used rs a"
    and "rs' = rs\<lparr>rt_next_sequence := rt_next_sequence rs + 1, rt_entries := rt_entries rs @ [e]\<rparr>"
    and "\<And>a. lease_used rs a \<Longrightarrow> rw_leases rw' a = rw_leases rw a"
    and "entry_active (rw_leases rw') e"
  shows "roots_ok rs'" and "active_object rw' rs' rid = Some (re_object e)"
    and "other \<noteq> rid \<Longrightarrow> active_object rw' rs' other = active_object rw rs other"
    and "unat (rt_next_sequence rs') = Suc (unat (rt_next_sequence rs))"
    and "unat (ri_sequence rid) = unat (rt_next_sequence rs)"
proof -
  have n: "rt_next_sequence rs \<noteq> - 1" and rid: "rid = \<lparr>ri_vm = rt_vm rs, ri_sequence = rt_next_sequence rs\<rparr>"
    using assms(2) by (auto simp: next_id_def split: if_splits)
  show "roots_ok rs'"
    using entries_ok_append [of "rt_vm rs" "rt_next_sequence rs" "rt_entries rs" e] assms(1,3,4,5) n rid
    by (auto simp: roots_ok_def lease_used_def)
  show "unat (rt_next_sequence rs') = Suc (unat (rt_next_sequence rs))"
    "unat (ri_sequence rid) = unat (rt_next_sequence rs)"
    using n assms(5) by (simp_all add: unat_Suc_word rid)
  have act: "entry_active (rw_leases rw') x = entry_active (rw_leases rw) x" if "x \<in> set (rt_entries rs)" for x
  proof (cases "re_lease x")
    case (Some a)
    then have "lease_used rs a" using that by (auto simp: lease_used_def)
    with assms(6) Some show ?thesis by (simp add: entry_active_def)
  qed (simp add: entry_active_def)
  have fresh: "rid \<notin> re_id ` set (rt_entries rs)"
  proof
    assume "rid \<in> re_id ` set (rt_entries rs)"
    then obtain x where "x \<in> set (rt_entries rs)" "ri_sequence (re_id x) = rt_next_sequence rs"
      by (auto simp: rid) (metis root_id.select_convs(2))
    with assms(1) show False by (auto simp: roots_ok_def entries_ok_def)
  qed
  then show "active_object rw' rs' rid = Some (re_object e)"
    using assms(3,5,7) by (simp add: active_object_def find_append find_None_notin)
  have "find (\<lambda>x. re_id x = other \<and> entry_active (rw_leases rw') x) (rt_entries rs) =
      find (\<lambda>x. re_id x = other \<and> entry_active (rw_leases rw) x) (rt_entries rs)"
    by (rule find_cong) (auto simp: act)
  then show "other \<noteq> rid \<Longrightarrow> active_object rw' rs' other = active_object rw rs other"
    using assms(3,5) by (auto simp: active_object_def find_append split: option.split)
qed

lemma root_add_ok:
  assumes "roots_ok rs" and "root_add n ok site l kind obj rs rw = (Inr rid, rs', rw')"
  shows "roots_ok rs'" and "active_object rw' rs' rid = Some obj"
    and "other \<noteq> rid \<Longrightarrow> active_object rw' rs' other = active_object rw rs other"
    and "unat (rt_next_sequence rs') = Suc (unat (rt_next_sequence rs))"
    and "unat (ri_sequence rid) = unat (rt_next_sequence rs)"
proof -
  let ?rs = "compact rw rs"
  obtain c w where nid: "next_id ?rs = Inr rid"
    and rs': "rs' = ?rs\<lparr>rt_next_sequence := rt_next_sequence ?rs + 1, rt_entries := rt_entries ?rs @
        [\<lparr>re_id = rid, re_kind = kind, re_object = obj, re_lease = None, re_charge = Some c\<rparr>]\<rparr>"
    and rw': "rw' = rw\<lparr>rw_world := w\<rparr>"
    using assms(2) by (auto simp: root_add_def Let_def split: sum.splits prod.splits)
  note ae = append_entry [OF compact_ok [OF assms(1), of rw] nid _ _ rs', of rw']
  show "roots_ok rs'" "active_object rw' rs' rid = Some obj"
    "unat (rt_next_sequence rs') = Suc (unat (rt_next_sequence rs))"
    "unat (ri_sequence rid) = unat (rt_next_sequence rs)"
    using ae [of rw] by (simp_all add: rw' entry_active_def)
  show "other \<noteq> rid \<Longrightarrow> active_object rw' rs' other = active_object rw rs other"
    using ae(3) [of rw other] by (simp add: rw' entry_active_def compact_active)
qed

lemma root_add_host_ok:
  assumes "roots_ok rs" and "root_add_host n m k ok addr site l obj rs rw = (Inr (rid, a), rs', rw')"
    and "\<not> lease_used rs addr"
  shows "roots_ok rs'" and "active_object rw' rs' rid = Some obj"
    and "other \<noteq> rid \<Longrightarrow> active_object rw' rs' other = active_object rw rs other"
    and "unat (rt_next_sequence rs') = Suc (unat (rt_next_sequence rs))"
    and "unat (ri_sequence rid) = unat (rt_next_sequence rs)"
proof -
  let ?rs = "compact rw rs"
  obtain c w where nid: "next_id ?rs = Inr rid"
    and rs': "rs' = ?rs\<lparr>rt_next_sequence := rt_next_sequence ?rs + 1, rt_entries := rt_entries ?rs @
        [\<lparr>re_id = rid, re_kind = Root_Host, re_object = obj, re_lease = Some addr, re_charge = None\<rparr>]\<rparr>"
    and rw': "rw' = rw\<lparr>rw_world := w, rw_leases := (rw_leases rw)(addr := \<lparr>ls_active = True, ls_charge = Some c\<rparr>)\<rparr>"
    using assms(2) by (auto simp: root_add_host_def Let_def split: sum.splits prod.splits)
  have unused: "\<not> lease_used ?rs addr" using assms(3) by (auto simp: lease_used_def)
  then have other: "lease_used ?rs b \<Longrightarrow> b \<noteq> addr" for b by blast
  note ae = append_entry [OF compact_ok [OF assms(1), of rw] nid _ _ rs', of rw']
  show "roots_ok rs'" "active_object rw' rs' rid = Some obj"
    "unat (rt_next_sequence rs') = Suc (unat (rt_next_sequence rs))"
    "unat (ri_sequence rid) = unat (rt_next_sequence rs)"
    using ae [of rw] unused other by (simp_all add: rw' entry_active_def)
  show "other \<noteq> rid \<Longrightarrow> active_object rw' rs' other = active_object rw rs other"
    using ae(3) [of rw other] unused other by (simp add: rw' entry_active_def compact_active)
qed

lemma position_Some:
  assumes "position P xs = Some i"
  shows "i < length xs" and "P (xs ! i)"
  using assms nth_length_takeWhile [of "\<lambda>x. \<not> P x" xs]
  by (auto simp: position_def Let_def split: if_splits)

lemma position_None: "position P xs = None \<longleftrightarrow> (\<forall>x\<in>set xs. \<not> P x)"
proof -
  have "length (takeWhile (\<lambda>x. \<not> P x) xs) < length xs \<longleftrightarrow> takeWhile (\<lambda>x. \<not> P x) xs \<noteq> xs"
    by (metis length_takeWhile_le nat_less_le takeWhile_eq_take take_all_iff order_refl)
  then show ?thesis by (auto simp: position_def Let_def takeWhile_eq_all_conv)
qed

lemma swap_remove_mset:
  assumes "i < length xs"
  shows "mset (snd (swap_remove xs i)) = mset xs - {#xs ! i#}"
proof -
  let ?ys = "xs[i := last xs]"
  have "xs \<noteq> []" using assms by auto
  then have "?ys \<noteq> []" "last ?ys = last xs" by (simp_all add: last_list_update)
  then have "mset ?ys = add_mset (last xs) (mset (butlast ?ys))"
    by (metis append_butlast_last_id mset_append mset_single_iff add_mset_add_single mset.simps)
  moreover have "mset ?ys = add_mset (last xs) (mset xs - {#xs ! i#})"
    using assms by (simp add: mset_update)
  ultimately show ?thesis by (simp add: swap_remove_def)
qed

lemma deactivate_other: "b \<noteq> a \<Longrightarrow> rw_leases (deactivate a rw) b = rw_leases rw b"
  by (simp add: deactivate_def Let_def)

lemma entries_ok_remove:
  assumes "entries_ok vm b es" and "i < length es"
  shows "entries_ok vm b (snd (swap_remove es i))"
    and "set (snd (swap_remove es i)) = {e \<in> set es. re_id e \<noteq> re_id (es ! i)}"
proof -
  let ?r = "snd (swap_remove es i)"
  have m: "mset ?r = mset es - {#es ! i#}" using assms(2) by (rule swap_remove_mset)
  have "mset (map re_id ?r) = mset (map re_id es) - {#re_id (es ! i)#}"
    using assms(2) by (simp add: m image_mset_Diff)
  moreover have d: "distinct (map re_id es)" using assms(1) by (simp add: entries_ok_def)
  ultimately have "distinct (map re_id ?r)"
    by (metis count_mset_0_iff distinct_count_atmost_1 mset_remove1 mset_eq_imp_distinct_iff distinct_remove1)
  moreover have sub: "set ?r \<subseteq> set es" by (metis m in_diffD set_mset_mset subsetI)
  ultimately show "entries_ok vm b ?r" using assms(1) unfolding entries_ok_def by blast
  have de: "distinct es" using d by (simp add: distinct_map)
  then have "set ?r = set es - {es ! i}"
    by (metis m mset_remove1 set_mset_mset set_remove1_eq)
  moreover have "e = es ! i" if "e \<in> set es" "re_id e = re_id (es ! i)" for e
    using d that assms(2) by (metis distinct_map inj_onD nth_mem)
  ultimately show "set ?r = {e \<in> set es. re_id e \<noteq> re_id (es ! i)}" by auto
qed

text \<open>With distinct identities, the active object of an identity does not depend on the order of the entries.\<close>

lemma active_object_iff:
  assumes "distinct (map re_id (rt_entries rs))"
  shows "active_object rw rs rid = Some obj \<longleftrightarrow>
     (\<exists>e\<in>set (rt_entries rs). re_id e = rid \<and> entry_active (rw_leases rw) e \<and> re_object e = obj)"
proof
  assume "active_object rw rs rid = Some obj"
  then show "\<exists>e\<in>set (rt_entries rs). re_id e = rid \<and> entry_active (rw_leases rw) e \<and> re_object e = obj"
    by (auto simp: active_object_def find_Some_iff)
next
  assume "\<exists>e\<in>set (rt_entries rs). re_id e = rid \<and> entry_active (rw_leases rw) e \<and> re_object e = obj"
  then obtain e where e: "e \<in> set (rt_entries rs)" "re_id e = rid" "entry_active (rw_leases rw) e" "re_object e = obj"
    by blast
  then have "find (\<lambda>x. re_id x = rid \<and> entry_active (rw_leases rw) x) (rt_entries rs) \<noteq> None"
    by (auto simp: find_None_iff)
  then obtain x where x: "find (\<lambda>x. re_id x = rid \<and> entry_active (rw_leases rw) x) (rt_entries rs) = Some x" by blast
  then have "x \<in> set (rt_entries rs)" "re_id x = rid" by (auto simp: find_Some_iff)
  with e assms have "x = e" by (metis distinct_map inj_onD)
  with x e show "active_object rw rs rid = Some obj" by (simp add: active_object_def)
qed

lemma option_eqI: "(\<And>x. a = Some x \<longleftrightarrow> b = Some x) \<Longrightarrow> a = b"
  by (cases a; cases b) auto

lemma root_remove_missing:
  assumes "roots_ok rs" and "\<not> (\<exists>e\<in>set (rt_entries rs). re_id e = rid)"
  shows "root_remove rid rs rw = (if ri_vm rid \<noteq> rt_vm rs then Inl WrongVm else Inl StaleRoot, rs, rw)"
  using assms position_None [of "\<lambda>e. re_id e = rid" "rt_entries rs"] by (auto simp: root_remove_def)

lemma root_remove_present:
  assumes "roots_ok rs" and "e \<in> set (rt_entries rs)" and "re_id e = rid"
  shows "\<exists>i rw'. i < length (rt_entries rs) \<and> rt_entries rs ! i = e
     \<and> root_remove rid rs rw = (if entry_active (rw_leases rw) e then Inr (re_object e) else Inl StaleRoot,
          rs\<lparr>rt_entries := snd (swap_remove (rt_entries rs) i)\<rparr>, rw')
     \<and> rw_leases rw' = (case re_lease e of None \<Rightarrow> rw_leases rw | Some a \<Rightarrow> rw_leases (deactivate a rw))"
proof -
  have "position (\<lambda>e. re_id e = rid) (rt_entries rs) \<noteq> None"
    using assms(2,3) by (simp only: position_None) blast
  then obtain i where i: "position (\<lambda>e. re_id e = rid) (rt_entries rs) = Some i" by blast
  note pos = position_Some [OF i]
  have "rt_entries rs ! i = e"
    using assms pos unfolding roots_ok_def entries_ok_def by (metis distinct_map inj_onD nth_mem)
  moreover have "ri_vm rid = rt_vm rs" using assms by (auto simp: roots_ok_def entries_ok_def)
  ultimately show ?thesis using i pos(1)
    by (intro exI [of _ i]) (auto simp: root_remove_def Let_def swap_remove_def split: option.split)
qed

lemma root_remove_ok:
  assumes "roots_ok rs" and "root_remove rid rs rw = (answer, rs', rw')"
  shows "roots_ok rs'" and "rt_next_sequence rs' = rt_next_sequence rs"
    and "other \<noteq> rid \<Longrightarrow> active_object rw' rs' other = active_object rw rs other"
    and "answer = (case active_object rw rs rid of
           Some obj \<Rightarrow> Inr obj
         | None \<Rightarrow> if ri_vm rid \<noteq> rt_vm rs then Inl WrongVm else Inl StaleRoot)"
    and "active_object rw' rs' rid = None"
proof -
  have d: "distinct (map re_id (rt_entries rs))" using assms(1) by (simp add: roots_ok_def entries_ok_def)
  have "roots_ok rs' \<and> rt_next_sequence rs' = rt_next_sequence rs \<and>
    (other \<noteq> rid \<longrightarrow> active_object rw' rs' other = active_object rw rs other) \<and>
    answer = (case active_object rw rs rid of Some obj \<Rightarrow> Inr obj
         | None \<Rightarrow> if ri_vm rid \<noteq> rt_vm rs then Inl WrongVm else Inl StaleRoot) \<and>
    active_object rw' rs' rid = None" for other
  proof (cases "\<exists>e\<in>set (rt_entries rs). re_id e = rid")
    case False
    then have "active_object rw rs rid = None"
      using active_object_iff [OF d, of rw rid] by (cases "active_object rw rs rid") blast+
    with root_remove_missing [OF assms(1) False] assms show ?thesis by auto
  next
    case True
    then obtain e where e: "e \<in> set (rt_entries rs)" "re_id e = rid" by blast
    obtain i where i: "i < length (rt_entries rs)" "rt_entries rs ! i = e"
      and ans: "answer = (if entry_active (rw_leases rw) e then Inr (re_object e) else Inl StaleRoot)"
      and rs': "rs' = rs\<lparr>rt_entries := snd (swap_remove (rt_entries rs) i)\<rparr>"
      and rw': "rw_leases rw' = (case re_lease e of None \<Rightarrow> rw_leases rw | Some a \<Rightarrow> rw_leases (deactivate a rw))"
      using root_remove_present [OF assms(1) e, of rw] assms(2) by auto
    have ok: "roots_ok rs'" using entries_ok_remove(1) assms(1) i(1) by (simp add: rs' roots_ok_def)
    then have d': "distinct (map re_id (rt_entries rs'))" by (simp add: roots_ok_def entries_ok_def)
    have es: "set (rt_entries rs') = {x \<in> set (rt_entries rs). re_id x \<noteq> rid}"
      using entries_ok_remove(2) [of "rt_vm rs" "rt_next_sequence rs" "rt_entries rs" i] assms(1) i e(2)
      by (simp add: rs' roots_ok_def)
    have act: "entry_active (rw_leases rw') x = entry_active (rw_leases rw) x"
      if "x \<in> set (rt_entries rs)" "re_id x \<noteq> rid" for x
    proof (cases "re_lease x")
      case (Some a)
      then have "re_lease e \<noteq> Some a"
        using assms(1) e that unfolding roots_ok_def entries_ok_def by blast
      with Some show ?thesis by (auto simp: rw' entry_active_def deactivate_other split: option.split)
    qed (simp add: entry_active_def)
    have "active_object rw' rs' other = active_object rw rs other" if "other \<noteq> rid" for other
    proof (rule option_eqI)
      fix obj
      show "active_object rw' rs' other = Some obj \<longleftrightarrow> active_object rw rs other = Some obj"
        unfolding active_object_iff [OF d'] active_object_iff [OF d] using that es act by auto
    qed
    moreover have "active_object rw' rs' rid = None"
      using active_object_iff [OF d', of rw' rid] es by (cases "active_object rw' rs' rid") auto
    moreover have "answer = (case active_object rw rs rid of Some obj \<Rightarrow> Inr obj
         | None \<Rightarrow> if ri_vm rid \<noteq> rt_vm rs then Inl WrongVm else Inl StaleRoot)"
    proof (cases "entry_active (rw_leases rw) e")
      case True
      then have "active_object rw rs rid = Some (re_object e)" using active_object_iff [OF d] e by blast
      with True ans show ?thesis by simp
    next
      case False
      have "active_object rw rs rid \<noteq> Some obj" for obj
        using active_object_iff [OF d, of rw rid obj] e False d by (metis distinct_map inj_onD)
      then have "active_object rw rs rid = None" by (cases "active_object rw rs rid") auto
      moreover have "ri_vm rid = rt_vm rs" using assms(1) e by (auto simp: roots_ok_def entries_ok_def)
      ultimately show ?thesis using ans False by simp
    qed
    ultimately show ?thesis using ok by (simp add: rs')
  qed
  then show "roots_ok rs'" "rt_next_sequence rs' = rt_next_sequence rs"
    "other \<noteq> rid \<Longrightarrow> active_object rw' rs' other = active_object rw rs other"
    "answer = (case active_object rw rs rid of Some obj \<Rightarrow> Inr obj
         | None \<Rightarrow> if ri_vm rid \<noteq> rt_vm rs then Inl WrongVm else Inl StaleRoot)"
    "active_object rw' rs' rid = None" by blast+
qed

subsection \<open>The life of a root set\<close>

text \<open>
  A history is a root set with its world and the identities handed out so far. A host root takes a
  lease cell that no entry uses, and a handle may deactivate its lease at any time.
\<close>

type_synonym 'h root_history = "'h root_set \<times> 'h root_world \<times> root_id list"

inductive root_step :: "'h ledger \<Rightarrow> 'h root_history \<Rightarrow> 'h root_history \<Rightarrow> bool" for l where
  root_step_add: "root_add n ok site l kind obj rs rw = (Inr rid, rs', rw') \<Longrightarrow>
    root_step l (rs, rw, issued) (rs', rw', rid # issued)"
| root_step_add_refused: "root_add n ok site l kind obj rs rw = (Inl e, rs', rw') \<Longrightarrow>
    root_step l (rs, rw, issued) (rs', rw', issued)"
| root_step_host: "\<lbrakk>\<not> lease_used rs addr; root_add_host n m k ok addr site l obj rs rw = (Inr (rid, a), rs', rw')\<rbrakk> \<Longrightarrow>
    root_step l (rs, rw, issued) (rs', rw', rid # issued)"
| root_step_host_refused: "root_add_host n m k ok addr site l obj rs rw = (Inl e, rs', rw') \<Longrightarrow>
    root_step l (rs, rw, issued) (rs', rw', issued)"
| root_step_remove: "root_remove rid rs rw = (answer, rs', rw') \<Longrightarrow>
    root_step l (rs, rw, issued) (rs', rw', issued)"
| root_step_deactivate: "root_step l (rs, rw, issued) (rs, deactivate a rw, issued)"
| root_step_compact: "root_step l (rs, rw, issued) (compact rw rs, rw, issued)"

definition history_ok :: "'h root_history \<Rightarrow> bool" where
  "history_ok h \<longleftrightarrow> (case h of (rs, rw, issued) \<Rightarrow> roots_ok rs \<and> distinct issued
     \<and> (\<forall>r\<in>set issued. unat (ri_sequence r) < unat (rt_next_sequence rs))
     \<and> re_id ` set (rt_entries rs) \<subseteq> set issued)"

lemma issue_ok:
  assumes "history_ok (rs, rw, issued)" and "roots_ok rs'"
    and "unat (rt_next_sequence rs') = Suc (unat (rt_next_sequence rs))"
    and "unat (ri_sequence rid) = unat (rt_next_sequence rs)"
    and "re_id ` set (rt_entries rs') \<subseteq> insert rid (re_id ` set (rt_entries rs))"
  shows "history_ok (rs', rw', rid # issued)"
  using assms by (auto simp: history_ok_def less_Suc_eq)

lemma root_add_entries:
  assumes "root_add n ok site l kind obj rs rw = (answer, rs', rw')"
  shows "re_id ` set (rt_entries rs') \<subseteq>
      (case answer of Inr rid \<Rightarrow> {rid} | Inl _ \<Rightarrow> {}) \<union> re_id ` set (rt_entries rs)"
    and "answer = Inl e \<Longrightarrow> rs' = compact rw rs"
  using assms by (auto simp: root_add_def Let_def split: sum.splits prod.splits)

lemma root_add_host_entries:
  assumes "root_add_host n m k ok addr site l obj rs rw = (answer, rs', rw')"
  shows "re_id ` set (rt_entries rs') \<subseteq>
      (case answer of Inr (rid, _) \<Rightarrow> {rid} | Inl _ \<Rightarrow> {}) \<union> re_id ` set (rt_entries rs)"
    and "answer = Inl e \<Longrightarrow> rs' = compact rw rs"
  using assms by (auto simp: root_add_host_def Let_def split: sum.splits prod.splits)

lemma root_remove_entries:
  assumes "roots_ok rs" and "root_remove rid rs rw = (answer, rs', rw')"
  shows "set (rt_entries rs') \<subseteq> set (rt_entries rs)"
proof (cases "\<exists>e\<in>set (rt_entries rs). re_id e = rid")
  case False
  with root_remove_missing [OF assms(1) False] assms(2) show ?thesis by auto
next
  case True
  then obtain e where e: "e \<in> set (rt_entries rs)" "re_id e = rid" by blast
  with root_remove_present [OF assms(1) e, of rw] assms obtain i where
    "i < length (rt_entries rs)" "rt_entries rs' = snd (swap_remove (rt_entries rs) i)" by auto
  with entries_ok_remove(2) [of "rt_vm rs" "rt_next_sequence rs" "rt_entries rs" i] assms(1)
  show ?thesis by (auto simp: roots_ok_def)
qed

lemma root_step_ok:
  assumes "root_step l h h'" and "history_ok h"
  shows "history_ok h'"
  using assms
proof (cases rule: root_step.cases)
  case (root_step_add n ok site kind obj rs rw rid rs' rw' issued)
  have h: "history_ok (rs, rw, issued)" and ok: "roots_ok rs"
    using assms(2) root_step_add(1) by (simp_all add: history_ok_def)
  note add = root_add_ok [OF ok root_step_add(3)]
  show ?thesis
    using issue_ok [OF h add(1,4,5)] root_add_entries(1) [OF root_step_add(3)] root_step_add(2) by simp
next
  case (root_step_add_refused n ok site kind obj rs rw e rs' rw' issued)
  with assms(2) root_add_entries(2) [OF root_step_add_refused(3) refl] show ?thesis
    by (auto simp: history_ok_def compact_ok)
next
  case (root_step_host rs addr n m k ok site obj rw rid a rs' rw' issued)
  have h: "history_ok (rs, rw, issued)" and ok: "roots_ok rs"
    using assms(2) root_step_host(1) by (simp_all add: history_ok_def)
  note add = root_add_host_ok [OF ok root_step_host(4,3)]
  show ?thesis
    using issue_ok [OF h add(1,4,5)] root_add_host_entries(1) [OF root_step_host(4)] root_step_host(2) by simp
next
  case (root_step_host_refused n m k ok addr site obj rs rw e rs' rw' issued)
  with assms(2) root_add_host_entries(2) [OF root_step_host_refused(3) refl] show ?thesis
    by (auto simp: history_ok_def compact_ok)
next
  case (root_step_remove rid rs rw answer rs' rw' issued)
  with assms(2) root_remove_ok(1,2) [of rs rid rw answer rs' rw'] root_remove_entries [of rs rid rw answer rs' rw']
  show ?thesis by (auto simp: history_ok_def)
qed (auto simp: history_ok_def compact_ok)

lemma root_steps_ok: "(root_step l)\<^sup>*\<^sup>* h h' \<Longrightarrow> history_ok h \<Longrightarrow> history_ok h'"
  by (induction rule: rtranclp_induct) (auto intro: root_step_ok)

lemma history_ok_new: "history_ok (root_set_new vm, rw, [])"
  by (simp add: history_ok_def root_set_new_def roots_ok_def entries_ok_def)

lemma root_step_stale:
  assumes "root_step l (rs, rw, issued) (rs', rw', issued')" and "history_ok (rs, rw, issued)"
    and "rid \<in> set issued" and "rid \<notin> re_id ` set (rt_entries rs)"
  shows "rid \<in> set issued' \<and> rid \<notin> re_id ` set (rt_entries rs')"
proof -
  have fresh: "r \<noteq> rid" if "unat (ri_sequence r) = unat (rt_next_sequence rs)" for r
    using assms(2,3) that by (auto simp: history_ok_def)
  have ok: "roots_ok rs" using assms(2) by (simp add: history_ok_def)
  show ?thesis
    using assms(1)
  proof (cases rule: root_step.cases)
    case (root_step_add n ok site kind obj r)
    with root_add_ok(5) [OF ok root_step_add(2)] fresh [of r] root_add_entries(1) [OF root_step_add(2)] assms(3,4)
    show ?thesis by auto
  next
    case (root_step_add_refused n ok site kind obj e)
    with root_add_entries(1) [OF root_step_add_refused(2)] assms(3,4) show ?thesis by auto
  next
    case (root_step_host addr n m k ok site obj r a)
    with root_add_host_ok(5) [OF ok root_step_host(3,2)] fresh [of r] root_add_host_entries(1) [OF root_step_host(3)] assms(3,4)
    show ?thesis by auto
  next
    case (root_step_host_refused n m k ok addr site obj e)
    with root_add_host_entries(1) [OF root_step_host_refused(2)] assms(3,4) show ?thesis by auto
  next
    case (root_step_remove r answer)
    with root_remove_entries [OF ok root_step_remove(2)] assms(3,4) show ?thesis by auto
  qed (use assms(3,4) in auto)
qed

lemma root_steps_stale:
  assumes "(root_step l)\<^sup>*\<^sup>* h h'" and "history_ok h"
    and "rid \<in> set (snd (snd h))" and "rid \<notin> re_id ` set (rt_entries (fst h))"
  shows "rid \<in> set (snd (snd h')) \<and> rid \<notin> re_id ` set (rt_entries (fst h'))"
  using assms
proof (induction rule: rtranclp_induct)
  case (step h1 h2)
  have "history_ok h1" using root_steps_ok [OF step.hyps(1) step.prems(1)] .
  with step root_step_stale [of l "fst h1" "fst (snd h1)" "snd (snd h1)" "fst h2" "fst (snd h2)" "snd (snd h2)"]
  show ?case by simp
qed simp

definition example_roots :: "unit root_world" where
  "example_roots = \<lparr>rw_world = example_world, rw_leases = (\<lambda>_. \<lparr>ls_active = False, ls_charge = None\<rparr>)\<rparr>"

lemma example_root_add:
  "\<exists>rs rw. root_add 40 True example_site (internal_ledger 0) Root_Global (Opaque 7) (root_set_new (VmId 1)) example_roots
     = (Inr \<lparr>ri_vm = VmId 1, ri_sequence = 1\<rparr>, rs, rw)"
  by (simp add: root_add_def root_set_new_def next_id_def compact_def root_charge_def reserve_def
      reserve_at_def example_roots_def example_world_def initial_ledger_state_def get_cell_def set_cell_def
      checked_add_usize_def checked_sub_usize_def usize_max_def internal_ledger_def internal_admission_def
      publish_reservation_def record_peaks_def checkpoint_def commit_charge_def Let_def)

text \<open>
  C16: The identities of roots are unique over the whole life of a virtual machine: no identity is
  handed out twice, across removals, released handles and failures, and only identities that were
  handed out have an object.
\<close>

theorem root_identities_unique:
  assumes "(root_step l)\<^sup>*\<^sup>* (root_set_new vm, rw0, []) (rs, rw, issued)"
  shows "distinct issued \<and> (active_object rw rs rid = None \<or> rid \<in> set issued)"
proof -
  have ok: "history_ok (rs, rw, issued)" using root_steps_ok [OF assms history_ok_new] .
  have "active_object rw rs rid = None" if "rid \<notin> set issued"
  proof -
    have "rid \<notin> re_id ` set (rt_entries rs)" using ok that by (auto simp: history_ok_def)
    then show ?thesis by (simp add: active_object_def find_None_notin)
  qed
  with ok show ?thesis by (auto simp: history_ok_def)
qed

lemma root_identities_unique_witness:
  "\<exists>rs rw. (root_step (internal_ledger 0))\<^sup>*\<^sup>* (root_set_new (VmId 1), example_roots, [])
       (rs, rw, [\<lparr>ri_vm = VmId 1, ri_sequence = 1\<rparr>])
     \<and> active_object rw rs \<lparr>ri_vm = VmId 1, ri_sequence = 2\<rparr> = None"
proof -
  obtain rs rw where "root_add 40 True example_site (internal_ledger 0) Root_Global (Opaque 7) (root_set_new (VmId 1)) example_roots
     = (Inr \<lparr>ri_vm = VmId 1, ri_sequence = 1\<rparr>, rs, rw)" using example_root_add by blast
  then have r: "(root_step (internal_ledger 0))\<^sup>*\<^sup>* (root_set_new (VmId 1), example_roots, [])
       (rs, rw, [\<lparr>ri_vm = VmId 1, ri_sequence = 1\<rparr>])"
    by (intro r_into_rtranclp root_step_add)
  with root_identities_unique [OF r, of "\<lparr>ri_vm = VmId 1, ri_sequence = 2\<rparr>"] show ?thesis by auto
qed

text \<open>
  C27: Removing a root returns its object, and from then on its identity is stale for ever: however
  the set goes on, with new roots of any kind, the identity never has an object again.
\<close>

theorem removed_root_stays_stale:
  assumes "(root_step l)\<^sup>*\<^sup>* (root_set_new vm, rw0, []) (rs, rw, issued)"
    and "active_object rw rs rid = Some obj" and "root_remove rid rs rw = (answer, rs1, rw1)"
    and "(root_step l)\<^sup>*\<^sup>* (rs1, rw1, issued) (rs2, rw2, issued2)"
  shows "answer = Inr obj \<and> active_object rw2 rs2 rid = None"
proof -
  have ok: "history_ok (rs, rw, issued)" using root_steps_ok [OF assms(1) history_ok_new] .
  then have rok: "roots_ok rs" by (simp add: history_ok_def)
  have d: "distinct (map re_id (rt_entries rs))" using rok by (simp add: roots_ok_def entries_ok_def)
  then obtain e where e: "e \<in> set (rt_entries rs)" "re_id e = rid"
    using active_object_iff [OF d, of rw rid obj] assms(2) by blast
  have step: "root_step l (rs, rw, issued) (rs1, rw1, issued)" using assms(3) by (rule root_step_remove)
  have ok1: "history_ok (rs1, rw1, issued)" using step ok by (rule root_step_ok)
  have "rid \<in> set issued" using ok e by (auto simp: history_ok_def)
  moreover have "rid \<notin> re_id ` set (rt_entries rs1)"
    using root_remove_present [OF rok e, of rw] assms(3) e(2)
      entries_ok_remove(2) [of "rt_vm rs" "rt_next_sequence rs" "rt_entries rs"] rok
    by (auto simp: roots_ok_def)
  ultimately have "rid \<notin> re_id ` set (rt_entries rs2)"
    using root_steps_stale [OF assms(4) ok1, of rid] by simp
  then have "active_object rw2 rs2 rid = None" by (simp add: active_object_def find_None_notin)
  moreover have "answer = Inr obj" using root_remove_ok(4) [OF rok assms(3)] assms(2) by simp
  ultimately show ?thesis by simp
qed

lemma removed_root_stays_stale_witness:
  "\<exists>rs rw rs1 rw1. active_object rw rs \<lparr>ri_vm = VmId 1, ri_sequence = 1\<rparr> = Some (Opaque 7)
     \<and> root_remove \<lparr>ri_vm = VmId 1, ri_sequence = 1\<rparr> rs (rw :: unit root_world) = (Inr (Opaque 7), rs1, rw1)
     \<and> active_object rw1 rs1 \<lparr>ri_vm = VmId 1, ri_sequence = 1\<rparr> = None"
proof -
  let ?rid = "\<lparr>ri_vm = VmId 1, ri_sequence = 1\<rparr>"
  have new: "roots_ok (root_set_new (VmId 1))" by (simp add: root_set_new_def roots_ok_def entries_ok_def)
  obtain rs rw where a: "root_add 40 True example_site (internal_ledger 0) Root_Global (Opaque 7) (root_set_new (VmId 1)) example_roots
     = (Inr ?rid, rs, rw)" using example_root_add by blast
  then have r: "(root_step (internal_ledger 0))\<^sup>*\<^sup>* (root_set_new (VmId 1), example_roots, []) (rs, rw, [?rid])"
    by (intro r_into_rtranclp root_step_add)
  have act: "active_object rw rs ?rid = Some (Opaque 7)" using root_add_ok(2) [OF new a] .
  obtain answer rs1 rw1 where rem: "root_remove ?rid rs rw = (answer, rs1, rw1)" by (metis prod_cases3)
  from removed_root_stays_stale [OF r act rem rtranclp.rtrancl_refl] act rem show ?thesis by blast
qed

context quiet_admission
begin

lemma drop_ticket_balances:
  assumes "balances (get_cell l w) (R(rv_domain r := R (rv_domain r) + rv_bytes r)) C"
    and "rv_ledger r = l" and "rv_active r"
  shows "balances (get_cell l (drop_reservation r w)) R C"
  using drop_reservation_balances [OF assms] by simp

lemma commit_ticket_balances:
  assumes "balances (get_cell l w) (R(rv_domain r := R (rv_domain r) + rv_bytes r)) C"
    and "rv_ledger r = l" and "commit_charge r w = (answer, w')"
  shows "(\<exists>c. answer = Inr c) \<and> balances (get_cell l w') R (C(rv_domain r := C (rv_domain r) + rv_bytes r))"
  using commit_charge_balances [OF assms(1,2)] assms(3) by auto

lemma root_charge_balances:
  assumes "balances (get_cell l w) R C" and "root_charge l n ok p site w = (answer, w')"
  shows "case answer of
      Inl _ \<Rightarrow> balances (get_cell l w') R C
    | Inr _ \<Rightarrow> balances (get_cell l w') R (C(Host := C Host + n))"
proof -
  obtain a1 w1 where r1: "reserve l n site w = (a1, w1)" by fastforce
  note rb = reserve_at_balances [OF assms(1) r1 [unfolded reserve_def]]
  show ?thesis
  proof (cases a1)
    case (Inl e)
    with assms(2) r1 rb show ?thesis by (auto simp: root_charge_def)
  next
    case (Inr t)
    have t: "balances (get_cell l w1) (R(rv_domain t := R (rv_domain t) + rv_bytes t)) C"
      "rv_ledger t = l" "rv_active t" "rv_domain t = Host" "rv_bytes t = n"
      using rb Inr by auto
    obtain a2 w2 where r2: "checkpoint l RootReserve w1 = (a2, w2)" by fastforce
    note b2 = checkpoint_balances [OF t(1) r2, THEN conjunct1]
    obtain a3 w3 where r3: "checkpoint l HostLease w2 = (a3, w3)" by fastforce
    note b3 = checkpoint_balances [OF b2 r3, THEN conjunct1]
    have bf: "balances (get_cell l (record_failure l a k w2)) (R(rv_domain t := R (rv_domain t) + rv_bytes t)) C" for a k
      using b2 by (simp add: record_failure_def)
    show ?thesis
      using assms(2) r1 r2 r3 Inr t(2-5) drop_ticket_balances [OF b2 t(2,3)] drop_ticket_balances [OF b3 t(2,3)]
        drop_ticket_balances [OF bf t(2,3)] commit_ticket_balances [OF b2 t(2)] commit_ticket_balances [OF b3 t(2)]
      by (auto simp: root_charge_def rust_reserve_failure_def split: sum.splits if_splits)
  qed
qed

end

text \<open>
  Registering a root charges exactly the size of its entry to the host domain of a balanced
  ledger when it succeeds, and nothing at all when any of its steps fails.
\<close>

theorem root_add_charges:
  assumes "quiet_admission l" and "balances (get_cell l (rw_world rw)) R C"
    and "root_add n ok site l kind obj rs rw = (answer, rs', rw')"
  shows "case answer of
      Inl _ \<Rightarrow> balances (get_cell l (rw_world rw')) R C
    | Inr _ \<Rightarrow> balances (get_cell l (rw_world rw')) R (C(Host := C Host + n))"
proof (cases "next_id (compact rw rs)")
  case (Inl e)
  then have "answer = Inl e" "rw' = rw" using assms(3) by (simp_all add: root_add_def)
  with assms(2) show ?thesis by simp
next
  case (Inr rid)
  obtain a w where c: "root_charge l n ok False site (rw_world rw) = (a, w)" by fastforce
  from quiet_admission.root_charge_balances [OF assms(1,2) c] assms(3) Inr c show ?thesis
    by (auto simp: root_add_def Let_def split: sum.splits)
qed

end
