(* ===== verification/Ascii.thy ===== *)
theory Ascii
  imports Lua_Prelude
begin

text \<open>
  The ASCII classes of a byte (\<open>u8::is_ascii_digit\<close> and the like), shared by the pattern matcher and
  the lexer, and names for the bytes their sources write as literals.
\<close>

definition is_ascii_digit :: "u8 \<Rightarrow> bool" where
  "is_ascii_digit b \<longleftrightarrow> 48 \<le> b \<and> b \<le> 57"

definition is_ascii_uppercase :: "u8 \<Rightarrow> bool" where
  "is_ascii_uppercase b \<longleftrightarrow> 65 \<le> b \<and> b \<le> 90"

definition is_ascii_lowercase :: "u8 \<Rightarrow> bool" where
  "is_ascii_lowercase b \<longleftrightarrow> 97 \<le> b \<and> b \<le> 122"

definition is_ascii_alphabetic :: "u8 \<Rightarrow> bool" where
  "is_ascii_alphabetic b \<longleftrightarrow> is_ascii_uppercase b \<or> is_ascii_lowercase b"

definition is_ascii_alphanumeric :: "u8 \<Rightarrow> bool" where
  "is_ascii_alphanumeric b \<longleftrightarrow> is_ascii_alphabetic b \<or> is_ascii_digit b"

definition is_ascii_hexdigit :: "u8 \<Rightarrow> bool" where
  "is_ascii_hexdigit b \<longleftrightarrow> is_ascii_digit b \<or> (65 \<le> b \<and> b \<le> 70) \<or> (97 \<le> b \<and> b \<le> 102)"

definition is_ascii_control :: "u8 \<Rightarrow> bool" where
  "is_ascii_control b \<longleftrightarrow> b < 32 \<or> b = 127"

definition is_ascii_graphic :: "u8 \<Rightarrow> bool" where
  "is_ascii_graphic b \<longleftrightarrow> 33 \<le> b \<and> b \<le> 126"

definition is_ascii_punctuation :: "u8 \<Rightarrow> bool" where
  "is_ascii_punctuation b \<longleftrightarrow> is_ascii_graphic b \<and> \<not> is_ascii_alphanumeric b"

definition to_ascii_lowercase :: "u8 \<Rightarrow> u8" where
  "to_ascii_lowercase b = (if is_ascii_uppercase b then b + 32 else b)"

text \<open>A byte string of the source, written as a HOL string.\<close>

definition bs :: "string \<Rightarrow> bytes" where
  "bs s = map of_char s"

end
