(* ===== verification/Pattern.thy ===== *)
theory Pattern
  imports Ascii Lua_Prelude
begin

text \<open>
  The bounded matcher for Lua byte patterns (\<open>stdlib/pattern.rs\<close>). One counter of steps is shared by
  the search and all backtracking and survives errors, so each operation takes the steps so far and
  returns an answer with the steps after it. An index out of range, which panics in Rust, is the error
  \<open>Pat_Panic\<close>; the recursion of the matcher carries fuel, and \<open>Pat_Fuel\<close> marks running out of it. Neither
  can occur, as the theorems show.
\<close>

datatype pattern_error = Malformed | TooComplex | Exhausted | Pat_Panic | Pat_Fuel

record capture =
  cap_start :: nat
  cap_end :: "nat option"
  cap_position :: bool

record match_state =
  captures :: "capture list"
  cap_count :: nat

record found =
  found_start :: nat
  found_end :: nat
  found_captures :: "capture list"
  found_count :: nat

record matcher =
  source :: bytes
  pattern :: bytes
  step_limit :: nat

definition default_capture :: capture where
  "default_capture = \<lparr>cap_start = 0, cap_end = None, cap_position = False\<rparr>"

definition default_state :: match_state where
  "default_state = \<lparr>captures = replicate 32 default_capture, cap_count = 0\<rparr>"

subsection \<open>Counted computations\<close>

type_synonym 'a counted = "nat \<Rightarrow> (pattern_error, 'a) result \<times> nat"

definition pbind :: "'a counted \<Rightarrow> ('a \<Rightarrow> 'b counted) \<Rightarrow> 'b counted" where
  "pbind m f k = (case m k of (Inl e, k') \<Rightarrow> (Inl e, k') | (Inr x, k') \<Rightarrow> f x k')"

definition preturn :: "'a \<Rightarrow> 'a counted" where
  "preturn x k = (Inr x, k)"

definition pfail :: "pattern_error \<Rightarrow> 'a counted" where
  "pfail e k = (Inl e, k)"

definition pget :: "pattern_error \<Rightarrow> 'a option \<Rightarrow> 'a counted" where
  "pget e x = (case x of None \<Rightarrow> pfail e | Some v \<Rightarrow> preturn v)"

lemma pbind_cong [fundef_cong]:
  assumes "m k = m' k" and "\<And>x k'. m' k = (Inr x, k') \<Longrightarrow> f x k' = f' x k'"
  shows "pbind m f k = pbind m' f' k"
  using assms by (auto simp: pbind_def split: sum.split prod.split)

definition step :: "matcher \<Rightarrow> unit counted" where
  "step m k = (if step_limit m \<le> k then (Inl Exhausted, k) else (Inr (), k + 1))"

text \<open>Direct indexing.\<close>

definition source_at :: "matcher \<Rightarrow> nat \<Rightarrow> u8 counted" where
  "source_at m i = pget Pat_Panic (get_at (source m) i)"

definition pattern_at :: "matcher \<Rightarrow> nat \<Rightarrow> u8 counted" where
  "pattern_at m i = pget Pat_Panic (get_at (pattern m) i)"

subsection \<open>Classes\<close>

function class_loop :: "matcher \<Rightarrow> nat \<Rightarrow> nat counted" where
  "class_loop m cursor k =
     pbind (step m) (\<lambda>_ k.
       case get_at (pattern m) cursor of
         None \<Rightarrow> pfail Malformed k
       | Some byte \<Rightarrow>
           (let cursor = cursor + 1;
                cursor = (if byte = 37 \<and> cursor < length (pattern m) then cursor + 1 else cursor)
            in if get_at (pattern m) cursor = Some 93 then preturn (cursor + 1) k
               else class_loop m cursor k)) k"
  by pat_completeness auto
termination
  by (relation "measure (\<lambda>(m, cursor, _). length (pattern m) + 1 - cursor)") (auto split: if_splits)

definition class_end :: "matcher \<Rightarrow> nat \<Rightarrow> nat counted" where
  "class_end m p =
     pbind (step m) (\<lambda>_.
       case get_at (pattern m) p of
         None \<Rightarrow> pfail Malformed
       | Some byte \<Rightarrow>
           if byte = 37 then (if p + 1 < length (pattern m) then preturn (p + 2) else pfail Malformed)
           else if byte = 91
           then class_loop m (if get_at (pattern m) (p + 1) = Some 94 then p + 2 else p + 1)
           else preturn (p + 1))"

definition class_match :: "u8 \<Rightarrow> u8 \<Rightarrow> bool" where
  "class_match byte symbol =
     (let sel = to_ascii_lowercase symbol;
          signed = (\<lambda>hit. if is_ascii_lowercase symbol then hit else \<not> hit)
      in if sel = 97 then signed (is_ascii_alphabetic byte)
         else if sel = 99 then signed (is_ascii_control byte)
         else if sel = 100 then signed (is_ascii_digit byte)
         else if sel = 103 then signed (is_ascii_graphic byte)
         else if sel = 108 then signed (is_ascii_lowercase byte)
         else if sel = 112 then signed (is_ascii_punctuation byte)
         else if sel = 115 then signed (byte \<in> {9, 10, 11, 12, 13, 32})
         else if sel = 117 then signed (is_ascii_uppercase byte)
         else if sel = 119 then signed (is_ascii_alphanumeric byte)
         else if sel = 120 then signed (is_ascii_hexdigit byte)
         else if sel = 122 then signed (byte = 0)
         else byte = symbol)"

function bracket_loop :: "matcher \<Rightarrow> u8 \<Rightarrow> nat \<Rightarrow> nat \<Rightarrow> bool \<Rightarrow> bool counted" where
  "bracket_loop m byte stop p positive k =
     (if p < stop then
        pbind (step m) (\<lambda>_. pbind (pattern_at m p) (\<lambda>candidate k.
          if candidate = 37 \<and> p + 1 < stop then
            pbind (pattern_at m (p + 1)) (\<lambda>symbol k.
              if class_match byte symbol then preturn positive k
              else bracket_loop m byte stop (p + 2) positive k) k
          else if p + 2 < stop \<and> get_at (pattern m) (p + 1) = Some 45 then
            pbind (pattern_at m (p + 2)) (\<lambda>high k.
              if candidate \<le> byte \<and> byte \<le> high then preturn positive k
              else bracket_loop m byte stop (p + 3) positive k) k
          else if byte = candidate then preturn positive k
          else bracket_loop m byte stop (p + 1) positive k)) k
      else preturn (\<not> positive) k)"
  by pat_completeness auto
termination
  by (relation "measure (\<lambda>(_, _, stop, p, _). stop - p)") auto

definition bracket :: "matcher \<Rightarrow> u8 \<Rightarrow> nat \<Rightarrow> nat \<Rightarrow> bool counted" where
  "bracket m byte start stop =
     (if get_at (pattern m) (start + 1) = Some 94
      then bracket_loop m byte (stop - 1) (start + 2) False
      else bracket_loop m byte (stop - 1) (start + 1) True)"

definition single :: "matcher \<Rightarrow> nat \<Rightarrow> nat \<Rightarrow> nat \<Rightarrow> bool counted" where
  "single m s p stop =
     pbind (step m) (\<lambda>_.
       case get_at (source m) s of
         None \<Rightarrow> preturn False
       | Some byte \<Rightarrow>
           pbind (pattern_at m p) (\<lambda>c.
             if c = 46 then preturn True
             else if c = 37 then pbind (pattern_at m (p + 1)) (\<lambda>symbol. preturn (class_match byte symbol))
             else if c = 91 then bracket m byte p stop
             else preturn (byte = c)))"

subsection \<open>Loops of the matcher\<close>

text \<open>\<open>%b\<close>: scanning for the balancing byte; the result is the position after it and the level left.\<close>

function balance_loop :: "matcher \<Rightarrow> u8 \<Rightarrow> u8 \<Rightarrow> nat \<Rightarrow> nat \<Rightarrow> (nat \<times> nat) counted" where
  "balance_loop m op cl s level k =
     (if s < length (source m) then
        pbind (step m) (\<lambda>_. pbind (source_at m s) (\<lambda>byte k.
          if byte = cl then
            (if level - 1 = 0 then preturn (s + 1, 0) k
             else balance_loop m op cl (s + 1) (level - 1) k)
          else if byte = op then balance_loop m op cl (s + 1) (level + 1) k
          else balance_loop m op cl (s + 1) level k)) k
      else preturn (s, level) k)"
  by pat_completeness auto
termination
  by (relation "measure (\<lambda>(m, _, _, s, _). length (source m) - s)") auto

text \<open>\<open>%1\<close>..\<open>%9\<close>: comparing the text at \<open>s\<close> with a capture, byte by byte.\<close>

fun same_loop :: "matcher \<Rightarrow> nat \<Rightarrow> nat \<Rightarrow> nat \<Rightarrow> nat \<Rightarrow> bool counted" where
  "same_loop m s start offset 0 k = preturn True k"
| "same_loop m s start offset (Suc n) k =
     pbind (step m) (\<lambda>_. pbind (source_at m (s + offset)) (\<lambda>a. pbind (source_at m (start + offset)) (\<lambda>b k.
       if a \<noteq> b then preturn False k else same_loop m s start (offset + 1) n k))) k"

text \<open>The greedy run of a single class: it ends because nothing matches past the source.\<close>

lemma single_in_range: "single m s p stop k = (Inr True, k') \<Longrightarrow> s < length (source m)"
  by (auto simp: single_def pbind_def preturn_def split: prod.splits sum.splits option.splits)

function run_loop :: "matcher \<Rightarrow> nat \<Rightarrow> nat \<Rightarrow> nat \<Rightarrow> nat counted" where
  "run_loop m far p stop k =
     pbind (single m far p stop) (\<lambda>matched k.
       if matched then run_loop m (far + 1) p stop k else preturn far k) k"
  by pat_completeness auto
termination
  by (relation "measure (\<lambda>(m, far, _). length (source m) - far)") (auto dest: single_in_range)

subsection \<open>The matcher\<close>

definition last_open :: "match_state \<Rightarrow> nat option" where
  "last_open st = find (\<lambda>i. cap_end (captures st ! i) = None) (rev [0..<cap_count st])"

text \<open>
  One iteration of the loop of \<open>match_at\<close> is \<open>match_body\<close>, with the next iteration as the
  argument \<open>again\<close>; a nested call of \<open>match_at\<close> checks the depth and starts the loop. The state of the
  captures is returned with a match; a failed attempt leaves the caller with the state it had saved.
\<close>

type_synonym attempt = "nat \<Rightarrow> nat \<Rightarrow> match_state \<Rightarrow> nat \<Rightarrow> (nat \<times> match_state) option counted"

definition nested :: "attempt \<Rightarrow> attempt" where
  "nested again s p st depth = (if 200 \<le> depth then pfail TooComplex else again s p st depth)"

text \<open>The lazy repetition tries the rest before each further repetition, the greedy one after the longest run.\<close>

function min_loop :: "attempt \<Rightarrow> matcher \<Rightarrow> nat \<Rightarrow> nat \<Rightarrow> nat \<Rightarrow> match_state \<Rightarrow> nat \<Rightarrow>
    (nat \<times> match_state) option counted" where
  "min_loop again m candidate p stop st depth k =
     pbind (nested again candidate (stop + 1) st (depth + 1)) (\<lambda>r k.
       case r of
         Some f \<Rightarrow> preturn (Some f) k
       | None \<Rightarrow>
           pbind (single m candidate p stop) (\<lambda>matched k.
             if \<not> matched then preturn None k
             else pbind (step m) (\<lambda>_ k. min_loop again m (candidate + 1) p stop st depth k) k) k) k"
  by pat_completeness auto
termination
  by (relation "measure (\<lambda>(_, m, candidate, _). length (source m) - candidate)") (auto dest: single_in_range)

fun max_loop :: "attempt \<Rightarrow> matcher \<Rightarrow> nat list \<Rightarrow> nat \<Rightarrow> match_state \<Rightarrow> nat \<Rightarrow>
    (nat \<times> match_state) option counted" where
  "max_loop again m [] q st depth k = preturn None k"
| "max_loop again m (candidate # rest) q st depth k =
     pbind (step m) (\<lambda>_.
     pbind (nested again candidate q st (depth + 1)) (\<lambda>r k.
       case r of
         Some f \<Rightarrow> preturn (Some f) k
       | None \<Rightarrow> max_loop again m rest q st depth k)) k"

definition open_capture :: "attempt \<Rightarrow> matcher \<Rightarrow> attempt" where
  "open_capture again m s p st depth =
     (if cap_count st = 32 then pfail Malformed
      else if length (captures st) \<le> cap_count st then pfail Pat_Panic
      else let position = (get_at (pattern m) (p + 1) = Some 41);
               st = st\<lparr>captures := (captures st)[cap_count st :=
                      \<lparr>cap_start = s, cap_end = (if position then Some s else None),
                       cap_position = position\<rparr>], cap_count := cap_count st + 1\<rparr>
           in again s (if position then p + 2 else p + 1) st depth)"

definition close_capture :: "attempt \<Rightarrow> attempt" where
  "close_capture again s p st depth =
     (case last_open st of
        None \<Rightarrow> pfail Malformed
      | Some i \<Rightarrow> again s (p + 1)
          (st\<lparr>captures := (captures st)[i := (captures st ! i)\<lparr>cap_end := Some s\<rparr>]\<rparr>) depth)"

definition match_balance :: "attempt \<Rightarrow> matcher \<Rightarrow> attempt" where
  "match_balance again m s p st depth =
     pbind (pget Malformed (get_at (pattern m) (p + 2))) (\<lambda>op.
     pbind (pget Malformed (get_at (pattern m) (p + 3))) (\<lambda>cl.
       if get_at (source m) s \<noteq> Some op then preturn None
       else pbind (balance_loop m op cl (s + 1) 1) (\<lambda>(s, level).
              if level \<noteq> 0 then preturn None else again s (p + 4) st depth)))"

definition match_frontier :: "attempt \<Rightarrow> matcher \<Rightarrow> attempt" where
  "match_frontier again m s p st depth =
     (if get_at (pattern m) (p + 2) \<noteq> Some 91 then pfail Malformed
      else pbind (class_end m (p + 2)) (\<lambda>stop.
           pbind (if s = 0 then preturn 0 else source_at m (s - 1)) (\<lambda>previous.
           pbind (bracket m previous (p + 2) stop) (\<lambda>before.
             if before then preturn None
             else pbind (bracket m (case get_at (source m) s of Some b \<Rightarrow> b | None \<Rightarrow> 0) (p + 2) stop)
                    (\<lambda>here. if \<not> here then preturn None else again s stop st depth)))))"

definition match_backref :: "attempt \<Rightarrow> matcher \<Rightarrow> u8 \<Rightarrow> attempt" where
  "match_backref again m code s p st depth =
     (if code < 49 then pfail Malformed
      else let index = unat (code - 49)
           in if cap_count st \<le> index \<or> length (captures st) \<le> index then pfail Malformed
              else let capture = captures st ! index
                   in case cap_end capture of
                        None \<Rightarrow> pfail Malformed
                      | Some stop \<Rightarrow>
                          if cap_position capture then preturn None
                          else if stop < cap_start capture then pfail Malformed
                          else let len = stop - cap_start capture
                               in if length (source m) < s + len then preturn None
                                  else pbind (same_loop m s (cap_start capture) 0 len) (\<lambda>same.
                                         if \<not> same then preturn None
                                         else again (s + len) (p + 2) st depth))"

definition match_simple :: "attempt \<Rightarrow> matcher \<Rightarrow> attempt" where
  "match_simple again m s p st depth =
     pbind (class_end m p) (\<lambda>stop.
     pbind (single m s p stop) (\<lambda>matched.
       let modifier = get_at (pattern m) stop
       in if modifier = Some 63 then
            (if matched then
               pbind (nested again (s + 1) (stop + 1) st (depth + 1)) (\<lambda>r.
                 case r of Some f \<Rightarrow> preturn (Some f) | None \<Rightarrow> again s (stop + 1) st depth)
             else again s (stop + 1) st depth)
          else if modifier \<in> {Some 42, Some 43, Some 45} then
            (if modifier = Some 43 \<and> \<not> matched then preturn None
             else let first = (if modifier = Some 43 then s + 1 else s)
                  in if modifier = Some 45 then min_loop again m first p stop st depth
                     else pbind (run_loop m first p stop) (\<lambda>far.
                            max_loop again m (rev [first..<far + 1]) (stop + 1) st depth))
          else if \<not> matched then preturn None
          else again (s + 1) stop st depth))"

definition match_body :: "attempt \<Rightarrow> matcher \<Rightarrow> attempt" where
  "match_body again m s p st depth =
     pbind (step m) (\<lambda>_.
       if length (pattern m) \<le> p then preturn (Some (s, st))
       else let c = pattern m ! p
            in if c = 40 then open_capture again m s p st depth
               else if c = 41 then close_capture again s p st depth
               else if c = 36 \<and> p + 1 = length (pattern m)
               then preturn (if s = length (source m) then Some (s, st) else None)
               else if c = 37 then
                 pbind (pget Malformed (get_at (pattern m) (p + 1))) (\<lambda>code.
                   if code = 98 then match_balance again m s p st depth
                   else if code = 102 then match_frontier again m s p st depth
                   else if 48 \<le> code \<and> code \<le> 57 then match_backref again m code s p st depth
                   else match_simple again m s p st depth)
               else match_simple again m s p st depth)"

primrec match_loop :: "nat \<Rightarrow> matcher \<Rightarrow> attempt" where
  "match_loop 0 m s p st depth = pfail Pat_Fuel"
| "match_loop (Suc n) m s p st depth = match_body (match_loop n m) m s p st depth"

text \<open>Every iteration takes a step, so the steps that are left are enough fuel.\<close>

definition match_at :: "matcher \<Rightarrow> attempt" where
  "match_at m s p st depth k = nested (match_loop (step_limit m - k + 1) m) s p st depth k"

subsection \<open>Searching\<close>

definition found_of :: "nat \<Rightarrow> nat \<times> match_state \<Rightarrow> found" where
  "found_of start r = \<lparr>found_start = start, found_end = fst r,
     found_captures = captures (snd r), found_count = cap_count (snd r)\<rparr>"

fun search_loop :: "matcher \<Rightarrow> bool \<Rightarrow> nat option \<Rightarrow> nat list \<Rightarrow> found option counted" where
  "search_loop m anchor prev [] k = preturn None k"
| "search_loop m anchor prev (position # rest) k =
     pbind (step m) (\<lambda>_.
     pbind (match_at m position (if anchor then 1 else 0) default_state 0) (\<lambda>r k.
       case r of
         Some f \<Rightarrow> if Some (fst f) \<noteq> prev then preturn (Some (found_of position f)) k
                   else if anchor then preturn None k else search_loop m anchor prev rest k
       | None \<Rightarrow> if anchor then preturn None k else search_loop m anchor prev rest k)) k"

definition search :: "matcher \<Rightarrow> nat \<Rightarrow> bool \<Rightarrow> nat option \<Rightarrow> found option counted" where
  "search m start anchor prev =
     (if length (source m) < start then preturn None
      else search_loop m anchor prev [start..<length (source m) + 1])"

definition match_once :: "matcher \<Rightarrow> nat \<Rightarrow> bool \<Rightarrow> found option counted" where
  "match_once m start anchor =
     (if length (source m) < start then preturn None
      else pbind (step m) (\<lambda>_. pbind (match_at m start (if anchor then 1 else 0) default_state 0) (\<lambda>r.
             preturn (map_option (found_of start) r))))"

fun equal_loop :: "matcher \<Rightarrow> nat \<Rightarrow> nat list \<Rightarrow> bool counted" where
  "equal_loop m position [] k = preturn True k"
| "equal_loop m position (offset # rest) k =
     pbind (step m) (\<lambda>_. pbind (source_at m (position + offset)) (\<lambda>a. pbind (pattern_at m offset) (\<lambda>b k.
       if a \<noteq> b then preturn False k else equal_loop m position rest k))) k"

fun plain_loop :: "matcher \<Rightarrow> nat list \<Rightarrow> found option counted" where
  "plain_loop m [] k = preturn None k"
| "plain_loop m (position # rest) k =
     pbind (step m) (\<lambda>_. pbind (equal_loop m position [0..<length (pattern m)]) (\<lambda>equal k.
       if equal then preturn (Some \<lparr>found_start = position, found_end = position + length (pattern m),
                          found_captures = replicate 32 default_capture, found_count = 0\<rparr>) k
       else plain_loop m rest k)) k"

definition plain_find :: "matcher \<Rightarrow> nat \<Rightarrow> found option counted" where
  "plain_find m start =
     (if length (source m) < start then preturn None
      else if length (source m) - start < length (pattern m) then preturn None
      else plain_loop m [start..<length (source m) - length (pattern m) + 1])"


subsection \<open>Sound computations\<close>

text \<open>
  An outcome is sound from a count of steps on when the steps after it are between that count and the
  limit, it is neither a panic nor out of fuel, and its answer satisfies a condition on the answer and
  the steps.
\<close>

definition sound :: "matcher \<Rightarrow> nat \<Rightarrow> ('a \<Rightarrow> nat \<Rightarrow> bool) \<Rightarrow> (pattern_error, 'a) result \<times> nat \<Rightarrow> bool" where
  "sound m b P res \<longleftrightarrow> (case res of (r, k) \<Rightarrow> b \<le> k \<and> k \<le> step_limit m
     \<and> (case r of Inl e \<Rightarrow> e \<noteq> Pat_Panic \<and> e \<noteq> Pat_Fuel | Inr x \<Rightarrow> P x k))"

lemma sound_return: "b \<le> k \<Longrightarrow> k \<le> step_limit m \<Longrightarrow> P x k \<Longrightarrow> sound m b P (preturn x k)"
  by (simp add: sound_def preturn_def)

lemma sound_fail:
  "b \<le> k \<Longrightarrow> k \<le> step_limit m \<Longrightarrow> e \<noteq> Pat_Panic \<Longrightarrow> e \<noteq> Pat_Fuel \<Longrightarrow> sound m b P (pfail e k)"
  by (simp add: sound_def pfail_def)

lemma sound_bind:
  assumes "sound m b R (c k)"
    and "\<And>x k'. \<lbrakk>R x k'; b \<le> k'; k' \<le> step_limit m\<rbrakk> \<Longrightarrow> sound m b P (f x k')"
  shows "sound m b P (pbind c f k)"
proof (cases "c k")
  case (Pair r k1)
  then show ?thesis using assms by (cases r) (simp_all add: sound_def pbind_def)
qed

lemma sound_mono:
  "sound m b P res \<Longrightarrow> (\<And>x k'. P x k' \<Longrightarrow> b \<le> k' \<Longrightarrow> Q x k') \<Longrightarrow> sound m b Q res"
  by (auto simp: sound_def split: prod.splits sum.splits)

lemma sound_base: "sound m b' P res \<Longrightarrow> b \<le> b' \<Longrightarrow> sound m b P res"
  by (auto simp: sound_def split: prod.splits)

lemma sound_step: "b \<le> k \<Longrightarrow> k \<le> step_limit m \<Longrightarrow> sound m b (\<lambda>_ k'. k' = Suc k) (step m k)"
  by (simp add: sound_def step_def)

lemma pbind_step: "pbind (step m) f k = (if step_limit m \<le> k then pfail Exhausted k else f () (Suc k))"
  by (simp add: pbind_def step_def pfail_def)

lemma pbind_pattern_at: "i < length (pattern m) \<Longrightarrow> pbind (pattern_at m i) f k = f (pattern m ! i) k"
  by (simp add: pbind_def pattern_at_def pget_def get_at_def preturn_def)

lemma pbind_source_at: "i < length (source m) \<Longrightarrow> pbind (source_at m i) f k = f (source m ! i) k"
  by (simp add: pbind_def source_at_def pget_def get_at_def preturn_def)

lemma pbind_get: "pbind (pget e x) f k = (case x of None \<Rightarrow> pfail e k | Some v \<Rightarrow> f v k)"
  by (simp add: pbind_def pget_def preturn_def pfail_def split: option.split)

lemma sound_step_bind:
  assumes "b \<le> k" and "k \<le> step_limit m"
    and "\<lbrakk>b \<le> Suc k; Suc k \<le> step_limit m\<rbrakk> \<Longrightarrow> sound m b P (f () (Suc k))"
  shows "sound m b P (pbind (step m) f k)"
  using assms by (auto simp: pbind_step intro: sound_fail)

lemma sound_get_bind:
  assumes "b \<le> k" and "k \<le> step_limit m" and "\<And>v. x = Some v \<Longrightarrow> sound m b P (f v k)"
    and "e \<noteq> Pat_Panic" and "e \<noteq> Pat_Fuel"
  shows "sound m b P (pbind (pget e x) f k)"
  using assms by (auto simp: pbind_get intro: sound_fail split: option.split)

declare class_loop.simps [simp del] bracket_loop.simps [simp del] balance_loop.simps [simp del]
  run_loop.simps [simp del] min_loop.simps [simp del]

lemma sound_class_loop:
  "\<lbrakk>b \<le> k; k \<le> step_limit m; cursor \<le> length (pattern m)\<rbrakk> \<Longrightarrow>
   sound m b (\<lambda>stop k'. cursor < stop \<and> stop \<le> length (pattern m) \<and> k < k') (class_loop m cursor k)"
proof (induction "length (pattern m) + 1 - cursor" arbitrary: cursor k rule: less_induct)
  case less
  show ?case
  proof (subst class_loop.simps, rule sound_step_bind [OF less.prems(1,2)])
    assume k: "b \<le> Suc k" "Suc k \<le> step_limit m"
    show "sound m b (\<lambda>stop k'. cursor < stop \<and> stop \<le> length (pattern m) \<and> k < k')
      (case get_at (pattern m) cursor of
         None \<Rightarrow> pfail Malformed (Suc k)
       | Some byte \<Rightarrow>
           (let cursor = cursor + 1;
                cursor = (if byte = 37 \<and> cursor < length (pattern m) then cursor + 1 else cursor)
            in if get_at (pattern m) cursor = Some 93 then preturn (cursor + 1) (Suc k)
               else class_loop m cursor (Suc k)))"
    proof (cases "get_at (pattern m) cursor")
      case None
      show ?thesis unfolding None option.case using k by (intro sound_fail) simp_all
    next
      case (Some byte)
      define c where "c = (if byte = 37 \<and> cursor + 1 < length (pattern m) then cursor + 1 + 1 else cursor + 1)"
      have c: "cursor < c" "c \<le> length (pattern m)" using Some by (auto simp: c_def)
      have "sound m b (\<lambda>stop k'. c < stop \<and> stop \<le> length (pattern m) \<and> Suc k < k') (class_loop m c (Suc k))"
        by (rule less.hyps) (use c k Some in auto)
      then show ?thesis unfolding Some option.case Let_def c_def [symmetric]
        using k c by (auto intro!: sound_return elim!: sound_mono)
    qed
  qed
qed

lemma sound_class_end:
  assumes "b \<le> k" and "k \<le> step_limit m"
  shows "sound m b (\<lambda>stop k'. p < stop \<and> stop \<le> length (pattern m) \<and> k < k'
     \<and> (pattern m ! p = 37 \<longrightarrow> p + 1 < length (pattern m))) (class_end m p k)"
  unfolding class_end_def
proof (rule sound_step_bind [OF assms])
  let ?Q = "\<lambda>stop k'. p < stop \<and> stop \<le> length (pattern m) \<and> k < k' \<and> (pattern m ! p = 37 \<longrightarrow> p + 1 < length (pattern m))"
  assume k: "b \<le> Suc k" "Suc k \<le> step_limit m"
  show "sound m b ?Q ((case get_at (pattern m) p of
         None \<Rightarrow> pfail Malformed
       | Some byte \<Rightarrow>
           if byte = 37 then (if p + 1 < length (pattern m) then preturn (p + 2) else pfail Malformed)
           else if byte = 91
           then class_loop m (if get_at (pattern m) (p + 1) = Some 94 then p + 2 else p + 1)
           else preturn (p + 1)) (Suc k))"
  proof (cases "get_at (pattern m) p")
    case None
    show ?thesis unfolding None option.case using k by (intro sound_fail) simp_all
  next
    case (Some byte)
    then have p: "p < length (pattern m)" "pattern m ! p = byte" by simp_all
    let ?c = "if get_at (pattern m) (p + 1) = Some 94 then p + 2 else p + 1"
    have c: "?c \<le> length (pattern m)" "p < ?c" using p by auto
    have "sound m b ?Q (class_loop m ?c (Suc k))" if "byte = 91"
      using sound_class_loop [OF k c(1)] by (rule sound_mono) (use c(2) p that in auto)
    then show ?thesis unfolding Some option.case
      using k p by (auto intro!: sound_return sound_fail)
  qed
qed

lemma sound_pattern_at: "i < length (pattern m) \<Longrightarrow> sound m b P (f (pattern m ! i) k) \<Longrightarrow> sound m b P (pbind (pattern_at m i) f k)"
  by (simp add: pbind_pattern_at)

lemma sound_branch: "(c \<Longrightarrow> sound m b P x) \<Longrightarrow> (\<not> c \<Longrightarrow> sound m b P y) \<Longrightarrow> sound m b P (if c then x else y)"
  by simp

lemma sound_bracket_loop:
  "\<lbrakk>b \<le> k; k \<le> step_limit m; stop \<le> length (pattern m)\<rbrakk> \<Longrightarrow>
   sound m b (\<lambda>_ k'. k \<le> k') (bracket_loop m byte stop p positive k)"
proof (induction "stop - p" arbitrary: p k rule: less_induct)
  case less
  have again: "sound m b (\<lambda>_ k'. k \<le> k') (bracket_loop m byte stop q positive (Suc k))"
    if "p < stop" "p < q" "Suc k \<le> step_limit m" for q
    by (rule sound_mono [OF less.hyps]) (use that less.prems in auto)
  show ?case
  proof (cases "p < stop")
    case True
    then have p: "p < length (pattern m)" using less.prems(3) by simp
    have r: "sound m b (\<lambda>_ k'. k \<le> k') (preturn x (Suc k))" if "Suc k \<le> step_limit m" for x
      using that less.prems(1) by (simp add: sound_return)
    show ?thesis
      unfolding bracket_loop.simps [of m byte stop p] if_P [OF True]
      by (intro sound_step_bind [OF less.prems(1,2)] sound_pattern_at sound_branch r again)
        (use True less.prems(3) in simp_all)
  next
    case False
    then show ?thesis using less.prems by (subst bracket_loop.simps) (simp add: sound_return)
  qed
qed

lemma sound_bracket:
  "\<lbrakk>b \<le> k; k \<le> step_limit m; stop \<le> length (pattern m)\<rbrakk> \<Longrightarrow>
   sound m b (\<lambda>_ k'. k \<le> k') (bracket m byte start stop k)"
  by (simp add: bracket_def sound_bracket_loop)

lemma sound_single:
  assumes "b \<le> k" and "k \<le> step_limit m" and "p < stop" and "stop \<le> length (pattern m)"
    and "pattern m ! p = 37 \<longrightarrow> p + 1 < length (pattern m)"
  shows "sound m b (\<lambda>r k'. k < k' \<and> (r \<longrightarrow> s < length (source m))) (single m s p stop k)"
  unfolding single_def
proof (rule sound_step_bind [OF assms(1,2)])
  assume k: "b \<le> Suc k" "Suc k \<le> step_limit m"
  have br: "sound m b (\<lambda>r k'. k < k' \<and> (r \<longrightarrow> s < length (source m))) (bracket m byte p stop (Suc k))"
    if "s < length (source m)" for byte
    using sound_bracket [OF k assms(4)] by (rule sound_mono) (use that in auto)
  show "sound m b (\<lambda>r k'. k < k' \<and> (r \<longrightarrow> s < length (source m)))
     ((case get_at (source m) s of
         None \<Rightarrow> preturn False
       | Some byte \<Rightarrow>
           pbind (pattern_at m p) (\<lambda>c.
             if c = 46 then preturn True
             else if c = 37 then pbind (pattern_at m (p + 1)) (\<lambda>symbol. preturn (class_match byte symbol))
             else if c = 91 then bracket m byte p stop
             else preturn (byte = c))) (Suc k))"
    using assms(3-5) k br
    by (auto simp: pbind_pattern_at intro!: sound_return split: option.split)
qed

lemma sound_balance_loop:
  "\<lbrakk>b \<le> k; k \<le> step_limit m; s \<le> length (source m)\<rbrakk> \<Longrightarrow>
   sound m b (\<lambda>(s', _) k'. k \<le> k' \<and> s \<le> s' \<and> s' \<le> length (source m)) (balance_loop m op cl s level k)"
proof (induction "length (source m) - s" arbitrary: s level k rule: less_induct)
  case less
  have again: "sound m b (\<lambda>(s', _) k'. k \<le> k' \<and> s \<le> s' \<and> s' \<le> length (source m)) (balance_loop m op cl (s + 1) lev (Suc k))"
    if "s < length (source m)" "Suc k \<le> step_limit m" for lev
    by (rule sound_mono [OF less.hyps]) (use that less.prems in auto)
  show ?case
    using less.prems again
    by (subst balance_loop.simps)
      (auto simp: pbind_source_at intro!: sound_return sound_step_bind)
qed

lemma sound_same_loop:
  "\<lbrakk>b \<le> k; k \<le> step_limit m; s + offset + n \<le> length (source m); start + offset + n \<le> length (source m)\<rbrakk> \<Longrightarrow>
   sound m b (\<lambda>_ k'. k \<le> k') (same_loop m s start offset n k)"
proof (induction n arbitrary: offset k)
  case (Suc n)
  have "sound m b (\<lambda>_ k'. k \<le> k') (same_loop m s start (offset + 1) n (Suc k))" if "Suc k \<le> step_limit m"
    by (rule sound_mono [OF Suc.IH]) (use that Suc.prems in auto)
  with Suc.prems show ?case
    by (auto simp: pbind_source_at intro!: sound_return sound_step_bind)
qed (simp add: sound_return)

lemma sound_run_loop:
  "\<lbrakk>b \<le> k; k \<le> step_limit m; far \<le> length (source m); p < stop; stop \<le> length (pattern m);
    pattern m ! p = 37 \<longrightarrow> p + 1 < length (pattern m)\<rbrakk> \<Longrightarrow>
   sound m b (\<lambda>far' k'. k < k' \<and> far \<le> far' \<and> far' \<le> length (source m)) (run_loop m far p stop k)"
proof (induction "length (source m) - far" arbitrary: far k rule: less_induct)
  case less
  show ?case
  proof (subst run_loop.simps, rule sound_bind [where R = "\<lambda>r k'. k < k' \<and> (r \<longrightarrow> far < length (source m))"])
    show "sound m b (\<lambda>r k'. k < k' \<and> (r \<longrightarrow> far < length (source m))) (single m far p stop k)"
      using less.prems by (intro sound_single) auto
  next
    fix r k' assume r: "k < k' \<and> (r \<longrightarrow> far < length (source m))" "b \<le> k'" "k' \<le> step_limit m"
    have "sound m b (\<lambda>far' k'. k < k' \<and> far \<le> far' \<and> far' \<le> length (source m)) (run_loop m (far + 1) p stop k')" if r
      by (rule sound_mono [OF less.hyps]) (use that r less.prems in auto)
    with r less.prems show "sound m b (\<lambda>far' k'. k < k' \<and> far \<le> far' \<and> far' \<le> length (source m))
        (if r then run_loop m (far + 1) p stop k' else preturn far k')"
      by (auto intro!: sound_return)
  qed
qed

subsection \<open>Soundness of the matcher\<close>

text \<open>
  The captures of a state at position \<open>s\<close>: at most 32, none of them starts or ends after \<open>s\<close>, and a
  closed one does not end before it starts.
\<close>

definition caps_ok :: "match_state \<Rightarrow> nat \<Rightarrow> bool" where
  "caps_ok st s \<longleftrightarrow> length (captures st) = 32 \<and> cap_count st \<le> 32
     \<and> (\<forall>i<cap_count st. cap_start (captures st ! i) \<le> s
          \<and> (\<forall>e. cap_end (captures st ! i) = Some e \<longrightarrow> cap_start (captures st ! i) \<le> e \<and> e \<le> s))"

definition match_post :: "matcher \<Rightarrow> nat \<Rightarrow> (nat \<times> match_state) option \<Rightarrow> bool" where
  "match_post m s r \<longleftrightarrow> (case r of None \<Rightarrow> True
     | Some (e, st) \<Rightarrow> s \<le> e \<and> e \<le> length (source m) \<and> caps_ok st e)"

definition sound_attempt :: "matcher \<Rightarrow> nat \<Rightarrow> attempt \<Rightarrow> bool" where
  "sound_attempt m b again \<longleftrightarrow> (\<forall>s p st depth k.
     s \<le> length (source m) \<and> caps_ok st s \<and> b \<le> k \<and> k \<le> step_limit m
     \<longrightarrow> sound m b (\<lambda>r _. match_post m s r) (again s p st depth k))"

lemma caps_ok_mono: "caps_ok st s \<Longrightarrow> s \<le> s' \<Longrightarrow> caps_ok st s'"
  by (fastforce simp: caps_ok_def)

lemma match_post_mono: "match_post m s' r \<Longrightarrow> s \<le> s' \<Longrightarrow> match_post m s r"
  by (auto simp: match_post_def split: option.splits)

lemma match_post_None [simp]: "match_post m s None"
  by (simp add: match_post_def)

lemma sound_attempt_from:
  assumes "sound_attempt m b again" and "s' \<le> length (source m)" and "caps_ok st s'" and "s \<le> s'"
    and "b \<le> k" and "k \<le> step_limit m"
  shows "sound m b (\<lambda>r _. match_post m s r) (again s' p st depth k)"
proof (rule sound_mono)
  show "sound m b (\<lambda>r _. match_post m s' r) (again s' p st depth k)"
    using assms by (simp add: sound_attempt_def)
qed (rule match_post_mono [OF _ assms(4)])

lemma sound_nested: "sound_attempt m b again \<Longrightarrow> sound_attempt m b (nested again)"
  by (auto simp: sound_attempt_def nested_def intro!: sound_fail)

lemma sound_min_loop:
  assumes again: "sound_attempt m b again" and p: "p < stop" "stop \<le> length (pattern m)"
    "pattern m ! p = 37 \<longrightarrow> p + 1 < length (pattern m)"
  shows "\<lbrakk>s \<le> c; c \<le> length (source m); caps_ok st s; b \<le> k; k \<le> step_limit m\<rbrakk> \<Longrightarrow>
    sound m b (\<lambda>r _. match_post m s r) (min_loop again m c p stop st depth k)"
proof (induction "length (source m) - c" arbitrary: c k rule: less_induct)
  case less
  show ?case
  proof (subst min_loop.simps, rule sound_bind [where R = "\<lambda>r _. match_post m s r"])
    show "sound m b (\<lambda>r _. match_post m s r) (nested again c (stop + 1) st (depth + 1) k)"
      by (rule sound_attempt_from [OF sound_nested [OF again]])
        (use less.prems caps_ok_mono in auto)
  next
    fix r k' assume r: "match_post m s r" "b \<le> k'" "k' \<le> step_limit m"
    show "sound m b (\<lambda>r _. match_post m s r) (case r of
         Some f \<Rightarrow> preturn (Some f) k'
       | None \<Rightarrow>
           pbind (single m c p stop) (\<lambda>matched k.
             if \<not> matched then preturn None k
             else pbind (step m) (\<lambda>_ k. min_loop again m (c + 1) p stop st depth k) k) k')"
    proof (cases r)
      case None
      have one: "sound m b (\<lambda>x k''. k' < k'' \<and> (x \<longrightarrow> c < length (source m))) (single m c p stop k')"
        using r p by (intro sound_single) auto
      show ?thesis unfolding None option.case
      proof (rule sound_bind, rule one)
        fix x k'' assume x: "k' < k'' \<and> (x \<longrightarrow> c < length (source m))" "b \<le> k''" "k'' \<le> step_limit m"
        show "sound m b (\<lambda>r _. match_post m s r) (if \<not> x then preturn None k''
             else pbind (step m) (\<lambda>_ k. min_loop again m (c + 1) p stop st depth k) k'')"
          using x less.hyps [of "c + 1" "Suc k''"] less.prems
          by (auto intro!: sound_return sound_step_bind)
      qed
    next
      case (Some f)
      with r show ?thesis by (simp add: sound_return)
    qed
  qed
qed

lemma sound_max_loop:
  assumes again: "sound_attempt m b again"
  shows "\<lbrakk>\<forall>c\<in>set cs. s \<le> c \<and> c \<le> length (source m); caps_ok st s; b \<le> k; k \<le> step_limit m\<rbrakk> \<Longrightarrow>
    sound m b (\<lambda>r _. match_post m s r) (max_loop again m cs q st depth k)"
proof (induction cs arbitrary: k)
  case (Cons c cs)
  have rest: "sound m b (\<lambda>r _. match_post m s r) (pbind (nested again c q st (depth + 1)) (\<lambda>r k.
       case r of Some f \<Rightarrow> preturn (Some f) k | None \<Rightarrow> max_loop again m cs q st depth k) k')"
    if "b \<le> k'" "k' \<le> step_limit m" for k'
  proof (rule sound_bind [where R = "\<lambda>r _. match_post m s r"])
    show "sound m b (\<lambda>r _. match_post m s r) (nested again c q st (depth + 1) k')"
      by (rule sound_attempt_from [OF sound_nested [OF again]])
        (use Cons.prems that caps_ok_mono in auto)
  qed (use Cons in \<open>auto intro!: sound_return split: option.split\<close>)
  show ?case unfolding max_loop.simps
    by (rule sound_step_bind) (use Cons.prems rest in auto)
qed (simp add: sound_return)

lemma sound_open_capture:
  assumes "sound_attempt m b again" and "s \<le> length (source m)" and "caps_ok st s" and "b \<le> k" and "k \<le> step_limit m"
  shows "sound m b (\<lambda>r _. match_post m s r) (open_capture again m s p st depth k)"
proof -
  have "caps_ok (st\<lparr>captures := (captures st)[cap_count st := \<lparr>cap_start = s, cap_end = (if position then Some s else None),
      cap_position = position\<rparr>], cap_count := cap_count st + 1\<rparr>) s" if "cap_count st \<noteq> 32" for position
    using assms(3) that by (auto simp: caps_ok_def nth_list_update less_Suc_eq)
  from sound_attempt_from [OF assms(1,2) this order_refl assms(4,5)]
  have go: "cap_count st \<noteq> 32 \<Longrightarrow> sound m b (\<lambda>r _. match_post m s r) (again s q (st\<lparr>captures := (captures st)[cap_count st :=
      \<lparr>cap_start = s, cap_end = (if position then Some s else None), cap_position = position\<rparr>],
      cap_count := cap_count st + 1\<rparr>) depth k)" for q position .
  have full: "length (captures st) \<le> cap_count st \<Longrightarrow> cap_count st = 32"
    using assms(3) by (auto simp: caps_ok_def)
  show ?thesis
  proof (cases "cap_count st = 32")
    case True
    with assms show ?thesis by (simp add: open_capture_def sound_fail)
  next
    case False
    then have "\<not> length (captures st) \<le> cap_count st" using full by blast
    with False show ?thesis unfolding open_capture_def Let_def by (simp only: if_False go not_False_eq_True)
  qed
qed

lemma last_open_range: "last_open st = Some i \<Longrightarrow> i < cap_count st"
  by (auto simp: last_open_def find_Some_iff rev_nth)

lemma sound_close_capture:
  assumes "sound_attempt m b again" and "s \<le> length (source m)" and "caps_ok st s" and "b \<le> k" and "k \<le> step_limit m"
  shows "sound m b (\<lambda>r _. match_post m s r) (close_capture again s p st depth k)"
proof (cases "last_open st")
  case None
  with assms show ?thesis by (simp add: close_capture_def sound_fail)
next
  case (Some i)
  then have "i < cap_count st" by (rule last_open_range)
  then have "caps_ok (st\<lparr>captures := (captures st)[i := (captures st ! i)\<lparr>cap_end := Some s\<rparr>]\<rparr>) s"
    using assms(3) by (auto simp: caps_ok_def nth_list_update)
  with assms Some show ?thesis by (simp add: close_capture_def sound_attempt_from)
qed

lemma sound_match_balance:
  assumes "sound_attempt m b again" and "s \<le> length (source m)" and "caps_ok st s" and "b \<le> k" and "k \<le> step_limit m"
  shows "sound m b (\<lambda>r _. match_post m s r) (match_balance again m s p st depth k)"
proof -
  have go: "sound m b (\<lambda>r _. match_post m s r) (pbind (balance_loop m op cl (s + 1) 1) (\<lambda>(s, level).
       if level \<noteq> 0 then preturn None else again s (p + 4) st depth) k)" if "s < length (source m)" for op cl
  proof (rule sound_bind)
    show "sound m b (\<lambda>(s', _) k'. k \<le> k' \<and> s + 1 \<le> s' \<and> s' \<le> length (source m)) (balance_loop m op cl (s + 1) 1 k)"
      using that assms by (intro sound_balance_loop) auto
  qed (use assms caps_ok_mono in \<open>auto intro!: sound_return sound_attempt_from [OF assms(1)]\<close>)
  show ?thesis unfolding match_balance_def
    by (intro sound_get_bind) (use assms go in \<open>auto intro!: sound_return\<close>)
qed

lemma sound_match_frontier:
  assumes "sound_attempt m b again" and "s \<le> length (source m)" and "caps_ok st s" and "b \<le> k" and "k \<le> step_limit m"
  shows "sound m b (\<lambda>r _. match_post m s r) (match_frontier again m s p st depth k)"
proof -
  have prev: "pbind (if s = 0 then preturn 0 else source_at m (s - 1)) f k' = f (if s = 0 then 0 else source m ! (s - 1)) k'"
    for f :: "u8 \<Rightarrow> (nat \<times> match_state) option counted" and k'
  proof (cases "s = 0")
    case False
    then have "s - 1 < length (source m)" using assms(2) by simp
    with False show ?thesis by (simp only: if_False pbind_source_at)
  qed (simp add: pbind_def preturn_def)
  have "sound m b (\<lambda>r _. match_post m s r) (pbind (class_end m (p + 2)) (\<lambda>stop.
           pbind (if s = 0 then preturn 0 else source_at m (s - 1)) (\<lambda>previous.
           pbind (bracket m previous (p + 2) stop) (\<lambda>before.
             if before then preturn None
             else pbind (bracket m (case get_at (source m) s of Some b \<Rightarrow> b | None \<Rightarrow> 0) (p + 2) stop)
                    (\<lambda>here. if \<not> here then preturn None else again s stop st depth)))) k)"
  proof (rule sound_bind, rule sound_class_end [OF assms(4,5)])
    fix stop k' assume stop: "p + 2 < stop \<and> stop \<le> length (pattern m) \<and> k < k'
       \<and> (pattern m ! (p + 2) = 37 \<longrightarrow> p + 2 + 1 < length (pattern m))" "b \<le> k'" "k' \<le> step_limit m"
    show "sound m b (\<lambda>r _. match_post m s r) (pbind (if s = 0 then preturn 0 else source_at m (s - 1)) (\<lambda>previous.
           pbind (bracket m previous (p + 2) stop) (\<lambda>before.
             if before then preturn None
             else pbind (bracket m (case get_at (source m) s of Some b \<Rightarrow> b | None \<Rightarrow> 0) (p + 2) stop)
                    (\<lambda>here. if \<not> here then preturn None else again s stop st depth))) k')"
      unfolding prev
    proof (rule sound_bind, rule sound_bracket)
      fix before k2 assume b2: "k' \<le> k2" "b \<le> k2" "k2 \<le> step_limit m"
      show "sound m b (\<lambda>r _. match_post m s r) ((if before then preturn None
             else pbind (bracket m (case get_at (source m) s of Some b \<Rightarrow> b | None \<Rightarrow> 0) (p + 2) stop)
                    (\<lambda>here. if \<not> here then preturn None else again s stop st depth)) k2)"
      proof (cases before)
        case False
        have "sound m b (\<lambda>r _. match_post m s r) (pbind (bracket m (case get_at (source m) s of Some b \<Rightarrow> b | None \<Rightarrow> 0) (p + 2) stop)
                    (\<lambda>here. if \<not> here then preturn None else again s stop st depth) k2)"
          by (rule sound_bind, rule sound_bracket)
            (use b2 stop assms in \<open>auto intro!: sound_return sound_attempt_from [OF assms(1)]\<close>)
        with False show ?thesis by simp
      qed (use b2 in \<open>simp add: sound_return\<close>)
    qed (use stop in auto)
  qed
  then show ?thesis unfolding match_frontier_def using assms by (auto intro!: sound_fail)
qed

lemma sound_match_backref:
  assumes "sound_attempt m b again" and "s \<le> length (source m)" and "caps_ok st s" and "b \<le> k" and "k \<le> step_limit m"
  shows "sound m b (\<lambda>r _. match_post m s r) (match_backref again m code s p st depth k)"
proof -
  have go: "sound m b (\<lambda>r _. match_post m s r) (pbind (same_loop m s start 0 len) (\<lambda>same.
       if \<not> same then preturn None else again (s + len) (p + 2) st depth) k)"
    if "s + len \<le> length (source m)" "start + len \<le> length (source m)" for start len
  proof (rule sound_bind)
    show "sound m b (\<lambda>_ k'. k \<le> k') (same_loop m s start 0 len k)"
      using that assms by (intro sound_same_loop) auto
  qed (use that assms caps_ok_mono in \<open>auto intro!: sound_return sound_attempt_from [OF assms(1)]\<close>)
  have caps: "e \<le> s \<and> cap_start (captures st ! i) \<le> e" if "i < cap_count st" "cap_end (captures st ! i) = Some e" for i e
    using assms(3) that by (auto simp: caps_ok_def)
  show ?thesis
  proof (cases "code < 49 \<or> cap_count st \<le> unat (code - 49) \<or> length (captures st) \<le> unat (code - 49)")
    case True
    with assms show ?thesis by (auto simp: match_backref_def Let_def intro: sound_fail)
  next
    case False
    let ?c = "captures st ! unat (code - 49)"
    show ?thesis
    proof (cases "cap_end ?c")
      case None
      with False assms show ?thesis by (simp add: match_backref_def Let_def sound_fail)
    next
      case (Some e)
      have e: "e \<le> s" "cap_start ?c \<le> e" using caps [OF _ Some] False by auto
      then have "cap_start ?c + (e - cap_start ?c) \<le> length (source m)" using assms(2) by simp
      note go [OF _ this]
      with False Some e assms show ?thesis
        by (simp add: match_backref_def Let_def sound_return)
    qed
  qed
qed

lemma sound_if:
  "(c \<Longrightarrow> sound m b P (f k)) \<Longrightarrow> (\<not> c \<Longrightarrow> sound m b P (g k)) \<Longrightarrow> sound m b P ((if c then f else g) k)"
  by simp

lemma sound_match_simple:
  assumes again: "sound_attempt m b again" and s: "s \<le> length (source m)" and caps: "caps_ok st s"
    and k: "b \<le> k" "k \<le> step_limit m"
  shows "sound m b (\<lambda>r _. match_post m s r) (match_simple again m s p st depth k)"
  unfolding match_simple_def
proof (rule sound_bind, rule sound_class_end [OF k])
  fix stop k1
  assume stop: "p < stop \<and> stop \<le> length (pattern m) \<and> k < k1 \<and> (pattern m ! p = 37 \<longrightarrow> p + 1 < length (pattern m))"
    and k1: "b \<le> k1" "k1 \<le> step_limit m"
  have one: "sound m b (\<lambda>r k'. k1 < k' \<and> (r \<longrightarrow> s < length (source m))) (single m s p stop k1)"
    using stop k1 by (intro sound_single) auto
  show "sound m b (\<lambda>r _. match_post m s r) (pbind (single m s p stop) (\<lambda>matched.
       let modifier = get_at (pattern m) stop
       in if modifier = Some 63 then
            (if matched then
               pbind (nested again (s + 1) (stop + 1) st (depth + 1)) (\<lambda>r.
                 case r of Some f \<Rightarrow> preturn (Some f) | None \<Rightarrow> again s (stop + 1) st depth)
             else again s (stop + 1) st depth)
          else if modifier \<in> {Some 42, Some 43, Some 45} then
            (if modifier = Some 43 \<and> \<not> matched then preturn None
             else let first = (if modifier = Some 43 then s + 1 else s)
                  in if modifier = Some 45 then min_loop again m first p stop st depth
                     else pbind (run_loop m first p stop) (\<lambda>far.
                            max_loop again m (rev [first..<far + 1]) (stop + 1) st depth))
          else if \<not> matched then preturn None
          else again (s + 1) stop st depth) k1)"
  proof (rule sound_bind, rule one)
    fix matched k2 assume x: "k1 < k2 \<and> (matched \<longrightarrow> s < length (source m))" and k2: "b \<le> k2" "k2 \<le> step_limit m"
    have one_more: "sound m b (\<lambda>r _. match_post m s r) (again (s + 1) q st depth k2)" if matched for q
      by (rule sound_attempt_from [OF again]) (use that x k2 caps caps_ok_mono in auto)
    have skip: "sound m b (\<lambda>r _. match_post m s r) (again s q st depth k3)" if "b \<le> k3" "k3 \<le> step_limit m" for q k3
      by (rule sound_attempt_from [OF again]) (use that s caps in auto)
    have optional: "sound m b (\<lambda>r _. match_post m s r) (pbind (nested again (s + 1) (stop + 1) st (depth + 1)) (\<lambda>r.
                 case r of Some f \<Rightarrow> preturn (Some f) | None \<Rightarrow> again s (stop + 1) st depth) k2)" if matched
    proof (rule sound_bind)
      show "sound m b (\<lambda>r _. match_post m s r) (nested again (s + 1) (stop + 1) st (depth + 1) k2)"
        by (rule sound_attempt_from [OF sound_nested [OF again]]) (use that x k2 caps caps_ok_mono in auto)
    qed (use skip in \<open>auto intro!: sound_return split: option.split\<close>)
    have lazy: "sound m b (\<lambda>r _. match_post m s r) (min_loop again m first p stop st depth k2)"
      if "s \<le> first" "first \<le> length (source m)" for first
      using stop caps that k2 by (intro sound_min_loop [OF again]) auto
    have greedy: "sound m b (\<lambda>r _. match_post m s r) (pbind (run_loop m first p stop) (\<lambda>far.
                            max_loop again m (rev [first..<far + 1]) (stop + 1) st depth) k2)"
      if "s \<le> first" "first \<le> length (source m)" for first
    proof (rule sound_bind)
      show "sound m b (\<lambda>far' k'. k2 < k' \<and> first \<le> far' \<and> far' \<le> length (source m)) (run_loop m first p stop k2)"
        using stop k2 that by (intro sound_run_loop) auto
    qed (use that caps in \<open>auto simp del: upt_Suc intro!: sound_max_loop [OF again]\<close>)
    show "sound m b (\<lambda>r _. match_post m s r) ((let modifier = get_at (pattern m) stop
       in if modifier = Some 63 then
            (if matched then
               pbind (nested again (s + 1) (stop + 1) st (depth + 1)) (\<lambda>r.
                 case r of Some f \<Rightarrow> preturn (Some f) | None \<Rightarrow> again s (stop + 1) st depth)
             else again s (stop + 1) st depth)
          else if modifier \<in> {Some 42, Some 43, Some 45} then
            (if modifier = Some 43 \<and> \<not> matched then preturn None
             else let first = (if modifier = Some 43 then s + 1 else s)
                  in if modifier = Some 45 then min_loop again m first p stop st depth
                     else pbind (run_loop m first p stop) (\<lambda>far.
                            max_loop again m (rev [first..<far + 1]) (stop + 1) st depth))
          else if \<not> matched then preturn None
          else again (s + 1) stop st depth) k2)"
      unfolding Let_def
      by (intro sound_if one_more skip optional lazy greedy sound_return) (use x k2 s in auto)
  qed
qed

lemmas sound_branches = sound_open_capture sound_close_capture sound_match_balance sound_match_frontier
  sound_match_backref sound_match_simple

text \<open>An iteration takes a step, so it needs the next one to be sound one step later only.\<close>

lemma sound_match_body:
  assumes again: "sound_attempt m (Suc b) again"
  shows "sound_attempt m b (match_body again m)"
  unfolding sound_attempt_def
proof (intro allI impI)
  fix s p st depth k
  assume h: "s \<le> length (source m) \<and> caps_ok st s \<and> b \<le> k \<and> k \<le> step_limit m"
  show "sound m b (\<lambda>r _. match_post m s r) (match_body again m s p st depth k)"
    unfolding match_body_def
  proof (rule sound_step_bind)
    assume k: "b \<le> Suc k" "Suc k \<le> step_limit m"
    note br = sound_branches [OF again, of s st "Suc k"]
    show "sound m b (\<lambda>r _. match_post m s r) ((if length (pattern m) \<le> p then preturn (Some (s, st))
       else let c = pattern m ! p
            in if c = 40 then open_capture again m s p st depth
               else if c = 41 then close_capture again s p st depth
               else if c = 36 \<and> p + 1 = length (pattern m)
               then preturn (if s = length (source m) then Some (s, st) else None)
               else if c = 37 then
                 pbind (pget Malformed (get_at (pattern m) (p + 1))) (\<lambda>code.
                   if code = 98 then match_balance again m s p st depth
                   else if code = 102 then match_frontier again m s p st depth
                   else if 48 \<le> code \<and> code \<le> 57 then match_backref again m code s p st depth
                   else match_simple again m s p st depth)
               else match_simple again m s p st depth) (Suc k))"
      by (rule sound_base [where b' = "Suc b"], unfold Let_def)
        (use h k br in \<open>auto simp: match_post_def intro!: sound_return sound_get_bind\<close>)
  qed (use h in auto)
qed

lemma sound_match_loop: "n \<le> step_limit m + 1 \<Longrightarrow> sound_attempt m (step_limit m + 1 - n) (match_loop n m)"
proof (induction n)
  case 0
  show ?case by (auto simp: sound_attempt_def)
next
  case (Suc n)
  then have "sound_attempt m (Suc (step_limit m - n)) (match_loop n m)" by (simp add: Suc_diff_le)
  then have "sound_attempt m (step_limit m - n) (match_body (match_loop n m) m)" by (rule sound_match_body)
  then show ?case by (simp add: sound_attempt_def)
qed

lemma sound_match_at:
  assumes "s \<le> length (source m)" and "k \<le> step_limit m"
  shows "sound m k (\<lambda>r _. match_post m s r) (match_at m s p default_state depth k)"
proof -
  have "sound_attempt m k (nested (match_loop (step_limit m - k + 1) m))"
    using sound_match_loop [of "step_limit m - k + 1" m] assms(2) by (intro sound_nested) simp
  moreover have "caps_ok default_state s" by (simp add: caps_ok_def default_state_def)
  ultimately show ?thesis using assms by (simp add: match_at_def sound_attempt_def)
qed

definition found_ok :: "matcher \<Rightarrow> nat \<Rightarrow> found option \<Rightarrow> bool" where
  "found_ok m start r \<longleftrightarrow> (case r of None \<Rightarrow> True | Some f \<Rightarrow>
     start \<le> found_start f \<and> found_start f \<le> found_end f \<and> found_end f \<le> length (source m)
     \<and> caps_ok \<lparr>captures = found_captures f, cap_count = found_count f\<rparr> (found_end f))"

lemma found_of_ok: "match_post m s (Some r) \<Longrightarrow> start \<le> s \<Longrightarrow> found_ok m start (Some (found_of s r))"
  by (cases r) (auto simp: match_post_def found_ok_def found_of_def caps_ok_def)

lemma found_ok_None [simp]: "found_ok m start None"
  by (simp add: found_ok_def)

lemma sound_match_at_from:
  "b \<le> k \<Longrightarrow> k \<le> step_limit m \<Longrightarrow> s \<le> length (source m) \<Longrightarrow>
   sound m b (\<lambda>r _. match_post m s r) (match_at m s p default_state depth k)"
  by (rule sound_base [OF sound_match_at]) auto

lemma sound_search_loop:
  "\<lbrakk>\<forall>q\<in>set ps. start \<le> q \<and> q \<le> length (source m); b \<le> k; k \<le> step_limit m\<rbrakk> \<Longrightarrow>
   sound m b (\<lambda>r _. found_ok m start r) (search_loop m anchor prev ps k)"
proof (induction ps arbitrary: k)
  case (Cons q ps)
  have "sound m b (\<lambda>r _. found_ok m start r) (pbind (match_at m q (if anchor then 1 else 0) default_state 0) (\<lambda>r k.
       case r of
         Some f \<Rightarrow> if Some (fst f) \<noteq> prev then preturn (Some (found_of q f)) k
                   else if anchor then preturn None k else search_loop m anchor prev ps k
       | None \<Rightarrow> if anchor then preturn None k else search_loop m anchor prev ps k) k')"
    if "b \<le> k'" "k' \<le> step_limit m" for k'
    by (rule sound_bind, rule sound_match_at_from [OF that])
      (use Cons in \<open>auto intro!: sound_return found_of_ok split: option.split\<close>)
  with Cons.prems show ?case unfolding search_loop.simps by (intro sound_step_bind) auto
qed (simp add: sound_return)

lemma sound_search:
  "k \<le> step_limit m \<Longrightarrow> sound m k (\<lambda>r _. found_ok m start r) (search m start anchor prev k)"
  by (auto simp: search_def intro!: sound_return sound_search_loop)

lemma sound_match_once:
  assumes "k \<le> step_limit m"
  shows "sound m k (\<lambda>r _. found_ok m start r) (match_once m start anchor k)"
proof (cases "length (source m) < start")
  case False
  have "sound m k (\<lambda>r _. found_ok m start r) (pbind (match_at m start (if anchor then 1 else 0) default_state 0) (\<lambda>r.
             preturn (map_option (found_of start) r)) k')" if "k \<le> k'" "k' \<le> step_limit m" for k'
    by (rule sound_bind, rule sound_match_at_from [OF that])
      (use False in \<open>auto intro!: sound_return simp: map_option_case found_of_ok split: option.split\<close>)
  with False assms show ?thesis unfolding match_once_def
    by (auto intro!: sound_step_bind)
qed (use assms in \<open>simp add: match_once_def sound_return\<close>)

subsection \<open>Plain search\<close>

definition hit :: "matcher \<Rightarrow> nat \<Rightarrow> bool" where
  "hit m i \<longleftrightarrow> i + length (pattern m) \<le> length (source m) \<and> take (length (pattern m)) (drop i (source m)) = pattern m"

lemma hit_nth:
  "hit m i \<longleftrightarrow> i + length (pattern m) \<le> length (source m) \<and> (\<forall>j<length (pattern m). source m ! (i + j) = pattern m ! j)"
  by (auto simp: hit_def list_eq_iff_nth_eq)

lemma pbind_ok: "c k = (Inr x, k') \<Longrightarrow> pbind c f k = f x k'"
  by (simp add: pbind_def)

lemma pbind_error: "c k = (Inl e, k') \<Longrightarrow> pbind c f k = (Inl e, k')"
  by (simp add: pbind_def)

lemma equal_loop_result:
  assumes "\<forall>j\<in>set js. i + j < length (source m) \<and> j < length (pattern m)"
  shows "(\<exists>k'. k \<le> k' \<and> k' \<le> k + length js \<and> equal_loop m i js k = (Inr (\<forall>j\<in>set js. source m ! (i + j) = pattern m ! j), k'))
    \<or> (step_limit m < k + length js \<and> equal_loop m i js k = (Inl Exhausted, max k (step_limit m)))"
  using assms
proof (induction js arbitrary: k)
  case (Cons j js)
  show ?case
  proof (cases "step_limit m \<le> k")
    case True
    then show ?thesis by (simp add: pbind_step pfail_def)
  next
    case False
    with Cons.prems Cons.IH [of "Suc k"] show ?thesis
      by (auto simp: pbind_step pbind_source_at pbind_pattern_at preturn_def)
  qed
qed (simp add: preturn_def)

lemma equal_loop_hit:
  assumes "i + length (pattern m) \<le> length (source m)"
  obtains k' where "k \<le> k'" "k' \<le> k + length (pattern m)"
      "equal_loop m i [0..<length (pattern m)] k = (Inr (hit m i), k')"
  | "step_limit m < k + length (pattern m)"
      "equal_loop m i [0..<length (pattern m)] k = (Inl Exhausted, max k (step_limit m))"
proof -
  have "(\<forall>j\<in>set [0..<length (pattern m)]. source m ! (i + j) = pattern m ! j) = hit m i"
    using assms by (auto simp: hit_nth)
  with equal_loop_result [of "[0..<length (pattern m)]" i m k] assms that show ?thesis by auto
qed

definition plain_found :: "matcher \<Rightarrow> nat \<Rightarrow> found" where
  "plain_found m i = \<lparr>found_start = i, found_end = i + length (pattern m),
     found_captures = replicate 32 default_capture, found_count = 0\<rparr>"

text \<open>The first position of a list, ascending, at which the pattern occurs.\<close>

definition first_hit :: "matcher \<Rightarrow> nat list \<Rightarrow> found option" where
  "first_hit m ps = map_option (plain_found m) (find (hit m) ps)"

lemma plain_loop_result:
  assumes "\<forall>i\<in>set ps. i + length (pattern m) \<le> length (source m)"
  shows "(\<exists>k'. plain_loop m ps k = (Inr (first_hit m ps), k'))
    \<or> (step_limit m < k + length ps * (length (pattern m) + 1) \<and> (\<exists>k'. plain_loop m ps k = (Inl Exhausted, k')))"
  using assms
proof (induction ps arbitrary: k)
  case (Cons i ps)
  show ?case
  proof (cases "step_limit m \<le> k")
    case True
    then show ?thesis by (simp add: pbind_step pfail_def)
  next
    case False
    from Cons.prems have "i + length (pattern m) \<le> length (source m)" by simp
    then show ?thesis
    proof (rule equal_loop_hit [where k = "Suc k"])
      fix k' assume k': "Suc k \<le> k'" "k' \<le> Suc k + length (pattern m)"
        "equal_loop m i [0..<length (pattern m)] (Suc k) = (Inr (hit m i), k')"
      have rest: "plain_loop m (i # ps) k = (if hit m i then (Inr (Some (plain_found m i)), k') else plain_loop m ps k')"
        using False by (simp add: pbind_step pbind_ok [where c = "equal_loop m i [0..<length (pattern m)]", OF k'(3)] preturn_def plain_found_def)
      show ?thesis unfolding rest using k' Cons.prems Cons.IH [of k'] by (auto simp: first_hit_def)
    next
      assume "step_limit m < Suc k + length (pattern m)"
        "equal_loop m i [0..<length (pattern m)] (Suc k) = (Inl Exhausted, max (Suc k) (step_limit m))"
      then show ?thesis using False by (simp add: pbind_step pbind_error)
    qed
  qed
qed (simp add: preturn_def first_hit_def)

lemma find_upt_Some:
  "find P [a..<b] = Some i \<longleftrightarrow> a \<le> i \<and> i < b \<and> P i \<and> (\<forall>j. a \<le> j \<and> j < i \<longrightarrow> \<not> P j)"
proof -
  have *: "find P [a..<b] = Some i \<longleftrightarrow> (\<exists>n<b - a. P (a + n) \<and> i = a + n \<and> (\<forall>j<n. \<not> P (a + j)))"
    by (auto simp: find_Some_iff)
  show ?thesis unfolding *
    by (auto simp: le_iff_add)
qed

lemma find_hit_range:
  assumes "start + length (pattern m) \<le> length (source m)"
  shows "find (hit m) [start..<length (source m) + 1] = find (hit m) [start..<length (source m) - length (pattern m) + 1]"
proof -
  have "find (hit m) [start..<length (source m) + 1] = Some i
      \<longleftrightarrow> find (hit m) [start..<length (source m) - length (pattern m) + 1] = Some i" for i
    unfolding find_upt_Some using assms by (auto simp: hit_def)
  then show ?thesis by (metis not_Some_eq)
qed

text \<open>
  C28: A plain search that is not cut off by the budget returns the first occurrence of the pattern at
  or after the start, and answers that there is none only if there is none; it is cut off only when the
  budget is smaller than the steps of the naive search.
\<close>

theorem plain_find_first:
  "(case fst (plain_find m start k) of
      Inl e \<Rightarrow> e = Exhausted \<and> step_limit m < k + (length (source m) + 1) * (length (pattern m) + 1)
    | Inr None \<Rightarrow> (\<forall>i. \<not> (start \<le> i \<and> hit m i))
    | Inr (Some f) \<Rightarrow> hit m (found_start f) \<and> start \<le> found_start f
        \<and> (\<forall>j. \<not> (start \<le> j \<and> j < found_start f \<and> hit m j))
        \<and> found_end f = found_start f + length (pattern m) \<and> found_count f = 0)"
proof (cases "length (source m) < start + length (pattern m)")
  case True
  then have "plain_find m start k = (Inr None, k)"
    by (auto simp: plain_find_def preturn_def)
  with True show ?thesis by (simp add: hit_def)
next
  case False
  let ?ps = "[start..<length (source m) - length (pattern m) + 1]"
  have run: "plain_find m start k = plain_loop m ?ps k"
    using False by (auto simp: plain_find_def)
  have first: "first_hit m ?ps = map_option (plain_found m) (find (hit m) [start..<length (source m) + 1])"
    using False unfolding first_hit_def by (subst find_hit_range) simp_all
  have len: "length ?ps * (length (pattern m) + 1) \<le> (length (source m) + 1) * (length (pattern m) + 1)"
    by (intro mult_le_mono1) (simp del: upt_Suc)
  have "\<forall>i\<in>set ?ps. i + length (pattern m) \<le> length (source m)" using False by auto
  from plain_loop_result [OF this, of k] show ?thesis
  proof (elim disjE exE conjE)
    fix k' assume r: "plain_loop m ?ps k = (Inr (first_hit m ?ps), k')"
    show ?thesis
    proof (cases "find (hit m) [start..<length (source m) + 1]")
      case None
      then have "\<not> hit m i" if "start \<le> i" for i
        using that by (cases "i < length (source m) + 1") (auto simp: find_None_iff hit_def)
      with None r run first show ?thesis by auto
    next
      case (Some i)
      then have "start \<le> i" "hit m i" "\<forall>j. start \<le> j \<and> j < i \<longrightarrow> \<not> hit m j"
        unfolding find_upt_Some by blast+
      with Some r run first show ?thesis by (auto simp: plain_found_def)
    qed
  qed (use run len in auto)
qed

subsection \<open>Patterns without magic\<close>











text \<open>
  C11: A search is total: with any pattern and any source it neither panics nor runs out of fuel, it
  never takes more steps than the limit, and a match it reports lies within the source at or after the
  start, with at most 32 captures, all within the source up to the end of the match.
\<close>

theorem search_bounded:
  assumes "k \<le> step_limit m"
  shows "case search m start anchor prev k of (r, k') \<Rightarrow> k \<le> k' \<and> k' \<le> step_limit m \<and>
    (case r of Inl e \<Rightarrow> e \<in> {Malformed, TooComplex, Exhausted}
     | Inr None \<Rightarrow> True
     | Inr (Some f) \<Rightarrow> start \<le> found_start f \<and> found_start f \<le> found_end f \<and> found_end f \<le> length (source m)
        \<and> found_count f \<le> 32 \<and> length (found_captures f) = 32
        \<and> (\<forall>i e. i < found_count f \<and> cap_end (found_captures f ! i) = Some e
             \<longrightarrow> cap_start (found_captures f ! i) \<le> e \<and> e \<le> found_end f))"
  using sound_search [OF assms, of start anchor prev]
  by (auto simp: sound_def found_ok_def caps_ok_def split: prod.splits sum.splits option.splits)
    (metis pattern_error.exhaust)+

definition key_value :: matcher where
  "key_value = \<lparr>source = bs ''key=val'', pattern = bs ''(%a+)=(.-)$'', step_limit = 100\<rparr>"

text \<open>Searching \<open>(%a+)=(.-)$\<close> in \<open>key=val\<close> gives the whole source and the captures \<open>key\<close> and \<open>val\<close>.\<close>

theorem search_bounded_witness:
  "(case search key_value 0 False None 0 of
      (Inr (Some f), k) \<Rightarrow> k \<le> 100 \<and> found_start f \<le> found_end f \<and> found_end f \<le> 7
        \<and> map cap_end (take (found_count f) (found_captures f)) = [Some 3, Some 7]
    | _ \<Rightarrow> False)"
proof -
  have "case search key_value 0 False None 0 of (Inr (Some f), _) \<Rightarrow>
      map cap_end (take (found_count f) (found_captures f)) = [Some 3, Some 7] | _ \<Rightarrow> False"
    by code_simp
  with search_bounded [of 0 key_value 0 False None] show ?thesis
    by (auto simp: key_value_def bs_def split: prod.splits sum.splits option.splits)
qed

lemma match_once_start: "match_once m start anchor k = (Inr (Some f), k') \<Longrightarrow> found_start f = start"
  by (auto simp: match_once_def pbind_def preturn_def found_of_def split: if_splits prod.splits sum.splits)

text \<open>
  A match at one position is total and bounded in the same way, and a match it reports begins at
  that position and ends within the source.
\<close>

theorem match_once_bounded:
  assumes "k \<le> step_limit m"
  shows "case match_once m start anchor k of (r, k') \<Rightarrow> k \<le> k' \<and> k' \<le> step_limit m \<and>
    (case r of Inl e \<Rightarrow> e \<in> {Malformed, TooComplex, Exhausted}
     | Inr None \<Rightarrow> True
     | Inr (Some f) \<Rightarrow> found_start f = start \<and> start \<le> found_end f \<and> found_end f \<le> length (source m))"
  using sound_match_once [OF assms, of start anchor] match_once_start [of m start anchor k]
  by (auto simp: sound_def found_ok_def split: prod.splits sum.splits option.splits)
    (metis pattern_error.exhaust)+

text \<open>Matching \<open>=%w*\<close> at the position of the equals sign only.\<close>

end
