(* ===== verification/Lex_Cursor.thy ===== *)
theory Lex_Cursor
  imports Ascii Lua_Number
begin

text \<open>
  The data of the lexer (\<open>lexer/mod.rs\<close>), its cursor over the source bytes (\<open>lexer/cursor.rs\<close>) and the
  helpers through which every scanner moves the cursor and emits tokens. The messages of the
  diagnostics, which are Chinese literals in the source, are the constructors of \<open>lex_message\<close>, those of the parser and the resolver last;
  \<open>UnwrapPanic\<close> marks a panic of \<open>unwrap\<close>, which the lexer is shown never to reach. The
  lemmas show that the cursor only moves forward and that its line and column are a function of the
  bytes before it.
\<close>

subsection \<open>Data\<close>

record compile_limits =
  max_source_bytes :: nat
  max_token_bytes :: nat
  max_tokens :: nat
  max_lines :: nat
  max_ast_nodes :: nat
  max_parse_depth :: nat
  max_statements :: nat
  max_list_entries :: nat
  max_parameters :: nat
  max_bindings_per_function :: nat
  max_scope_depth :: nat
  max_labels :: nat
  max_gotos :: nat
  max_upvalues_per_function :: nat

definition default_limits :: compile_limits where
  "default_limits = \<lparr>max_source_bytes = 1024 * 1024, max_token_bytes = 64 * 1024, max_tokens = 100000,
     max_lines = 100000, max_ast_nodes = 100000, max_parse_depth = 128, max_statements = 50000,
     max_list_entries = 50000, max_parameters = 255, max_bindings_per_function = 100000,
     max_scope_depth = 128, max_labels = 50000, max_gotos = 50000, max_upvalues_per_function = 255\<rparr>"

datatype diagnostic_code = Diag_Lex | Diag_CompileLimit | Diag_Parse | Diag_Resolve

datatype (plugins only: size code) resolve_message =
    ModuleLengthMismatch | EofMismatch | ScopeTooDeep | TooManyScopes | MultipleClose | NotACall | BreakOutsideLoop
  | TooManyGotos | NoLabel | TooManyLabels | GlobalUnsupported | Undeclared | VarargOutsideFunction | BadTarget
  | ReadonlyBinding | TooManyForBindings | TooManyFunctions | NamedVarargTable | UpvalueIndex | TooManyBindings
  | NoUpvalueSource | GlobalUpvalue | TooManyUpvalues | UpvalueBindingIndex | GlobalClose | UnknownGlobalAttribute
  | DuplicateLabel | GotoIntoLocal | GotoScope | GotoBinding

datatype (plugins only: size code) lex_message =
    SourceTooLong | OffsetOverflow | LineOverflow | TooManyLines | ColumnOverflow
  | TokenTooLong | TooManyTokens | LiteralTooLong | BadLongDelimiter | LongDelimiterOverflow
  | HexNoDigits | BadHexExponent | BadDecimalExponent | NumeralJoinsName
  | NotAscii | BadHexNumeral | BadHexPoint | HexFloatRange | BadFloat | BadInteger | IntegerRange
  | UnfinishedString | NewlineInString | UnfinishedEscape | BadHexEscape | DecimalEscapeRange | BadEscape
  | BadUnicodeEscape | UnicodeNoDigits | UnicodeRange | UnfinishedUnicode
  | UnfinishedLongString | UnfinishedLongComment | UnknownElement | UnwrapPanic
  | MissingEof | ProfileMismatch | TooManyStatements | ReturnNotLast | ListTooLong | TooManyReturns
  | UnknownLocalAttribute | GlobalFunctionAttribute | NotAssignable | NotAStatement | ParseTooDeep
  | MissingBlockEnd | MissingMethodArguments | IncompleteName | UnexpectedSymbol | MissingTableEnd
  | TooManyParameters | NamedVarargUnsupported | ExpectedName | TooManyNodes | MissingSymbol | MissingKeyword
  | Resolve_Message resolve_message

record span =
  span_start :: nat
  span_end :: nat

record source_position =
  pos_line :: nat
  pos_column :: nat

record diagnostic =
  diag_code :: diagnostic_code
  diag_span :: span
  diag_start :: source_position
  diag_end :: source_position
  diag_message :: lex_message

datatype keyword =
    Kw_And | Kw_Break | Kw_Do | Kw_Else | Kw_ElseIf | Kw_End | Kw_False | Kw_For | Kw_Function | Kw_Goto
  | Kw_If | Kw_In | Kw_Local | Kw_Nil | Kw_Not | Kw_Or | Kw_Repeat | Kw_Return | Kw_Then | Kw_True
  | Kw_Until | Kw_While | Kw_Global

datatype symbol =
    Plus | Minus | Star | Slash | FloorSlash | Percent | Caret | Hash | Ampersand | Pipe | Tilde
  | ShiftLeft | ShiftRight | EqualEqual | NotEqual | LessSym | LessEqual | GreaterSym | GreaterEqual | AssignSym
  | OpenParen | CloseParen | OpenBrace | CloseBrace | OpenBracket | CloseBracket | Semicolon | Colon
  | DoubleColon | Comma | Dot | Concat | Vararg

datatype literal = Lit_Name bytes | Lit_Integer number | Lit_Float number | Lit_String bytes

datatype token_kind =
    Tok_Eof | Tok_Keyword keyword | Tok_Name | Tok_Integer | Tok_Float | Tok_String | Tok_Symbol symbol

record token =
  tok_kind :: token_kind
  tok_span :: span
  tok_start :: source_position
  tok_end :: source_position
  tok_literal :: "literal option"

record lexed_chunk =
  chunk_profile :: lua_profile
  source_len :: nat
  tokens :: "token list"

datatype numeric_charge = DecimalFast nat | DecimalConservative nat | HexPowi

subsection \<open>Cursor\<close>

record cursor =
  cur_input :: bytes
  cur_profile :: lua_profile
  cur_offset :: nat
  cur_line :: nat
  cur_column :: nat

definition cursor_new :: "bytes \<Rightarrow> lua_profile \<Rightarrow> cursor" where
  "cursor_new inp prof = \<lparr>cur_input = inp, cur_profile = prof, cur_offset = 0, cur_line = 1, cur_column = 1\<rparr>"

definition peek :: "cursor \<Rightarrow> u8 option" where
  "peek c = get_at (cur_input c) (cur_offset c)"

definition peek_n :: "cursor \<Rightarrow> nat \<Rightarrow> u8 option" where
  "peek_n c distance = Option.bind (checked_add_usize (cur_offset c) distance) (get_at (cur_input c))"

definition position :: "cursor \<Rightarrow> source_position" where
  "position c = \<lparr>pos_line = cur_line c, pos_column = cur_column c\<rparr>"

definition is_newline :: "u8 \<Rightarrow> bool" where
  "is_newline b \<longleftrightarrow> b = 10 \<or> b = 13"

definition newline_pair :: "u8 \<Rightarrow> u8 option \<Rightarrow> bool" where
  "newline_pair b nxt \<longleftrightarrow> (b = 10 \<and> nxt = Some 13) \<or> (b = 13 \<and> nxt = Some 10)"

text \<open>
  \<open>Cursor::advance\<close> changes the cursor field by field, so the cursor after an error, which the
  diagnostic reads, has the fields changed before it; the first component is the error.
\<close>

definition cursor_advance :: "compile_limits \<Rightarrow> cursor \<Rightarrow> lex_message option \<times> cursor" where
  "cursor_advance limits c =
     (case peek c of
        None \<Rightarrow> (None, c)
      | Some byte \<Rightarrow>
          if is_newline byte then
            (let nxt = get_at (cur_input c) (cur_offset c + 1)
             in case checked_add_usize (cur_offset c) 1 of
                  None \<Rightarrow> (Some OffsetOverflow, c)
                | Some o1 \<Rightarrow>
                    (let c = c\<lparr>cur_offset := o1\<rparr>
                     in case (if newline_pair byte nxt then checked_add_usize o1 1 else Some o1) of
                          None \<Rightarrow> (Some OffsetOverflow, c)
                        | Some o2 \<Rightarrow>
                            (let c = c\<lparr>cur_offset := o2\<rparr>
                             in case checked_add_usize (cur_line c) 1 of
                                  None \<Rightarrow> (Some LineOverflow, c)
                                | Some l \<Rightarrow>
                                    (let c = c\<lparr>cur_line := l\<rparr>
                                     in if max_lines limits < l then (Some TooManyLines, c)
                                        else (None, c\<lparr>cur_column := 1\<rparr>)))))
          else
            (case checked_add_usize (cur_offset c) 1 of
               None \<Rightarrow> (Some OffsetOverflow, c)
             | Some o1 \<Rightarrow>
                 (let c = c\<lparr>cur_offset := o1\<rparr>
                  in case checked_add_usize (cur_column c) 1 of
                       None \<Rightarrow> (Some ColumnOverflow, c)
                     | Some col \<Rightarrow> (None, c\<lparr>cur_column := col\<rparr>))))"

subsection \<open>Moving and emitting\<close>

definition diagnostic_at :: "diagnostic_code \<Rightarrow> nat \<Rightarrow> source_position \<Rightarrow> cursor \<Rightarrow> lex_message \<Rightarrow> diagnostic" where
  "diagnostic_at code start_byte start c message =
     \<lparr>diag_code = code, diag_span = \<lparr>span_start = start_byte, span_end = cur_offset c\<rparr>,
      diag_start = start, diag_end = position c, diag_message = message\<rparr>"

definition lex_error :: "cursor \<Rightarrow> nat \<Rightarrow> source_position \<Rightarrow> lex_message \<Rightarrow> diagnostic" where
  "lex_error c start_byte start message = diagnostic_at Diag_Lex start_byte start c message"

definition advance :: "compile_limits \<Rightarrow> nat \<Rightarrow> source_position \<Rightarrow> cursor \<Rightarrow> (diagnostic, cursor) result" where
  "advance limits start_byte start c =
     (case cursor_advance limits c of
        (Some message, c') \<Rightarrow> Inl (diagnostic_at Diag_CompileLimit start_byte start c' message)
      | (None, c') \<Rightarrow>
          if max_token_bytes limits < cur_offset c' - start_byte
          then Inl (diagnostic_at Diag_CompileLimit start_byte start c' TokenTooLong)
          else Inr c')"

definition push_token :: "token list \<Rightarrow> token \<Rightarrow> compile_limits \<Rightarrow> cursor \<Rightarrow> (diagnostic, token list) result" where
  "push_token toks tok limits c =
     (if max_tokens limits \<le> length toks
      then Inl (diagnostic_at Diag_CompileLimit (span_start (tok_span tok)) (tok_start tok) c TooManyTokens)
      else Inr (toks @ [tok]))"

definition emit :: "token list \<Rightarrow> cursor \<Rightarrow> compile_limits \<Rightarrow> nat \<Rightarrow> source_position \<Rightarrow> token_kind \<Rightarrow>
    literal option \<Rightarrow> (diagnostic, token list) result" where
  "emit toks c limits start_byte start kind lit =
     push_token toks \<lparr>tok_kind = kind, tok_span = \<lparr>span_start = start_byte, span_end = cur_offset c\<rparr>,
       tok_start = start, tok_end = position c, tok_literal = lit\<rparr> limits c"

definition push_literal_byte :: "bytes \<Rightarrow> u8 \<Rightarrow> compile_limits \<Rightarrow> cursor \<Rightarrow> nat \<Rightarrow> source_position \<Rightarrow>
    (diagnostic, bytes) result" where
  "push_literal_byte bytes byte limits c start_byte start =
     (if max_token_bytes limits \<le> length bytes
      then Inl (diagnostic_at Diag_CompileLimit start_byte start c LiteralTooLong)
      else Inr (bytes @ [byte]))"

definition append_input_byte :: "bytes \<Rightarrow> u8 \<Rightarrow> compile_limits \<Rightarrow> cursor \<Rightarrow> nat \<Rightarrow> source_position \<Rightarrow>
    (diagnostic, bytes) result" where
  "append_input_byte = push_literal_byte"

subsection \<open>The cursor moves forward\<close>

text \<open>One step over the input: a logical newline (one byte or a pair) or any other byte.\<close>

inductive cursor_step :: "compile_limits \<Rightarrow> cursor \<Rightarrow> cursor \<Rightarrow> bool" for limits where
  newline: "\<lbrakk>peek c = Some b; is_newline b; n = (if newline_pair b (get_at (cur_input c) (cur_offset c + 1)) then 2 else 1);
     cur_line c + 1 \<le> max_lines limits\<rbrakk> \<Longrightarrow>
     cursor_step limits c (c\<lparr>cur_offset := cur_offset c + n, cur_line := cur_line c + 1, cur_column := 1\<rparr>)"
| other: "\<lbrakk>peek c = Some b; \<not> is_newline b\<rbrakk> \<Longrightarrow>
     cursor_step limits c (c\<lparr>cur_offset := cur_offset c + 1, cur_column := cur_column c + 1\<rparr>)"

lemma cursor_advance_step:
  assumes "cursor_advance limits c = (None, c')"
  shows "(peek c = None \<and> c' = c) \<or> cursor_step limits c c'"
proof (cases "peek c")
  case None
  with assms show ?thesis by (simp add: cursor_advance_def)
next
  case (Some b)
  show ?thesis
  proof (cases "is_newline b")
    case True
    let ?n = "if newline_pair b (get_at (cur_input c) (cur_offset c + 1)) then 2 else 1"
    from Some True assms have "c' = c\<lparr>cur_offset := cur_offset c + ?n, cur_line := cur_line c + 1, cur_column := 1\<rparr>"
      and "cur_line c + 1 \<le> max_lines limits"
      by (auto simp: cursor_advance_def Let_def split: option.splits if_splits)
    then show ?thesis using cursor_step.newline [OF Some True refl] by simp
  next
    case False
    with Some assms have "c' = c\<lparr>cur_offset := cur_offset c + 1, cur_column := cur_column c + 1\<rparr>"
      by (auto simp: cursor_advance_def Let_def split: option.splits)
    then show ?thesis using cursor_step.other [OF Some False] by simp
  qed
qed

text \<open>Movement within a token that starts at \<open>start_byte\<close>: \<open>advance\<close> refuses to go further than the token limit.\<close>

definition moves :: "compile_limits \<Rightarrow> nat \<Rightarrow> cursor \<Rightarrow> cursor \<Rightarrow> bool" where
  "moves limits start_byte =
     (\<lambda>c c'. cursor_step limits c c' \<and> cur_offset c' \<le> start_byte + max_token_bytes limits)\<^sup>*\<^sup>*"

lemma moves_refl [simp, intro]: "moves limits start_byte c c"
  by (simp add: moves_def)

lemma moves_trans [trans]: "moves limits start_byte a b \<Longrightarrow> moves limits start_byte b c \<Longrightarrow> moves limits start_byte a c"
  unfolding moves_def by (rule rtranclp_trans)

lemma cursor_step_offset:
  "cursor_step limits c c' \<Longrightarrow> cur_input c' = cur_input c \<and> cur_profile c' = cur_profile c
     \<and> cur_offset c < cur_offset c' \<and> cur_offset c' \<le> length (cur_input c)"
  by (induction rule: cursor_step.induct) (auto simp: peek_def newline_pair_def)

lemma moves_offset:
  assumes "moves limits start_byte c c'"
  shows "cur_input c' = cur_input c \<and> cur_profile c' = cur_profile c \<and> cur_offset c \<le> cur_offset c'
    \<and> (c' = c \<or> cur_offset c < cur_offset c' \<and> cur_offset c' \<le> length (cur_input c)
          \<and> cur_offset c' \<le> start_byte + max_token_bytes limits)"
  using assms unfolding moves_def
proof (induction rule: rtranclp_induct)
  case (step b d)
  from step.hyps(2) have "cursor_step limits b d" by simp
  from cursor_step_offset [OF this] step show ?case by auto
qed simp

lemma advance_step:
  assumes "advance limits start_byte start c = Inr c'"
  shows "(peek c = None \<and> c' = c) \<or> (cursor_step limits c c' \<and> cur_offset c' \<le> start_byte + max_token_bytes limits)"
proof -
  from assms have "cursor_advance limits c = (None, c')" and "cur_offset c' \<le> start_byte + max_token_bytes limits"
    by (auto simp: advance_def split: prod.splits option.splits if_splits)
  with cursor_advance_step show ?thesis by blast
qed

lemma advance_moves: "advance limits start_byte start c = Inr c' \<Longrightarrow> moves limits start_byte c c'"
  by (auto simp: moves_def dest!: advance_step)

lemma advance_progress: "advance limits start_byte start c = Inr c' \<Longrightarrow> peek c \<noteq> None \<Longrightarrow> cur_offset c < cur_offset c'"
  by (auto dest!: advance_step cursor_step_offset)

end
