(* ===== verification/Lex_Number.thy ===== *)
theory Lex_Number
  imports Lex_Cursor
begin

text \<open>
  Numerals of the lexer (\<open>parse_number\<close> and \<open>decimal_native_fast_subset\<close> of \<open>lexer/scanner.rs\<close>). What
  they use of the standard library is written out: \<open>from_utf8\<close>, the parsing of integers, and the
  parsing of a decimal \<open>f64\<close>, which rounds the exact value to nearest. \<open>f64::powi\<close>, whose precision the
  standard library leaves open, is a parameter, as is the budget the caller supplies.
\<close>

subsection \<open>Standard library\<close>

definition utf8_cont :: "u8 \<Rightarrow> bool" where
  "utf8_cont b \<longleftrightarrow> 128 \<le> b \<and> b \<le> 191"

text \<open>Well-formed UTF-8, as \<open>core::str::from_utf8\<close> checks it.\<close>

function from_utf8 :: "bytes \<Rightarrow> bool" where
  "from_utf8 xs =
     (case xs of
        [] \<Rightarrow> True
      | a # r1 \<Rightarrow>
          if a < 128 then from_utf8 r1
          else (case r1 of
             [] \<Rightarrow> False
           | b # r2 \<Rightarrow>
               if 194 \<le> a \<and> a \<le> 223 then utf8_cont b \<and> from_utf8 r2
               else (case r2 of
                  [] \<Rightarrow> False
                | c # r3 \<Rightarrow>
                    if 224 \<le> a \<and> a \<le> 239
                    then utf8_cont b \<and> (a = 224 \<longrightarrow> 160 \<le> b) \<and> (a = 237 \<longrightarrow> b \<le> 159) \<and> utf8_cont c \<and> from_utf8 r3
                    else (case r3 of
                       [] \<Rightarrow> False
                     | d # r4 \<Rightarrow>
                         240 \<le> a \<and> a \<le> 244 \<and> utf8_cont b \<and> (a = 240 \<longrightarrow> 144 \<le> b) \<and> (a = 244 \<longrightarrow> b \<le> 143)
                         \<and> utf8_cont c \<and> utf8_cont d \<and> from_utf8 r4))))"
  by pat_completeness auto
termination
  by (relation "measure length") auto

declare from_utf8.simps [simp del]

definition digit_val :: "u8 \<Rightarrow> nat" where
  "digit_val b = unat (b - 48)"

text \<open>The value of a nonempty run of decimal digits, \<open>None\<close> if there is another byte.\<close>

fun digits_val :: "nat \<Rightarrow> bytes \<Rightarrow> nat option" where
  "digits_val acc [] = Some acc"
| "digits_val acc (b # xs) = (if is_ascii_digit b then digits_val (10 * acc + digit_val b) xs else None)"

definition parse_digits :: "bytes \<Rightarrow> nat option" where
  "parse_digits xs = (if xs = [] then None else digits_val 0 xs)"

text \<open>\<open>str::parse\<close> for signed integers within \<open>lo\<close> and \<open>hi\<close>.\<close>

definition parse_int :: "int \<Rightarrow> int \<Rightarrow> bytes \<Rightarrow> int option" where
  "parse_int lo hi xs =
     (let neg = (xs \<noteq> [] \<and> hd xs = 45);
          body = (if xs \<noteq> [] \<and> (hd xs = 45 \<or> hd xs = 43) then tl xs else xs)
      in case parse_digits body of
           None \<Rightarrow> None
         | Some n \<Rightarrow> (let v = (if neg then - int n else int n) in if lo \<le> v \<and> v \<le> hi then Some v else None))"

definition parse_i64 :: "bytes \<Rightarrow> i64 option" where
  "parse_i64 xs = map_option word_of_int (parse_int (- (2 ^ 63)) (2 ^ 63 - 1) xs)"

definition parse_i32 :: "bytes \<Rightarrow> int option" where
  "parse_i32 = parse_int (- (2 ^ 31)) (2 ^ 31 - 1)"

text \<open>
  \<open>str::parse::<f64>\<close>: an optional sign, then \<open>inf\<close>, \<open>infinity\<close> or \<open>nan\<close> in any case, or digits with an
  optional point, at least one digit, and an optional exponent. The value \<open>m * 10 ^ e\<close> is rounded once.
\<close>

definition f64_of_decimal :: "bool \<Rightarrow> nat \<Rightarrow> int \<Rightarrow> f64" where
  "f64_of_decimal neg m e =
     (if 0 \<le> e then f64_round neg (m * 10 ^ nat e * one_units) 1
      else f64_round neg (m * one_units) (10 ^ nat (- e)))"

definition is_exp_mark :: "u8 \<Rightarrow> bool" where
  "is_exp_mark b \<longleftrightarrow> b = 101 \<or> b = 69"

definition parse_unsigned_f64 :: "bool \<Rightarrow> bytes \<Rightarrow> f64 option" where
  "parse_unsigned_f64 neg xs =
     (let significand = takeWhile (\<lambda>b. \<not> is_exp_mark b) xs;
          marked = dropWhile (\<lambda>b. \<not> is_exp_mark b) xs;
          whole = takeWhile (\<lambda>b. b \<noteq> 46) significand;
          frac = tl (dropWhile (\<lambda>b. b \<noteq> 46) significand)
      in if whole @ frac = [] then None
         else case digits_val 0 (whole @ frac) of
           None \<Rightarrow> None
         | Some m \<Rightarrow>
             (if marked = [] then Some (f64_of_decimal neg m (- int (length frac)))
              else let ex = tl marked;
                       eneg = (ex \<noteq> [] \<and> hd ex = 45);
                       body = (if ex \<noteq> [] \<and> (hd ex = 45 \<or> hd ex = 43) then tl ex else ex)
                   in case parse_digits body of
                        None \<Rightarrow> None
                      | Some e \<Rightarrow> Some (f64_of_decimal neg m ((if eneg then - int e else int e) - int (length frac)))))"

definition parse_f64 :: "bytes \<Rightarrow> f64 option" where
  "parse_f64 xs =
     (let neg = (xs \<noteq> [] \<and> hd xs = 45);
          body = (if xs \<noteq> [] \<and> (hd xs = 45 \<or> hd xs = 43) then tl xs else xs);
          lower = map to_ascii_lowercase body
      in if lower \<in> {bs ''inf'', bs ''infinity''} then Some (f64_inf neg)
         else if lower = bs ''nan'' then Some f64_nan
         else parse_unsigned_f64 neg body)"

subsection \<open>The fast subset of decimals\<close>

definition hex_value :: "u8 \<Rightarrow> u8 option" where
  "hex_value b = (if 48 \<le> b \<and> b \<le> 57 then Some (b - 48)
     else if 97 \<le> b \<and> b \<le> 102 then Some (b - 97 + 10)
     else if 65 \<le> b \<and> b \<le> 70 then Some (b - 65 + 10) else None)"

text \<open>\<open>checked_mul\<close> and \<open>checked_add\<close> on \<open>u64\<close>, and the checked operations on \<open>i32\<close>, by their ranges.\<close>

definition in_u64 :: "nat \<Rightarrow> nat option" where
  "in_u64 n = (if n < 2 ^ 64 then Some n else None)"

definition in_i32 :: "int \<Rightarrow> int option" where
  "in_i32 i = (if - (2 ^ 31) \<le> i \<and> i < 2 ^ 31 then Some i else None)"

fun significand_loop :: "bytes \<Rightarrow> nat \<Rightarrow> nat \<Rightarrow> int \<Rightarrow> bool \<Rightarrow> (nat \<times> nat \<times> int) option" where
  "significand_loop [] digits mantissa frac fractional = Some (digits, mantissa, frac)"
| "significand_loop (byte # rest) digits mantissa frac fractional =
     (if byte = 46 then significand_loop rest digits mantissa frac True
      else if \<not> is_ascii_digit byte then None
      else case checked_add_usize digits 1 of
        None \<Rightarrow> None
      | Some d \<Rightarrow>
          if 19 < d then None
          else (case Option.bind (in_u64 (mantissa * 10)) (\<lambda>v. in_u64 (v + digit_val byte)) of
             None \<Rightarrow> None
           | Some man \<Rightarrow>
               (if fractional then
                  (case in_i32 (frac + 1) of
                     None \<Rightarrow> None
                   | Some f \<Rightarrow> significand_loop rest d man f fractional)
                else significand_loop rest d man frac fractional)))"

fun exponent_loop :: "bool \<Rightarrow> bytes \<Rightarrow> int \<Rightarrow> int option" where
  "exponent_loop negative [] e = Some e"
| "exponent_loop negative (byte # rest) e =
     (if \<not> is_ascii_digit byte then None
      else let digit = int (digit_val byte)
           in case Option.bind (in_i32 (e * 10)) (\<lambda>v. in_i32 (if negative then v - digit else v + digit)) of
                None \<Rightarrow> None
              | Some e \<Rightarrow> exponent_loop negative rest e)"

definition explicit_exponent :: "bytes \<Rightarrow> int option" where
  "explicit_exponent marked =
     (if marked = [] then Some 0
      else let ex = tl marked;
               negative = (ex \<noteq> [] \<and> hd ex = 45);
               body = (if ex \<noteq> [] \<and> (hd ex = 45 \<or> hd ex = 43) then tl ex else ex)
           in if body = [] then None else exponent_loop negative body 0)"

definition decimal_native_fast_subset :: "bytes \<Rightarrow> bool" where
  "decimal_native_fast_subset bytes =
     (let significand = takeWhile (\<lambda>b. \<not> is_exp_mark b) bytes;
          marked = dropWhile (\<lambda>b. \<not> is_exp_mark b) bytes
      in case significand_loop significand 0 0 0 False of
           None \<Rightarrow> False
         | Some (digits, mantissa, frac) \<Rightarrow>
             if digits = 0 \<or> 2 ^ 53 < mantissa then False
             else (case explicit_exponent marked of
                None \<Rightarrow> False
              | Some e \<Rightarrow> (case in_i32 (e - frac) of
                  None \<Rightarrow> False
                | Some eff \<Rightarrow> - 22 \<le> eff \<and> eff \<le> 22)))"

subsection \<open>Parsing a numeral\<close>

text \<open>
  The numeric environment: the budget, consulted before a conversion, with its state, and \<open>powi\<close> of
  base two.
\<close>

record ('b, 'e) numeric_env =
  before_conversion :: "numeric_charge \<Rightarrow> 'b \<Rightarrow> ('e, unit) result \<times> 'b"
  powi2 :: "int \<Rightarrow> f64"

datatype 'e number_error = Num_Syntax lex_message | Num_Budget 'e

fun hex_integer :: "bytes \<Rightarrow> u64 \<Rightarrow> (lex_message, u64) result" where
  "hex_integer [] v = Inr v"
| "hex_integer (byte # rest) v =
     (case hex_value byte of
        None \<Rightarrow> Inl BadHexNumeral
      | Some digit \<Rightarrow> hex_integer rest (v * 16 + ucast digit))"

fun hex_mantissa :: "bytes \<Rightarrow> bool \<Rightarrow> f64 \<Rightarrow> f64 \<Rightarrow> (lex_message, f64) result" where
  "hex_mantissa [] fractional scale v = Inr v"
| "hex_mantissa (byte # rest) fractional scale v =
     (if byte = 46 then (if fractional then Inl BadHexPoint else hex_mantissa rest True scale v)
      else case hex_value byte of
        None \<Rightarrow> Inl BadHexNumeral
      | Some digit \<Rightarrow>
          let d = f64_of_int (uint digit)
          in if fractional then
               let scale = f64_div scale (f64_of_int 16)
               in hex_mantissa rest fractional scale (f64_add v (f64_mul d scale))
             else hex_mantissa rest fractional scale (f64_add (f64_mul v (f64_of_int 16)) d))"

definition is_p :: "u8 \<Rightarrow> bool" where
  "is_p b \<longleftrightarrow> b = 112 \<or> b = 80"

definition hex_float :: "('b, 'e) numeric_env \<Rightarrow> bytes \<Rightarrow> 'b \<Rightarrow> ('e number_error, number) result \<times> 'b" where
  "hex_float env body budget =
     (let mantissa = takeWhile (\<lambda>b. \<not> is_p b) body;
          exponent = (if \<exists>b\<in>set body. is_p b then parse_i32 (tl (dropWhile (\<lambda>b. \<not> is_p b) body)) else Some 0)
      in case exponent of
           None \<Rightarrow> (Inl (Num_Syntax BadHexExponent), budget)
         | Some e \<Rightarrow>
             (case hex_mantissa mantissa False (f64_of_int 1) (f64_zero False) of
                Inl msg \<Rightarrow> (Inl (Num_Syntax msg), budget)
              | Inr v \<Rightarrow>
                  (case before_conversion env HexPowi budget of
                     (Inl err, budget) \<Rightarrow> (Inl (Num_Budget err), budget)
                   | (Inr _, budget) \<Rightarrow>
                       (let v = f64_mul v (powi2 env e)
                        in (if is_finite v then Inr (Num_Float v) else Inl (Num_Syntax HexFloatRange), budget)))))"

definition convert_f64 :: "('b, 'e) numeric_env \<Rightarrow> numeric_charge \<Rightarrow> lex_message \<Rightarrow> bytes \<Rightarrow> 'b \<Rightarrow>
    ('e number_error, f64) result \<times> 'b" where
  "convert_f64 env charge msg text budget =
     (case before_conversion env charge budget of
        (Inl err, budget) \<Rightarrow> (Inl (Num_Budget err), budget)
      | (Inr _, budget) \<Rightarrow> (ok_or (Num_Syntax msg) (parse_f64 text), budget))"

definition parse_number :: "('b, 'e) numeric_env \<Rightarrow> bytes \<Rightarrow> 'b \<Rightarrow> ('e number_error, number) result \<times> 'b" where
  "parse_number env text budget =
     (if \<not> from_utf8 text then (Inl (Num_Syntax NotAscii), budget)
      else if take 2 text \<in> {bs ''0x'', bs ''0X''} then
        (let body = drop 2 text
         in if \<exists>b\<in>set body. b = 46 \<or> is_p b then hex_float env body budget
            else (case hex_integer body 0 of
               Inl msg \<Rightarrow> (Inl (Num_Syntax msg), budget)
             | Inr v \<Rightarrow> (Inr (Num_Integer v), budget)))
      else if \<exists>b\<in>set text. b = 46 \<or> is_exp_mark b then
        (let charge = (if decimal_native_fast_subset text then DecimalFast (length text) else DecimalConservative (length text))
         in case convert_f64 env charge BadFloat text budget of
              (r, budget) \<Rightarrow> (rbind r (\<lambda>v. Inr (Num_Float v)), budget))
      else case parse_i64 text of
        Some v \<Rightarrow> (Inr (Num_Integer v), budget)
      | None \<Rightarrow>
          (case convert_f64 env (DecimalConservative (length text)) BadInteger text budget of
             (r, budget) \<Rightarrow> (rbind r (\<lambda>v. if is_finite v then Inr (Num_Float v) else Inl (Num_Syntax IntegerRange)), budget)))"

end
