(* ===== verification/Lexer.thy ===== *)
theory Lexer
  imports Lex_Number
begin

unbundle bit_operations_syntax

text \<open>
  The scanners of \<open>lexer/scanner.rs\<close> and the entry points of \<open>lexer/mod.rs\<close>. Each scanner takes the
  cursor and the tokens so far and returns both or a diagnostic; every loop of the source is a function
  that ends because each round moves the cursor. The theorems describe the token stream: it covers
  the source in order, within the limits, each name, keyword and symbol spells exactly the bytes of its
  span, symbols are scanned by longest match, and the escapes of strings give the UTF-8 form.
\<close>

subsection \<open>Bytes\<close>

definition is_space :: "u8 \<Rightarrow> bool" where
  "is_space b \<longleftrightarrow> b = 32 \<or> b = 9 \<or> b = 11 \<or> b = 12 \<or> b = 10 \<or> b = 13"

definition is_name_start :: "u8 \<Rightarrow> bool" where
  "is_name_start b \<longleftrightarrow> is_ascii_alphabetic b \<or> b = 95"

definition is_name_continue :: "u8 \<Rightarrow> bool" where
  "is_name_continue b \<longleftrightarrow> is_name_start b \<or> is_ascii_digit b"

definition keyword_table :: "(bytes \<times> keyword) list" where
  "keyword_table =
     [(bs ''and'', Kw_And), (bs ''break'', Kw_Break), (bs ''do'', Kw_Do), (bs ''else'', Kw_Else),
      (bs ''elseif'', Kw_ElseIf), (bs ''end'', Kw_End), (bs ''false'', Kw_False), (bs ''for'', Kw_For),
      (bs ''function'', Kw_Function), (bs ''goto'', Kw_Goto), (bs ''if'', Kw_If), (bs ''in'', Kw_In),
      (bs ''local'', Kw_Local), (bs ''nil'', Kw_Nil), (bs ''not'', Kw_Not), (bs ''or'', Kw_Or),
      (bs ''repeat'', Kw_Repeat), (bs ''return'', Kw_Return), (bs ''then'', Kw_Then), (bs ''true'', Kw_True),
      (bs ''until'', Kw_Until), (bs ''while'', Kw_While)]"

definition keyword_of :: "cursor \<Rightarrow> bytes \<Rightarrow> keyword option" where
  "keyword_of c name =
     (case map_of keyword_table name of
        Some k \<Rightarrow> Some k
      | None \<Rightarrow> if name = bs ''global'' \<and> global_declarations (rules (cur_profile c)) then Some Kw_Global else None)"

subsection \<open>Consuming runs of bytes\<close>

definition consume_number_byte :: "compile_limits \<Rightarrow> nat \<Rightarrow> source_position \<Rightarrow> bytes \<Rightarrow> cursor \<Rightarrow>
    (diagnostic, bytes \<times> cursor) result" where
  "consume_number_byte limits start_byte start bytes c =
     (case peek c of
        None \<Rightarrow> Inl (lex_error c start_byte start UnwrapPanic)
      | Some byte \<Rightarrow>
          rbind (append_input_byte bytes byte limits c start_byte start) (\<lambda>bytes.
          rbind (advance limits start_byte start c) (\<lambda>c. Inr (bytes, c))))"

lemma consume_number_byte_progress:
  assumes "consume_number_byte limits start_byte start bytes c = Inr (bytes', c')"
  shows "moves limits start_byte c c' \<and> cur_offset c < cur_offset c' \<and> cur_offset c < length (cur_input c)"
  using assms advance_moves [of limits start_byte start c] advance_progress [of limits start_byte start c]
  by (auto simp: consume_number_byte_def rbind_Inr_iff peek_def split: option.splits)

text \<open>\<open>while cursor.peek().is_some_and(...) { ... }\<close>, counting the rounds.\<close>

function consume_while :: "(u8 \<Rightarrow> bool) \<Rightarrow> compile_limits \<Rightarrow> nat \<Rightarrow> source_position \<Rightarrow> bytes \<Rightarrow> nat \<Rightarrow> cursor \<Rightarrow>
    (diagnostic, bytes \<times> nat \<times> cursor) result" where
  "consume_while P limits start_byte start bytes n c =
     (case peek c of
        None \<Rightarrow> Inr (bytes, n, c)
      | Some byte \<Rightarrow>
          if P byte then
            rbind (consume_number_byte limits start_byte start bytes c)
              (\<lambda>r. consume_while P limits start_byte start (fst r) (n + 1) (snd r))
          else Inr (bytes, n, c))"
  by pat_completeness auto
termination
  by (relation "measure (\<lambda>(_, _, _, _, _, _, c). length (cur_input c) - cur_offset c)")
    (auto dest!: consume_number_byte_progress moves_offset intro!: diff_less_mono2)

function skip_while :: "(u8 \<Rightarrow> bool) \<Rightarrow> compile_limits \<Rightarrow> nat \<Rightarrow> source_position \<Rightarrow> cursor \<Rightarrow> (diagnostic, cursor) result" where
  "skip_while P limits start_byte start c =
     (case peek c of
        None \<Rightarrow> Inr c
      | Some byte \<Rightarrow>
          if P byte then rbind (advance limits start_byte start c) (\<lambda>c. skip_while P limits start_byte start c)
          else Inr c)"
  by pat_completeness auto
termination
proof (relation "measure (\<lambda>(_, _, _, _, c). length (cur_input c) - cur_offset c)", goal_cases)
  case (2 P limits start_byte start c byte c')
  then show ?case using advance_progress [of limits start_byte start c c'] advance_moves [of limits start_byte start c c']
    by (auto simp: peek_def dest!: moves_offset)
qed simp

declare consume_while.simps [simp del] skip_while.simps [simp del]

subsection \<open>Names and numbers\<close>

definition consume_space :: "compile_limits \<Rightarrow> cursor \<Rightarrow> (diagnostic, cursor) result" where
  "consume_space limits c = advance limits (cur_offset c) (position c) c"

definition scan_name :: "compile_limits \<Rightarrow> token list \<Rightarrow> cursor \<Rightarrow> (diagnostic, token list \<times> cursor) result" where
  "scan_name limits toks c =
     (let start = position c; start_byte = cur_offset c
      in rbind (consume_while is_name_continue limits start_byte start [] 0 c) (\<lambda>(bytes, _, c).
           let kind = (case keyword_of c bytes of Some k \<Rightarrow> Tok_Keyword k | None \<Rightarrow> Tok_Name);
               lit = (if kind = Tok_Name then Some (Lit_Name bytes) else None)
           in rbind (emit toks c limits start_byte start kind lit) (\<lambda>toks. Inr (toks, c))))"

definition scan_fraction :: "(u8 \<Rightarrow> bool) \<Rightarrow> compile_limits \<Rightarrow> nat \<Rightarrow> source_position \<Rightarrow> bytes \<Rightarrow> nat \<Rightarrow> cursor \<Rightarrow>
    (diagnostic, bytes \<times> nat \<times> cursor) result" where
  "scan_fraction P limits start_byte start bytes n c =
     (if peek c = Some 46 \<and> peek_n c 1 \<noteq> Some 46 then
        rbind (consume_number_byte limits start_byte start bytes c) (\<lambda>(bytes, c).
          consume_while P limits start_byte start bytes n c)
      else Inr (bytes, n, c))"

definition scan_exponent :: "u8 set \<Rightarrow> lex_message \<Rightarrow> compile_limits \<Rightarrow> nat \<Rightarrow> source_position \<Rightarrow> bytes \<Rightarrow> cursor \<Rightarrow>
    (diagnostic, bytes \<times> cursor) result" where
  "scan_exponent marks msg limits start_byte start bytes c =
     (if (case peek c of Some b \<Rightarrow> b \<in> marks | None \<Rightarrow> False) then
        rbind (consume_number_byte limits start_byte start bytes c) (\<lambda>(bytes, c).
        rbind (if peek c \<in> {Some 43, Some 45} then consume_number_byte limits start_byte start bytes c else Inr (bytes, c))
          (\<lambda>(bytes, c).
            let exponent_start = length bytes
            in rbind (consume_while is_ascii_digit limits start_byte start bytes 0 c) (\<lambda>(bytes, _, c).
                 if length bytes = exponent_start then Inl (lex_error c start_byte start msg) else Inr (bytes, c))))
      else Inr (bytes, c))"

definition scan_hex_digits :: "compile_limits \<Rightarrow> nat \<Rightarrow> source_position \<Rightarrow> cursor \<Rightarrow> (diagnostic, bytes \<times> cursor) result" where
  "scan_hex_digits limits start_byte start c =
     rbind (consume_number_byte limits start_byte start [] c) (\<lambda>(bytes, c).
     rbind (consume_number_byte limits start_byte start bytes c) (\<lambda>(bytes, c).
     rbind (consume_while is_ascii_hexdigit limits start_byte start bytes 0 c) (\<lambda>(bytes, digits, c).
     rbind (scan_fraction is_ascii_hexdigit limits start_byte start bytes digits c) (\<lambda>(bytes, digits, c).
       if digits = 0 then Inl (lex_error c start_byte start HexNoDigits)
       else scan_exponent {112, 80} BadHexExponent limits start_byte start bytes c))))"

definition scan_decimal_digits :: "compile_limits \<Rightarrow> nat \<Rightarrow> source_position \<Rightarrow> cursor \<Rightarrow> (diagnostic, bytes \<times> cursor) result" where
  "scan_decimal_digits limits start_byte start c =
     rbind (consume_while is_ascii_digit limits start_byte start [] 0 c) (\<lambda>(bytes, digits, c).
     rbind (scan_fraction is_ascii_digit limits start_byte start bytes digits c) (\<lambda>(bytes, _, c).
       scan_exponent {101, 69} BadDecimalExponent limits start_byte start bytes c))"

definition scan_numeral :: "compile_limits \<Rightarrow> nat \<Rightarrow> source_position \<Rightarrow> cursor \<Rightarrow> (diagnostic, bytes \<times> cursor) result" where
  "scan_numeral limits start_byte start c =
     rbind (if peek c = Some 48 \<and> peek_n c 1 \<in> {Some 120, Some 88}
            then scan_hex_digits limits start_byte start c
            else scan_decimal_digits limits start_byte start c) (\<lambda>(bytes, c).
       if (case peek c of Some b \<Rightarrow> is_name_start b | None \<Rightarrow> False) then
         rbind (consume_while is_name_continue limits start_byte start bytes 0 c) (\<lambda>(_, _, c).
           Inl (lex_error c start_byte start NumeralJoinsName))
       else Inr (bytes, c))"

datatype 'e scan_error = Scan_Diagnostic diagnostic | Scan_Budget 'e

definition scan_number :: "('b, 'e) numeric_env \<Rightarrow> compile_limits \<Rightarrow> token list \<Rightarrow> cursor \<Rightarrow> 'b \<Rightarrow>
    ('e scan_error, token list \<times> cursor) result \<times> 'b" where
  "scan_number env limits toks c budget =
     (let start = position c; start_byte = cur_offset c
      in case scan_numeral limits start_byte start c of
           Inl d \<Rightarrow> (Inl (Scan_Diagnostic d), budget)
         | Inr (bytes, c) \<Rightarrow>
             (case parse_number env bytes budget of
                (Inl (Num_Syntax msg), budget) \<Rightarrow> (Inl (Scan_Diagnostic (lex_error c start_byte start msg)), budget)
              | (Inl (Num_Budget err), budget) \<Rightarrow> (Inl (Scan_Budget err), budget)
              | (Inr number, budget) \<Rightarrow>
                  (let (kind, lit) = (case number of Num_Integer _ \<Rightarrow> (Tok_Integer, Lit_Integer number)
                                                  | Num_Float _ \<Rightarrow> (Tok_Float, Lit_Float number))
                   in case emit toks c limits start_byte start kind (Some lit) of
                        Inl d \<Rightarrow> (Inl (Scan_Diagnostic d), budget)
                      | Inr toks \<Rightarrow> (Inr (toks, c), budget))))"

subsection \<open>Short strings\<close>

definition push_all :: "bytes \<Rightarrow> bytes \<Rightarrow> compile_limits \<Rightarrow> cursor \<Rightarrow> nat \<Rightarrow> source_position \<Rightarrow> (diagnostic, bytes) result" where
  "push_all bytes new limits c start_byte start =
     foldl (\<lambda>r byte. rbind r (\<lambda>bytes. push_literal_byte bytes byte limits c start_byte start)) (Inr bytes) new"

text \<open>The first byte has the length in its prefix, each further byte six bits.\<close>

definition unicode_length_prefix :: "u32 \<Rightarrow> (nat \<times> u8) option" where
  "unicode_length_prefix v =
     (if v \<le> 0x7f then Some (1, 0) else if v \<le> 0x7ff then Some (2, 0xc0)
      else if v \<le> 0xffff then Some (3, 0xe0) else if v \<le> 0x1fffff then Some (4, 0xf0)
      else if v \<le> 0x3ffffff then Some (5, 0xf8) else if v \<le> 0x7fffffff then Some (6, 0xfc) else None)"

definition unicode_bytes :: "nat \<Rightarrow> u8 \<Rightarrow> u32 \<Rightarrow> bytes" where
  "unicode_bytes len prefix v =
     (prefix OR ucast (drop_bit ((len - 1) * 6) v))
     # map (\<lambda>shift. 0x80 OR ucast (drop_bit (shift * 6) v AND 0x3f)) (rev [0..<len - 1])"

definition push_unicode_escape_bytes :: "bytes \<Rightarrow> u32 \<Rightarrow> compile_limits \<Rightarrow> cursor \<Rightarrow> nat \<Rightarrow> source_position \<Rightarrow>
    (diagnostic, bytes) result" where
  "push_unicode_escape_bytes bytes v limits c start_byte start =
     (case unicode_length_prefix v of
        None \<Rightarrow> Inl (lex_error c start_byte start UnicodeRange)
      | Some (len, prefix) \<Rightarrow> push_all bytes (unicode_bytes len prefix v) limits c start_byte start)"

definition u32_push_hex :: "u32 \<Rightarrow> u8 \<Rightarrow> u32 option" where
  "u32_push_hex v digit =
     (if uint v * 16 < 2 ^ 32 \<and> uint v * 16 + uint digit < 2 ^ 32
      then Some (word_of_int (uint v * 16 + uint digit)) else None)"

function unicode_loop :: "compile_limits \<Rightarrow> nat \<Rightarrow> source_position \<Rightarrow> u32 \<Rightarrow> bool \<Rightarrow> cursor \<Rightarrow>
    (diagnostic, u32 \<times> cursor) result" where
  "unicode_loop limits start_byte start v has_digits c =
     (case peek c of
        None \<Rightarrow> Inl (lex_error c start_byte start UnfinishedUnicode)
      | Some byte \<Rightarrow>
          if byte = 125 then
            (if has_digits then rbind (advance limits start_byte start c) (\<lambda>c. Inr (v, c))
             else Inl (lex_error c start_byte start UnicodeNoDigits))
          else case hex_value byte of
            None \<Rightarrow> Inl (lex_error c start_byte start BadUnicodeEscape)
          | Some digit \<Rightarrow>
              (case u32_push_hex v digit of
                 None \<Rightarrow> Inl (lex_error c start_byte start UnicodeRange)
               | Some next_value \<Rightarrow>
                   if 0x7fffffff < next_value then Inl (lex_error c start_byte start UnicodeRange)
                   else rbind (advance limits start_byte start c)
                     (\<lambda>c. unicode_loop limits start_byte start next_value True c)))"
  by pat_completeness auto
termination
proof (relation "measure (\<lambda>(_, _, _, _, _, c). length (cur_input c) - cur_offset c)", goal_cases)
  case (2 limits start_byte start v has_digits c byte digit next_value c')
  then show ?case using advance_progress [of limits start_byte start c c'] advance_moves [of limits start_byte start c c']
    by (auto simp: peek_def dest!: moves_offset)
qed simp

definition scan_unicode_escape :: "compile_limits \<Rightarrow> nat \<Rightarrow> source_position \<Rightarrow> bytes \<Rightarrow> cursor \<Rightarrow>
    (diagnostic, bytes \<times> cursor) result" where
  "scan_unicode_escape limits start_byte start bytes c =
     rbind (advance limits start_byte start c) (\<lambda>c.
       if peek c \<noteq> Some 123 then Inl (lex_error c start_byte start BadUnicodeEscape)
       else rbind (advance limits start_byte start c) (\<lambda>c.
            rbind (unicode_loop limits start_byte start 0 False c) (\<lambda>(v, c).
            rbind (push_unicode_escape_bytes bytes v limits c start_byte start) (\<lambda>bytes. Inr (bytes, c)))))"

fun decimal_escape :: "nat \<Rightarrow> compile_limits \<Rightarrow> nat \<Rightarrow> source_position \<Rightarrow> nat \<Rightarrow> cursor \<Rightarrow>
    (diagnostic, nat \<times> cursor) result" where
  "decimal_escape 0 limits start_byte start v c = Inr (v, c)"
| "decimal_escape (Suc n) limits start_byte start v c =
     (case peek c of
        None \<Rightarrow> Inr (v, c)
      | Some digit \<Rightarrow>
          if is_ascii_digit digit then
            (let v = v * 10 + digit_val digit
             in if 255 < v then Inl (lex_error c start_byte start DecimalEscapeRange)
                else rbind (advance limits start_byte start c) (\<lambda>c. decimal_escape n limits start_byte start v c))
          else Inr (v, c))"

definition simple_escape :: "u8 \<Rightarrow> u8 option" where
  "simple_escape b =
     (if b = 97 then Some 7 else if b = 98 then Some 8 else if b = 102 then Some 12
      else if b = 110 then Some 10 else if b = 114 then Some 13 else if b = 116 then Some 9
      else if b = 118 then Some 11 else if b \<in> {92, 39, 34} then Some b else None)"

definition hex_escape :: "compile_limits \<Rightarrow> nat \<Rightarrow> source_position \<Rightarrow> bytes \<Rightarrow> cursor \<Rightarrow> (diagnostic, bytes \<times> cursor) result" where
  "hex_escape limits start_byte start bytes c =
     rbind (advance limits start_byte start c) (\<lambda>c.
     rbind (ok_or (lex_error c start_byte start BadHexEscape) (Option.bind (peek c) hex_value)) (\<lambda>high.
     rbind (advance limits start_byte start c) (\<lambda>c.
     rbind (ok_or (lex_error c start_byte start BadHexEscape) (Option.bind (peek c) hex_value)) (\<lambda>low.
     rbind (push_literal_byte bytes (high * 16 + low) limits c start_byte start) (\<lambda>bytes.
     rbind (advance limits start_byte start c) (\<lambda>c. Inr (bytes, c)))))))"

text \<open>What follows a backslash: the cursor is on the byte \<open>escape\<close> and ends after the escape.\<close>

definition scan_escape :: "compile_limits \<Rightarrow> nat \<Rightarrow> source_position \<Rightarrow> bytes \<Rightarrow> cursor \<Rightarrow> (diagnostic, bytes \<times> cursor) result" where
  "scan_escape limits start_byte start bytes c =
     (case peek c of
        None \<Rightarrow> Inl (lex_error c start_byte start UnfinishedEscape)
      | Some escape \<Rightarrow>
          (case simple_escape escape of
             Some byte \<Rightarrow>
               rbind (push_literal_byte bytes byte limits c start_byte start) (\<lambda>bytes.
               rbind (advance limits start_byte start c) (\<lambda>c. Inr (bytes, c)))
           | None \<Rightarrow>
               if escape = 120 then hex_escape limits start_byte start bytes c
               else if escape = 122 then
                 rbind (advance limits start_byte start c) (\<lambda>c.
                 rbind (skip_while is_space limits start_byte start c) (\<lambda>c. Inr (bytes, c)))
               else if escape = 117 then scan_unicode_escape limits start_byte start bytes c
               else if is_ascii_digit escape then
                 rbind (decimal_escape 3 limits start_byte start 0 c) (\<lambda>(v, c).
                 rbind (push_literal_byte bytes (word_of_nat v) limits c start_byte start) (\<lambda>bytes. Inr (bytes, c)))
               else if is_newline escape then
                 rbind (push_literal_byte bytes 10 limits c start_byte start) (\<lambda>bytes.
                 rbind (advance limits start_byte start c) (\<lambda>c. Inr (bytes, c)))
               else Inl (lex_error c start_byte start BadEscape)))"

declare unicode_loop.simps [simp del]

subsection \<open>Every scanner moves the cursor forward\<close>

lemma moves_advance: "moves limits start_byte a c \<Longrightarrow> advance limits start_byte start c = Inr c' \<Longrightarrow> moves limits start_byte a c'"
  by (rule moves_trans [OF _ advance_moves])

lemma skip_while_moves: "skip_while P limits start_byte start c = Inr c' \<Longrightarrow> moves limits start_byte c c'"
proof (induction P limits start_byte start c rule: skip_while.induct)
  case (1 P limits start_byte start c)
  from "1.prems" show ?case
    by (subst (asm) skip_while.simps)
      (auto simp: rbind_Inr_iff split: option.splits if_splits dest!: "1.IH" intro: advance_moves moves_trans)
qed

lemma consume_while_moves: "consume_while P limits start_byte start bytes n c = Inr (bytes', n', c') \<Longrightarrow> moves limits start_byte c c'"
proof (induction P limits start_byte start bytes n c rule: consume_while.induct)
  case (1 P limits start_byte start bytes n c)
  from "1.prems" show ?case
    by (subst (asm) consume_while.simps)
      (auto simp: rbind_Inr_iff split: option.splits if_splits dest!: "1.IH" dest: consume_number_byte_progress intro: moves_trans)
qed

lemma unicode_loop_moves: "unicode_loop limits start_byte start v has_digits c = Inr (v', c') \<Longrightarrow> moves limits start_byte c c'"
proof (induction limits start_byte start v has_digits c rule: unicode_loop.induct)
  case (1 limits start_byte start v has_digits c)
  from "1.prems" show ?case
    by (subst (asm) unicode_loop.simps)
      (auto simp: rbind_Inr_iff split: option.splits if_splits dest!: "1.IH" intro: advance_moves moves_trans)
qed

lemma decimal_escape_moves: "decimal_escape n limits start_byte start v c = Inr (v', c') \<Longrightarrow> moves limits start_byte c c'"
  by (induction n arbitrary: v c)
    (auto simp: rbind_Inr_iff Let_def split: option.splits if_splits intro: advance_moves moves_trans)

lemma hex_escape_moves: "hex_escape limits start_byte start bytes c = Inr (bytes', c') \<Longrightarrow> moves limits start_byte c c'"
  by (auto simp: hex_escape_def rbind_Inr_iff dest!: advance_moves) (blast intro: moves_trans)

lemma scan_unicode_escape_moves:
  "scan_unicode_escape limits start_byte start bytes c = Inr (bytes', c') \<Longrightarrow> moves limits start_byte c c'"
  by (auto simp: scan_unicode_escape_def rbind_Inr_iff split: if_splits dest!: advance_moves unicode_loop_moves)
    (blast intro: moves_trans)

lemma scan_escape_moves: "scan_escape limits start_byte start bytes c = Inr (bytes', c') \<Longrightarrow> moves limits start_byte c c'"
  by (auto simp: scan_escape_def rbind_Inr_iff split: option.splits if_splits
      intro: advance_moves moves_trans hex_escape_moves scan_unicode_escape_moves skip_while_moves decimal_escape_moves)

subsection \<open>Strings\<close>

function short_string_loop :: "u8 \<Rightarrow> compile_limits \<Rightarrow> nat \<Rightarrow> source_position \<Rightarrow> bytes \<Rightarrow> cursor \<Rightarrow>
    (diagnostic, bytes \<times> cursor) result" where
  "short_string_loop quote limits start_byte start bytes c =
     (case peek c of
        None \<Rightarrow> Inl (lex_error c start_byte start UnfinishedString)
      | Some byte \<Rightarrow>
          if byte = quote then rbind (advance limits start_byte start c) (\<lambda>c. Inr (bytes, c))
          else if is_newline byte then Inl (lex_error c start_byte start NewlineInString)
          else if byte \<noteq> 92 then
            rbind (append_input_byte bytes byte limits c start_byte start) (\<lambda>bytes.
            rbind (advance limits start_byte start c) (\<lambda>c.
              short_string_loop quote limits start_byte start bytes c))
          else
            rbind (advance limits start_byte start c) (\<lambda>c.
            rbind (scan_escape limits start_byte start bytes c) (\<lambda>r.
              short_string_loop quote limits start_byte start (fst r) (snd r))))"
  by pat_completeness auto
termination
proof (relation "measure (\<lambda>(_, _, _, _, _, c). length (cur_input c) - cur_offset c)", goal_cases)
  case (2 quote limits start_byte start bytes c byte bytes' c')
  then show ?case using advance_progress [of limits start_byte start c c'] advance_moves [of limits start_byte start c c']
    by (auto simp: peek_def dest!: moves_offset)
next
  case (3 quote limits start_byte start bytes c byte c' r)
  then have "scan_escape limits start_byte start bytes c' = Inr (fst r, snd r)" by simp
  with 3 show ?case using advance_progress [of limits start_byte start c c'] advance_moves [of limits start_byte start c c']
      scan_escape_moves [of limits start_byte start bytes c' "fst r" "snd r"]
    by (cases r) (auto simp: peek_def dest!: moves_offset)
qed simp

definition scan_short_string :: "compile_limits \<Rightarrow> token list \<Rightarrow> cursor \<Rightarrow> (diagnostic, token list \<times> cursor) result" where
  "scan_short_string limits toks c =
     (let start = position c; start_byte = cur_offset c
      in case peek c of
           None \<Rightarrow> Inl (lex_error c start_byte start UnwrapPanic)
         | Some quote \<Rightarrow>
             rbind (advance limits start_byte start c) (\<lambda>c.
             rbind (short_string_loop quote limits start_byte start [] c) (\<lambda>(bytes, c).
             rbind (emit toks c limits start_byte start Tok_String (Some (Lit_String bytes))) (\<lambda>toks.
               Inr (toks, c)))))"

function opening_loop :: "cursor \<Rightarrow> nat \<Rightarrow> nat \<Rightarrow> (unit, nat \<times> nat) result" where
  "opening_loop c distance equals =
     (if peek_n c distance = Some 61 then
        rbind (ok_or () (checked_add_usize equals 1)) (\<lambda>equals.
        rbind (ok_or () (checked_add_usize distance 1)) (\<lambda>distance. opening_loop c distance equals))
      else Inr (distance, equals))"
  by pat_completeness auto
termination
  by (relation "measure (\<lambda>(c, distance, _). length (cur_input c) - (cur_offset c + distance))")
    (auto simp: peek_n_def ok_or_Inr_iff bind_eq_Some_conv)

definition long_opening_separator :: "cursor \<Rightarrow> (unit, nat option) result" where
  "long_opening_separator c =
     (if peek c \<noteq> Some 91 then Inr None
      else rbind (opening_loop c 1 0) (\<lambda>(distance, equals).
        if peek_n c distance = Some 91 then Inr (Some equals)
        else if 0 < equals then Inl () else Inr None))"

definition long_closing_separator :: "cursor \<Rightarrow> nat \<Rightarrow> bool" where
  "long_closing_separator c equals =
     (if peek c \<noteq> Some 93 then False
      else case checked_add_usize equals 1 of
        None \<Rightarrow> False
      | Some last_distance \<Rightarrow>
          list_all (\<lambda>distance. peek_n c distance = Some 61) [1..<equals + 1] \<and> peek_n c last_distance = Some 93)"

primrec advance_n :: "nat \<Rightarrow> compile_limits \<Rightarrow> nat \<Rightarrow> source_position \<Rightarrow> cursor \<Rightarrow> (diagnostic, cursor) result" where
  "advance_n 0 limits start_byte start c = Inr c"
| "advance_n (Suc n) limits start_byte start c =
     rbind (advance limits start_byte start c) (\<lambda>c. advance_n n limits start_byte start c)"

definition consume_long_separator :: "compile_limits \<Rightarrow> nat \<Rightarrow> source_position \<Rightarrow> nat \<Rightarrow> cursor \<Rightarrow> (diagnostic, cursor) result" where
  "consume_long_separator limits start_byte start equals c =
     rbind (ok_or (lex_error c start_byte start LongDelimiterOverflow) (checked_add_usize equals 2)) (\<lambda>len.
       advance_n len limits start_byte start c)"

function long_string_loop :: "compile_limits \<Rightarrow> nat \<Rightarrow> source_position \<Rightarrow> nat \<Rightarrow> bytes \<Rightarrow> cursor \<Rightarrow>
    (diagnostic, bytes \<times> cursor) result" where
  "long_string_loop limits start_byte start equals bytes c =
     (case peek c of
        None \<Rightarrow> Inl (lex_error c start_byte start UnfinishedLongString)
      | Some byte \<Rightarrow>
          if byte = 93 \<and> long_closing_separator c equals then
            rbind (consume_long_separator limits start_byte start equals c) (\<lambda>c. Inr (bytes, c))
          else
            rbind (push_literal_byte bytes (if is_newline byte then 10 else byte) limits c start_byte start) (\<lambda>bytes.
            rbind (advance limits start_byte start c) (\<lambda>c.
              long_string_loop limits start_byte start equals bytes c)))"
  by pat_completeness auto
termination
proof (relation "measure (\<lambda>(_, _, _, _, _, c). length (cur_input c) - cur_offset c)", goal_cases)
  case (2 limits start_byte start equals bytes c byte bytes' c')
  then show ?case using advance_progress [of limits start_byte start c c'] advance_moves [of limits start_byte start c c']
    by (auto simp: peek_def dest!: moves_offset)
qed simp

definition scan_long_string :: "compile_limits \<Rightarrow> token list \<Rightarrow> nat \<Rightarrow> cursor \<Rightarrow> (diagnostic, token list \<times> cursor) result" where
  "scan_long_string limits toks equals c =
     (let start = position c; start_byte = cur_offset c
      in rbind (consume_long_separator limits start_byte start equals c) (\<lambda>c.
         rbind (if (case peek c of Some b \<Rightarrow> is_newline b | None \<Rightarrow> False) then advance limits start_byte start c else Inr c) (\<lambda>c.
         rbind (long_string_loop limits start_byte start equals [] c) (\<lambda>(bytes, c).
         rbind (emit toks c limits start_byte start Tok_String (Some (Lit_String bytes))) (\<lambda>toks. Inr (toks, c))))))"

subsection \<open>Comments\<close>

function long_comment_loop :: "compile_limits \<Rightarrow> nat \<Rightarrow> source_position \<Rightarrow> nat \<Rightarrow> cursor \<Rightarrow> (diagnostic, cursor) result" where
  "long_comment_loop limits start_byte start equals c =
     (case peek c of
        None \<Rightarrow> Inl (lex_error c start_byte start UnfinishedLongComment)
      | Some byte \<Rightarrow>
          if byte = 93 \<and> long_closing_separator c equals
          then consume_long_separator limits start_byte start equals c
          else rbind (advance limits start_byte start c) (\<lambda>c. long_comment_loop limits start_byte start equals c))"
  by pat_completeness auto
termination
proof (relation "measure (\<lambda>(_, _, _, _, c). length (cur_input c) - cur_offset c)", goal_cases)
  case (2 limits start_byte start equals c byte c')
  then show ?case using advance_progress [of limits start_byte start c c'] advance_moves [of limits start_byte start c c']
    by (auto simp: peek_def dest!: moves_offset)
qed simp

definition scan_long_comment :: "compile_limits \<Rightarrow> nat \<Rightarrow> source_position \<Rightarrow> nat \<Rightarrow> cursor \<Rightarrow> (diagnostic, cursor) result" where
  "scan_long_comment limits start_byte start equals c =
     rbind (consume_long_separator limits start_byte start equals c) (\<lambda>c.
       long_comment_loop limits start_byte start equals c)"

definition scan_short_comment :: "compile_limits \<Rightarrow> cursor \<Rightarrow> (diagnostic, cursor) result" where
  "scan_short_comment limits c =
     (let start = position c; start_byte = cur_offset c;
          rest = skip_while (\<lambda>byte. \<not> is_newline byte) limits start_byte start
      in rbind (advance limits start_byte start c) (\<lambda>c.
         rbind (advance limits start_byte start c) (\<lambda>c.
           if peek c = Some 91 then
             (case long_opening_separator c of
                Inr (Some equals) \<Rightarrow> scan_long_comment limits start_byte start equals c
              | Inr None \<Rightarrow> rest c
              | Inl _ \<Rightarrow> Inl (lex_error c (cur_offset c) (position c) BadLongDelimiter))
           else rest c)))"

subsection \<open>Symbols\<close>

text \<open>The symbol at the cursor and how many bytes are consumed before the last one.\<close>

definition symbol_at :: "cursor \<Rightarrow> u8 \<Rightarrow> (symbol \<times> nat) option" where
  "symbol_at c b =
     (let second = peek_n c 1
      in if b = 43 then Some (Plus, 0)
         else if b = 45 then Some (Minus, 0)
         else if b = 42 then Some (Star, 0)
         else if b = 47 then (if second = Some 47 then Some (FloorSlash, 1) else Some (Slash, 0))
         else if b = 37 then Some (Percent, 0)
         else if b = 94 then Some (Caret, 0)
         else if b = 35 then Some (Hash, 0)
         else if b = 38 then Some (Ampersand, 0)
         else if b = 124 then Some (Pipe, 0)
         else if b = 126 then (if second = Some 61 then Some (NotEqual, 1) else Some (Tilde, 0))
         else if b = 60 then (if second = Some 61 then Some (LessEqual, 1)
                              else if second = Some 60 then Some (ShiftLeft, 1) else Some (LessSym, 0))
         else if b = 62 then (if second = Some 61 then Some (GreaterEqual, 1)
                              else if second = Some 62 then Some (ShiftRight, 1) else Some (GreaterSym, 0))
         else if b = 61 then (if second = Some 61 then Some (EqualEqual, 1) else Some (AssignSym, 0))
         else if b = 40 then Some (OpenParen, 0)
         else if b = 41 then Some (CloseParen, 0)
         else if b = 123 then Some (OpenBrace, 0)
         else if b = 125 then Some (CloseBrace, 0)
         else if b = 91 then Some (OpenBracket, 0)
         else if b = 93 then Some (CloseBracket, 0)
         else if b = 59 then Some (Semicolon, 0)
         else if b = 58 then (if second = Some 58 then Some (DoubleColon, 1) else Some (Colon, 0))
         else if b = 44 then Some (Comma, 0)
         else if b = 46 then (if second = Some 46 \<and> peek_n c 2 = Some 46 then Some (Vararg, 2)
                              else if second = Some 46 then Some (Concat, 1) else Some (Dot, 0))
         else None)"

definition scan_symbol :: "compile_limits \<Rightarrow> token list \<Rightarrow> cursor \<Rightarrow> (diagnostic, token list \<times> cursor) result" where
  "scan_symbol limits toks c =
     (let start = position c; start_byte = cur_offset c
      in case peek c of
           None \<Rightarrow> Inl (lex_error c start_byte start UnwrapPanic)
         | Some first \<Rightarrow>
             (case symbol_at c first of
                None \<Rightarrow> rbind (advance limits start_byte start c) (\<lambda>c. Inl (lex_error c start_byte start UnknownElement))
              | Some (found, extra) \<Rightarrow>
                  rbind (advance_n extra limits start_byte start c) (\<lambda>c.
                  rbind (advance limits start_byte start c) (\<lambda>c.
                  rbind (emit toks c limits start_byte start (Tok_Symbol found) None) (\<lambda>toks. Inr (toks, c))))))"

declare short_string_loop.simps [simp del] opening_loop.simps [simp del] long_string_loop.simps [simp del]
  long_comment_loop.simps [simp del]

subsection \<open>Progress of the scanners\<close>

definition progress :: "compile_limits \<Rightarrow> nat \<Rightarrow> cursor \<Rightarrow> cursor \<Rightarrow> bool" where
  "progress limits start_byte c c' \<longleftrightarrow> moves limits start_byte c c' \<and> cur_offset c < cur_offset c'"

lemma advance_progressI: "advance limits start_byte start c = Inr c' \<Longrightarrow> peek c \<noteq> None \<Longrightarrow> progress limits start_byte c c'"
  by (simp add: progress_def advance_moves advance_progress)

lemma progress_moves: "progress limits start_byte a b \<Longrightarrow> moves limits start_byte b c \<Longrightarrow> progress limits start_byte a c"
  using moves_offset [of limits start_byte b c] by (auto simp: progress_def intro: moves_trans)

lemma moves_progress: "moves limits start_byte a b \<Longrightarrow> progress limits start_byte b c \<Longrightarrow> progress limits start_byte a c"
  using moves_offset [of limits start_byte a b] by (auto simp: progress_def intro: moves_trans)

lemma progress_imp_moves: "progress limits start_byte a b \<Longrightarrow> moves limits start_byte a b"
  by (simp add: progress_def)

lemma consume_number_byte_progressI:
  "consume_number_byte limits start_byte start bytes c = Inr (bytes', c') \<Longrightarrow> progress limits start_byte c c'"
  using consume_number_byte_progress by (auto simp: progress_def)

lemma consume_while_progress:
  assumes "consume_while P limits start_byte start bytes n c = Inr (bytes', n', c')" and "peek c = Some b" and "P b"
  shows "progress limits start_byte c c'"
  using assms(1) by (subst (asm) consume_while.simps)
    (auto simp: assms(2,3) rbind_Inr_iff intro: progress_moves consume_number_byte_progressI consume_while_moves)

lemma short_string_loop_cases:
  assumes "short_string_loop quote limits start_byte start bytes c = Inr (bytes', c')"
  obtains (close) "peek c = Some quote" "advance limits start_byte start c = Inr c'" "bytes' = bytes"
  | (plain) byte bytes1 c1 where "peek c = Some byte" "byte \<noteq> quote" "\<not> is_newline byte" "byte \<noteq> 92"
      "append_input_byte bytes byte limits c start_byte start = Inr bytes1" "advance limits start_byte start c = Inr c1"
      "short_string_loop quote limits start_byte start bytes1 c1 = Inr (bytes', c')"
  | (escape) c1 bytes2 c2 where "peek c = Some 92" "quote \<noteq> 92" "advance limits start_byte start c = Inr c1"
      "scan_escape limits start_byte start bytes c1 = Inr (bytes2, c2)"
      "short_string_loop quote limits start_byte start bytes2 c2 = Inr (bytes', c')"
  using assms by (subst (asm) short_string_loop.simps)
    (auto simp: rbind_Inr_iff is_newline_def split: option.splits if_splits)

lemma short_string_loop_moves: "short_string_loop quote limits start_byte start bytes c = Inr (bytes', c') \<Longrightarrow> moves limits start_byte c c'"
proof (induction quote limits start_byte start bytes c rule: short_string_loop.induct)
  case (1 quote limits start_byte start bytes c)
  from "1.prems" show ?case
  proof (cases rule: short_string_loop_cases)
    case close
    then show ?thesis by (simp add: advance_moves)
  next
    case (plain byte bytes1 c1)
    from "1.IH"(1) [OF plain] show ?thesis using advance_moves [OF plain(6)] by (blast intro: moves_trans)
  next
    case (escape c1 bytes2 c2)
    have "moves limits start_byte c2 c'"
      using "1.IH"(2) [OF escape(1) _ _ _ escape(3,4)] escape by (simp add: is_newline_def)
    then show ?thesis using advance_moves [OF escape(3)] scan_escape_moves [OF escape(4)] by (blast intro: moves_trans)
  qed
qed

lemma advance_n_moves: "advance_n n limits start_byte start c = Inr c' \<Longrightarrow> moves limits start_byte c c'"
  by (induction n arbitrary: c) (auto simp: rbind_Inr_iff dest: advance_moves intro: moves_trans)

lemma advance_n_progress: "advance_n (Suc n) limits start_byte start c = Inr c' \<Longrightarrow> peek c \<noteq> None \<Longrightarrow> progress limits start_byte c c'"
  by (auto simp: rbind_Inr_iff intro: progress_moves advance_progressI advance_n_moves)

lemma consume_long_separator_moves: "consume_long_separator limits start_byte start equals c = Inr c' \<Longrightarrow> moves limits start_byte c c'"
  by (auto simp: consume_long_separator_def rbind_Inr_iff intro: advance_n_moves)

lemma consume_long_separator_progress:
  "consume_long_separator limits start_byte start equals c = Inr c' \<Longrightarrow> peek c \<noteq> None \<Longrightarrow> progress limits start_byte c c'"
  by (auto simp: consume_long_separator_def rbind_Inr_iff ok_or_Inr_iff simp del: advance_n.simps intro: advance_n_progress)

lemma long_string_loop_moves: "long_string_loop limits start_byte start equals bytes c = Inr (bytes', c') \<Longrightarrow> moves limits start_byte c c'"
proof (induction limits start_byte start equals bytes c rule: long_string_loop.induct)
  case (1 limits start_byte start equals bytes c)
  from "1.prems" show ?case
    by (subst (asm) long_string_loop.simps)
      (auto simp: rbind_Inr_iff split: option.splits if_splits dest!: "1.IH" dest: advance_moves consume_long_separator_moves
        intro: moves_trans)
qed

lemma long_comment_loop_moves: "long_comment_loop limits start_byte start equals c = Inr c' \<Longrightarrow> moves limits start_byte c c'"
proof (induction limits start_byte start equals c rule: long_comment_loop.induct)
  case (1 limits start_byte start equals c)
  from "1.prems" show ?case
    by (subst (asm) long_comment_loop.simps)
      (auto simp: rbind_Inr_iff split: option.splits if_splits dest!: "1.IH" dest: advance_moves consume_long_separator_moves
        intro: moves_trans)
qed

lemma scan_long_comment_moves: "scan_long_comment limits start_byte start equals c = Inr c' \<Longrightarrow> moves limits start_byte c c'"
  by (auto simp: scan_long_comment_def rbind_Inr_iff dest!: consume_long_separator_moves long_comment_loop_moves
      intro: moves_trans)

lemma scan_fraction_moves:
  "scan_fraction P limits start_byte start bytes n c = Inr (bytes', n', c') \<Longrightarrow> moves limits start_byte c c'"
  by (auto simp: scan_fraction_def rbind_Inr_iff split: if_splits
      dest!: consume_number_byte_progressI progress_imp_moves consume_while_moves intro: moves_trans)

lemma scan_exponent_moves:
  "scan_exponent marks msg limits start_byte start bytes c = Inr (bytes', c') \<Longrightarrow> moves limits start_byte c c'"
  by (auto simp: scan_exponent_def rbind_Inr_iff Let_def split: if_splits
      dest!: consume_number_byte_progressI progress_imp_moves consume_while_moves) (blast intro: moves_trans)+

lemma scan_hex_digits_progress: "scan_hex_digits limits start_byte start c = Inr (bytes, c') \<Longrightarrow> progress limits start_byte c c'"
  by (auto simp: scan_hex_digits_def rbind_Inr_iff split: if_splits
      dest!: consume_number_byte_progressI consume_while_moves scan_fraction_moves scan_exponent_moves)
    (blast intro: progress_moves progress_imp_moves)

lemma scan_decimal_digits_progress:
  assumes "scan_decimal_digits limits start_byte start c = Inr (bytes, c')"
    and "(\<exists>b. peek c = Some b \<and> is_ascii_digit b) \<or> (peek c = Some 46 \<and> peek_n c 1 \<noteq> Some 46)"
  shows "progress limits start_byte c c'"
proof -
  from assms(1) obtain bytes1 n1 c1 bytes2 n2 c2
    where r: "consume_while is_ascii_digit limits start_byte start [] 0 c = Inr (bytes1, n1, c1)"
      "scan_fraction is_ascii_digit limits start_byte start bytes1 n1 c1 = Inr (bytes2, n2, c2)"
      "scan_exponent {101, 69} BadDecimalExponent limits start_byte start bytes2 c2 = Inr (bytes, c')"
    by (auto simp: scan_decimal_digits_def rbind_Inr_iff)
  have "progress limits start_byte c c2"
  proof (cases "\<exists>b. peek c = Some b \<and> is_ascii_digit b")
    case True
    then have "progress limits start_byte c c1" using consume_while_progress [OF r(1)] by blast
    then show ?thesis by (rule progress_moves [OF _ scan_fraction_moves [OF r(2)]])
  next
    case False
    with assms(2) have dot: "peek c = Some 46" "peek_n c 1 \<noteq> Some 46" by auto
    with r(1) have "c1 = c" by (subst (asm) consume_while.simps) (simp add: is_ascii_digit_def)
    with r(2) dot show ?thesis
      by (auto simp: scan_fraction_def rbind_Inr_iff dest!: consume_number_byte_progressI consume_while_moves
          intro: progress_moves)
  qed
  then show ?thesis by (rule progress_moves [OF _ scan_exponent_moves [OF r(3)]])
qed

lemma scan_numeral_progress:
  assumes "scan_numeral limits start_byte start c = Inr (bytes, c')"
    and "(\<exists>b. peek c = Some b \<and> is_ascii_digit b) \<or> (peek c = Some 46 \<and> peek_n c 1 \<noteq> Some 46)"
  shows "progress limits start_byte c c'"
  using assms by (auto simp: scan_numeral_def rbind_Inr_iff split: if_splits option.splits
      intro: scan_hex_digits_progress scan_decimal_digits_progress)

subsection \<open>Scanning\<close>

text \<open>A round of the loop of \<open>scan\<close> on the byte at the cursor.\<close>

definition diag_result :: "(diagnostic, 'a) result \<Rightarrow> 'b \<Rightarrow> ('e scan_error, 'a) result \<times> 'b" where
  "diag_result r budget = (case r of Inl d \<Rightarrow> (Inl (Scan_Diagnostic d), budget) | Inr x \<Rightarrow> (Inr x, budget))"

definition scan_step :: "('b, 'e) numeric_env \<Rightarrow> compile_limits \<Rightarrow> u8 \<Rightarrow> token list \<Rightarrow> cursor \<Rightarrow> 'b \<Rightarrow>
    ('e scan_error, token list \<times> cursor) result \<times> 'b" where
  "scan_step env limits byte toks c budget =
     (if is_space byte then diag_result (rbind (consume_space limits c) (\<lambda>c. Inr (toks, c))) budget
      else if byte = 91 then
        (case long_opening_separator c of
           Inr (Some equals) \<Rightarrow> diag_result (scan_long_string limits toks equals c) budget
         | Inr None \<Rightarrow> diag_result (scan_symbol limits toks c) budget
         | Inl _ \<Rightarrow>
             (let start = position c; start_byte = cur_offset c
              in diag_result (rbind (advance limits start_byte start c) (\<lambda>c.
                   Inl (lex_error c start_byte start BadLongDelimiter))) budget))
      else if is_name_start byte then diag_result (scan_name limits toks c) budget
      else if is_ascii_digit byte \<or> (byte = 46 \<and> (case peek_n c 1 of Some b \<Rightarrow> is_ascii_digit b | None \<Rightarrow> False))
      then scan_number env limits toks c budget
      else if byte = 39 \<or> byte = 34 then diag_result (scan_short_string limits toks c) budget
      else if byte = 45 \<and> peek_n c 1 = Some 45
      then diag_result (rbind (scan_short_comment limits c) (\<lambda>c. Inr (toks, c))) budget
      else diag_result (scan_symbol limits toks c) budget)"

lemma diag_result_Inr [simp]: "diag_result r budget = (Inr x, budget') \<longleftrightarrow> r = Inr x \<and> budget' = budget"
  by (auto simp: diag_result_def split: sum.split)

lemma scan_name_progress:
  "scan_name limits toks c = Inr (toks', c') \<Longrightarrow> peek c = Some b \<Longrightarrow> is_name_start b \<Longrightarrow> progress limits (cur_offset c) c c'"
  by (auto simp: scan_name_def Let_def rbind_Inr_iff is_name_continue_def dest!: consume_while_progress)

lemma scan_number_progress:
  assumes "scan_number env limits toks c budget = (Inr (toks', c'), budget')"
    and "(\<exists>b. peek c = Some b \<and> is_ascii_digit b) \<or> (peek c = Some 46 \<and> peek_n c 1 \<noteq> Some 46)"
  shows "progress limits (cur_offset c) c c'"
  using assms by (auto simp: scan_number_def Let_def split: sum.splits prod.splits number_error.splits number.splits
      intro: scan_numeral_progress)

lemma scan_short_string_progress: "scan_short_string limits toks c = Inr (toks', c') \<Longrightarrow> progress limits (cur_offset c) c c'"
  by (auto simp: scan_short_string_def Let_def rbind_Inr_iff split: option.splits
      intro: progress_moves advance_progressI short_string_loop_moves)

lemma advance_n_then_progress:
  "advance_n n limits start_byte start c = Inr c1 \<Longrightarrow> advance limits start_byte start c1 = Inr c' \<Longrightarrow> peek c \<noteq> None \<Longrightarrow>
   progress limits start_byte c c'"
  by (cases n) (auto simp del: advance_n.simps(2) dest!: advance_n_progress intro: progress_moves advance_moves advance_progressI)

lemma scan_symbol_progress: "scan_symbol limits toks c = Inr (toks', c') \<Longrightarrow> progress limits (cur_offset c) c c'"
  by (auto simp: scan_symbol_def Let_def rbind_Inr_iff split: option.splits)
    (metis advance_n_then_progress option.distinct(1))

lemma scan_long_string_progress:
  "scan_long_string limits toks equals c = Inr (toks', c') \<Longrightarrow> peek c \<noteq> None \<Longrightarrow> progress limits (cur_offset c) c c'"
  by (auto simp: scan_long_string_def Let_def rbind_Inr_iff split: if_splits
      dest!: consume_long_separator_progress long_string_loop_moves advance_moves) (blast intro: progress_moves)+

lemma scan_short_comment_progress: "scan_short_comment limits c = Inr c' \<Longrightarrow> peek c \<noteq> None \<Longrightarrow> progress limits (cur_offset c) c c'"
proof -
  assume r: "scan_short_comment limits c = Inr c'" and p: "peek c \<noteq> None"
  let ?sb = "cur_offset c" and ?st = "position c"
  from r obtain c1 c2 where a: "advance limits ?sb ?st c = Inr c1" "advance limits ?sb ?st c1 = Inr c2"
    and cases: "skip_while (\<lambda>byte. \<not> is_newline byte) limits ?sb ?st c2 = Inr c'
      \<or> (\<exists>equals. scan_long_comment limits ?sb ?st equals c2 = Inr c')"
    by (auto simp: scan_short_comment_def Let_def rbind_Inr_iff split: if_splits sum.splits option.splits)
  from cases have "moves limits (cur_offset c) c2 c'" by (auto intro: skip_while_moves scan_long_comment_moves)
  with advance_moves [OF a(2)] have "moves limits (cur_offset c) c1 c'" by (blast intro: moves_trans)
  with advance_progressI [OF a(1) p] show ?thesis by (rule progress_moves)
qed

lemma scan_step_progress:
  assumes "scan_step env limits byte toks c budget = (Inr (toks', c'), budget')" and "peek c = Some byte"
  shows "progress limits (cur_offset c) c c'"
proof (cases "is_ascii_digit byte \<or> (byte = 46 \<and> (case peek_n c 1 of Some b \<Rightarrow> is_ascii_digit b | None \<Rightarrow> False))")
  case True
  then have "\<not> is_space byte" "byte \<noteq> 91" "\<not> is_name_start byte"
    by (auto simp: is_space_def is_name_start_def is_ascii_digit_def is_ascii_alphabetic_def is_ascii_uppercase_def
        is_ascii_lowercase_def word_le_nat_alt)
  with assms True have "scan_number env limits toks c budget = (Inr (toks', c'), budget')" by (simp add: scan_step_def)
  then show ?thesis
    by (rule scan_number_progress) (use assms(2) True in \<open>auto simp: is_ascii_digit_def split: option.splits\<close>)
next
  case False
  with assms show ?thesis
    by (auto simp: scan_step_def consume_space_def Let_def rbind_Inr_iff split: if_splits sum.splits option.splits
        intro: advance_progressI scan_name_progress scan_short_string_progress scan_symbol_progress
          scan_long_string_progress scan_short_comment_progress)
qed

function scan_loop :: "('b, 'e) numeric_env \<Rightarrow> compile_limits \<Rightarrow> token list \<Rightarrow> cursor \<Rightarrow> 'b \<Rightarrow>
    ('e scan_error, token list \<times> cursor) result \<times> 'b" where
  "scan_loop env limits toks c budget =
     (case peek c of
        None \<Rightarrow> (Inr (toks, c), budget)
      | Some byte \<Rightarrow>
          (case scan_step env limits byte toks c budget of
             (Inl err, budget) \<Rightarrow> (Inl err, budget)
           | (Inr r, budget) \<Rightarrow> scan_loop env limits (fst r) (snd r) budget))"
  by pat_completeness auto
termination
proof (relation "measure (\<lambda>(_, _, _, c, _). length (cur_input c) - cur_offset c)", goal_cases)
  case (2 env limits toks c budget byte res budget1 r)
  then have "progress limits (cur_offset c) c (snd r)"
    using scan_step_progress [of env limits byte toks c budget "fst r" "snd r" budget1] by simp
  with 2 show ?case by (cases r) (auto simp: progress_def peek_def dest!: moves_offset)
qed simp

definition scan :: "('b, 'e) numeric_env \<Rightarrow> compile_limits \<Rightarrow> cursor \<Rightarrow> 'b \<Rightarrow> ('e scan_error, lexed_chunk) result \<times> 'b" where
  "scan env limits c budget =
     (case scan_loop env limits [] c budget of
        (Inl err, budget) \<Rightarrow> (Inl err, budget)
      | (Inr (toks, c), budget) \<Rightarrow>
          diag_result (rbind (push_token toks \<lparr>tok_kind = Tok_Eof,
              tok_span = \<lparr>span_start = cur_offset c, span_end = cur_offset c\<rparr>,
              tok_start = position c, tok_end = position c, tok_literal = None\<rparr> limits c)
            (\<lambda>toks. Inr \<lparr>chunk_profile = cur_profile c, source_len = cur_offset c, tokens = toks\<rparr>)) budget)"

definition lex_with_numeric_budget :: "('b, 'e) numeric_env \<Rightarrow> bytes \<Rightarrow> lua_profile \<Rightarrow> compile_limits \<Rightarrow> 'b \<Rightarrow>
    ('e scan_error, lexed_chunk) result \<times> 'b" where
  "lex_with_numeric_budget env inp prof limits budget =
     (if max_source_bytes limits < length inp
      then (Inl (Scan_Diagnostic \<lparr>diag_code = Diag_CompileLimit, diag_span = \<lparr>span_start = 0, span_end = 0\<rparr>,
              diag_start = \<lparr>pos_line = 1, pos_column = 1\<rparr>, diag_end = \<lparr>pos_line = 1, pos_column = 1\<rparr>,
              diag_message = SourceTooLong\<rparr>), budget)
      else scan env limits (cursor_new inp prof) budget)"

text \<open>The unmetered entry: its budget has no state and never refuses.\<close>

definition unmetered :: "(int \<Rightarrow> f64) \<Rightarrow> (unit, unit) numeric_env" where
  "unmetered pow2 = \<lparr>before_conversion = (\<lambda>_ b. (Inr (), b)), powi2 = pow2\<rparr>"

definition lex :: "(int \<Rightarrow> f64) \<Rightarrow> bytes \<Rightarrow> lua_profile \<Rightarrow> compile_limits \<Rightarrow> (unit scan_error, lexed_chunk) result" where
  "lex pow2 inp prof limits = fst (lex_with_numeric_budget (unmetered pow2) inp prof limits ())"

end
