(* ===== verification/Lexer_Spec.thy ===== *)
theory Lexer_Spec
  imports Lexer
begin

text \<open>
  What the lexer guarantees: the tokens of a successful run cover the source in order and within the
  limits, names, keywords and symbols spell exactly the bytes of their spans, symbols are scanned by
  longest match, positions are a function of the offset, and a diagnostic points into the source and
  never stands for a panic.
\<close>

declare scan_loop.simps [simp del]

subsection \<open>Tokens spell their source\<close>

definition source_slice :: "bytes \<Rightarrow> nat \<Rightarrow> nat \<Rightarrow> bytes" where
  "source_slice inp i j = take (j - i) (drop i inp)"

lemma source_slice_Suc: "i \<le> j \<Longrightarrow> j < length inp \<Longrightarrow> source_slice inp i (Suc j) = source_slice inp i j @ [inp ! j]"
  by (simp add: source_slice_def Suc_diff_le take_Suc_conv_app_nth)

lemma source_slice_empty [simp]: "source_slice inp i i = []"
  by (simp add: source_slice_def)

inductive_cases cursor_stepE: "cursor_step limits c c'"

lemma advance_one:
  assumes "advance limits start_byte start c = Inr c'" and "peek c = Some b" and "\<not> is_newline b"
  shows "cur_offset c' = Suc (cur_offset c)" and "cur_input c' = cur_input c"
  using advance_step [OF assms(1)] assms(2,3) by (auto elim: cursor_stepE)

lemma consume_while_cases:
  assumes "consume_while P limits start_byte start bytes n c = Inr (bytes', n', c')"
  obtains (stop) "bytes' = bytes" "n' = n" "c' = c" "\<And>b. peek c = Some b \<Longrightarrow> \<not> P b"
  | (more) b c1 where "peek c = Some b" "P b" "consume_number_byte limits start_byte start bytes c = Inr (bytes @ [b], c1)"
      "advance limits start_byte start c = Inr c1"
      "consume_while P limits start_byte start (bytes @ [b]) (n + 1) c1 = Inr (bytes', n', c')"
  using assms by (subst (asm) consume_while.simps)
    (auto simp: rbind_Inr_iff consume_number_byte_def append_input_byte_def push_literal_byte_def split: option.splits if_splits)

lemma consume_while_slice:
  "\<lbrakk>consume_while P limits start_byte start bytes n c = Inr (bytes', n', c'); \<And>b. P b \<Longrightarrow> \<not> is_newline b;
    bytes = source_slice (cur_input c) i (cur_offset c); i \<le> cur_offset c\<rbrakk> \<Longrightarrow>
    bytes' = source_slice (cur_input c) i (cur_offset c') \<and> (\<forall>b. peek c' = Some b \<longrightarrow> \<not> P b)"
proof (induction P limits start_byte start bytes n c rule: consume_while.induct)
  case (1 P limits start_byte start bytes n c)
  from "1.prems"(1) show ?case
  proof (cases rule: consume_while_cases)
    case (more b c1)
    from advance_one [OF more(4,1) "1.prems"(2) [OF more(2)]] have c1: "cur_offset c1 = Suc (cur_offset c)" "cur_input c1 = cur_input c" .
    have "bytes @ [b] = source_slice (cur_input c1) i (cur_offset c1)"
      using more(1) "1.prems"(3,4) by (simp add: c1 peek_def source_slice_Suc)
    with "1.IH" [OF more(1,2,3)] more(5) "1.prems"(2,4) show ?thesis by (simp add: c1)
  qed (use "1.prems" in auto)
qed

fun symbol_text :: "symbol \<Rightarrow> bytes" where
  "symbol_text Plus = bs ''+''" | "symbol_text Minus = bs ''-''" | "symbol_text Star = bs ''*''"
| "symbol_text Slash = bs ''/''" | "symbol_text FloorSlash = bs ''//''" | "symbol_text Percent = bs ''%''"
| "symbol_text Caret = [94]" | "symbol_text Hash = bs ''#''" | "symbol_text Ampersand = bs ''&''"
| "symbol_text Pipe = bs ''|''" | "symbol_text Tilde = bs ''~''" | "symbol_text ShiftLeft = bs ''<<''"
| "symbol_text ShiftRight = bs ''>>''" | "symbol_text EqualEqual = bs ''==''" | "symbol_text NotEqual = bs ''~=''"
| "symbol_text LessSym = bs ''<''" | "symbol_text LessEqual = bs ''<=''" | "symbol_text GreaterSym = bs ''>''"
| "symbol_text GreaterEqual = bs ''>=''" | "symbol_text AssignSym = bs ''=''" | "symbol_text OpenParen = bs ''(''"
| "symbol_text CloseParen = bs '')''" | "symbol_text OpenBrace = bs ''{''" | "symbol_text CloseBrace = bs ''}''"
| "symbol_text OpenBracket = bs ''[''" | "symbol_text CloseBracket = bs '']''" | "symbol_text Semicolon = bs '';''"
| "symbol_text Colon = bs '':''" | "symbol_text DoubleColon = bs ''::''" | "symbol_text Comma = bs '',''"
| "symbol_text Dot = bs ''.''" | "symbol_text Concat = bs ''..''" | "symbol_text Vararg = bs ''...''"

fun keyword_text :: "keyword \<Rightarrow> bytes" where
  "keyword_text Kw_And = bs ''and''" | "keyword_text Kw_Break = bs ''break''" | "keyword_text Kw_Do = bs ''do''"
| "keyword_text Kw_Else = bs ''else''" | "keyword_text Kw_ElseIf = bs ''elseif''" | "keyword_text Kw_End = bs ''end''"
| "keyword_text Kw_False = bs ''false''" | "keyword_text Kw_For = bs ''for''" | "keyword_text Kw_Function = bs ''function''"
| "keyword_text Kw_Goto = bs ''goto''" | "keyword_text Kw_If = bs ''if''" | "keyword_text Kw_In = bs ''in''"
| "keyword_text Kw_Local = bs ''local''" | "keyword_text Kw_Nil = bs ''nil''" | "keyword_text Kw_Not = bs ''not''"
| "keyword_text Kw_Or = bs ''or''" | "keyword_text Kw_Repeat = bs ''repeat''" | "keyword_text Kw_Return = bs ''return''"
| "keyword_text Kw_Then = bs ''then''" | "keyword_text Kw_True = bs ''true''" | "keyword_text Kw_Until = bs ''until''"
| "keyword_text Kw_While = bs ''while''" | "keyword_text Kw_Global = bs ''global''"

text \<open>The words reserved in a profile: \<open>global\<close> only where global declarations are.\<close>

definition reserved :: "lua_profile \<Rightarrow> bytes \<Rightarrow> bool" where
  "reserved prof name \<longleftrightarrow> (\<exists>k. name = keyword_text k \<and> (k = Kw_Global \<longrightarrow> global_declarations (rules prof)))"

lemma of_char_byte_inj: "inj (of_char :: char \<Rightarrow> u8)"
proof (rule injI)
  fix c d :: char
  assume "(of_char c :: u8) = of_char d"
  moreover have "(of_char x :: u8) = of_nat (of_char x)" for x
    by (cases x) (simp add: of_char_def)
  ultimately have "unat (of_nat (of_char c) :: u8) = unat (of_nat (of_char d) :: u8)" by simp
  then have "(of_char c :: nat) = of_char d"
    by (simp add: unat_of_nat take_bit_nat_eq_self)
  then show "c = d" by simp
qed

lemma bs_eq_iff: "bs s = bs t \<longleftrightarrow> s = t"
  by (simp add: bs_def inj_map_eq_map [OF of_char_byte_inj])

lemma keyword_of_text: "keyword_of c name = Some k \<Longrightarrow> name = keyword_text k"
  by (auto simp: keyword_of_def keyword_table_def split: option.splits if_splits)

lemma keyword_of_global: "keyword_of c name = Some k \<Longrightarrow> k = Kw_Global \<longrightarrow> global_declarations (rules (cur_profile c))"
  by (auto simp: keyword_of_def keyword_table_def split: option.splits if_splits)

lemma keyword_of_complete:
  "k = Kw_Global \<longrightarrow> global_declarations (rules (cur_profile c)) \<Longrightarrow> keyword_of c (keyword_text k) = Some k"
  by (cases k) (auto simp: keyword_of_def keyword_table_def bs_eq_iff)

lemma source_slice_peek:
  assumes "peek c = Some b"
  shows "source_slice (cur_input c) (cur_offset c) (Suc (cur_offset c)) = [b]"
  using assms by (simp add: source_slice_Suc peek_def)

lemma peek_n_Some: "peek_n c n = Some b \<Longrightarrow> cur_offset c + n < length (cur_input c) \<and> cur_input c ! (cur_offset c + n) = b"
  by (auto simp: peek_n_def bind_eq_Some_conv)

lemma peek_n_get_at: "length (cur_input c) \<le> usize_max \<Longrightarrow> peek_n c n = get_at (cur_input c) (cur_offset c + n)"
  by (auto simp: peek_n_def checked_add_usize_def get_at_def)

lemma symbol_at_text:
  assumes "peek c = Some b" and "symbol_at c b = Some (s, extra)"
  shows "source_slice (cur_input c) (cur_offset c) (cur_offset c + extra + 1) = symbol_text s"
proof -
  let ?i = "cur_offset c"
  have one: "source_slice (cur_input c) ?i (Suc ?i) = [b]" using assms(1) by (rule source_slice_peek)
  have two: "source_slice (cur_input c) ?i (Suc (Suc ?i)) = [b, x]" if "peek_n c 1 = Some x" for x
    using peek_n_Some [OF that] one by (simp add: source_slice_Suc)
  have three: "source_slice (cur_input c) ?i (Suc (Suc (Suc ?i))) = [b, x, y]"
    if "peek_n c 1 = Some x" "peek_n c 2 = Some y" for x y
    using peek_n_Some [OF that(2)] two [OF that(1)] by (simp add: source_slice_Suc)
  show ?thesis using assms(2) one two three
    by (auto simp: symbol_at_def Let_def bs_def of_char_def split: if_splits)
qed

lemma symbol_at_newline: "symbol_at c b = Some (s, extra) \<Longrightarrow> \<not> is_newline b"
  by (auto simp: symbol_at_def is_newline_def)

lemma symbol_text_newline: "b \<in> set (symbol_text s) \<Longrightarrow> \<not> is_newline b"
  by (cases s) (auto simp: bs_def is_newline_def of_char_def)

text \<open>Longest match: no symbol that the source continues with is longer than the one scanned.\<close>

lemma symbol_at_longest:
  assumes "length (cur_input c) \<le> usize_max" and "peek c = Some b" and "symbol_at c b = Some (s, extra)"
    and "take (length (symbol_text t)) (drop (cur_offset c) (cur_input c)) = symbol_text t"
  shows "length (symbol_text t) \<le> length (symbol_text s)"
proof -
  have at: "get_at (cur_input c) (cur_offset c + k) = Some (symbol_text t ! k)" if "k < length (symbol_text t)" for k
  proof -
    have "length (symbol_text t) \<le> length (drop (cur_offset c) (cur_input c))"
      using arg_cong [OF assms(4), of length] by simp
    moreover have "symbol_text t ! k = drop (cur_offset c) (cur_input c) ! k" using that by (metis assms(4) nth_take)
    ultimately show ?thesis using that by simp
  qed
  have b: "b = symbol_text t ! 0"
    using at [of 0] assms(2) by (cases t) (auto simp: peek_def bs_def)
  have sec: "peek_n c 1 = Some (symbol_text t ! 1)" if "1 < length (symbol_text t)"
    using at [OF that] assms(1) by (simp add: peek_n_get_at)
  have third: "peek_n c 2 = Some (symbol_text t ! 2)" if "2 < length (symbol_text t)"
    using at [OF that] assms(1) by (simp add: peek_n_get_at)
  have pos: "1 \<le> length (symbol_text s)" by (cases s) (simp_all add: bs_def)
  show ?thesis
  proof (cases "length (symbol_text t) = 1")
    case False
    then show ?thesis using assms(3) b sec third
      by (cases t) (auto simp: bs_def of_char_def symbol_at_def Let_def split: if_splits)
  qed (use pos in simp)
qed

lemma advance_n_text:
  "\<lbrakk>advance_n n limits start_byte start c = Inr c';
    \<And>k. k < n \<Longrightarrow> \<exists>b. get_at (cur_input c) (cur_offset c + k) = Some b \<and> \<not> is_newline b\<rbrakk> \<Longrightarrow>
   cur_offset c' = cur_offset c + n \<and> cur_input c' = cur_input c"
proof (induction n arbitrary: c)
  case (Suc n)
  from Suc.prems(1) obtain c1 where c1: "advance limits start_byte start c = Inr c1" "advance_n n limits start_byte start c1 = Inr c'"
    by (auto simp: rbind_Inr_iff)
  from Suc.prems(2) [of 0] obtain b where "peek c = Some b" "\<not> is_newline b" by (auto simp: peek_def)
  note one = advance_one [OF c1(1) this]
  have "\<exists>b. get_at (cur_input c1) (cur_offset c1 + k) = Some b \<and> \<not> is_newline b" if "k < n" for k
    using Suc.prems(2) [of "Suc k"] that by (simp add: one)
  from Suc.IH [OF c1(2) this] show ?case by (simp add: one)
qed simp

text \<open>
  What a token says about the source between two offsets: names and keywords are the maximal run of
  name bytes, symbols the longest match.
\<close>

fun spells :: "lua_profile \<Rightarrow> bytes \<Rightarrow> nat \<Rightarrow> nat \<Rightarrow> token_kind \<Rightarrow> literal option \<Rightarrow> bool" where
  "spells prof inp i j Tok_Eof lit \<longleftrightarrow> False"
| "spells prof inp i j Tok_Name lit \<longleftrightarrow> lit = Some (Lit_Name (source_slice inp i j)) \<and> \<not> reserved prof (source_slice inp i j)
     \<and> (j < length inp \<longrightarrow> \<not> is_name_continue (inp ! j))"
| "spells prof inp i j (Tok_Keyword k) lit \<longleftrightarrow> lit = None \<and> source_slice inp i j = keyword_text k
     \<and> reserved prof (source_slice inp i j) \<and> (j < length inp \<longrightarrow> \<not> is_name_continue (inp ! j))"
| "spells prof inp i j (Tok_Symbol s) lit \<longleftrightarrow> lit = None \<and> source_slice inp i j = symbol_text s
     \<and> (\<forall>t. take (length (symbol_text t)) (drop i inp) = symbol_text t \<longrightarrow> length (symbol_text t) \<le> length (symbol_text s))"
| "spells prof inp i j Tok_Integer lit \<longleftrightarrow> (\<exists>v. lit = Some (Lit_Integer (Num_Integer v)))"
| "spells prof inp i j Tok_Float lit \<longleftrightarrow> (\<exists>v. lit = Some (Lit_Float (Num_Float v)))"
| "spells prof inp i j Tok_String lit \<longleftrightarrow> (\<exists>v. lit = Some (Lit_String v))"

definition spans :: "cursor \<Rightarrow> cursor \<Rightarrow> token \<Rightarrow> bool" where
  "spans c c' t \<longleftrightarrow> tok_span t = \<lparr>span_start = cur_offset c, span_end = cur_offset c'\<rparr>
     \<and> tok_start t = position c \<and> tok_end t = position c'
     \<and> spells (cur_profile c) (cur_input c) (cur_offset c) (cur_offset c') (tok_kind t) (tok_literal t)"

text \<open>A round of the scanner moves on within the limits and appends at most one token, which spans the movement.\<close>

definition emits :: "compile_limits \<Rightarrow> token list \<Rightarrow> cursor \<Rightarrow> token list \<times> cursor \<Rightarrow> bool" where
  "emits limits toks c r \<longleftrightarrow> progress limits (cur_offset c) c (snd r)
     \<and> (fst r = toks \<or> (\<exists>t. fst r = toks @ [t] \<and> length toks < max_tokens limits \<and> spans c (snd r) t))"

lemma emit_spans:
  assumes "emit toks c' limits (cur_offset c) (position c) kind lit = Inr toks'"
    and "progress limits (cur_offset c) c c'"
    and "spells (cur_profile c) (cur_input c) (cur_offset c) (cur_offset c') kind lit"
  shows "emits limits toks c (toks', c')"
  using assms by (auto simp: emit_def push_token_def emits_def spans_def split: if_splits)

lemma scan_name_emits:
  assumes "scan_name limits toks c = Inr (toks', c')" and b: "peek c = Some b" "is_name_start b"
  shows "emits limits toks c (toks', c')"
proof -
  let ?sb = "cur_offset c" and ?st = "position c"
  from assms(1) obtain bytes n where run: "consume_while is_name_continue limits ?sb ?st [] 0 c = Inr (bytes, n, c')"
    and em: "emit toks c' limits ?sb ?st (case keyword_of c' bytes of Some k \<Rightarrow> Tok_Keyword k | None \<Rightarrow> Tok_Name)
      (if keyword_of c' bytes = None then Some (Lit_Name bytes) else None) = Inr toks'"
    by (auto simp: scan_name_def Let_def rbind_Inr_iff split: option.splits)
  have nl: "\<not> is_newline x" if "is_name_continue x" for x
    using that by (auto simp: is_newline_def is_name_continue_def is_name_start_def is_ascii_alphabetic_def
        is_ascii_uppercase_def is_ascii_lowercase_def is_ascii_digit_def)
  have sl: "bytes = source_slice (cur_input c) ?sb (cur_offset c')" "\<forall>x. peek c' = Some x \<longrightarrow> \<not> is_name_continue x"
    using consume_while_slice [OF run, of ?sb] nl by simp_all
  have pr: "progress limits ?sb c c'"
    using consume_while_progress [OF run b(1)] b(2) by (simp add: is_name_continue_def)
  then have same: "cur_input c' = cur_input c" "cur_profile c' = cur_profile c"
    by (auto simp: progress_def dest!: moves_offset)
  from sl(2) same have stop: "cur_offset c' < length (cur_input c) \<longrightarrow> \<not> is_name_continue (cur_input c ! cur_offset c')"
    by (simp add: peek_def)
  show ?thesis
  proof (cases "keyword_of c' bytes")
    case None
    then have "\<not> reserved (cur_profile c) bytes"
      unfolding reserved_def by (metis keyword_of_complete same(2) option.distinct(1))
    with None em pr sl(1) stop show ?thesis by (auto intro!: emit_spans)
  next
    case (Some k)
    then have "bytes = keyword_text k" "reserved (cur_profile c) bytes"
      using keyword_of_text [OF Some] keyword_of_global [OF Some] by (auto simp: reserved_def same)
    with Some em pr sl(1) stop show ?thesis by (auto intro!: emit_spans)
  qed
qed

lemma scan_symbol_emits:
  assumes "scan_symbol limits toks c = Inr (toks', c')" and len: "length (cur_input c) \<le> usize_max"
  shows "emits limits toks c (toks', c')"
proof -
  let ?sb = "cur_offset c" and ?st = "position c"
  from assms(1) obtain b s extra c1 where r: "peek c = Some b" "symbol_at c b = Some (s, extra)"
    "advance_n extra limits ?sb ?st c = Inr c1" "advance limits ?sb ?st c1 = Inr c'"
    and em: "emit toks c' limits ?sb ?st (Tok_Symbol s) None = Inr toks'"
    by (auto simp: scan_symbol_def Let_def rbind_Inr_iff split: option.splits)
  have spelled: "source_slice (cur_input c) ?sb (?sb + extra + 1) = symbol_text s"
    using r(1,2) by (rule symbol_at_text)
  have le: "?sb + extra < length (cur_input c)"
    using r(1,2) by (auto simp: symbol_at_def Let_def peek_def dest!: peek_n_Some split: if_splits)
  have at: "\<exists>b. get_at (cur_input c) (?sb + k) = Some b \<and> \<not> is_newline b" if "k \<le> extra" for k
  proof -
    have "cur_input c ! (?sb + k) \<in> set (symbol_text s)"
      unfolding spelled [symmetric] source_slice_def in_set_conv_nth
      using that le by (intro exI [of _ k]) simp
    with symbol_text_newline le that show ?thesis by auto
  qed
  have c1: "cur_offset c1 = ?sb + extra" "cur_input c1 = cur_input c"
    using advance_n_text [OF r(3)] at by simp_all
  obtain x where "peek c1 = Some x" "\<not> is_newline x"
    using at [of extra] by (auto simp: peek_def c1)
  then have "cur_offset c' = ?sb + extra + 1" using advance_one [OF r(4)] c1 by simp
  moreover have "progress limits ?sb c c'" using assms(1) by (rule scan_symbol_progress)
  ultimately show ?thesis
    using em spelled symbol_at_longest [OF len r(1,2)] by (auto intro!: emit_spans)
qed

lemma scan_number_emits:
  assumes "scan_number env limits toks c budget = (Inr (toks', c'), budget')"
    and "(\<exists>b. peek c = Some b \<and> is_ascii_digit b) \<or> (peek c = Some 46 \<and> peek_n c 1 \<noteq> Some 46)"
  shows "emits limits toks c (toks', c')"
proof -
  from assms(1) obtain kind lit where "emit toks c' limits (cur_offset c) (position c) kind lit = Inr toks'"
    and "spells (cur_profile c) (cur_input c) (cur_offset c) (cur_offset c') kind lit"
    by (auto simp: scan_number_def Let_def split: sum.splits prod.splits number_error.splits number.splits)
  with scan_number_progress [OF assms] show ?thesis by (auto intro: emit_spans)
qed

lemma scan_short_string_emits: "scan_short_string limits toks c = Inr (toks', c') \<Longrightarrow> emits limits toks c (toks', c')"
  using scan_short_string_progress [of limits toks c toks' c']
  by (auto simp: scan_short_string_def Let_def rbind_Inr_iff split: option.splits intro!: emit_spans)

lemma scan_long_string_emits:
  "scan_long_string limits toks equals c = Inr (toks', c') \<Longrightarrow> peek c \<noteq> None \<Longrightarrow> emits limits toks c (toks', c')"
  using scan_long_string_progress [of limits toks equals c toks' c']
  by (auto simp: scan_long_string_def Let_def rbind_Inr_iff intro!: emit_spans)

lemma scan_step_emits:
  assumes "scan_step env limits byte toks c budget = (Inr (toks', c'), budget')" and "peek c = Some byte"
    and "length (cur_input c) \<le> usize_max"
  shows "emits limits toks c (toks', c')"
proof (cases "is_ascii_digit byte \<or> (byte = 46 \<and> (case peek_n c 1 of Some b \<Rightarrow> is_ascii_digit b | None \<Rightarrow> False))")
  case True
  then have "\<not> is_space byte" "byte \<noteq> 91" "\<not> is_name_start byte"
    by (auto simp: is_space_def is_name_start_def is_ascii_digit_def is_ascii_alphabetic_def is_ascii_uppercase_def
        is_ascii_lowercase_def word_le_nat_alt)
  with assms True have "scan_number env limits toks c budget = (Inr (toks', c'), budget')" by (simp add: scan_step_def)
  then show ?thesis
    by (rule scan_number_emits) (use assms(2) True in \<open>auto simp: is_ascii_digit_def split: option.splits\<close>)
next
  case False
  have skip: "emits limits ts c (ts, c')" if "progress limits (cur_offset c) c c'" for ts
    using that by (simp add: emits_def)
  from False assms scan_step_progress [OF assms(1,2)] show ?thesis
    by (auto simp: scan_step_def Let_def rbind_Inr_iff split: if_splits sum.splits option.splits
        intro: skip scan_name_emits scan_short_string_emits scan_symbol_emits scan_long_string_emits)
qed

subsection \<open>Positions\<close>

text \<open>The logical newlines of a source: a newline byte, or a pair of different ones, counts once.\<close>

fun newlines :: "bytes \<Rightarrow> nat" where
  "newlines [] = 0"
| "newlines [b] = (if is_newline b then 1 else 0)"
| "newlines (a # b # r) =
     (if is_newline a then 1 + newlines (if newline_pair a (Some b) then r else b # r) else newlines (b # r))"

text \<open>
  The position of an offset: the line counts the logical newlines before it, the column the bytes since
  the last newline byte, both from one.
\<close>

definition position_at :: "bytes \<Rightarrow> nat \<Rightarrow> source_position" where
  "position_at inp off = \<lparr>pos_line = 1 + newlines inp - newlines (drop off inp),
     pos_column = 1 + length (takeWhile (\<lambda>b. \<not> is_newline b) (rev (take off inp)))\<rparr>"

definition located :: "cursor \<Rightarrow> bool" where
  "located c \<longleftrightarrow> cur_line c + newlines (drop (cur_offset c) (cur_input c)) = 1 + newlines (cur_input c)
     \<and> cur_column c = 1 + length (takeWhile (\<lambda>b. \<not> is_newline b) (rev (take (cur_offset c) (cur_input c))))"

lemma located_position: "located c \<Longrightarrow> position c = position_at (cur_input c) (cur_offset c)"
  by (auto simp: located_def position_def position_at_def)

lemma newlines_other: "\<not> is_newline b \<Longrightarrow> newlines (b # r) = newlines r"
  by (cases r) simp_all

lemma newlines_single: "is_newline b \<Longrightarrow> \<not> newline_pair b (get_at r 0) \<Longrightarrow> newlines (b # r) = Suc (newlines r)"
  by (cases r) (auto simp: get_at_def)

lemma newlines_pair: "newline_pair a (Some b) \<Longrightarrow> newlines (a # b # r) = Suc (newlines r)"
  by (auto simp: newline_pair_def is_newline_def)

lemma drop_peek: "peek c = Some b \<Longrightarrow> drop (cur_offset c) (cur_input c) = b # drop (Suc (cur_offset c)) (cur_input c)"
  by (auto simp: peek_def Cons_nth_drop_Suc)

lemma take_peek: "peek c = Some b \<Longrightarrow> take (Suc (cur_offset c)) (cur_input c) = take (cur_offset c) (cur_input c) @ [b]"
  by (auto simp: peek_def take_Suc_conv_app_nth)

lemma located_step: "cursor_step limits c c' \<Longrightarrow> located c \<Longrightarrow> located c'"
proof (induction rule: cursor_step.induct)
  case (newline c b n)
  let ?i = "cur_offset c" and ?inp = "cur_input c"
  show ?case
  proof (cases "newline_pair b (get_at ?inp (?i + 1))")
    case False
    then have "newlines (drop ?i ?inp) = Suc (newlines (drop (Suc ?i) ?inp))"
      unfolding drop_peek [OF newline.hyps(1)] using newline.hyps(2)
      by (intro newlines_single) (auto simp: get_at_def split: if_splits)
    with False newline show ?thesis by (simp add: located_def take_peek)
  next
    case True
    then obtain d where d: "get_at ?inp (?i + 1) = Some d" "is_newline d" "newline_pair b (Some d)"
      by (auto simp: newline_pair_def is_newline_def)
    then have dd: "drop (Suc ?i) ?inp = d # drop (Suc (Suc ?i)) ?inp" by (auto simp: Cons_nth_drop_Suc)
    have tt: "take (Suc (Suc ?i)) ?inp = take (Suc ?i) ?inp @ [d]" using d(1) by (auto simp: take_Suc_conv_app_nth)
    from d(3) have "newlines (drop ?i ?inp) = Suc (newlines (drop (Suc (Suc ?i)) ?inp))"
      unfolding drop_peek [OF newline.hyps(1)] dd by (rule newlines_pair)
    with True newline d(2) tt show ?thesis by (simp add: located_def numeral_2_eq_2)
  qed
next
  case (other c b)
  then show ?case by (simp add: located_def drop_peek [OF other.hyps(1)] newlines_other take_peek)
qed

lemma located_moves: "moves limits start_byte c c' \<Longrightarrow> located c \<Longrightarrow> located c'"
  unfolding moves_def by (induction rule: rtranclp_induct) (auto intro: located_step)

lemma located_new [simp]: "located (cursor_new inp prof)"
  by (simp add: located_def cursor_new_def)

subsection \<open>The token stream\<close>

abbreviation token_start :: "token \<Rightarrow> nat" where "token_start t \<equiv> span_start (tok_span t)"
abbreviation token_end :: "token \<Rightarrow> nat" where "token_end t \<equiv> span_end (tok_span t)"

definition token_ok :: "lua_profile \<Rightarrow> bytes \<Rightarrow> compile_limits \<Rightarrow> token \<Rightarrow> bool" where
  "token_ok prof inp limits t \<longleftrightarrow> token_start t < token_end t \<and> token_end t \<le> length inp
     \<and> token_end t - token_start t \<le> max_token_bytes limits
     \<and> tok_start t = position_at inp (token_start t) \<and> tok_end t = position_at inp (token_end t)
     \<and> spells prof inp (token_start t) (token_end t) (tok_kind t) (tok_literal t)"

definition stream_ok :: "lua_profile \<Rightarrow> bytes \<Rightarrow> compile_limits \<Rightarrow> token list \<Rightarrow> cursor \<Rightarrow> bool" where
  "stream_ok prof inp limits toks c \<longleftrightarrow> cur_input c = inp \<and> cur_profile c = prof \<and> located c \<and> cur_offset c \<le> length inp
     \<and> length toks \<le> max_tokens limits \<and> (\<forall>t\<in>set toks. token_ok prof inp limits t \<and> token_end t \<le> cur_offset c)
     \<and> sorted_wrt (\<lambda>a b. token_end a \<le> token_start b) toks"

lemma emits_stream:
  assumes "emits limits toks c r" and "stream_ok prof inp limits toks c"
  shows "stream_ok prof inp limits (fst r) (snd r)"
proof -
  from assms(1) have mv: "moves limits (cur_offset c) c (snd r)" "cur_offset c < cur_offset (snd r)"
    by (auto simp: emits_def progress_def)
  note off = moves_offset [OF mv(1)]
  have loc: "located (snd r)" using located_moves [OF mv(1)] assms(2) by (simp add: stream_ok_def)
  have new: "token_ok prof inp limits t" if "spans c (snd r) t" for t
    using that off mv(2) assms(2) located_position [OF loc] located_position [of c]
    by (auto simp: token_ok_def spans_def stream_ok_def)
  from assms(1) consider "fst r = toks" | t where "fst r = toks @ [t]" "length toks < max_tokens limits" "spans c (snd r) t"
    by (auto simp: emits_def)
  then show ?thesis
  proof cases
    case 1
    with assms(2) loc off mv(2) show ?thesis by (auto simp: stream_ok_def)
  next
    case (2 t)
    with assms(2) loc off mv(2) new [OF 2(3)] show ?thesis
      by (auto simp: stream_ok_def sorted_wrt_append spans_def)
  qed
qed

lemma scan_loop_stream:
  "\<lbrakk>scan_loop env limits toks c budget = (Inr (toks', c'), budget'); stream_ok prof inp limits toks c; length inp \<le> usize_max\<rbrakk> \<Longrightarrow>
   stream_ok prof inp limits toks' c' \<and> cur_offset c' = length inp"
proof (induction env limits toks c budget rule: scan_loop.induct)
  case (1 env limits toks c budget)
  show ?case
  proof (cases "peek c")
    case None
    then have "toks' = toks" "c' = c" using "1.prems"(1) by (simp_all add: scan_loop.simps [of env limits toks c])
    with None "1.prems"(2) show ?thesis by (auto simp: peek_def stream_ok_def)
  next
    case (Some byte)
    with "1.prems"(1) obtain r budget1 where step: "scan_step env limits byte toks c budget = (Inr r, budget1)"
      and rest: "scan_loop env limits (fst r) (snd r) budget1 = (Inr (toks', c'), budget')"
      by (subst (asm) scan_loop.simps) (auto split: prod.splits sum.splits)
    have "emits limits toks c (fst r, snd r)"
      by (rule scan_step_emits [of env limits byte toks c budget "fst r" "snd r" budget1])
        (use step Some "1.prems" in \<open>auto simp: stream_ok_def\<close>)
    then have "stream_ok prof inp limits (fst r) (snd r)"
      using emits_stream [of limits toks c r] "1.prems"(2) by simp
    from "1.IH" [OF Some step [symmetric] refl rest this "1.prems"(3)] show ?thesis .
  qed
qed

lemma lex_stream:
  assumes "lex_with_numeric_budget env inp prof limits budget = (Inr chunk, budget')" and "length inp \<le> usize_max"
  obtains ts c where "stream_ok prof inp limits ts c" "cur_offset c = length inp" "length ts < max_tokens limits"
    "chunk = \<lparr>chunk_profile = prof, source_len = length inp, tokens = ts @ [\<lparr>tok_kind = Tok_Eof,
       tok_span = \<lparr>span_start = length inp, span_end = length inp\<rparr>, tok_start = position_at inp (length inp),
       tok_end = position_at inp (length inp), tok_literal = None\<rparr>]\<rparr>" "length inp \<le> max_source_bytes limits"
proof -
  from assms(1) obtain ts c budget1 where
    loop: "scan_loop env limits [] (cursor_new inp prof) budget = (Inr (ts, c), budget1)" and room: "length ts < max_tokens limits"
    and chunk: "chunk = \<lparr>chunk_profile = cur_profile c, source_len = cur_offset c, tokens = ts @ [\<lparr>tok_kind = Tok_Eof,
       tok_span = \<lparr>span_start = cur_offset c, span_end = cur_offset c\<rparr>, tok_start = position c,
       tok_end = position c, tok_literal = None\<rparr>]\<rparr>" and "length inp \<le> max_source_bytes limits"
    by (auto simp: lex_with_numeric_budget_def scan_def rbind_Inr_iff push_token_def split: if_splits prod.splits sum.splits)
  have "stream_ok prof inp limits [] (cursor_new inp prof)"
    by (simp add: stream_ok_def) (simp add: cursor_new_def)
  from scan_loop_stream [OF loop this assms(2)] have ok: "stream_ok prof inp limits ts c" "cur_offset c = length inp" by auto
  then have "position c = position_at inp (length inp)" using located_position [of c] by (simp add: stream_ok_def)
  then have "chunk = \<lparr>chunk_profile = prof, source_len = length inp, tokens = ts @ [\<lparr>tok_kind = Tok_Eof,
       tok_span = \<lparr>span_start = length inp, span_end = length inp\<rparr>, tok_start = position_at inp (length inp),
       tok_end = position_at inp (length inp), tok_literal = None\<rparr>]\<rparr>"
    using chunk ok by (simp add: stream_ok_def)
  from that [OF ok room this \<open>length inp \<le> max_source_bytes limits\<close>] show ?thesis .
qed

subsection \<open>Diagnostics\<close>

text \<open>
  A diagnostic raised while scanning from \<open>start_byte\<close>: its span is within the source and does not
  begin before \<open>start_byte\<close>, and it does not stand for a panic.
\<close>

definition diag_ok :: "bytes \<Rightarrow> nat \<Rightarrow> diagnostic \<Rightarrow> bool" where
  "diag_ok inp start_byte d \<longleftrightarrow> start_byte \<le> span_start (diag_span d) \<and> span_start (diag_span d) \<le> span_end (diag_span d)
     \<and> span_end (diag_span d) \<le> length inp \<and> diag_message d \<noteq> UnwrapPanic"

definition fine :: "bytes \<Rightarrow> nat \<Rightarrow> (diagnostic, 'a) result \<Rightarrow> bool" where
  "fine inp start_byte r \<longleftrightarrow> (\<forall>d. r = Inl d \<longrightarrow> diag_ok inp start_byte d)"

definition within :: "bytes \<Rightarrow> nat \<Rightarrow> cursor \<Rightarrow> bool" where
  "within inp start_byte c \<longleftrightarrow> cur_input c = inp \<and> start_byte \<le> cur_offset c \<and> cur_offset c \<le> length inp"

lemma fine_Inr [simp]: "fine inp start_byte (Inr x)"
  by (simp add: fine_def)

lemma fine_bind:
  "fine inp start_byte m \<Longrightarrow> (\<And>x. m = Inr x \<Longrightarrow> fine inp start_byte (f x)) \<Longrightarrow> fine inp start_byte (rbind m f)"
  by (cases m) (auto simp: fine_def)

lemma fine_error:
  "within inp start_byte c \<Longrightarrow> msg \<noteq> UnwrapPanic \<Longrightarrow> fine inp start_byte (Inl (lex_error c start_byte start msg))"
  by (simp add: fine_def diag_ok_def lex_error_def diagnostic_at_def within_def)

lemma cursor_advance_within:
  "cursor_advance limits c = (m, c') \<Longrightarrow> within inp start_byte c \<Longrightarrow> within inp start_byte c' \<and> m \<noteq> Some UnwrapPanic"
  by (auto simp: cursor_advance_def within_def peek_def newline_pair_def Let_def split: option.splits if_splits)

lemma fine_advance: "within inp start_byte c \<Longrightarrow> fine inp start_byte (advance limits start_byte start c)"
  by (auto simp: advance_def fine_def diag_ok_def diagnostic_at_def dest: cursor_advance_within split: prod.splits option.splits if_splits)
    (auto simp: within_def dest!: cursor_advance_within)

lemma within_moves: "moves limits start_byte' c c' \<Longrightarrow> within inp start_byte c \<Longrightarrow> within inp start_byte c'"
  by (auto simp: within_def dest!: moves_offset)

lemma within_advance: "advance limits start_byte' start c = Inr c' \<Longrightarrow> within inp start_byte c \<Longrightarrow> within inp start_byte c'"
  by (rule within_moves [OF advance_moves])

lemma fine_push: "within inp start_byte c \<Longrightarrow> fine inp start_byte (push_literal_byte bytes b limits c start_byte start)"
  by (simp add: fine_def push_literal_byte_def diag_ok_def diagnostic_at_def within_def)

lemma fine_append: "within inp start_byte c \<Longrightarrow> fine inp start_byte (append_input_byte bytes b limits c start_byte start)"
  unfolding append_input_byte_def by (rule fine_push)

lemma fine_ok_or: "(x = None \<Longrightarrow> fine inp start_byte (Inl d :: (diagnostic, 'a) result)) \<Longrightarrow> fine inp start_byte (ok_or d x)"
  by (cases x) (auto simp: fine_def)

lemma fine_emit: "within inp start_byte c \<Longrightarrow> fine inp start_byte (emit toks c limits start_byte start kind lit)"
  by (simp add: fine_def emit_def push_token_def diag_ok_def diagnostic_at_def within_def)

lemmas fine_intros = fine_bind fine_error fine_advance fine_push fine_append fine_ok_or fine_emit

lemma fine_consume_number_byte:
  "within inp start_byte c \<Longrightarrow> peek c \<noteq> None \<Longrightarrow> fine inp start_byte (consume_number_byte limits start_byte start bytes c)"
  by (auto simp: consume_number_byte_def intro!: fine_intros)

lemma within_consume_number_byte:
  "consume_number_byte limits start_byte' start bytes c = Inr (bytes', c') \<Longrightarrow> within inp start_byte c \<Longrightarrow> within inp start_byte c'"
  by (auto dest!: consume_number_byte_progress intro: within_moves)

lemma fine_consume_while:
  "within inp start_byte c \<Longrightarrow> fine inp start_byte (consume_while P limits start_byte start bytes n c)"
proof (induction P limits start_byte start bytes n c rule: consume_while.induct)
  case (1 P limits start_byte start bytes n c)
  show ?case
  proof (cases "\<exists>b. peek c = Some b \<and> P b")
    case True
    then obtain b where b: "peek c = Some b" "P b" by blast
    have "fine inp start_byte (rbind (consume_number_byte limits start_byte start bytes c)
        (\<lambda>r. consume_while P limits start_byte start (fst r) (n + 1) (snd r)))"
    proof (rule fine_bind, rule fine_consume_number_byte [OF "1.prems"])
      fix r assume r: "consume_number_byte limits start_byte start bytes c = Inr r"
      then have "within inp start_byte (snd r)"
        using within_consume_number_byte [of limits start_byte start bytes c "fst r" "snd r"] "1.prems" by simp
      from "1.IH" [OF b r this] show "fine inp start_byte (consume_while P limits start_byte start (fst r) (n + 1) (snd r))" .
    qed (use b in simp)
    with b show ?thesis by (subst consume_while.simps) simp
  next
    case False
    then show ?thesis by (subst consume_while.simps) (auto split: option.split)
  qed
qed

lemma within_consume_while:
  "consume_while P limits start_byte' start bytes n c = Inr (bytes', n', c') \<Longrightarrow> within inp start_byte c \<Longrightarrow> within inp start_byte c'"
  by (rule within_moves [OF consume_while_moves])

lemma fine_skip_while: "within inp start_byte c \<Longrightarrow> fine inp start_byte (skip_while P limits start_byte start c)"
proof (induction P limits start_byte start c rule: skip_while.induct)
  case (1 P limits start_byte start c)
  then show ?case by (subst skip_while.simps) (auto split: option.split intro!: fine_intros intro: within_advance)
qed

lemma fine_unicode_loop: "within inp start_byte c \<Longrightarrow> fine inp start_byte (unicode_loop limits start_byte start v has_digits c)"
proof (induction limits start_byte start v has_digits c rule: unicode_loop.induct)
  case (1 limits start_byte start v has_digits c)
  show ?case by (subst unicode_loop.simps)
    (auto split: option.split intro!: fine_intros "1.IH" intro: within_advance "1.prems")
qed

lemma fine_push_all: "within inp start_byte c \<Longrightarrow> fine inp start_byte (push_all bytes new limits c start_byte start)"
proof -
  assume w: "within inp start_byte c"
  have "fine inp start_byte (foldl (\<lambda>r byte. rbind r (\<lambda>bytes. push_literal_byte bytes byte limits c start_byte start)) r new)"
    if "fine inp start_byte r" for r
    using that
  proof (induction new arbitrary: r)
    case (Cons b new)
    have "fine inp start_byte (rbind r (\<lambda>bytes. push_literal_byte bytes b limits c start_byte start))"
      by (intro fine_bind Cons.prems fine_push w)
    with Cons.IH show ?case by simp
  qed simp
  then show ?thesis by (simp add: push_all_def)
qed

lemma fine_scan_unicode_escape:
  "within inp start_byte c \<Longrightarrow> fine inp start_byte (scan_unicode_escape limits start_byte start bytes c)"
  by (auto simp: scan_unicode_escape_def push_unicode_escape_bytes_def split: option.split
      intro!: fine_intros fine_unicode_loop fine_push_all)
    (blast intro: within_advance within_moves [OF unicode_loop_moves])+

lemma fine_decimal_escape: "within inp start_byte c \<Longrightarrow> fine inp start_byte (decimal_escape n limits start_byte start v c)"
  by (induction n arbitrary: v c) (auto simp: Let_def split: option.split intro!: fine_intros intro: within_advance)

lemma fine_hex_escape: "within inp start_byte c \<Longrightarrow> fine inp start_byte (hex_escape limits start_byte start bytes c)"
  by (auto simp: hex_escape_def intro!: fine_intros intro: within_advance)

lemma fine_if: "(b \<Longrightarrow> fine inp s x) \<Longrightarrow> (\<not> b \<Longrightarrow> fine inp s y) \<Longrightarrow> fine inp s (if b then x else y)"
  by simp

lemma fine_scan_escape: "within inp start_byte c \<Longrightarrow> fine inp start_byte (scan_escape limits start_byte start bytes c)"
proof -
  assume w: "within inp start_byte c"
  have digits: "fine inp start_byte (rbind (decimal_escape 3 limits start_byte start 0 c) (\<lambda>(v, c).
      rbind (push_literal_byte bytes (word_of_nat v) limits c start_byte start) (\<lambda>bytes. Inr (bytes, c))))"
    by (auto intro!: fine_intros fine_decimal_escape w intro: within_moves [OF decimal_escape_moves] w)
  show ?thesis
    by (cases "peek c"; cases "simple_escape (the (peek c))";
      simp only: scan_escape_def option.case option.sel;
      intro fine_if fine_error fine_bind fine_Inr fine_push fine_advance fine_hex_escape fine_scan_unicode_escape
        fine_skip_while digits w within_advance [OF _ w]; (assumption | simp))
qed

lemma fine_short_string_loop:
  "within inp start_byte c \<Longrightarrow> fine inp start_byte (short_string_loop quote limits start_byte start bytes c)"
proof (induction quote limits start_byte start bytes c rule: short_string_loop.induct)
  case (1 quote limits start_byte start bytes c)
  have esc: "within inp start_byte (snd r)" if "scan_escape limits start_byte start bytes c1 = Inr r" "within inp start_byte c1" for c1 r
    using scan_escape_moves [of limits start_byte start bytes c1 "fst r" "snd r"] that by (auto intro: within_moves)
  show ?case
    by (subst short_string_loop.simps)
      (auto split: option.split intro!: fine_intros fine_scan_escape "1.IH" intro: within_advance esc "1.prems")
qed

lemma fine_scan_short_string:
  "within inp (cur_offset c) c \<Longrightarrow> peek c \<noteq> None \<Longrightarrow> fine inp (cur_offset c) (scan_short_string limits toks c)"
  by (auto simp: scan_short_string_def Let_def intro!: fine_intros fine_short_string_loop)
    (blast intro: within_advance within_moves [OF short_string_loop_moves])+

lemma fine_advance_n: "within inp start_byte c \<Longrightarrow> fine inp start_byte (advance_n n limits start_byte start c)"
  by (induction n arbitrary: c) (auto intro!: fine_intros intro: within_advance)

lemma fine_consume_long_separator:
  "within inp start_byte c \<Longrightarrow> fine inp start_byte (consume_long_separator limits start_byte start equals c)"
  by (auto simp: consume_long_separator_def intro!: fine_intros fine_advance_n)

lemma fine_long_string_loop:
  "within inp start_byte c \<Longrightarrow> fine inp start_byte (long_string_loop limits start_byte start equals bytes c)"
proof (induction limits start_byte start equals bytes c rule: long_string_loop.induct)
  case (1 limits start_byte start equals bytes c)
  show ?case by (subst long_string_loop.simps)
    (auto split: option.split intro!: fine_intros fine_consume_long_separator "1.IH" intro: within_advance "1.prems")
qed

lemma fine_scan_long_string:
  assumes w: "within inp (cur_offset c) c"
  shows "fine inp (cur_offset c) (scan_long_string limits toks equals c)"
  unfolding scan_long_string_def Let_def
proof (rule fine_bind, rule fine_consume_long_separator [OF w])
  let ?nl = "\<lambda>c. (case peek c of Some b \<Rightarrow> is_newline b | None \<Rightarrow> False)"
  let ?sb = "cur_offset c" and ?st = "position c"
  fix c1 assume "consume_long_separator limits ?sb ?st equals c = Inr c1"
  with w have w1: "within inp ?sb c1" by (blast intro: within_moves consume_long_separator_moves)
  show "fine inp ?sb (rbind (if ?nl c1 then advance limits ?sb ?st c1 else Inr c1) (\<lambda>c.
         rbind (long_string_loop limits ?sb ?st equals [] c) (\<lambda>(bytes, c).
         rbind (emit toks c limits ?sb ?st Tok_String (Some (Lit_String bytes))) (\<lambda>toks. Inr (toks, c)))))"
  proof (rule fine_bind)
    fix c2 assume "(if ?nl c1 then advance limits ?sb ?st c1 else Inr c1) = Inr c2"
    then have w2: "within inp ?sb c2" using w1 by (auto intro: within_advance split: if_splits)
    then show "fine inp ?sb (rbind (long_string_loop limits ?sb ?st equals [] c2) (\<lambda>(bytes, c).
         rbind (emit toks c limits ?sb ?st Tok_String (Some (Lit_String bytes))) (\<lambda>toks. Inr (toks, c))))"
      by (auto intro!: fine_intros fine_long_string_loop) (blast intro: within_moves long_string_loop_moves)
  qed (use w1 in \<open>simp add: fine_advance\<close>)
qed

lemma fine_long_comment_loop:
  "within inp start_byte c \<Longrightarrow> fine inp start_byte (long_comment_loop limits start_byte start equals c)"
proof (induction limits start_byte start equals c rule: long_comment_loop.induct)
  case (1 limits start_byte start equals c)
  show ?case by (subst long_comment_loop.simps)
    (auto split: option.split intro!: fine_intros fine_consume_long_separator "1.IH" intro: within_advance "1.prems")
qed

lemma fine_scan_symbol:
  assumes w: "within inp (cur_offset c) c" and "peek c \<noteq> None"
  shows "fine inp (cur_offset c) (scan_symbol limits toks c)"
proof -
  let ?sb = "cur_offset c" and ?st = "position c"
  have adv: "fine inp ?sb (rbind (advance_n n limits ?sb ?st c) (\<lambda>c. rbind (advance limits ?sb ?st c) (\<lambda>c.
      rbind (emit toks c limits ?sb ?st kind lit) (\<lambda>toks. Inr (toks, c)))))" for n kind lit
    by (intro fine_intros fine_advance_n w fine_Inr)
      (blast intro: within_advance within_moves [OF advance_n_moves] w)+
  have "fine inp ?sb (rbind (advance limits ?sb ?st c) (\<lambda>c. Inl (lex_error c ?sb ?st UnknownElement)))"
    by (intro fine_intros w) (auto intro: within_advance w)
  with adv assms(2) show ?thesis by (auto simp: scan_symbol_def Let_def split: option.split)
qed

lemma fine_scan_name:
  assumes w: "within inp (cur_offset c) c"
  shows "fine inp (cur_offset c) (scan_name limits toks c)"
  unfolding scan_name_def Let_def
  by (rule fine_bind, rule fine_consume_while [OF w])
    (auto intro!: fine_intros split: option.split dest: within_consume_while [OF _ w])

lemma fine_scan_fraction:
  "within inp start_byte c \<Longrightarrow> fine inp start_byte (scan_fraction P limits start_byte start bytes n c)"
  by (auto simp: scan_fraction_def intro!: fine_bind fine_consume_number_byte fine_consume_while
      intro: within_consume_number_byte)

lemma fine_scan_exponent:
  assumes w: "within inp start_byte c" and msg: "msg \<noteq> UnwrapPanic"
  shows "fine inp start_byte (scan_exponent marks msg limits start_byte start bytes c)"
proof -
  have digits: "fine inp start_byte (rbind (consume_while is_ascii_digit limits start_byte start bytes1 0 c1) (\<lambda>(bytes, _, c).
       if length bytes = k then Inl (lex_error c start_byte start msg) else Inr (bytes, c)))"
    if "within inp start_byte c1" for bytes1 c1 k
    by (rule fine_bind, rule fine_consume_while [OF that])
      (auto intro!: fine_error msg dest: within_consume_while [OF _ that])
  have sign: "fine inp start_byte (rbind (if peek c1 \<in> {Some 43, Some 45} then consume_number_byte limits start_byte start bytes1 c1 else Inr (bytes1, c1))
          (\<lambda>(bytes, c).
            let exponent_start = length bytes
            in rbind (consume_while is_ascii_digit limits start_byte start bytes 0 c) (\<lambda>(bytes, _, c).
                 if length bytes = exponent_start then Inl (lex_error c start_byte start msg) else Inr (bytes, c))))"
    if "within inp start_byte c1" for bytes1 c1
    unfolding Let_def
    by (rule fine_bind)
      (auto intro!: digits fine_consume_number_byte that dest: within_consume_number_byte [OF _ that] split: if_splits)
  show ?thesis
  proof (cases "case peek c of Some b \<Rightarrow> b \<in> marks | None \<Rightarrow> False")
    case True
    then have p: "peek c \<noteq> None" by (auto split: option.splits)
    show ?thesis unfolding scan_exponent_def if_P [OF True]
      apply (rule fine_bind [OF fine_consume_number_byte [OF w p]])
      subgoal for x by (cases x, simp only: prod.case) (rule sign, erule within_consume_number_byte [OF _ w])
      done
  next
    case False
    then show ?thesis unfolding scan_exponent_def by simp
  qed
qed

lemma within_scan_fraction:
  "scan_fraction P limits start_byte' start bytes n c = Inr (bytes', n', c') \<Longrightarrow> within inp start_byte c \<Longrightarrow> within inp start_byte c'"
  by (rule within_moves [OF scan_fraction_moves])

lemma fine_scan_decimal_digits:
  assumes w: "within inp start_byte c"
  shows "fine inp start_byte (scan_decimal_digits limits start_byte start c)"
  unfolding scan_decimal_digits_def
  apply (rule fine_bind [OF fine_consume_while [OF w]], clarify)
  subgoal for bytes n c1
    apply (frule within_consume_while [OF _ w])
    apply (rule fine_bind [OF fine_scan_fraction], assumption, clarify)
    apply (drule (1) within_scan_fraction)
    apply (rule fine_scan_exponent, assumption, simp)
    done
  done

lemma peek_second:
  assumes "consume_number_byte limits start_byte start bytes c = Inr (bytes1, c1)"
    and "peek c = Some b" and "\<not> is_newline b" and "peek_n c 1 \<noteq> None"
  shows "peek c1 \<noteq> None"
proof -
  from assms(1,2) have "advance limits start_byte start c = Inr c1"
    by (auto simp: consume_number_byte_def rbind_Inr_iff)
  from advance_one [OF this assms(2,3)] assms(4) show ?thesis
    by (auto simp: peek_def dest!: peek_n_Some)
qed

lemma fine_scan_hex_digits:
  assumes w: "within inp start_byte c" and two: "peek c = Some b" "\<not> is_newline b" "peek_n c 1 \<noteq> None"
  shows "fine inp start_byte (scan_hex_digits limits start_byte start c)"
  unfolding scan_hex_digits_def
  apply (rule fine_bind [OF fine_consume_number_byte [OF w]], simp add: two, clarify)
  subgoal for bytes c1
    apply (frule within_consume_number_byte [OF _ w])
    apply (rule fine_bind [OF fine_consume_number_byte], assumption, erule peek_second [OF _ two], clarify)
    apply (drule (1) within_consume_number_byte)
    apply (rule fine_bind [OF fine_consume_while], assumption, clarify)
    apply (drule (1) within_consume_while)
    apply (rule fine_bind [OF fine_scan_fraction], assumption, clarify)
    apply (drule (1) within_scan_fraction)
    apply (auto intro!: fine_error fine_scan_exponent)
    done
  done

lemma scan_decimal_digits_moves: "scan_decimal_digits limits start_byte start c = Inr (bytes, c') \<Longrightarrow> moves limits start_byte c c'"
  by (auto simp: scan_decimal_digits_def rbind_Inr_iff dest!: consume_while_moves scan_fraction_moves scan_exponent_moves)
    (blast intro: moves_trans)

lemma scan_numeral_moves: "scan_numeral limits start_byte start c = Inr (bytes, c') \<Longrightarrow> moves limits start_byte c c'"
  by (auto simp: scan_numeral_def rbind_Inr_iff split: if_splits option.splits
      dest!: scan_hex_digits_progress intro: progress_imp_moves scan_decimal_digits_moves)

lemma fine_scan_numeral:
  assumes w: "within inp start_byte c" and "peek c \<noteq> None"
  shows "fine inp start_byte (scan_numeral limits start_byte start c)"
proof -
  have digits: "fine inp start_byte (if peek c = Some 48 \<and> peek_n c 1 \<in> {Some 120, Some 88}
            then scan_hex_digits limits start_byte start c else scan_decimal_digits limits start_byte start c)"
    using fine_scan_hex_digits [OF w, of 48] fine_scan_decimal_digits [OF w] by (auto simp: is_newline_def)
  have w1: "within inp start_byte c1" if "(if peek c = Some 48 \<and> peek_n c 1 \<in> {Some 120, Some 88}
            then scan_hex_digits limits start_byte start c else scan_decimal_digits limits start_byte start c) = Inr (bytes, c1)" for bytes c1
    using that by (auto split: if_splits dest!: scan_hex_digits_progress scan_decimal_digits_moves progress_imp_moves intro: within_moves [OF _ w])
  have joined: "fine inp start_byte (rbind (consume_while is_name_continue limits start_byte start bytes 0 c1) (\<lambda>(_, _, c).
           Inl (lex_error c start_byte start NumeralJoinsName)) :: (diagnostic, bytes \<times> cursor) result)"
    if "within inp start_byte c1" for bytes c1
    by (rule fine_bind [OF fine_consume_while [OF that]])
      (auto intro!: fine_error dest: within_consume_while [OF _ that])
  show ?thesis unfolding scan_numeral_def
    apply (rule fine_bind [OF digits])
    subgoal for x using joined [OF w1 [of "fst x" "snd x"]] by (cases x) simp
    done
qed

lemma hex_integer_syntax: "hex_integer xs v \<noteq> Inl UnwrapPanic"
  by (induction xs arbitrary: v) (auto split: option.split)

lemma hex_mantissa_syntax: "hex_mantissa xs fractional scale v \<noteq> Inl UnwrapPanic"
  by (induction xs arbitrary: fractional scale v) (auto simp: Let_def split: option.split)

lemma hex_float_syntax: "fst (hex_float env body budget) \<noteq> Inl (Num_Syntax UnwrapPanic)"
proof -
  obtain res budget1 where b: "before_conversion env HexPowi budget = (res, budget1)" by fastforce
  have r: "res = Inr ()" if "\<not> isl res" using that by (cases res) auto
  show ?thesis unfolding hex_float_def Let_def b
    by (cases res) (auto simp: hex_mantissa_syntax simp del: hex_mantissa.simps split: option.split sum.split)
qed

lemma convert_f64_syntax:
  assumes "m \<noteq> UnwrapPanic"
  shows "fst (convert_f64 env charge m text budget) \<noteq> Inl (Num_Syntax UnwrapPanic)"
proof -
  obtain res budget1 where b: "before_conversion env charge budget = (res, budget1)" by fastforce
  show ?thesis using assms unfolding convert_f64_def b by (cases res; cases "parse_f64 text") simp_all
qed

lemma parse_number_syntax: "fst (parse_number env text budget) \<noteq> Inl (Num_Syntax UnwrapPanic)"
proof -
  have conv: "fst (case convert_f64 env charge m text budget of (r, budget) \<Rightarrow> (rbind r f, budget)) \<noteq> Inl (Num_Syntax UnwrapPanic)"
    if "m \<noteq> UnwrapPanic" "\<And>v. f v \<noteq> Inl (Num_Syntax UnwrapPanic)" for charge m f
    using convert_f64_syntax [OF that(1), of env charge "text" budget] that(2)
    by (auto simp: rbind_def split: prod.split sum.split)
  have hex: "fst (case hex_integer (drop 2 text) 0 of Inl msg \<Rightarrow> (Inl (Num_Syntax msg), budget) | Inr v \<Rightarrow> (Inr (Num_Integer v), budget))
      \<noteq> Inl (Num_Syntax UnwrapPanic)"
    using hex_integer_syntax [of "drop 2 text" 0] by (auto split: sum.split)
  show ?thesis unfolding parse_number_def Let_def
    by (simp add: conv hex hex_float_syntax del: rbind_simps split: option.split)
qed

text \<open>The same for a round of the scanner, whose error may also come from the budget.\<close>

definition fine_scan :: "bytes \<Rightarrow> nat \<Rightarrow> ('e scan_error, 'a) result \<times> 'b \<Rightarrow> bool" where
  "fine_scan inp start_byte r \<longleftrightarrow> (\<forall>d. fst r = Inl (Scan_Diagnostic d) \<longrightarrow> diag_ok inp start_byte d)"

lemma fine_diag_result [simp]: "fine_scan inp start_byte (diag_result r budget) \<longleftrightarrow> fine inp start_byte r"
  by (auto simp: fine_scan_def fine_def diag_result_def split: sum.split)

lemma fine_scan_number:
  assumes w: "within inp (cur_offset c) c" and "peek c \<noteq> None"
  shows "fine_scan inp (cur_offset c) (scan_number env limits toks c budget)"
proof (cases "scan_numeral limits (cur_offset c) (position c) c")
  case (Inl d)
  with fine_scan_numeral [OF assms] show ?thesis by (simp add: scan_number_def fine_scan_def fine_def)
next
  case (Inr r)
  obtain bytes c1 where r: "r = (bytes, c1)" by (cases r)
  from Inr r w have w1: "within inp (cur_offset c) c1" by (auto intro: within_moves scan_numeral_moves)
  obtain res budget1 where res: "parse_number env bytes budget = (res, budget1)" by fastforce
  have em: "fine inp (cur_offset c) (emit toks c1 limits (cur_offset c) (position c) kind lit)" for kind lit
    using w1 by (rule fine_emit)
  show ?thesis
  proof (cases res)
    case (Inl err)
    show ?thesis
    proof (cases err)
      case (Num_Syntax msg)
      then have "diag_ok inp (cur_offset c) (lex_error c1 (cur_offset c) (position c) msg)"
        using fine_error [OF w1, of msg "position c"] parse_number_syntax [of env bytes budget] res Inl
        by (auto simp: fine_def)
      with Num_Syntax Inl res r \<open>scan_numeral _ _ _ _ = Inr r\<close> show ?thesis
        by (simp add: scan_number_def fine_scan_def)
    qed (use Inl res r Inr in \<open>simp add: scan_number_def fine_scan_def\<close>)
  next
    case (Inr number)
    then show ?thesis using em res r \<open>scan_numeral _ _ _ _ = Inr r\<close>
      by (auto simp: scan_number_def fine_scan_def fine_def Let_def split: number.split sum.split)
  qed
qed

lemma fine_scan_short_comment:
  assumes w: "within inp (cur_offset c) c"
  shows "fine inp (cur_offset c) (scan_short_comment limits c)"
proof -
  let ?sb = "cur_offset c" and ?st = "position c"
  have long: "fine inp ?sb (scan_long_comment limits ?sb ?st equals c2)" if "within inp ?sb c2" for equals c2
    unfolding scan_long_comment_def
    by (rule fine_bind [OF fine_consume_long_separator [OF that]])
      (blast intro: fine_long_comment_loop within_moves consume_long_separator_moves that)
  have bad: "fine inp ?sb (Inl (lex_error c2 (cur_offset c2) (position c2) BadLongDelimiter) :: (diagnostic, cursor) result)"
    if "within inp ?sb c2" for c2
    using that by (simp add: fine_def diag_ok_def lex_error_def diagnostic_at_def within_def)
  show ?thesis unfolding scan_short_comment_def Let_def
    apply (rule fine_bind [OF fine_advance [OF w]])
    apply (drule within_advance [OF _ w])
    apply (rule fine_bind [OF fine_advance], assumption)
    apply (drule (1) within_advance)
    apply (auto intro!: long bad fine_skip_while split: sum.split option.split)
    done
qed

lemma fine_scan_step:
  assumes w: "within inp (cur_offset c) c" and p: "peek c = Some byte"
  shows "fine_scan inp (cur_offset c) (scan_step env limits byte toks c budget)"
proof -
  let ?sb = "cur_offset c"
  have p': "peek c \<noteq> None" using p by simp
  have space: "fine inp ?sb (rbind (consume_space limits c) (\<lambda>c. Inr (toks, c)))"
    unfolding consume_space_def by (intro fine_bind fine_advance w fine_Inr)
  have bad: "fine inp ?sb (rbind (advance limits ?sb (position c) c) (\<lambda>c'. Inl (lex_error c' ?sb (position c) BadLongDelimiter)
      :: (diagnostic, token list \<times> cursor) result))"
    by (rule fine_bind [OF fine_advance [OF w]]) (auto intro!: fine_error intro: within_advance w)
  have comment: "fine inp ?sb (rbind (scan_short_comment limits c) (\<lambda>c. Inr (toks, c)))"
    by (intro fine_bind fine_scan_short_comment w fine_Inr)
  show ?thesis
    unfolding scan_step_def Let_def
    by (simp add: space bad comment fine_scan_long_string [OF w] fine_scan_symbol [OF w p'] fine_scan_name [OF w]
      fine_scan_number [OF w p'] fine_scan_short_string [OF w p'] split: sum.split option.split)
qed

lemma fine_scan_loop:
  "\<lbrakk>cur_input c = inp; cur_offset c \<le> length inp\<rbrakk> \<Longrightarrow> fine_scan inp 0 (scan_loop env limits toks c budget)"
proof (induction env limits toks c budget rule: scan_loop.induct)
  case (1 env limits toks c budget)
  show ?case
  proof (cases "peek c")
    case None
    then show ?thesis by (simp add: scan_loop.simps [of env limits toks c] fine_scan_def)
  next
    case (Some byte)
    have w: "within inp (cur_offset c) c" using "1.prems" by (simp add: within_def)
    obtain res budget1 where step: "scan_step env limits byte toks c budget = (res, budget1)" by fastforce
    show ?thesis
    proof (cases res)
      case (Inl err)
      with fine_scan_step [OF w Some, of env limits toks budget] step Some show ?thesis
        by (auto simp: scan_loop.simps [of env limits toks c] fine_scan_def diag_ok_def)
    next
      case (Inr r)
      with step have "scan_step env limits byte toks c budget = (Inr (fst r, snd r), budget1)" by simp
      from scan_step_progress [OF this Some] have "within inp (cur_offset c) (snd r)"
        by (auto simp: progress_def intro: within_moves w)
      then have "fine_scan inp 0 (scan_loop env limits (fst r) (snd r) budget1)"
        using "1.IH" [OF Some step [symmetric] Inr] by (simp add: within_def)
      with Inr step Some show ?thesis by (simp add: scan_loop.simps [of env limits toks c])
    qed
  qed
qed

lemma scan_loop_within:
  "scan_loop env limits toks c budget = (Inr (toks', c'), budget') \<Longrightarrow> within inp start_byte c \<Longrightarrow> within inp start_byte c'"
proof (induction env limits toks c budget rule: scan_loop.induct)
  case (1 env limits toks c budget)
  show ?case
  proof (cases "peek c")
    case None
    with "1.prems" show ?thesis by (simp add: scan_loop.simps [of env limits toks c])
  next
    case (Some byte)
    with "1.prems"(1) obtain r budget1 where step: "scan_step env limits byte toks c budget = (Inr r, budget1)"
      and rest: "scan_loop env limits (fst r) (snd r) budget1 = (Inr (toks', c'), budget')"
      by (subst (asm) scan_loop.simps) (auto split: prod.splits sum.splits)
    have "within inp start_byte (snd r)"
      using scan_step_progress [of env limits byte toks c budget "fst r" "snd r" budget1] step Some "1.prems"(2)
      by (auto simp: progress_def intro: within_moves)
    from "1.IH" [OF Some step [symmetric] refl rest this] show ?thesis .
  qed
qed

subsection \<open>Properties of the lexer\<close>


text \<open>
  C10: A token says what the source spells at its span: a name or keyword is a maximal run of name bytes,
  a keyword exactly when the word is reserved in the profile; a symbol is the longest symbol the source
  continues with; literals carry a payload of their kind.
\<close>

theorem lex_tokens_spell:
  assumes "lex_with_numeric_budget env inp prof limits budget = (Inr chunk, budget')" and "length inp \<le> usize_max"
  shows "\<forall>t\<in>set (tokens chunk). tok_kind t = Tok_Eof
    \<or> spells prof inp (token_start t) (token_end t) (tok_kind t) (tok_literal t)"
  by (rule lex_stream [OF assms]) (auto simp: stream_ok_def token_ok_def)

text \<open>
  C31: The positions of the tokens are those of their offsets: the line counts the logical newlines before
  the offset, with a carriage return and a line feed in either order as one, and the column the bytes
  since the last newline.
\<close>

theorem lex_token_positions:
  assumes "lex_with_numeric_budget env inp prof limits budget = (Inr chunk, budget')" and "length inp \<le> usize_max"
  shows "\<forall>t\<in>set (tokens chunk). tok_start t = position_at inp (token_start t) \<and> tok_end t = position_at inp (token_end t)"
  by (rule lex_stream [OF assms]) (auto simp: stream_ok_def token_ok_def)

text \<open>
  C32: A diagnostic of the lexer points into the source: its span is within the source and not reversed,
  and the lexer never panics on an \<open>unwrap\<close>.
\<close>

theorem lex_diagnostics:
  assumes "lex_with_numeric_budget env inp prof limits budget = (Inl (Scan_Diagnostic d), budget')"
  shows "span_start (diag_span d) \<le> span_end (diag_span d) \<and> span_end (diag_span d) \<le> length inp
    \<and> diag_message d \<noteq> UnwrapPanic"
proof (cases "max_source_bytes limits < length inp")
  case True
  with assms show ?thesis by (auto simp: lex_with_numeric_budget_def)
next
  case False
  let ?c = "cursor_new inp prof"
  have w: "cur_input ?c = inp" "cur_offset ?c \<le> length inp" by (simp_all add: cursor_new_def)
  obtain res budget1 where loop: "scan_loop env limits [] ?c budget = (res, budget1)" by fastforce
  have "diag_ok inp 0 d"
  proof (cases res)
    case (Inl err)
    with fine_scan_loop [OF w, of env limits "[]" budget] loop assms False show ?thesis
      by (simp add: lex_with_numeric_budget_def scan_def fine_scan_def)
  next
    case (Inr r)
    obtain toks c where r: "r = (toks, c)" by (cases r)
    have "within inp 0 c" using scan_loop_within [of env limits "[]" ?c budget toks c budget1 inp 0] loop Inr r w
      by (simp add: within_def)
    with loop Inr r assms False show ?thesis
      by (auto simp: lex_with_numeric_budget_def scan_def diag_result_def push_token_def diag_ok_def diagnostic_at_def within_def
          split: if_splits)
  qed
  then show ?thesis by (simp add: diag_ok_def)
qed

subsection \<open>Witnesses\<close>

definition small_limits :: compile_limits where
  "small_limits = \<lparr>max_source_bytes = 40, max_token_bytes = 20, max_tokens = 20, max_lines = 5,
     max_ast_nodes = 1, max_parse_depth = 1, max_statements = 1, max_list_entries = 1, max_parameters = 1,
     max_bindings_per_function = 1, max_scope_depth = 1, max_labels = 1, max_gotos = 1, max_upvalues_per_function = 1\<rparr>"

text \<open>The source \<open>local x\<close>, a newline, \<open>x=y..z\<close>.\<close>

definition sample :: bytes where
  "sample = bs ''local x'' @ [10] @ bs ''x=y..z''"

text \<open>A token of the span from \<open>i\<close> to \<open>j\<close> on line \<open>l\<close>, from column \<open>c\<close>.\<close>

definition token_at :: "nat \<Rightarrow> nat \<Rightarrow> nat \<Rightarrow> nat \<Rightarrow> token_kind \<Rightarrow> literal option \<Rightarrow> token" where
  "token_at i j l c kind lit = \<lparr>tok_kind = kind, tok_span = \<lparr>span_start = i, span_end = j\<rparr>,
     tok_start = \<lparr>pos_line = l, pos_column = c\<rparr>, tok_end = \<lparr>pos_line = l, pos_column = c + (j - i)\<rparr>, tok_literal = lit\<rparr>"

definition sample_chunk :: lexed_chunk where
  "sample_chunk = \<lparr>chunk_profile = Lua54, source_len = 14, tokens = [token_at 0 5 1 1 (Tok_Keyword Kw_Local) None,
     token_at 6 7 1 7 Tok_Name (Some (Lit_Name [120])), token_at 8 9 2 1 Tok_Name (Some (Lit_Name [120])),
     token_at 9 10 2 2 (Tok_Symbol AssignSym) None, token_at 10 11 2 3 Tok_Name (Some (Lit_Name [121])),
     token_at 11 13 2 4 (Tok_Symbol Concat) None, token_at 13 14 2 6 Tok_Name (Some (Lit_Name [122])), token_at 14 14 2 7 Tok_Eof None]\<rparr>"

lemma sample_lexes:
  "lex_with_numeric_budget (unmetered (\<lambda>_. F64 0)) sample Lua54 small_limits () = (Inr sample_chunk, ())"
  by code_simp

lemma sample_length: "length sample \<le> usize_max"
  by (simp add: sample_def bs_def usize_max_def)


theorem lex_tokens_spell_witness:
  "list_all (\<lambda>t. tok_kind t = Tok_Eof
     \<or> spells Lua54 sample (token_start t) (token_end t) (tok_kind t) (tok_literal t)) (tokens sample_chunk)"
  unfolding list_all_iff by (rule lex_tokens_spell [OF sample_lexes sample_length])

theorem lex_token_positions_witness:
  "map tok_start (tokens sample_chunk) = map (\<lambda>t. position_at sample (token_start t)) (tokens sample_chunk)
    \<and> tok_start (tokens sample_chunk ! 3) = \<lparr>pos_line = 2, pos_column = 2\<rparr>"
proof -
  have "tok_start (tokens sample_chunk ! 3) = \<lparr>pos_line = 2, pos_column = 2\<rparr>" by (simp add: sample_chunk_def token_at_def)
  with lex_token_positions [OF sample_lexes sample_length] show ?thesis by simp
qed

text \<open>An unfinished string.\<close>

theorem lex_diagnostics_witness:
  "\<exists>d budget'. lex_with_numeric_budget (unmetered (\<lambda>_. F64 0)) (bs ''x = '' @ [34, 97]) Lua54 small_limits () = (Inl (Scan_Diagnostic d), budget')
     \<and> span_start (diag_span d) = 4 \<and> span_end (diag_span d) = 6 \<and> span_end (diag_span d) \<le> length (bs ''x = '' @ [34, 97])
     \<and> diag_message d \<noteq> UnwrapPanic"
proof -
  define d where "d = \<lparr>diag_code = Diag_Lex, diag_span = \<lparr>span_start = 4, span_end = 6\<rparr>,
      diag_start = \<lparr>pos_line = 1, pos_column = 5\<rparr>, diag_end = \<lparr>pos_line = 1, pos_column = 7\<rparr>, diag_message = UnfinishedString\<rparr>"
  have "lex_with_numeric_budget (unmetered (\<lambda>_. F64 0)) (bs ''x = '' @ [34, 97]) Lua54 small_limits () = (Inl (Scan_Diagnostic d), ())"
    unfolding d_def by code_simp
  from this lex_diagnostics [OF this] show ?thesis by (intro exI [of _ d] exI [of _ "()"]) (simp add: d_def)
qed

end
