(* ===== verification/Byte_String.thy ===== *)
theory Byte_String
  imports Alloc_Ledger
begin

text \<open>
  Immutable byte strings (\<open>string.rs\<close>). A string owns its bytes, shares a managed backing with other
  owners, or refers to storage of the host. A managed backing is a counted cell of the world: it holds
  the charges of its bytes and of its control block, which are refunded when the last owner goes. The
  bytes are immutable, so every owner carries them. Sizes of Rust types, addresses of new cells and
  the answers of the allocator are arguments.
\<close>

datatype byte_string = Owned bytes | ManagedShared nat bytes nat | External bytes

record 'h managed_backing =
  mb_charges :: "'h paired_charges"
  mb_owners :: nat

record 'h string_world =
  sw_world :: "'h world"
  sw_shared :: "nat \<Rightarrow> 'h managed_backing"

record alloc_env =
  ae_ok :: "fail_point \<Rightarrow> bool"
  ae_site :: "fail_point \<Rightarrow> allocation_site"

definition in_world :: "('h world \<Rightarrow> 'a \<times> 'h world) \<Rightarrow> 'h string_world \<Rightarrow> 'a \<times> 'h string_world" where
  "in_world f sw = (let (r, w) = f (sw_world sw) in (r, sw\<lparr>sw_world := w\<rparr>))"

definition on_world :: "('h world \<Rightarrow> 'h world) \<Rightarrow> 'h string_world \<Rightarrow> 'h string_world" where
  "on_world f sw = sw\<lparr>sw_world := f (sw_world sw)\<rparr>"

fun as_bytes :: "byte_string \<Rightarrow> bytes" where
  "as_bytes (Owned b) = b"
| "as_bytes (ManagedShared _ b _) = b"
| "as_bytes (External b) = b"

definition string_len :: "byte_string \<Rightarrow> nat" where
  "string_len s = length (as_bytes s)"

definition string_eq :: "byte_string \<Rightarrow> byte_string \<Rightarrow> bool" where
  "string_eq a b \<longleftrightarrow> as_bytes a = as_bytes b"

fun managed_payload_len :: "byte_string \<Rightarrow> nat" where
  "managed_payload_len (Owned b) = length b"
| "managed_payload_len (ManagedShared _ _ debt) = debt"
| "managed_payload_len (External _) = 0"

definition managed_sharing_metadata_bytes :: "nat \<Rightarrow> nat \<Rightarrow> nat" where
  "managed_sharing_metadata_bytes backing_size usize_size = backing_size + 2 * usize_size"

definition managed_sharing_is_cheaper :: "nat \<Rightarrow> nat \<Rightarrow> nat \<Rightarrow> bool" where
  "managed_sharing_is_cheaper backing_size usize_size byte_len \<longleftrightarrow>
     managed_sharing_metadata_bytes backing_size usize_size < byte_len"

definition string_try_from_bytes :: "alloc_env \<Rightarrow> 'h ledger \<Rightarrow> bytes \<Rightarrow> 'h world \<Rightarrow>
    (vm_error, byte_string \<times> 'h reservation) result \<times> 'h world" where
  "string_try_from_bytes env l b w =
     (case reserve_vec l (length b) 1 (ae_ok env StringBytesReserve) StringBytesReserve (ae_site env StringBytesReserve) w of
        (Inl e, w) \<Rightarrow> (Inl e, w)
      | (Inr ticket, w) \<Rightarrow> (Inr (Owned b, ticket), w))"

text \<open>The new backing is the cell \<open>addr\<close>, with one owner.\<close>

definition try_managed_shared_from_bytes :: "alloc_env \<Rightarrow> nat \<Rightarrow> nat \<Rightarrow> 'h ledger \<Rightarrow> bytes \<Rightarrow> 'h string_world \<Rightarrow>
    (vm_error, byte_string) result \<times> 'h string_world" where
  "try_managed_shared_from_bytes env metadata addr l b sw =
     (case in_world (string_try_from_bytes env l b) sw of
        (Inl e, sw) \<Rightarrow> (Inl e, sw)
      | (Inr (_, bytes_ticket), sw) \<Rightarrow>
          (case in_world (reserve_lua_backing_excess l metadata StringBytesReserve (ae_site env StringBytesReserve)) sw of
             (Inl e, sw) \<Rightarrow> (Inl e, on_world (drop_reservation bytes_ticket) sw)
           | (Inr metadata_ticket, sw) \<Rightarrow>
               (case in_world (commit_charge bytes_ticket) sw of
                  (Inl e, sw) \<Rightarrow> (Inl e, on_world (drop_reservation metadata_ticket) sw)
                | (Inr bytes_charge, sw) \<Rightarrow>
                    (case in_world (commit_charge metadata_ticket) sw of
                       (Inl e, sw) \<Rightarrow> (Inl e, on_world (drop_charge bytes_charge) sw)
                     | (Inr metadata_charge, sw) \<Rightarrow>
                         (case checked_add_usize (ch_bytes bytes_charge) (ch_bytes metadata_charge) of
                            None \<Rightarrow> (Inl ArithmeticOverflow,
                              on_world (\<lambda>w. drop_charge bytes_charge (drop_charge metadata_charge w)) sw)
                          | Some debt \<Rightarrow>
                              (let (p, sw) = in_world (replace_first (paired_new l) bytes_charge) sw;
                                   (p, sw) = in_world (replace_second p metadata_charge) sw
                               in (Inr (ManagedShared addr b debt),
                                   sw\<lparr>sw_shared := (sw_shared sw)(addr := \<lparr>mb_charges = p, mb_owners = 1\<rparr>)\<rparr>)))))))"

fun shared_external :: "byte_string \<Rightarrow> byte_string option" where
  "shared_external (External b) = Some (External b)"
| "shared_external _ = None"

text \<open>\<open>Rc::clone\<close> adds an owner.\<close>

fun shared_table_key :: "byte_string \<Rightarrow> 'h string_world \<Rightarrow> byte_string option \<times> 'h string_world" where
  "shared_table_key (ManagedShared addr b debt) sw =
     (Some (ManagedShared addr b debt),
      sw\<lparr>sw_shared := (sw_shared sw)(addr := (sw_shared sw addr)\<lparr>mb_owners := mb_owners (sw_shared sw addr) + 1\<rparr>)\<rparr>)"
| "shared_table_key (External b) sw = (Some (External b), sw)"
| "shared_table_key (Owned _) sw = (None, sw)"

text \<open>Dropping a string: the last owner of a managed backing refunds its charges.\<close>

fun drop_string :: "byte_string \<Rightarrow> 'h string_world \<Rightarrow> 'h string_world" where
  "drop_string (ManagedShared addr _ _) sw =
     (let m = sw_shared sw addr; n = mb_owners m - 1;
          sw = sw\<lparr>sw_shared := (sw_shared sw)(addr := m\<lparr>mb_owners := n\<rparr>)\<rparr>
      in if n = 0 then on_world (drop_paired (mb_charges m)) sw else sw)"
| "drop_string _ sw = sw"

lemma drop_string_shared [simp]:
  "sw_shared (drop_string (ManagedShared addr b d) sw) addr = (sw_shared sw addr)\<lparr>mb_owners := mb_owners (sw_shared sw addr) - 1\<rparr>"
  by (simp add: Let_def on_world_def)






end
