(* ===== verification/Table_Key.thy ===== *)
theory Table_Key
  imports Lua_Number Byte_String
begin

text \<open>
  Storable table keys (\<open>CanonicalKey\<close> of \<open>table.rs\<close>). A key is built once from a value: nil and NaN are
  excluded, a float with an integral value becomes that integer, a string carries its bytes (inline up
  to eight, else a charged copy or a shared backing) beside the object it came from. Equality is the
  equality of contents, and equal keys feed the same data to the hasher. The hasher of the standard
  library is not specified: it is an argument, a function of the sequence of data fed to it.
\<close>

subsection \<open>Keys\<close>

record inline_string_key =
  isk_source :: object_ref
  isk_len :: u8
  isk_bytes :: bytes

definition inline_as_bytes :: "inline_string_key \<Rightarrow> bytes" where
  "inline_as_bytes k = take (unat (isk_len k)) (isk_bytes k)"

record 'h string_key =
  sk_source :: object_ref
  sk_bytes :: byte_string
  sk_charge :: "'h charge option"
  sk_slot_charge :: "'h charge"
  sk_slot_extra_charge :: "'h charge option"

record object_key =
  ok_source :: object_ref
  ok_id :: object_id

datatype 'h key_kind =
    Key_Integer i64
  | Key_Float f64
  | Key_Boolean bool
  | Key_LightUserdata nat
  | Key_CFunction host_function_id
  | Key_ShortString inline_string_key
  | Key_ByteString "'h string_key"
  | Key_DeadShortString inline_string_key
  | Key_Object object_key

datatype key_class =
    Class_Integer | Class_Float | Class_Boolean | Class_LightUserdata | Class_CFunction
  | Class_ByteString | Class_Object

fun key_class_of :: "'h key_kind \<Rightarrow> key_class" where
  "key_class_of (Key_Integer _) = Class_Integer"
| "key_class_of (Key_Float _) = Class_Float"
| "key_class_of (Key_Boolean _) = Class_Boolean"
| "key_class_of (Key_LightUserdata _) = Class_LightUserdata"
| "key_class_of (Key_CFunction _) = Class_CFunction"
| "key_class_of (Key_ShortString _) = Class_ByteString"
| "key_class_of (Key_ByteString _) = Class_ByteString"
| "key_class_of (Key_DeadShortString _) = Class_ByteString"
| "key_class_of (Key_Object _) = Class_Object"

fun string_bytes :: "'h key_kind \<Rightarrow> bytes option" where
  "string_bytes (Key_ShortString k) = Some (inline_as_bytes k)"
| "string_bytes (Key_DeadShortString k) = Some (inline_as_bytes k)"
| "string_bytes (Key_ByteString k) = Some (as_bytes (sk_bytes k))"
| "string_bytes _ = None"

fun source_object :: "'h key_kind \<Rightarrow> object_ref option" where
  "source_object (Key_ShortString k) = Some (isk_source k)"
| "source_object (Key_ByteString k) = Some (sk_source k)"
| "source_object (Key_DeadShortString k) = Some (isk_source k)"
| "source_object (Key_Object k) = Some (ok_source k)"
| "source_object _ = None"

fun array_index :: "'h key_kind \<Rightarrow> nat option" where
  "array_index (Key_Integer value) = (if 0 < sint value then Some (nat (sint value) - 1) else None)"
| "array_index _ = None"

fun as_value :: "'h key_kind \<Rightarrow> lua_value" where
  "as_value (Key_Integer value) = V_Integer value"
| "as_value (Key_Float value) = V_Float value"
| "as_value (Key_Boolean value) = V_Boolean value"
| "as_value (Key_LightUserdata value) = V_LightUserdata value"
| "as_value (Key_CFunction value) = V_CFunction value"
| "as_value (Key_ShortString k) = V_Object (isk_source k)"
| "as_value (Key_ByteString k) = V_Object (sk_source k)"
| "as_value (Key_DeadShortString k) = V_Object (isk_source k)"
| "as_value (Key_Object k) = V_Object (ok_source k)"

fun same_kind_eq :: "'h key_kind \<Rightarrow> 'h key_kind \<Rightarrow> bool" where
  "same_kind_eq (Key_Integer a) (Key_Integer b) = (a = b)"
| "same_kind_eq (Key_Float a) (Key_Float b) = f64_eq a b"
| "same_kind_eq (Key_Boolean a) (Key_Boolean b) = (a = b)"
| "same_kind_eq (Key_LightUserdata a) (Key_LightUserdata b) = (a = b)"
| "same_kind_eq (Key_CFunction a) (Key_CFunction b) = (a = b)"
| "same_kind_eq (Key_Object a) (Key_Object b) = (ok_id a = ok_id b)"
| "same_kind_eq _ _ = False"

definition key_eq :: "'h key_kind \<Rightarrow> 'h key_kind \<Rightarrow> bool" where
  "key_eq a b = (case (string_bytes a, string_bytes b) of
     (Some left, Some right) \<Rightarrow> left = right
   | _ \<Rightarrow> same_kind_eq a b)"

text \<open>The data a key feeds to the hasher: a tag and its contents.\<close>

datatype hash_input =
    Hash_u8 u8 | Hash_u32 u32 | Hash_i64 i64 | Hash_u64 u64 | Hash_bool bool | Hash_usize nat
  | Hash_host_function host_function_id | Hash_object_id object_id | Hash_bytes bytes

fun key_hash :: "'h key_kind \<Rightarrow> hash_input list" where
  "key_hash (Key_Integer value) = [Hash_u8 0, Hash_i64 value]"
| "key_hash (Key_Float value) = [Hash_u8 1, Hash_u64 (to_bits value)]"
| "key_hash (Key_Boolean value) = [Hash_u8 2, Hash_bool value]"
| "key_hash (Key_LightUserdata value) = [Hash_u8 5, Hash_usize value]"
| "key_hash (Key_CFunction value) = [Hash_u8 6, Hash_host_function value]"
| "key_hash (Key_ShortString k) = [Hash_u8 3, Hash_bytes (inline_as_bytes k)]"
| "key_hash (Key_ByteString k) = [Hash_u8 3, Hash_bytes (as_bytes (sk_bytes k))]"
| "key_hash (Key_DeadShortString k) = [Hash_u8 3, Hash_bytes (inline_as_bytes k)]"
| "key_hash (Key_Object k) = [Hash_u8 4, Hash_object_id (ok_id k)]"

subsection \<open>Resources of a key\<close>

record table_env =
  te_alloc :: alloc_env
  te_value_size :: nat
  te_bucket_size :: nat
  te_string_key_size :: nat
  te_key_excess :: nat
  te_hasher :: "hash_input list \<Rightarrow> u64"

definition drop_charge_option :: "'h charge option \<Rightarrow> 'h string_world \<Rightarrow> 'h string_world" where
  "drop_charge_option c sw = (case c of None \<Rightarrow> sw | Some c \<Rightarrow> on_world (drop_charge c) sw)"

text \<open>A long string key gives back its slot first, then its fields in their order.\<close>

fun drop_key :: "'h key_kind \<Rightarrow> 'h string_world \<Rightarrow> 'h string_world" where
  "drop_key (Key_ByteString k) sw =
     (let sw = drop_string (sk_bytes k) sw;
          sw = drop_charge_option (sk_charge k) sw;
          sw = on_world (drop_charge (sk_slot_charge k)) sw
      in drop_charge_option (sk_slot_extra_charge k) sw)"
| "drop_key _ sw = sw"

text \<open>
  A key that stays behind for a removed entry must not keep storage of the host alive: an external
  string is replaced by a charged copy.
\<close>

definition string_key_make_dead :: "table_env \<Rightarrow> 'h ledger \<Rightarrow> 'h string_key \<Rightarrow> 'h string_world \<Rightarrow>
    (vm_error, 'h string_key) result \<times> 'h string_world" where
  "string_key_make_dead env l k sw =
     (case shared_external (sk_bytes k) of
        None \<Rightarrow> (Inr k, sw)
      | Some _ \<Rightarrow>
          (case in_world (string_try_from_bytes (te_alloc env) l (as_bytes (sk_bytes k))) sw of
             (Inl e, sw) \<Rightarrow> (Inl e, sw)
           | (Inr (copy, ticket), sw) \<Rightarrow>
               (case in_world (commit_charge ticket) sw of
                  (Inl e, sw) \<Rightarrow> (Inl e, sw)
                | (Inr charge, sw) \<Rightarrow>
                    (Inr (k\<lparr>sk_bytes := copy, sk_charge := Some charge\<rparr>),
                     drop_charge_option (sk_charge k) sw))))"

fun make_dead :: "table_env \<Rightarrow> 'h ledger \<Rightarrow> 'h key_kind \<Rightarrow> 'h string_world \<Rightarrow>
    (vm_error, 'h key_kind) result \<times> 'h string_world" where
  "make_dead env l (Key_ShortString k) sw = (Inr (Key_DeadShortString k), sw)"
| "make_dead env l (Key_ByteString k) sw =
     (case string_key_make_dead env l k sw of
        (Inl e, sw) \<Rightarrow> (Inl e, sw)
      | (Inr k, sw) \<Rightarrow> (Inr (Key_ByteString k), sw))"
| "make_dead env l key sw = (Inr key, sw)"

subsection \<open>Keys as abstract values\<close>

text \<open>What a key stands for: a number by its value, a string by its bytes, an object by its identity.\<close>

datatype lua_key =
    LK_Int int | LK_Float int | LK_Bool bool | LK_Light nat | LK_CFunction host_function_id
  | LK_String bytes | LK_Object object_id

fun abs_key :: "'h key_kind \<Rightarrow> lua_key" where
  "abs_key (Key_Integer i) = LK_Int (sint i)"
| "abs_key (Key_Float f) = LK_Float (f64_units f)"
| "abs_key (Key_Boolean b) = LK_Bool b"
| "abs_key (Key_LightUserdata n) = LK_Light n"
| "abs_key (Key_CFunction c) = LK_CFunction c"
| "abs_key (Key_ShortString k) = LK_String (inline_as_bytes k)"
| "abs_key (Key_ByteString k) = LK_String (as_bytes (sk_bytes k))"
| "abs_key (Key_DeadShortString k) = LK_String (inline_as_bytes k)"
| "abs_key (Key_Object k) = LK_Object (ok_id k)"

text \<open>
  A well-formed key: a float key is not NaN and has no integer representation (every integral float
  in range is an integer key), an object key carries the identity of its source.
\<close>

fun key_ok :: "'h key_kind \<Rightarrow> bool" where
  "key_ok (Key_Float f) = (\<not> is_nan f \<and> isl (to_integer (Num_Float f) Op_ConvertToInteger))"
| "key_ok (Key_Object k) = (identity (ok_source k) = Some (ok_id k))"
| "key_ok _ = True"

lemma key_ok_float:
  assumes "key_ok (Key_Float f)"
  shows "f64_units f \<noteq> sint (n :: i64) * int one_units"
proof
  assume n: "f64_units f = sint n * int one_units"
  then have "is_finite f"
    using assms i64_units_bounds [of n] by (simp add: f64_units_finite abs_less_iff)
  with n have "to_integer (Num_Float f) Op_ConvertToInteger = Inr n" by (subst to_integer_float_exact) simp
  with assms show False by simp
qed

lemma key_ok_float_nonzero: "key_ok (Key_Float f) \<Longrightarrow> f64_units f \<noteq> 0"
  using key_ok_float [of f 0] by simp

lemma f64_eq_units:
  assumes "\<not> is_nan f" and "\<not> is_nan g"
  shows "f64_eq f g \<longleftrightarrow> f64_units f = f64_units g"
  using assms by (simp add: f64_eq_def f64_cmp_def)

lemma string_bytes_abs: "string_bytes k = (case abs_key k of LK_String b \<Rightarrow> Some b | _ \<Rightarrow> None)"
  by (cases k) simp_all

lemma key_eq_abs:
  assumes "key_ok a" and "key_ok b"
  shows "key_eq a b \<longleftrightarrow> abs_key a = abs_key b"
  using assms by (cases a; cases b) (simp_all add: key_eq_def f64_eq_units sint_eq_iff)

lemma f64_units_inj:
  assumes "f64_units f = f64_units g" and "f64_units f \<noteq> 0"
  shows "f = g"
proof -
  have "f64_units h \<noteq> 0 \<Longrightarrow> mag_units (f64_mag h) \<noteq> 0" for h
    by (auto simp: f64_units_def split: if_splits)
  from this [of f] this [of g] have "mag_units (f64_mag f) \<noteq> 0" and "mag_units (f64_mag g) \<noteq> 0"
    using assms by (simp_all only: refl not_False_eq_True simp_thms)
  moreover have "(if f64_sign f then - int (mag_units (f64_mag f)) else int (mag_units (f64_mag f)))
      = (if f64_sign g then - int (mag_units (f64_mag g)) else int (mag_units (f64_mag g)))"
    using assms(1) by (simp only: f64_units_def)
  ultimately have "f64_sign f = f64_sign g \<and> mag_units (f64_mag f) = mag_units (f64_mag g)"
    by (cases "f64_sign f"; cases "f64_sign g"; simp only: if_True if_False; linarith)
  then have "f64_sign f = f64_sign g \<and> f64_mag f = f64_mag g" by simp
  then have "f64_make (f64_sign f) (f64_mag f) = f64_make (f64_sign g) (f64_mag g)" by (simp only:)
  then show ?thesis by (simp only: f64_make_eq)
qed

lemma abs_key_hash:
  assumes "key_ok a" and "key_ok b" and "abs_key a = abs_key b"
  shows "key_hash a = key_hash b"
  using assms key_ok_float_nonzero f64_units_inj by (cases a; cases b) (fastforce simp: sint_eq_iff simp del: key_ok.simps(1))+

lemma make_dead_ok:
  assumes "make_dead env l k sw = (Inr k', sw')"
  shows "abs_key k' = abs_key k" and "key_ok k' = key_ok k" and "source_object k' = source_object k"
    and "array_index k' = array_index k" and "as_value k' = as_value k"
  using assms
  by (cases k; auto simp: string_key_make_dead_def string_try_from_bytes_def in_world_def split: option.splits sum.splits prod.splits)+

lemma array_index_abs:
  "array_index k = Some i \<longleftrightarrow> abs_key k = LK_Int (int i + 1)"
  by (cases k) auto

end
