(* ===== verification/Lua_Table.thy ===== *)
theory Lua_Table
  imports Table_Key
begin

text \<open>
  The raw table (\<open>Table\<close> of \<open>table.rs\<close>): an array part for the keys \<open>1, 2, \<dots>\<close> and a hash part of
  buckets, each holding a key and a value. A removed hash entry stays behind with the value nil, so
  that a traversal standing on it can go on. A write is prepared first, without touching the table,
  then accounted for and applied; nothing can fail once it is applied.
\<close>

subsection \<open>The table\<close>

datatype weak_mode = Strong | Keys | Values | All

type_synonym 'h bucket = "('h key_kind \<times> lua_value) option"

record 'h lua_table =
  tb_metatable :: "object_ref option"
  tb_weak_mode :: weak_mode
  tb_hash_seed :: u32
  mutation_version :: u64
  tb_array :: "lua_value option list"
  tb_hash :: "'h bucket list"
  tb_charges :: "'h paired_charges"

fun flatten :: "'a option list \<Rightarrow> 'a list" where
  "flatten [] = []"
| "flatten (None # xs) = flatten xs"
| "flatten (Some x # xs) = x # flatten xs"

definition table_try_new :: "table_env \<Rightarrow> 'h ledger \<Rightarrow> nat \<Rightarrow> nat \<Rightarrow> u32 \<Rightarrow> 'h world \<Rightarrow>
    (vm_error, 'h lua_table \<times> 'h reservation \<times> 'h reservation) result \<times> 'h world" where
  "table_try_new env l array_capacity hash_capacity seed w =
     (case reserve_vec l array_capacity (te_value_size env) (ae_ok (te_alloc env) TableArrayReserve)
             TableArrayReserve (ae_site (te_alloc env) TableArrayReserve) w of
        (Inl e, w) \<Rightarrow> (Inl e, w)
      | (Inr array_ticket, w) \<Rightarrow>
          (case reserve_vec l hash_capacity (te_bucket_size env) (ae_ok (te_alloc env) TableHashReserve)
                  TableHashReserve (ae_site (te_alloc env) TableHashReserve) w of
             (Inl e, w) \<Rightarrow> (Inl e, drop_reservation array_ticket w)
           | (Inr hash_ticket, w) \<Rightarrow>
               (Inr (\<lparr>tb_metatable = None, tb_weak_mode = Strong, tb_hash_seed = seed, mutation_version = 0,
                      tb_array = replicate array_capacity None, tb_hash = replicate hash_capacity None,
                      tb_charges = paired_new l\<rparr>, array_ticket, hash_ticket), w)))"

definition install_initial_charges :: "'h charge \<Rightarrow> 'h charge \<Rightarrow> 'h lua_table \<Rightarrow> 'h world \<Rightarrow>
    'h lua_table \<times> 'h world" where
  "install_initial_charges array hash t w =
     (let (p, w) = replace_first (tb_charges t) array w;
          (p, w) = replace_second p hash w
      in (t\<lparr>tb_charges := p\<rparr>, w))"

definition saturating_inc :: "u64 \<Rightarrow> u64" where
  "saturating_inc v = (if v = - 1 then v else v + 1)"

definition bump_mutation_version :: "'h lua_table \<Rightarrow> 'h lua_table" where
  "bump_mutation_version t = t\<lparr>mutation_version := saturating_inc (mutation_version t)\<rparr>"

definition set_metatable :: "object_ref option \<Rightarrow> 'h lua_table \<Rightarrow> 'h lua_table" where
  "set_metatable mt t = (if tb_metatable t \<noteq> mt then bump_mutation_version t else t)\<lparr>tb_metatable := mt\<rparr>"

definition set_weak_mode :: "weak_mode \<Rightarrow> 'h lua_table \<Rightarrow> 'h lua_table" where
  "set_weak_mode mode t = (if tb_weak_mode t \<noteq> mode then bump_mutation_version t else t)\<lparr>tb_weak_mode := mode\<rparr>"

definition lookup_cache_version :: "'h lua_table \<Rightarrow> i64 \<Rightarrow> u64 option" where
  "lookup_cache_version t key =
     (let array_slot = (0 \<le> sint key \<and> 1 \<le> nat (sint key) \<and> nat (sint key) - 1 < length (tb_array t))
      in if tb_metatable t = None \<and> tb_weak_mode t = Strong \<and> mutation_version t \<noteq> - 1 \<and> \<not> array_slot
         then Some (mutation_version t) else None)"

fun find_map :: "('a \<Rightarrow> 'b option) \<Rightarrow> 'a list \<Rightarrow> 'b option" where
  "find_map f [] = None"
| "find_map f (x # xs) = (case f x of None \<Rightarrow> find_map f xs | Some y \<Rightarrow> Some y)"

definition named_value :: "'h lua_table \<Rightarrow> bytes \<Rightarrow> lua_value" where
  "named_value t name =
     (case find_map (\<lambda>(key, value). if value \<noteq> V_Nil \<and> string_bytes key = Some name then Some value else None)
             (flatten (tb_hash t)) of
        None \<Rightarrow> V_Nil | Some value \<Rightarrow> value)"

definition mode_value :: "'h lua_table \<Rightarrow> lua_value" where
  "mode_value t = named_value t [95, 95, 109, 111, 100, 101]"

definition finalizer_value :: "'h lua_table \<Rightarrow> lua_value" where
  "finalizer_value t = named_value t [95, 95, 103, 99]"

definition live_entries :: "'h bucket list \<Rightarrow> ('h key_kind \<times> lua_value) list" where
  "live_entries buckets = filter (\<lambda>(_, value). value \<noteq> V_Nil) (flatten buckets)"

definition live_hash_count :: "'h lua_table \<Rightarrow> nat" where
  "live_hash_count t = length (live_entries (tb_hash t))"

definition table_is_empty :: "'h lua_table \<Rightarrow> bool" where
  "table_is_empty t \<longleftrightarrow> list_all (\<lambda>v. v = None) (tb_array t) \<and> live_hash_count t = 0"

definition charge_bytes :: "table_env \<Rightarrow> 'h lua_table \<Rightarrow> (vm_error, nat) result" where
  "charge_bytes env t =
     rbind (checked_bytes (length (tb_array t)) (te_value_size env)) (\<lambda>array_bytes.
     rbind (checked_bytes (length (tb_hash t)) (te_bucket_size env)) (\<lambda>hash_bytes.
     ok_or ArithmeticOverflow (checked_add_usize array_bytes hash_bytes)))"

subsection \<open>Lookup\<close>

definition seeded_hash :: "table_env \<Rightarrow> u32 \<Rightarrow> hash_input list \<Rightarrow> nat" where
  "seeded_hash env seed input = unat (te_hasher env (if seed \<noteq> 0 then Hash_u32 seed # input else input))"

definition bucket :: "table_env \<Rightarrow> 'h lua_table \<Rightarrow> 'h key_kind \<Rightarrow> nat \<Rightarrow> nat" where
  "bucket env t key n = seeded_hash env (tb_hash_seed t) (key_hash key) mod n"

definition probe :: "nat \<Rightarrow> nat \<Rightarrow> nat \<Rightarrow> nat" where
  "probe start step n = (if step < n - start then start + step else step - (n - start))"

definition probes :: "nat \<Rightarrow> nat \<Rightarrow> nat list" where
  "probes start n = map (\<lambda>step. probe start step n) [0..<n]"

definition find_any_hash :: "table_env \<Rightarrow> 'h lua_table \<Rightarrow> 'h key_kind \<Rightarrow> nat option" where
  "find_any_hash env t key =
     (let n = length (tb_hash t)
      in if n = 0 then None
         else find (\<lambda>index. case tb_hash t ! index of None \<Rightarrow> False | Some (stored, _) \<Rightarrow> key_eq stored key)
                (probes (bucket env t key n) n))"

definition find_hash :: "table_env \<Rightarrow> 'h lua_table \<Rightarrow> 'h key_kind \<Rightarrow> nat option" where
  "find_hash env t key =
     (case find_any_hash env t key of
        None \<Rightarrow> None
      | Some index \<Rightarrow> (case tb_hash t ! index of None \<Rightarrow> None
                       | Some (_, value) \<Rightarrow> if value \<noteq> V_Nil then Some index else None))"

definition empty_bucket :: "table_env \<Rightarrow> 'h lua_table \<Rightarrow> 'h bucket list \<Rightarrow> 'h key_kind \<Rightarrow> (vm_error, nat) result" where
  "empty_bucket env t buckets key =
     (let n = length buckets
      in if n = 0 then Inl LedgerInvariant
         else ok_or LedgerInvariant (find (\<lambda>index. buckets ! index = None) (probes (bucket env t key n) n)))"

definition array_value :: "'h lua_table \<Rightarrow> 'h key_kind \<Rightarrow> lua_value option" where
  "array_value t key = (case array_index key of None \<Rightarrow> None
     | Some index \<Rightarrow> (case get_at (tb_array t) index of None \<Rightarrow> None | Some v \<Rightarrow> v))"

definition table_get :: "table_env \<Rightarrow> 'h lua_table \<Rightarrow> 'h key_kind \<Rightarrow> lua_value" where
  "table_get env t key =
     (case array_value t key of
        Some value \<Rightarrow> value
      | None \<Rightarrow>
          (case find_hash env t key of
             None \<Rightarrow> V_Nil
           | Some index \<Rightarrow> (case tb_hash t ! index of None \<Rightarrow> V_Nil | Some (_, value) \<Rightarrow> value)))"

definition get_integer :: "table_env \<Rightarrow> 'h lua_table \<Rightarrow> i64 \<Rightarrow> lua_value" where
  "get_integer env t key = table_get env t (Key_Integer key)"

definition get_byte_key :: "table_env \<Rightarrow> 'h lua_table \<Rightarrow> bytes \<Rightarrow> lua_value" where
  "get_byte_key env t name =
     (let n = length (tb_hash t)
      in if n = 0 then V_Nil
         else let start = seeded_hash env (tb_hash_seed t) [Hash_u8 3, Hash_bytes name] mod n
              in case find_map (\<lambda>index. case tb_hash t ! index of None \<Rightarrow> None
                         | Some (key, value) \<Rightarrow> if value \<noteq> V_Nil \<and> string_bytes key = Some name then Some value else None)
                       (probes start n) of
                   None \<Rightarrow> V_Nil | Some value \<Rightarrow> value)"

definition i64_max :: i64 where
  "i64_max = 9223372036854775807"

lemma sint_i64_max: "sint i64_max = 2 ^ 63 - 1"
  by (simp add: i64_max_def)

lemma sint_succ:
  assumes "(b :: i64) \<noteq> i64_max"
  shows "sint (b + 1) = sint b + 1"
proof -
  have "sint b \<noteq> 2 ^ 63 - 1" using assms sint_i64_max sint_eq_iff by metis
  then have "sint (word_of_int (sint b + 1) :: i64) = sint b + 1"
    using sint_i64_bounds [of b] by (intro sint_word_of_int_i64) linarith+
  then show ?thesis by simp
qed

function border_loop :: "table_env \<Rightarrow> 'h lua_table \<Rightarrow> i64 \<Rightarrow> i64" where
  "border_loop env t border =
     (if border = i64_max then border
      else if get_integer env t (border + 1) = V_Nil then border
      else border_loop env t (border + 1))"
  by pat_completeness auto
termination
proof (relation "measure (\<lambda>(_, _, border). nat (2 ^ 63 - 1 - sint border))")
  fix env and t :: "'h lua_table" and border :: i64
  assume "border \<noteq> i64_max"
  then have "sint (border + 1) = sint border + 1" by (rule sint_succ)
  moreover have "sint (border + 1) < 2 ^ 63" by (rule sint_i64_bounds)
  ultimately show "((env, t, border + 1), (env, t, border)) \<in> measure (\<lambda>(_, _, border). nat (2 ^ 63 - 1 - sint border))"
    by simp
qed simp

declare border_loop.simps [simp del]

definition border_len :: "table_env \<Rightarrow> 'h lua_table \<Rightarrow> i64" where
  "border_len env t = border_loop env t 0"

subsection \<open>Visiting\<close>

text \<open>
  The code hands closures to the table; a closure that may fail and changes state is a function of
  that state here. The first error ends the visit.
\<close>

type_synonym ('x, 's) visitor = "'x \<Rightarrow> 's \<Rightarrow> (vm_error, unit) result \<times> 's"

fun and_then :: "(vm_error, unit) result \<times> 's \<Rightarrow> ('s \<Rightarrow> (vm_error, unit) result \<times> 's) \<Rightarrow>
    (vm_error, unit) result \<times> 's" where
  "and_then (Inl e, s) k = (Inl e, s)"
| "and_then (Inr _, s) k = k s"

fun visit_each :: "('x, 's) visitor \<Rightarrow> ('x list, 's) visitor" where
  "visit_each f [] s = (Inr (), s)"
| "visit_each f (x # xs) s = and_then (f x s) (visit_each f xs)"

definition visit_option :: "('x, 's) visitor \<Rightarrow> ('x option, 's) visitor" where
  "visit_option f x s = (case x of None \<Rightarrow> (Inr (), s) | Some x \<Rightarrow> f x s)"

fun visit_value :: "(object_ref, 's) visitor \<Rightarrow> (lua_value, 's) visitor" where
  "visit_value f (V_Object r) s = f r s"
| "visit_value f _ s = (Inr (), s)"

definition for_each_raw :: "'h lua_table \<Rightarrow> (lua_value \<times> lua_value, 's) visitor \<Rightarrow> 's \<Rightarrow>
    (vm_error, unit) result \<times> 's" where
  "for_each_raw t visit s =
     and_then (visit_each (\<lambda>(index, value) s. case value of
                 None \<Rightarrow> (Inr (), s)
               | Some value \<Rightarrow>
                   if index < 2 ^ 63 - 1 then visit (V_Integer (of_nat index + 1), value) s
                   else (Inl ArithmeticOverflow, s))
               (enumerate 0 (tb_array t)) s)
       (visit_each (\<lambda>(key, value) s. if value \<noteq> V_Nil then visit (as_value key, value) s else (Inr (), s))
          (flatten (tb_hash t)))"

definition trace_children :: "'h lua_table \<Rightarrow> (object_ref, 's) visitor \<Rightarrow> 's \<Rightarrow> (vm_error, unit) result \<times> 's" where
  "trace_children t visit s =
     and_then (visit_option visit (tb_metatable t) s) (\<lambda>s.
     and_then (visit_each (visit_value visit) (flatten (tb_array t)) s)
       (visit_each (\<lambda>(key, value) s.
            if value = V_Nil then (Inr (), s)
            else and_then (visit_option visit (source_object key) s) (visit_value visit value))
          (flatten (tb_hash t))))"

definition visit_if :: "(vm_error, bool) result \<Rightarrow> ('s \<Rightarrow> (vm_error, unit) result \<times> 's) \<Rightarrow> 's \<Rightarrow>
    (vm_error, unit) result \<times> 's" where
  "visit_if c f s = (case c of Inl e \<Rightarrow> (Inl e, s) | Inr b \<Rightarrow> if b then f s else (Inr (), s))"

fun weak_array_value :: "weak_mode \<Rightarrow> (object_ref \<Rightarrow> (vm_error, bool) result) \<Rightarrow> (object_ref, 's) visitor \<Rightarrow>
    (lua_value, 's) visitor" where
  "weak_array_value mode is_string visit (V_Object r) s =
     visit_if (if mode = Keys then Inr True else is_string r) (visit r) s"
| "weak_array_value mode is_string visit _ s = (Inr (), s)"

fun weak_entry_value :: "weak_mode \<Rightarrow> (object_ref \<Rightarrow> (vm_error, bool) result) \<Rightarrow> (object_ref, 's) visitor \<Rightarrow>
    'h key_kind \<Rightarrow> (lua_value, 's) visitor" where
  "weak_entry_value mode is_string visit key (V_Object r) s =
     visit_if (case mode of
                 Keys \<Rightarrow> Inr (key_class_of key \<in> {Class_Integer, Class_Float, Class_Boolean, Class_LightUserdata, Class_ByteString})
               | Values \<Rightarrow> is_string r
               | All \<Rightarrow> is_string r
               | Strong \<Rightarrow> Inr True) (visit r) s"
| "weak_entry_value mode is_string visit key _ s = (Inr (), s)"

definition trace_gc_children :: "'h lua_table \<Rightarrow> (object_ref \<Rightarrow> (vm_error, bool) result) \<Rightarrow>
    (object_ref, 's) visitor \<Rightarrow> 's \<Rightarrow> (vm_error, unit) result \<times> 's" where
  "trace_gc_children t is_string visit s =
     (if tb_weak_mode t = Strong then trace_children t visit s
      else
        and_then (visit_option visit (tb_metatable t) s) (\<lambda>s.
        and_then (visit_each (weak_array_value (tb_weak_mode t) is_string visit) (flatten (tb_array t)) s)
          (visit_each (\<lambda>(key, value) s.
               if value = V_Nil then (Inr (), s)
               else and_then
                      (if tb_weak_mode t = Values \<or> tb_weak_mode t = Keys \<and> key_class_of key = Class_ByteString
                       then visit_option visit (source_object key) s else (Inr (), s))
                      (weak_entry_value (tb_weak_mode t) is_string visit key value))
             (flatten (tb_hash t)))))"

fun ephemeron_key :: "'h key_kind \<Rightarrow> object_ref option" where
  "ephemeron_key (Key_Object k) = Some (ok_source k)"
| "ephemeron_key _ = None"

definition visit_ephemeron_pairs :: "'h lua_table \<Rightarrow> (object_ref option \<times> object_ref, 's) visitor \<Rightarrow> 's \<Rightarrow>
    (vm_error, unit) result \<times> 's" where
  "visit_ephemeron_pairs t visit s =
     (if tb_weak_mode t \<noteq> Keys then (Inr (), s)
      else visit_each (\<lambda>(key, value). visit_value (\<lambda>r. visit (ephemeron_key key, r)) value) (flatten (tb_hash t)) s)"

definition visit_live_weak_string_keys :: "'h lua_table \<Rightarrow> (object_ref, 's) visitor \<Rightarrow> 's \<Rightarrow>
    (vm_error, unit) result \<times> 's" where
  "visit_live_weak_string_keys t visit s =
     (if tb_weak_mode t \<noteq> All then (Inr (), s)
      else visit_each (\<lambda>(key, value) s.
             if value \<noteq> V_Nil \<and> key_class_of key = Class_ByteString then visit_option visit (source_object key) s
             else (Inr (), s)) (flatten (tb_hash t)) s)"

subsection \<open>Clearing weak entries\<close>

fun drop_keys :: "'h key_kind list \<Rightarrow> 'h string_world \<Rightarrow> 'h string_world" where
  "drop_keys [] sw = sw"
| "drop_keys (k # ks) sw = drop_keys ks (drop_key k sw)"

fun dead_object :: "(object_ref \<Rightarrow> (vm_error, bool) result) \<Rightarrow> lua_value \<Rightarrow> (vm_error, bool) result" where
  "dead_object is_dead (V_Object r) = is_dead r"
| "dead_object is_dead _ = Inr False"

text \<open>
  The array part: the entries up to an error are cleared already. The last component counts the
  cleared entries; each bumps the version once.
\<close>

fun clear_array :: "(object_ref \<Rightarrow> (vm_error, bool) result) \<Rightarrow> lua_value option list \<Rightarrow>
    (vm_error, unit) result \<times> lua_value option list \<times> nat" where
  "clear_array is_dead [] = (Inr (), [], 0)"
| "clear_array is_dead (v # vs) =
     (case (case v of None \<Rightarrow> Inr False | Some v \<Rightarrow> dead_object is_dead v) of
        Inl e \<Rightarrow> (Inl e, v # vs, 0)
      | Inr b \<Rightarrow> (let (r, vs, n) = clear_array is_dead vs
                  in (r, (if b then None else v) # vs, if b then Suc n else n)))"

definition clear_pair :: "table_env \<Rightarrow> 'h ledger \<Rightarrow> weak_mode \<Rightarrow> (object_ref \<Rightarrow> (vm_error, bool) result) \<Rightarrow>
    (object_ref \<Rightarrow> (vm_error, bool) result) \<Rightarrow> bool \<Rightarrow> bool \<Rightarrow> 'h key_kind \<Rightarrow> lua_value \<Rightarrow> 'h string_world \<Rightarrow>
    (vm_error, bool) result \<times> 'h bucket \<times> 'h string_world" where
  "clear_pair env l mode is_dead is_live_key clear_values clear_keys key value sw =
     (case (if clear_keys \<and> (mode = Keys \<or> mode = All)
            then (case ephemeron_key key of None \<Rightarrow> Inr False | Some source \<Rightarrow> is_dead source) else Inr False) of
        Inl e \<Rightarrow> (Inl e, Some (key, value), sw)
      | Inr dead_key \<Rightarrow>
          (case (if clear_values \<and> (mode = Values \<or> mode = All) then dead_object is_dead value else Inr False) of
             Inl e \<Rightarrow> (Inl e, Some (key, value), sw)
           | Inr dead_value \<Rightarrow>
               if \<not> dead_key \<and> \<not> dead_value then (Inr False, Some (key, value), sw)
               else
                 (case (if \<not> dead_key \<and> dead_value \<and> mode = All
                        then (case source_object key of None \<Rightarrow> Inr False
                              | Some source \<Rightarrow> rbind (is_live_key source) (\<lambda>live. Inr (\<not> live)))
                        else Inr False) of
                    Inl e \<Rightarrow> (Inl e, Some (key, value), sw)
                  | Inr key_is_dead \<Rightarrow>
                      if dead_key \<or> key_is_dead then (Inr True, None, drop_key key sw)
                      else (case make_dead env l key sw of
                              (Inl e, sw) \<Rightarrow> (Inl e, Some (key, value), sw)
                            | (Inr key, sw) \<Rightarrow> (Inr True, Some (key, V_Nil), sw)))))"

text \<open>
  The hash part. The counts are those of the cleared pairs and of the version bumps: an entry that was
  removed before goes without being counted as cleared.
\<close>

fun clear_hash :: "table_env \<Rightarrow> 'h ledger \<Rightarrow> weak_mode \<Rightarrow> (object_ref \<Rightarrow> (vm_error, bool) result) \<Rightarrow>
    (object_ref \<Rightarrow> (vm_error, bool) result) \<Rightarrow> bool \<Rightarrow> bool \<Rightarrow> 'h bucket list \<Rightarrow> 'h string_world \<Rightarrow>
    (vm_error, unit) result \<times> 'h bucket list \<times> nat \<times> nat \<times> 'h string_world" where
  "clear_hash env l mode is_dead is_live_key cv ck [] sw = (Inr (), [], 0, 0, sw)"
| "clear_hash env l mode is_dead is_live_key cv ck (None # es) sw =
     (let (r, es, n, m, sw) = clear_hash env l mode is_dead is_live_key cv ck es sw in (r, None # es, n, m, sw))"
| "clear_hash env l mode is_dead is_live_key cv ck (Some (key, value) # es) sw =
     (if cv \<and> value = V_Nil then
        (let (r, es, n, m, sw) = clear_hash env l mode is_dead is_live_key cv ck es (drop_key key sw)
         in (r, None # es, n, Suc m, sw))
      else
        (case clear_pair env l mode is_dead is_live_key cv ck key value sw of
           (Inl e, b, sw) \<Rightarrow> (Inl e, b # es, 0, 0, sw)
         | (Inr c, b, sw) \<Rightarrow>
             (let (r, es, n, m, sw) = clear_hash env l mode is_dead is_live_key cv ck es sw
              in (r, b # es, if c then Suc n else n, if c then Suc m else m, sw))))"

definition free_empty_hash :: "'h lua_table \<Rightarrow> 'h string_world \<Rightarrow> 'h lua_table \<times> 'h string_world" where
  "free_empty_hash t sw =
     (let (p, sw) = in_world (clear_second (tb_charges t)) sw
      in (t\<lparr>tb_hash := [], tb_charges := p\<rparr>, sw))"

definition clear_dead_weak_pairs :: "table_env \<Rightarrow> 'h ledger \<Rightarrow> (object_ref \<Rightarrow> (vm_error, bool) result) \<Rightarrow>
    (object_ref \<Rightarrow> (vm_error, bool) result) \<Rightarrow> bool \<Rightarrow> bool \<Rightarrow> 'h lua_table \<Rightarrow> 'h string_world \<Rightarrow>
    (vm_error, nat) result \<times> 'h lua_table \<times> 'h string_world" where
  "clear_dead_weak_pairs env l is_dead is_live_key clear_values clear_keys t sw =
     (if tb_weak_mode t = Strong then (Inr 0, t, sw)
      else
        (let (r, array, n) = (if clear_values \<and> (tb_weak_mode t = Values \<or> tb_weak_mode t = All)
                              then clear_array is_dead (tb_array t) else (Inr (), tb_array t, 0));
             t = t\<lparr>tb_array := array, mutation_version := (saturating_inc ^^ n) (mutation_version t)\<rparr>
         in case r of
              Inl e \<Rightarrow> (Inl e, t, sw)
            | Inr _ \<Rightarrow>
                (let (r, hash, k, m, sw) = clear_hash env l (tb_weak_mode t) is_dead is_live_key
                       clear_values clear_keys (tb_hash t) sw;
                     t = t\<lparr>tb_hash := hash, mutation_version := (saturating_inc ^^ m) (mutation_version t)\<rparr>
                 in case r of
                      Inl e \<Rightarrow> (Inl e, t, sw)
                    | Inr _ \<Rightarrow>
                        if tb_hash t \<noteq> [] \<and> list_all (\<lambda>b. b = None) (tb_hash t)
                        then (let (t, sw) = free_empty_hash t sw in (Inr (n + k), bump_mutation_version t, sw))
                        else (Inr (n + k), t, sw))))"

definition restore_existing_byte_key :: "bytes \<Rightarrow> lua_value \<Rightarrow> 'h lua_table \<Rightarrow> 'h string_world \<Rightarrow>
    (vm_error, unit) result \<times> 'h lua_table \<times> 'h string_world" where
  "restore_existing_byte_key name value t sw =
     (case find (\<lambda>index. case tb_hash t ! index of None \<Rightarrow> False
                  | Some (key, stored) \<Rightarrow> stored \<noteq> V_Nil \<and> string_bytes key = Some name) [0..<length (tb_hash t)] of
        None \<Rightarrow> (Inl LedgerInvariant, t, sw)
      | Some index \<Rightarrow>
          (let key = fst (the (tb_hash t ! index));
               (t, sw) = (if value = V_Nil then
                   (let t = t\<lparr>tb_hash := (tb_hash t)[index := None]\<rparr>; sw = drop_key key sw
                    in if list_all (\<lambda>b. b = None) (tb_hash t) then free_empty_hash t sw else (t, sw))
                 else (t\<lparr>tb_hash := (tb_hash t)[index := Some (key, value)]\<rparr>, sw))
           in (Inr (), bump_mutation_version t, sw)))"

end
