(* ===== verification/Table_Write.thy ===== *)
theory Table_Write
  imports Lua_Table
begin

text \<open>
  Writing a table (\<open>table.rs\<close>): \<open>prepare_set\<close> chooses where a value goes and reserves what it needs,
  \<open>commit_accounting\<close> turns the reservation into a charge, \<open>apply\<close> publishes the mutation. The pair
  of integer fields of the C auxiliary references is written by one such transaction. Owned values
  that Rust drops on the way are dropped here at the same points.
\<close>

subsection \<open>A single field\<close>

datatype 'h prepared_mutation =
    Noop
  | ArraySlot nat lua_value
  | HashSlot nat lua_value "'h key_kind option"
  | HashReplace nat "'h key_kind" lua_value
  | HashInsert nat "'h key_kind" lua_value
  | GrowArray "lua_value option list" "'h reservation option" "'h charge option" lua_value
  | GrowHash "'h bucket list" "'h reservation option" "'h charge option" nat "'h key_kind" lua_value

definition te_reserve :: "table_env \<Rightarrow> 'h ledger \<Rightarrow> nat \<Rightarrow> nat \<Rightarrow> fail_point \<Rightarrow> 'h string_world \<Rightarrow>
    (vm_error, 'h reservation) result \<times> 'h string_world" where
  "te_reserve env l n elem point =
     in_world (reserve_vec l n elem (ae_ok (te_alloc env) point) point (ae_site (te_alloc env) point))"

definition te_checkpoint :: "'h ledger \<Rightarrow> fail_point \<Rightarrow> 'h string_world \<Rightarrow> (vm_error, unit) result \<times> 'h string_world" where
  "te_checkpoint l point = in_world (checkpoint l point)"

text \<open>\<open>?\<close> with the values in scope dropped on the way out.\<close>

definition try_else :: "('e, 'a) result \<times> 'w \<Rightarrow> ('w \<Rightarrow> 'w) \<Rightarrow> ('a \<Rightarrow> 'w \<Rightarrow> ('e, 'b) result \<times> 'w) \<Rightarrow>
    ('e, 'b) result \<times> 'w" where
  "try_else m cleanup k = (case m of (Inl e, sw) \<Rightarrow> (Inl e, cleanup sw) | (Inr a, sw) \<Rightarrow> k a sw)"

lemma checked_mul_usize_code [code]:
  "checked_mul_usize a b = (if int a * int b \<le> 18446744073709551615 then Some (a * b) else None)"
proof -
  have "int a * int b \<le> 18446744073709551615 \<longleftrightarrow> int (a * b) \<le> int 18446744073709551615" by simp
  also have "\<dots> \<longleftrightarrow> a * b \<le> usize_max" by (simp only: of_nat_le_iff usize_max_def) simp
  finally show ?thesis by (simp add: checked_mul_usize_def)
qed

definition doubled :: "nat \<Rightarrow> nat \<Rightarrow> (vm_error, nat) result" where
  "doubled least n = ok_or ArithmeticOverflow (map_option (max least) (checked_mul_usize n 2))"

definition copy_into :: "'a option list \<Rightarrow> nat \<Rightarrow> 'a option list" where
  "copy_into xs n = xs @ replicate (n - length xs) None"

definition prepare_array_growth :: "table_env \<Rightarrow> 'h ledger \<Rightarrow> 'h lua_table \<Rightarrow> nat \<Rightarrow> lua_value \<Rightarrow> 'h string_world \<Rightarrow>
    (vm_error, 'h prepared_mutation) result \<times> 'h string_world" where
  "prepare_array_growth env l t index value sw =
     (let old_capacity = length (tb_array t)
      in try_else (doubled 4 old_capacity, sw) id (\<lambda>new_capacity sw.
         try_else (checked_bytes new_capacity (te_value_size env), sw) id (\<lambda>_ sw.
         try_else (checked_bytes old_capacity (te_value_size env), sw) id (\<lambda>_ sw.
         try_else (te_reserve env l new_capacity (te_value_size env) TableArrayGrow sw) id (\<lambda>ticket sw.
         try_else (te_checkpoint l TableInsert sw) (on_world (drop_reservation ticket)) (\<lambda>_ sw.
         (Inr (GrowArray ((copy_into (tb_array t) new_capacity)[index := Some value]) (Some ticket) None value), sw)))))))"

definition prepare_hash_insert :: "table_env \<Rightarrow> 'h ledger \<Rightarrow> 'h lua_table \<Rightarrow> 'h key_kind \<Rightarrow> lua_value \<Rightarrow> 'h string_world \<Rightarrow>
    (vm_error, 'h prepared_mutation) result \<times> 'h string_world" where
  "prepare_hash_insert env l t key value sw =
     (let n = live_hash_count t; filled = length (flatten (tb_hash t)); capacity = length (tb_hash t)
      in try_else (ok_or ArithmeticOverflow (checked_add_usize n 1), sw) (drop_key key) (\<lambda>needed sw.
         if capacity = 0 \<or> capacity \<le> filled \<or> capacity - capacity div 4 < needed then
           try_else (doubled 1 capacity, sw) (drop_key key) (\<lambda>new_capacity sw.
           if new_capacity < needed then (Inl LedgerInvariant, drop_key key sw)
           else
             try_else (checked_bytes new_capacity (te_bucket_size env), sw) (drop_key key) (\<lambda>_ sw.
             try_else (checked_bytes capacity (te_bucket_size env), sw) (drop_key key) (\<lambda>_ sw.
             try_else (te_reserve env l new_capacity (te_bucket_size env) TableHashGrow sw) (drop_key key) (\<lambda>ticket sw.
             try_else (te_checkpoint l TableRehash sw) (\<lambda>sw. drop_key key (on_world (drop_reservation ticket) sw)) (\<lambda>_ sw.
             try_else (te_checkpoint l TableInsert sw) (\<lambda>sw. drop_key key (on_world (drop_reservation ticket) sw)) (\<lambda>_ sw.
             (Inr (GrowHash (replicate new_capacity None) (Some ticket) None n key value), sw)))))))
         else
           try_else (te_checkpoint l TableInsert sw) (drop_key key) (\<lambda>_ sw.
           try_else (empty_bucket env t (tb_hash t) key, sw) (drop_key key) (\<lambda>index sw.
           (Inr (HashInsert index key value), sw)))))"

definition prepare_new_field :: "table_env \<Rightarrow> 'h ledger \<Rightarrow> 'h lua_table \<Rightarrow> 'h key_kind \<Rightarrow> lua_value \<Rightarrow> 'h string_world \<Rightarrow>
    (vm_error, 'h prepared_mutation) result \<times> 'h string_world" where
  "prepare_new_field env l t key value sw =
     (case array_index key of
        None \<Rightarrow> prepare_hash_insert env l t key value sw
      | Some index \<Rightarrow>
          if index < length (tb_array t) then
            try_else (te_checkpoint l TableInsert sw) (drop_key key) (\<lambda>_ sw.
            (Inr (ArraySlot index value), drop_key key sw))
          else if index = length (tb_array t) then
            (let (r, sw) = prepare_array_growth env l t index value sw in (r, drop_key key sw))
          else prepare_hash_insert env l t key value sw)"

definition prepare_set :: "table_env \<Rightarrow> 'h ledger \<Rightarrow> 'h lua_table \<Rightarrow> 'h key_kind \<Rightarrow> lua_value \<Rightarrow> 'h string_world \<Rightarrow>
    (vm_error, 'h prepared_mutation) result \<times> 'h string_world" where
  "prepare_set env l t key value sw =
     (if array_value t key \<noteq> None then (Inr (ArraySlot (the (array_index key)) value), drop_key key sw)
      else
        (case find_hash env t key of
           Some index \<Rightarrow>
             if value = V_Nil then
               try_else (make_dead env l key sw) (drop_key key) (\<lambda>key sw. (Inr (HashSlot index value (Some key)), sw))
             else (Inr (HashSlot index value None), drop_key key sw)
         | None \<Rightarrow>
             if value = V_Nil then (Inr Noop, drop_key key sw)
             else
               (case find_any_hash env t key of
                  Some index \<Rightarrow>
                    try_else (ok_or ArithmeticOverflow (checked_add_usize (live_hash_count t) 1), sw) (drop_key key) (\<lambda>needed sw.
                    if needed \<le> length (tb_hash t) - length (tb_hash t) div 4 then
                      try_else (te_checkpoint l TableInsert sw) (drop_key key) (\<lambda>_ sw.
                      (Inr (HashReplace index key value), sw))
                    else prepare_new_field env l t key value sw)
                | None \<Rightarrow> prepare_new_field env l t key value sw)))"

fun value_object :: "lua_value \<Rightarrow> object_ref option" where
  "value_object (V_Object r) = Some r"
| "value_object _ = None"

fun new_edges :: "'h prepared_mutation \<Rightarrow> object_ref option \<times> object_ref option" where
  "new_edges Noop = (None, None)"
| "new_edges (ArraySlot _ value) = (None, value_object value)"
| "new_edges (HashSlot _ value _) = (None, value_object value)"
| "new_edges (GrowArray _ _ _ value) = (None, value_object value)"
| "new_edges (HashReplace _ key value) = (source_object key, value_object value)"
| "new_edges (HashInsert _ key value) = (source_object key, value_object value)"
| "new_edges (GrowHash _ _ _ _ key value) = (source_object key, value_object value)"

text \<open>Taking the ticket leaves \<open>None\<close> behind, also when the commit fails.\<close>

definition commit_growth :: "'h reservation option \<Rightarrow> 'h charge option \<Rightarrow> 'h string_world \<Rightarrow>
    (vm_error, unit) result \<times> 'h charge option \<times> 'h string_world" where
  "commit_growth ticket charge sw =
     (case ticket of
        None \<Rightarrow> (Inl LedgerInvariant, charge, sw)
      | Some ticket \<Rightarrow>
          (case in_world (commit_charge ticket) sw of
             (Inl e, sw) \<Rightarrow> (Inl e, charge, sw)
           | (Inr c, sw) \<Rightarrow> (Inr (), Some c, drop_charge_option charge sw)))"

fun commit_accounting :: "'h prepared_mutation \<Rightarrow> 'h string_world \<Rightarrow>
    (vm_error, unit) result \<times> 'h prepared_mutation \<times> 'h string_world" where
  "commit_accounting (GrowArray next ticket charge value) sw =
     (let (r, charge, sw) = commit_growth ticket charge sw in (r, GrowArray next None charge value, sw))"
| "commit_accounting (GrowHash next ticket charge n key value) sw =
     (let (r, charge, sw) = commit_growth ticket charge sw in (r, GrowHash next None charge n key value, sw))"
| "commit_accounting m sw = (Inr (), m, sw)"

definition drop_ticket_option :: "'h reservation option \<Rightarrow> 'h string_world \<Rightarrow> 'h string_world" where
  "drop_ticket_option r sw = (case r of None \<Rightarrow> sw | Some r \<Rightarrow> on_world (drop_reservation r) sw)"

fun drop_mutation :: "'h prepared_mutation \<Rightarrow> 'h string_world \<Rightarrow> 'h string_world" where
  "drop_mutation (HashSlot _ _ (Some key)) sw = drop_key key sw"
| "drop_mutation (HashReplace _ key _) sw = drop_key key sw"
| "drop_mutation (HashInsert _ key _) sw = drop_key key sw"
| "drop_mutation (GrowArray _ ticket charge _) sw = drop_charge_option charge (drop_ticket_option ticket sw)"
| "drop_mutation (GrowHash _ ticket charge _ key _) sw =
     drop_key key (drop_charge_option charge (drop_ticket_option ticket sw))"
| "drop_mutation _ sw = sw"

definition drop_bucket :: "'h bucket \<Rightarrow> 'h string_world \<Rightarrow> 'h string_world" where
  "drop_bucket b sw = (case b of None \<Rightarrow> sw | Some (key, _) \<Rightarrow> drop_key key sw)"

definition dead_keys :: "'h bucket list \<Rightarrow> 'h key_kind list" where
  "dead_keys buckets = map fst (filter (\<lambda>(_, value). value = V_Nil) (flatten buckets))"

definition place_from :: "nat \<Rightarrow> 'a list \<Rightarrow> 'a option list \<Rightarrow> 'a option list" where
  "place_from start xs next = foldl (\<lambda>next (i, x). next[i := Some x]) next (enumerate start xs)"

definition install_charge :: "('h paired_charges \<Rightarrow> 'h charge \<Rightarrow> 'h world \<Rightarrow> 'h paired_charges \<times> 'h world) \<Rightarrow>
    'h charge option \<Rightarrow> 'h lua_table \<Rightarrow> 'h string_world \<Rightarrow> 'h lua_table \<times> 'h string_world" where
  "install_charge replace charge t sw =
     (case charge of
        None \<Rightarrow> (t, sw)
      | Some c \<Rightarrow> (let (p, sw) = in_world (replace (tb_charges t) c) sw in (t\<lparr>tb_charges := p\<rparr>, sw)))"

fun apply_fields :: "'h prepared_mutation \<Rightarrow> 'h lua_table \<Rightarrow> 'h string_world \<Rightarrow> 'h lua_table \<times> 'h string_world" where
  "apply_fields Noop t sw = (t, sw)"
| "apply_fields (ArraySlot index value) t sw =
     (t\<lparr>tb_array := (tb_array t)[index := if value \<noteq> V_Nil then Some value else None]\<rparr>, sw)"
| "apply_fields (HashSlot index value dead_key) t sw =
     (if value = V_Nil then
        (t\<lparr>tb_hash := (tb_hash t)[index := map_option (\<lambda>key. (key, V_Nil)) dead_key]\<rparr>,
         drop_bucket (tb_hash t ! index) sw)
      else (t\<lparr>tb_hash := (tb_hash t)[index := map_option (\<lambda>(key, _). (key, value)) (tb_hash t ! index)]\<rparr>,
            case dead_key of None \<Rightarrow> sw | Some key \<Rightarrow> drop_key key sw))"
| "apply_fields (HashReplace index key value) t sw =
     (t\<lparr>tb_hash := (tb_hash t)[index := Some (key, value)]\<rparr>, drop_bucket (tb_hash t ! index) sw)"
| "apply_fields (HashInsert index key value) t sw =
     (t\<lparr>tb_hash := (tb_hash t)[index := Some (key, value)]\<rparr>, drop_bucket (tb_hash t ! index) sw)"
| "apply_fields (GrowArray next ticket charge value) t sw =
     (let (t, sw) = install_charge replace_first charge (t\<lparr>tb_array := next\<rparr>) sw
      in (t, drop_ticket_option ticket sw))"
| "apply_fields (GrowHash next ticket charge existing_count key value) t sw =
     (let sw = drop_keys (dead_keys (tb_hash t)) sw;
          next = (place_from 0 (live_entries (tb_hash t)) next)[existing_count := Some (key, value)];
          (t, sw) = install_charge replace_second charge (t\<lparr>tb_hash := next\<rparr>) sw
      in (t, drop_ticket_option ticket sw))"

definition apply_mutation :: "'h prepared_mutation \<Rightarrow> 'h lua_table \<Rightarrow> 'h string_world \<Rightarrow> 'h lua_table \<times> 'h string_world" where
  "apply_mutation m t sw =
     (let (t, sw) = apply_fields m t sw in (case m of Noop \<Rightarrow> t | _ \<Rightarrow> bump_mutation_version t, sw))"

subsection \<open>Two integer fields at once\<close>

datatype ref_pair_slot = Slot_Array nat | Slot_HashExisting nat | Slot_HashNew nat

record ref_pair_entry =
  rp_key :: i64
  rp_value :: lua_value
  rp_slot :: ref_pair_slot

record ('h, 'a) ref_pair_growth =
  rg_next :: "'a option list"
  rg_ticket :: "'h reservation option"
  rg_charge :: "'h charge option"
  rg_old_bytes :: nat
  rg_new_bytes :: nat

record 'h prepared_ref_pair =
  rp_entries :: "ref_pair_entry option list"
  rp_array_growth :: "('h, lua_value) ref_pair_growth option"
  rp_hash_growth :: "('h, 'h key_kind \<times> lua_value) ref_pair_growth option"

definition ref_values :: "i64 \<times> lua_value \<Rightarrow> i64 \<times> lua_value \<Rightarrow> (i64 \<times> lua_value) option list" where
  "ref_values first second = (if fst first = fst second then [None, Some second] else [Some first, Some second])"

definition ref_boundary :: "table_env \<Rightarrow> 'h lua_table \<Rightarrow> (i64 \<times> lua_value) option list \<Rightarrow> nat \<Rightarrow> bool" where
  "ref_boundary env t values array_len \<longleftrightarrow>
     list_ex (\<lambda>(key, _). array_index (Key_Integer key :: 'h key_kind) = Some array_len
                \<and> find_hash env t (Key_Integer key) = None) (flatten values)"

text \<open>At most two rounds: two writes can pass the end of the array twice.\<close>

fun ref_array_len :: "table_env \<Rightarrow> 'h lua_table \<Rightarrow> (i64 \<times> lua_value) option list \<Rightarrow> nat \<Rightarrow> nat \<Rightarrow> (vm_error, nat) result" where
  "ref_array_len env t values 0 array_len = Inr array_len"
| "ref_array_len env t values (Suc k) array_len =
     (if ref_boundary env t values array_len
      then rbind (doubled 4 array_len) (ref_array_len env t values k)
      else Inr array_len)"

definition bucket_dead :: "'h lua_table \<Rightarrow> nat \<Rightarrow> bool" where
  "bucket_dead t index \<longleftrightarrow> (case tb_hash t ! index of None \<Rightarrow> False | Some (_, value) \<Rightarrow> value = V_Nil)"

definition ref_slot :: "'h ledger \<Rightarrow> table_env \<Rightarrow> 'h lua_table \<Rightarrow> nat \<Rightarrow> i64 \<Rightarrow> nat \<Rightarrow> 'h string_world \<Rightarrow>
    (vm_error, ref_pair_slot \<times> nat) result \<times> 'h string_world" where
  "ref_slot l env t array_len key inserts sw =
     (let canonical = Key_Integer key;
          insert_new = (\<lambda>slot sw. try_else (te_checkpoint l TableInsert sw) id (\<lambda>_ sw.
             try_else (ok_or ArithmeticOverflow (checked_add_usize inserts 1), sw) id (\<lambda>inserts sw. (Inr (slot, inserts), sw))))
      in if array_value t canonical \<noteq> None then (Inr (Slot_Array (the (array_index canonical)), inserts), sw)
         else case find_any_hash env t canonical of
             Some index \<Rightarrow> if bucket_dead t index then insert_new (Slot_HashExisting index) sw
                           else (Inr (Slot_HashExisting index, inserts), sw)
           | None \<Rightarrow>
               (case array_index canonical of
                  Some index \<Rightarrow>
                    if index < array_len
                    then try_else (te_checkpoint l TableInsert sw) id (\<lambda>_ sw. (Inr (Slot_Array index, inserts), sw))
                    else insert_new (Slot_HashNew 0) sw
                | None \<Rightarrow> insert_new (Slot_HashNew 0) sw))"

fun ref_slots :: "'h ledger \<Rightarrow> table_env \<Rightarrow> 'h lua_table \<Rightarrow> nat \<Rightarrow> (i64 \<times> lua_value) option list \<Rightarrow> nat \<Rightarrow> 'h string_world \<Rightarrow>
    (vm_error, ref_pair_slot option list \<times> nat) result \<times> 'h string_world" where
  "ref_slots l env t array_len [] inserts sw = (Inr ([], inserts), sw)"
| "ref_slots l env t array_len (None # vs) inserts sw =
     try_else (ref_slots l env t array_len vs inserts sw) id (\<lambda>(slots, inserts) sw. (Inr (None # slots, inserts), sw))"
| "ref_slots l env t array_len (Some (key, _) # vs) inserts sw =
     try_else (ref_slot l env t array_len key inserts sw) id (\<lambda>(slot, inserts) sw.
     try_else (ref_slots l env t array_len vs inserts sw) id (\<lambda>(slots, inserts) sw. (Inr (Some slot # slots, inserts), sw)))"

definition ref_array_growth :: "table_env \<Rightarrow> 'h ledger \<Rightarrow> 'h lua_table \<Rightarrow> nat \<Rightarrow> 'h string_world \<Rightarrow>
    (vm_error, ('h, lua_value) ref_pair_growth option) result \<times> 'h string_world" where
  "ref_array_growth env l t array_len sw =
     (if length (tb_array t) < array_len then
        try_else (checked_bytes (length (tb_array t)) (te_value_size env), sw) id (\<lambda>old_bytes sw.
        try_else (checked_bytes array_len (te_value_size env), sw) id (\<lambda>new_bytes sw.
        try_else (te_reserve env l array_len (te_value_size env) TableArrayGrow sw) id (\<lambda>ticket sw.
        (Inr (Some \<lparr>rg_next = copy_into (tb_array t) array_len, rg_ticket = Some ticket, rg_charge = None,
                    rg_old_bytes = old_bytes, rg_new_bytes = new_bytes\<rparr>), sw))))
      else (Inr None, sw))"

lemma doubled_grows:
  assumes "doubled 1 n = Inr m"
  shows "n < m" and "m \<le> usize_max"
  using assms by (auto simp: doubled_def ok_or_Inr_iff max_def usize_max_def)

lemma doubled_measure: "doubled (Suc 0) n = Inr m \<Longrightarrow> usize_max - m < usize_max - n"
  using doubled_grows [of n m] by simp

function ref_hash_len :: "nat \<Rightarrow> nat \<Rightarrow> nat \<Rightarrow> nat \<Rightarrow> (vm_error, nat) result" where
  "ref_hash_len required filled inserts hash_len =
     rbind (if hash_len - hash_len div 4 < required then Inr True
            else rbind (ok_or ArithmeticOverflow (checked_add_usize filled inserts)) (\<lambda>n. Inr (hash_len < n)))
       (\<lambda>more. if more then rbind (doubled 1 hash_len) (ref_hash_len required filled inserts) else Inr hash_len)"
  by pat_completeness auto
termination
  by (relation "measure (\<lambda>(_, _, _, n). usize_max - n)") (auto dest: doubled_measure)

declare ref_hash_len.simps [simp del]

definition ref_hash_growth :: "table_env \<Rightarrow> 'h ledger \<Rightarrow> 'h lua_table \<Rightarrow> nat \<Rightarrow> 'h string_world \<Rightarrow>
    (vm_error, ('h, 'h key_kind \<times> lua_value) ref_pair_growth option) result \<times> 'h string_world" where
  "ref_hash_growth env l t hash_len sw =
     (if length (tb_hash t) < hash_len then
        try_else (checked_bytes (length (tb_hash t)) (te_bucket_size env), sw) id (\<lambda>old_bytes sw.
        try_else (checked_bytes hash_len (te_bucket_size env), sw) id (\<lambda>new_bytes sw.
        try_else (te_reserve env l hash_len (te_bucket_size env) TableHashGrow sw) id (\<lambda>ticket sw.
        try_else (te_checkpoint l TableRehash sw) (on_world (drop_reservation ticket)) (\<lambda>_ sw.
        (Inr (Some \<lparr>rg_next = replicate hash_len None, rg_ticket = Some ticket, rg_charge = None,
                    rg_old_bytes = old_bytes, rg_new_bytes = new_bytes\<rparr>), sw)))))
      else (Inr None, sw))"

text \<open>
  The final bucket of each field. When the hash part grows, the live entries move to the front in
  order, so an existing entry is found by counting those before it and the new ones follow.
\<close>

fun ref_place :: "table_env \<Rightarrow> 'h lua_table \<Rightarrow> bool \<Rightarrow> nat \<Rightarrow> nat list \<Rightarrow> (i64 \<times> lua_value) option list \<Rightarrow>
    ref_pair_slot option list \<Rightarrow> (vm_error, ref_pair_slot option list) result" where
  "ref_place env t grows next_slot claimed (v # vs) (Some (Slot_HashExisting index) # ss) =
     (if grows then
        if bucket_dead t index
        then rbind (ref_place env t grows (Suc next_slot) claimed vs ss) (\<lambda>ss. Inr (Some (Slot_HashNew next_slot) # ss))
        else rbind (ref_place env t grows next_slot claimed vs ss)
               (\<lambda>ss. Inr (Some (Slot_HashExisting (length (live_entries (take index (tb_hash t))))) # ss))
      else rbind (ref_place env t grows next_slot claimed vs ss) (\<lambda>ss. Inr (Some (Slot_HashExisting index) # ss)))"
| "ref_place env t grows next_slot claimed (v # vs) (Some (Slot_HashNew index) # ss) =
     (if grows
      then rbind (ref_place env t grows (Suc next_slot) claimed vs ss) (\<lambda>ss. Inr (Some (Slot_HashNew next_slot) # ss))
      else case v of
          None \<Rightarrow> Inl LedgerInvariant
        | Some (key, _) \<Rightarrow>
            (case find (\<lambda>i. tb_hash t ! i = None \<and> i \<notin> set claimed)
                    (probes (bucket env t (Key_Integer key) (length (tb_hash t))) (length (tb_hash t))) of
               None \<Rightarrow> Inl LedgerInvariant
             | Some free \<Rightarrow> rbind (ref_place env t grows next_slot (free # claimed) vs ss)
                 (\<lambda>ss. Inr (Some (Slot_HashNew free) # ss))))"
| "ref_place env t grows next_slot claimed (v # vs) (s # ss) =
     rbind (ref_place env t grows next_slot claimed vs ss) (\<lambda>ss. Inr (s # ss))"
| "ref_place env t grows next_slot claimed _ _ = Inr []"

fun ref_entry :: "(i64 \<times> lua_value) option \<Rightarrow> ref_pair_slot option \<Rightarrow> ref_pair_entry option" where
  "ref_entry (Some (key, value)) (Some slot) = Some \<lparr>rp_key = key, rp_value = value, rp_slot = slot\<rparr>"
| "ref_entry _ _ = None"

definition drop_growth :: "('h, 'a) ref_pair_growth option \<Rightarrow> 'h string_world \<Rightarrow> 'h string_world" where
  "drop_growth g sw = (case g of None \<Rightarrow> sw
     | Some g \<Rightarrow> drop_charge_option (rg_charge g) (drop_ticket_option (rg_ticket g) sw))"

definition prepare_ref_pair :: "table_env \<Rightarrow> 'h ledger \<Rightarrow> 'h lua_table \<Rightarrow> i64 \<times> lua_value \<Rightarrow> i64 \<times> lua_value \<Rightarrow>
    'h string_world \<Rightarrow> (vm_error, 'h prepared_ref_pair) result \<times> 'h string_world" where
  "prepare_ref_pair env l t first second sw =
     (let values = ref_values first second
      in if list_ex (\<lambda>(_, value). value = V_Nil) (flatten values) then (Inl LedgerInvariant, sw)
         else
           try_else (ref_array_len env t values 2 (length (tb_array t)), sw) id (\<lambda>array_len sw.
           try_else (ref_slots l env t array_len values 0 sw) id (\<lambda>(slots, hash_inserts) sw.
           try_else (ref_array_growth env l t array_len sw) id (\<lambda>array_growth sw.
           try_else (ok_or ArithmeticOverflow (checked_add_usize (live_hash_count t) hash_inserts), sw)
             (drop_growth array_growth) (\<lambda>required sw.
           try_else (ref_hash_len required (length (flatten (tb_hash t))) hash_inserts (length (tb_hash t)), sw)
             (drop_growth array_growth) (\<lambda>hash_len sw.
           try_else (ref_hash_growth env l t hash_len sw) (drop_growth array_growth) (\<lambda>hash_growth sw.
           try_else (ref_place env t (hash_growth \<noteq> None) (live_hash_count t) [] values slots, sw)
             (\<lambda>sw. drop_growth array_growth (drop_growth hash_growth sw)) (\<lambda>slots sw.
           (Inr \<lparr>rp_entries = map2 ref_entry values slots, rp_array_growth = array_growth,
                 rp_hash_growth = hash_growth\<rparr>, sw)))))))))"

definition value_edges :: "'h prepared_ref_pair \<Rightarrow> object_ref option list" where
  "value_edges p = map (\<lambda>e. case e of None \<Rightarrow> None | Some e \<Rightarrow> value_object (rp_value e)) (rp_entries p)"

definition commit_ref_growth :: "('h, 'a) ref_pair_growth option \<Rightarrow> 'h string_world \<Rightarrow>
    (vm_error, unit) result \<times> ('h, 'a) ref_pair_growth option \<times> 'h string_world" where
  "commit_ref_growth g sw =
     (case g of
        None \<Rightarrow> (Inr (), None, sw)
      | Some g \<Rightarrow> (let (r, charge, sw) = commit_growth (rg_ticket g) (rg_charge g) sw
                   in (r, Some (g\<lparr>rg_ticket := None, rg_charge := charge\<rparr>), sw)))"

definition growth_bytes :: "(('h, 'a) ref_pair_growth \<Rightarrow> nat) \<Rightarrow> ('h, 'a) ref_pair_growth option \<Rightarrow> nat" where
  "growth_bytes f g = (case g of None \<Rightarrow> 0 | Some g \<Rightarrow> f g)"

definition commit_ref_accounting :: "'h prepared_ref_pair \<Rightarrow> 'h string_world \<Rightarrow>
    (vm_error, unit) result \<times> 'h prepared_ref_pair \<times> 'h string_world" where
  "commit_ref_accounting p sw =
     (if checked_add_usize (growth_bytes rg_new_bytes (rp_array_growth p)) (growth_bytes rg_new_bytes (rp_hash_growth p)) = None
       \<or> checked_add_usize (growth_bytes rg_old_bytes (rp_array_growth p)) (growth_bytes rg_old_bytes (rp_hash_growth p)) = None
      then (Inl ArithmeticOverflow, p, sw)
      else
        (case commit_ref_growth (rp_array_growth p) sw of
           (Inl e, g, sw) \<Rightarrow> (Inl e, p\<lparr>rp_array_growth := g\<rparr>, sw)
         | (Inr _, g, sw) \<Rightarrow>
             (let p = p\<lparr>rp_array_growth := g\<rparr>; (r, g, sw) = commit_ref_growth (rp_hash_growth p) sw
              in (r, p\<lparr>rp_hash_growth := g\<rparr>, sw))))"

definition drop_ref_pair :: "'h prepared_ref_pair \<Rightarrow> 'h string_world \<Rightarrow> 'h string_world" where
  "drop_ref_pair p sw = drop_growth (rp_hash_growth p) (drop_growth (rp_array_growth p) sw)"

definition apply_ref_entry :: "ref_pair_entry \<Rightarrow> 'h lua_table \<Rightarrow> 'h string_world \<Rightarrow> 'h lua_table \<times> 'h string_world" where
  "apply_ref_entry e t sw =
     (case rp_slot e of
        Slot_Array index \<Rightarrow> (t\<lparr>tb_array := (tb_array t)[index := Some (rp_value e)]\<rparr>, sw)
      | Slot_HashExisting index \<Rightarrow>
          (t\<lparr>tb_hash := (tb_hash t)[index := map_option (\<lambda>(key, _). (key, rp_value e)) (tb_hash t ! index)]\<rparr>, sw)
      | Slot_HashNew index \<Rightarrow>
          (t\<lparr>tb_hash := (tb_hash t)[index := Some (Key_Integer (rp_key e), rp_value e)]\<rparr>,
           drop_bucket (tb_hash t ! index) sw))"

fun apply_ref_entries :: "ref_pair_entry list \<Rightarrow> 'h lua_table \<Rightarrow> 'h string_world \<Rightarrow> 'h lua_table \<times> 'h string_world" where
  "apply_ref_entries [] t sw = (t, sw)"
| "apply_ref_entries (e # es) t sw = (let (t, sw) = apply_ref_entry e t sw in apply_ref_entries es t sw)"

definition apply_ref_pair :: "'h prepared_ref_pair \<Rightarrow> 'h lua_table \<Rightarrow> 'h string_world \<Rightarrow> 'h lua_table \<times> 'h string_world" where
  "apply_ref_pair p t sw =
     (let (t, sw) = (case rp_array_growth p of
            None \<Rightarrow> (t, sw)
          | Some g \<Rightarrow> install_charge replace_first (rg_charge g) (t\<lparr>tb_array := rg_next g\<rparr>) (drop_ticket_option (rg_ticket g) sw));
          (t, sw) = (case rp_hash_growth p of
            None \<Rightarrow> (t, sw)
          | Some g \<Rightarrow> install_charge replace_second (rg_charge g)
              (t\<lparr>tb_hash := place_from 0 (live_entries (tb_hash t)) (rg_next g)\<rparr>)
              (drop_keys (dead_keys (tb_hash t)) (drop_ticket_option (rg_ticket g) sw)));
          (t, sw) = apply_ref_entries (flatten (rp_entries p)) t sw
      in (bump_mutation_version t, sw))"

end
