(* ===== verification/Vm_Heap.thy ===== *)
theory Vm_Heap
  imports Table_Write Gc_State
begin

text \<open>
  The objects of a virtual machine and the raw table operations on them (\<open>heap.rs\<close>, the second half
  of \<open>table.rs\<close>, raw equality of \<open>vm/ops.rs\<close>). A slot holds an object under a generation; a
  reference is checked against both on every access. A table write goes through three steps: the
  mutation is prepared, the write barrier is prepared, and then both are accounted for and published.
  A payload that the table operations never look into is known by its kind only. A computation that
  would leave an array of the collector returns \<open>None\<close>.
\<close>

subsection \<open>Objects and slots\<close>

datatype object_kind =
    Kind_Value | Kind_ByteString | Kind_Table | Kind_Userdata | Kind_Closure | Kind_CClosure
  | Kind_Builtin | Kind_Coroutine | Kind_Upvalue | Kind_Module | Kind_File

datatype 'h heap_payload =
    Payload_Value lua_value
  | Payload_ByteString byte_string
  | Payload_Table "'h lua_table"
  | Payload_Userdata | Payload_Closure | Payload_CClosure | Payload_Builtin | Payload_Coroutine
  | Payload_Upvalue | Payload_Module | Payload_File

datatype gc_age = Age_Young | Age_Survivor | Age_Old

datatype finalizer_state = Fin_Unregistered | Fin_Registered | Fin_Pending | Fin_Running | Fin_Finalized

record 'h heap_object =
  ho_payload :: "'h heap_payload"
  ho_children :: "object_ref list"
  ho_charges :: "'h paired_charges"

record 'h occupied_slot =
  os_generation :: generation
  os_reference :: object_ref
  os_age :: gc_age
  os_survivals :: u8
  os_finalizer :: finalizer_state
  os_finalizer_order :: u64
  os_finalizer_remarked :: bool
  os_object :: "'h heap_object"
  os_object_charge :: "'h charge"

datatype 'h heap_slot = Occupied "'h occupied_slot" | Free generation | Retired

record 'h vm_heap =
  vh_id :: vm_id
  vh_ledger :: "'h ledger"
  vh_gc :: "'h gc_state"
  vh_slots :: "'h heap_slot list"

definition checked_slot :: "'h vm_heap \<Rightarrow> object_ref \<Rightarrow> (vm_error, 'h occupied_slot) result" where
  "checked_slot vm r =
     rbind (ok_or StaleObject (identity r)) (\<lambda>oid.
     if oi_vm oid \<noteq> vh_id vm then Inl WrongVm
     else case get_at (vh_slots vm) (oi_slot oid) of
         Some (Occupied s) \<Rightarrow>
           if os_generation s = oi_generation oid \<and> os_reference s = r then Inr s else Inl StaleObject
       | _ \<Rightarrow> Inl StaleObject)"

fun payload_kind :: "'h heap_payload \<Rightarrow> object_kind" where
  "payload_kind (Payload_Value _) = Kind_Value"
| "payload_kind (Payload_ByteString _) = Kind_ByteString"
| "payload_kind (Payload_Table _) = Kind_Table"
| "payload_kind Payload_Userdata = Kind_Userdata"
| "payload_kind Payload_Closure = Kind_Closure"
| "payload_kind Payload_CClosure = Kind_CClosure"
| "payload_kind Payload_Builtin = Kind_Builtin"
| "payload_kind Payload_Coroutine = Kind_Coroutine"
| "payload_kind Payload_Upvalue = Kind_Upvalue"
| "payload_kind Payload_Module = Kind_Module"
| "payload_kind Payload_File = Kind_File"

definition object_kind :: "'h vm_heap \<Rightarrow> object_ref \<Rightarrow> (vm_error, object_kind) result" where
  "object_kind vm r = rbind (checked_slot vm r) (\<lambda>s. Inr (payload_kind (ho_payload (os_object s))))"

definition with_byte_string :: "'h vm_heap \<Rightarrow> object_ref \<Rightarrow> (byte_string \<Rightarrow> 'a) \<Rightarrow> (vm_error, 'a) result" where
  "with_byte_string vm r f = rbind (checked_slot vm r) (\<lambda>s.
     case ho_payload (os_object s) of Payload_ByteString b \<Rightarrow> Inr (f b) | _ \<Rightarrow> Inl WrongObjectType)"

definition with_table :: "'h vm_heap \<Rightarrow> object_ref \<Rightarrow> ('h lua_table \<Rightarrow> 'a) \<Rightarrow> (vm_error, 'a) result" where
  "with_table vm r f = rbind (checked_slot vm r) (\<lambda>s.
     case ho_payload (os_object s) of Payload_Table t \<Rightarrow> Inr (f t) | _ \<Rightarrow> Inl WrongObjectType)"

definition put_table :: "object_ref \<Rightarrow> 'h lua_table \<Rightarrow> 'h vm_heap \<Rightarrow> 'h vm_heap" where
  "put_table r t vm = (case identity r of
     None \<Rightarrow> vm
   | Some oid \<Rightarrow> (case get_at (vh_slots vm) (oi_slot oid) of
       Some (Occupied s) \<Rightarrow> vm\<lparr>vh_slots := (vh_slots vm)[oi_slot oid :=
           Occupied (s\<lparr>os_object := (os_object s)\<lparr>ho_payload := Payload_Table t\<rparr>\<rparr>)]\<rparr>
     | _ \<Rightarrow> vm))"

definition gc_age_of :: "'h vm_heap \<Rightarrow> object_ref \<Rightarrow> (vm_error, gc_age) result" where
  "gc_age_of vm r = rbind (checked_slot vm r) (\<lambda>s. Inr (os_age s))"

subsection \<open>Raw equality and traversal\<close>

datatype unary_operation = Un_Negate | Un_Not | Un_Length | Un_BitNot

datatype binary_operation =
    Bin_Or | Bin_And | Bin_Equal | Bin_NotEqual | Bin_Less | Bin_LessEqual | Bin_Greater | Bin_GreaterEqual
  | Bin_Pipe | Bin_BitXor | Bin_Ampersand | Bin_ShiftLeft | Bin_ShiftRight | Bin_Concat | Bin_Add | Bin_Subtract
  | Bin_Multiply | Bin_Divide | Bin_FloorDivide | Bin_Modulo | Bin_Power

text \<open>The kinds of a runtime error that the modelled operations raise.\<close>

datatype runtime_error =
    Rt_Vm vm_error | Rt_Core core_error | Rt_InvalidNextKey | Rt_BasicArgument | Rt_StringArgument
  | Rt_Utf8Argument | Rt_Utf8Sequence | Rt_UnsupportedUnaryOperation unary_operation
  | Rt_UnsupportedBinaryOperation binary_operation

definition vm_result :: "(vm_error, 'a) result \<Rightarrow> (runtime_error, 'a) result" where
  "vm_result r = (case r of Inl e \<Rightarrow> Inl (Rt_Vm e) | Inr x \<Rightarrow> Inr x)"

fun number_if :: "lua_value \<Rightarrow> number option" where
  "number_if (V_Integer n) = Some (Num_Integer n)"
| "number_if (V_Float f) = Some (Num_Float f)"
| "number_if _ = None"

definition value_equal :: "lua_value \<Rightarrow> lua_value \<Rightarrow> bool" where
  "value_equal left right = (case (number_if left, number_if right) of
     (Some l, Some r) \<Rightarrow> equal_num l r
   | _ \<Rightarrow> left = right)"

definition raw_equal :: "'h vm_heap \<Rightarrow> lua_value \<Rightarrow> lua_value \<Rightarrow> (runtime_error, bool) result" where
  "raw_equal vm left right =
     (case (left, right) of
        (V_Object a, V_Object b) \<Rightarrow>
          rbind (vm_result (object_kind vm a)) (\<lambda>ka.
          if ka \<noteq> Kind_ByteString then Inr (value_equal left right)
          else rbind (vm_result (object_kind vm b)) (\<lambda>kb.
            if kb \<noteq> Kind_ByteString then Inr (value_equal left right)
            else vm_result (rbind (with_byte_string vm a as_bytes) (\<lambda>a.
              with_byte_string vm b (\<lambda>b. a = as_bytes b)))))
      | _ \<Rightarrow> Inr (value_equal left right))"

fun checked_identity :: "'h vm_heap \<Rightarrow> lua_value \<Rightarrow> (runtime_error, unit) result" where
  "checked_identity vm (V_Object r) = vm_result (rbind (object_kind vm r) (\<lambda>_. Inr ()))"
| "checked_identity vm (V_CFunction f) = (if hf_vm f \<noteq> vh_id vm then Inl (Rt_Vm WrongVm) else Inr ())"
| "checked_identity vm _ = Inr ()"

definition raw_equal_value :: "'h vm_heap \<Rightarrow> lua_value \<Rightarrow> lua_value \<Rightarrow> (runtime_error, bool) result" where
  "raw_equal_value vm left right =
     rbind (checked_identity vm left) (\<lambda>_.
     rbind (checked_identity vm right) (\<lambda>_. raw_equal vm left right))"

definition matches_previous :: "'h vm_heap \<Rightarrow> 'h key_kind \<Rightarrow> lua_value \<Rightarrow> (runtime_error, bool) result" where
  "matches_previous vm key previous =
     (case string_bytes key of
        Some bytes \<Rightarrow>
          (case previous of
             V_Object r \<Rightarrow>
               rbind (vm_result (object_kind vm r)) (\<lambda>k.
               if k = Kind_ByteString then vm_result (with_byte_string vm r (\<lambda>b. as_bytes b = bytes))
               else Inr False)
           | _ \<Rightarrow> Inr False)
      | None \<Rightarrow>
          (case key of
             Key_Object k \<Rightarrow>
               (case previous of V_Object r \<Rightarrow> Inr (identity r = Some (ok_id k)) | _ \<Rightarrow> Inr False)
           | _ \<Rightarrow> raw_equal_value vm (as_value key) previous))"

definition array_key :: "nat \<Rightarrow> (runtime_error, i64) result" where
  "array_key index = (if index < 2 ^ 63 - 1 then Inr (of_nat index + 1) else Inl (Rt_Vm ArithmeticOverflow))"

text \<open>The array slot of the previous key, if it is one: \<open>Some index\<close>.\<close>

fun find_array_previous :: "'h vm_heap \<Rightarrow> lua_value \<Rightarrow> nat list \<Rightarrow> (runtime_error, nat option) result" where
  "find_array_previous vm previous [] = Inr None"
| "find_array_previous vm previous (index # is) =
     rbind (array_key index) (\<lambda>number.
     rbind (raw_equal_value vm (V_Integer number) previous) (\<lambda>same.
     if same then Inr (Some index) else find_array_previous vm previous is))"

fun find_hash_previous :: "'h vm_heap \<Rightarrow> lua_value \<Rightarrow> nat \<Rightarrow> 'h bucket list \<Rightarrow> (runtime_error, nat option) result" where
  "find_hash_previous vm previous index [] = Inr None"
| "find_hash_previous vm previous index (None # es) = find_hash_previous vm previous (Suc index) es"
| "find_hash_previous vm previous index (Some (key, _) # es) =
     rbind (matches_previous vm key previous) (\<lambda>same.
     if same then Inr (Some index) else find_hash_previous vm previous (Suc index) es)"

text \<open>Where the traversal goes on: the first array slot and the first bucket to look at.\<close>

definition next_start :: "'h vm_heap \<Rightarrow> 'h lua_table \<Rightarrow> lua_value \<Rightarrow> (runtime_error, nat \<times> nat) result" where
  "next_start vm t previous =
     (if previous = V_Nil then Inr (0, 0)
      else
        rbind (find_array_previous vm previous [0..<length (tb_array t)]) (\<lambda>matched.
        case matched of
          Some index \<Rightarrow>
            if tb_array t ! index \<noteq> None then Inr (Suc index, 0)
            else rbind (find_hash_previous vm previous 0 (tb_hash t)) (\<lambda>matched_hash.
              case matched_hash of
                Some b \<Rightarrow> Inr (length (tb_array t), Suc b)
              | None \<Rightarrow> Inr (Suc index, 0))
        | None \<Rightarrow>
            rbind (find_hash_previous vm previous 0 (tb_hash t)) (\<lambda>matched_hash.
              case matched_hash of
                Some b \<Rightarrow> Inr (length (tb_array t), Suc b)
              | None \<Rightarrow> Inl Rt_InvalidNextKey)))"

fun next_array :: "nat \<Rightarrow> lua_value option list \<Rightarrow> (runtime_error, (lua_value \<times> lua_value) option) result" where
  "next_array index [] = Inr None"
| "next_array index (None # vs) = next_array (Suc index) vs"
| "next_array index (Some value # vs) = rbind (array_key index) (\<lambda>number. Inr (Some (V_Integer number, value)))"

definition next_raw :: "'h vm_heap \<Rightarrow> 'h lua_table \<Rightarrow> lua_value \<Rightarrow>
    (runtime_error, (lua_value \<times> lua_value) option) result" where
  "next_raw vm t previous =
     rbind (next_start vm t previous) (\<lambda>(array_start, hash_start).
     rbind (next_array array_start (drop array_start (tb_array t))) (\<lambda>found.
     case found of
       Some entry \<Rightarrow> Inr (Some entry)
     | None \<Rightarrow> Inr (find_map (\<lambda>(key, value). if value \<noteq> V_Nil then Some (as_value key, value) else None)
                   (flatten (drop hash_start (tb_hash t))))))"

definition raw_next_value :: "'h vm_heap \<Rightarrow> object_ref \<Rightarrow> lua_value \<Rightarrow>
    (runtime_error, (lua_value \<times> lua_value) option) result" where
  "raw_next_value vm table previous =
     rbind (case previous of V_Object r \<Rightarrow> vm_result (rbind (object_kind vm r) (\<lambda>_. Inr ())) | _ \<Rightarrow> Inr ()) (\<lambda>_.
     rbind (vm_result (with_table vm table (\<lambda>t. next_raw vm t previous))) id)"

subsection \<open>Keys from values\<close>

definition two_to_63 :: f64 where
  "two_to_63 = f64_of_int (2 ^ 63)"

definition long_string_key :: "table_env \<Rightarrow> 'h vm_heap \<Rightarrow> object_ref \<Rightarrow> byte_string \<Rightarrow> 'h string_world \<Rightarrow>
    (vm_error, 'h key_kind) result \<times> 'h string_world" where
  "long_string_key env vm source string sw =
     (let l = vh_ledger vm
      in try_else
           (case shared_table_key string sw of
              (Some shared, sw) \<Rightarrow> (Inr (shared, None), sw)
            | (None, sw) \<Rightarrow>
                try_else (in_world (string_try_from_bytes (te_alloc env) l (as_bytes string)) sw) id (\<lambda>(copy, byte_ticket) sw.
                try_else (in_world (commit_charge byte_ticket) sw) id (\<lambda>charge sw. (Inr (copy, Some charge), sw))))
           id (\<lambda>(bytes, byte_charge) sw.
         let undo = (\<lambda>sw. drop_charge_option byte_charge (drop_string bytes sw))
         in try_else (te_reserve env l 1 (te_string_key_size env) TableKeyReserve sw) undo (\<lambda>ticket sw.
            try_else
              (if te_key_excess env = 0 then (Inr None, sw)
               else try_else (checked_bytes (te_key_excess env) (te_string_key_size env), sw) id (\<lambda>excess sw.
                    try_else (in_world (reserve_lua_backing_excess l excess TableKeyReserve (ae_site (te_alloc env) TableKeyReserve)) sw) id (\<lambda>r sw.
                    try_else (in_world (commit_charge r) sw) id (\<lambda>c sw. (Inr (Some c), sw)))))
              (\<lambda>sw. undo (on_world (drop_reservation ticket) sw)) (\<lambda>extra_charge sw.
            try_else (in_world (commit_charge ticket) sw) (\<lambda>sw. undo (drop_charge_option extra_charge sw)) (\<lambda>slot_charge sw.
            (Inr (Key_ByteString \<lparr>sk_source = source, sk_bytes = bytes, sk_charge = byte_charge,
                    sk_slot_charge = slot_charge, sk_slot_extra_charge = extra_charge\<rparr>), sw))))))"

definition short_string_key :: "object_ref \<Rightarrow> bytes \<Rightarrow> 'h key_kind" where
  "short_string_key source b =
     Key_ShortString \<lparr>isk_source = source, isk_len = of_nat (length b), isk_bytes = b @ replicate (8 - length b) 0\<rparr>"

fun canonical_key :: "table_env \<Rightarrow> 'h vm_heap \<Rightarrow> lua_value \<Rightarrow> 'h string_world \<Rightarrow>
    (vm_error, 'h key_kind option) result \<times> 'h string_world" where
  "canonical_key env vm V_Nil sw = (Inr None, sw)"
| "canonical_key env vm (V_Integer n) sw = (Inr (Some (Key_Integer n)), sw)"
| "canonical_key env vm (V_Boolean b) sw = (Inr (Some (Key_Boolean b)), sw)"
| "canonical_key env vm (V_LightUserdata p) sw = (Inr (Some (Key_LightUserdata p)), sw)"
| "canonical_key env vm (V_CFunction f) sw =
     (if hf_vm f \<noteq> vh_id vm then (Inl WrongVm, sw) else (Inr (Some (Key_CFunction f)), sw))"
| "canonical_key env vm (V_Float f) sw =
     (if is_nan f then (Inr None, sw)
      else if is_finite f \<and> f64_ge f (f64_neg two_to_63) \<and> f64_lt f two_to_63 \<and> f64_eq (f64_fract f) (f64_zero False)
      then (Inr (Some (Key_Integer (f64_to_i64 f))), sw)
      else (Inr (Some (Key_Float f)), sw))"
| "canonical_key env vm (V_Object source) sw =
     (case object_kind vm source of
        Inl e \<Rightarrow> (Inl e, sw)
      | Inr Kind_ByteString \<Rightarrow>
          (case with_byte_string vm source id of
             Inl e \<Rightarrow> (Inl e, sw)
           | Inr string \<Rightarrow>
               if string_len string \<le> 8 then (Inr (Some (short_string_key source (as_bytes string))), sw)
               else try_else (long_string_key env vm source string sw) id (\<lambda>k sw. (Inr (Some k), sw)))
      | Inr _ \<Rightarrow>
          (case identity source of
             None \<Rightarrow> (Inl StaleObject, sw)
           | Some oid \<Rightarrow> (Inr (Some (Key_Object \<lparr>ok_source = source, ok_id = oid\<rparr>)), sw)))"

fun value_is_nan :: "lua_value \<Rightarrow> bool" where
  "value_is_nan (V_Float f) = is_nan f"
| "value_is_nan _ = False"

definition raw_get :: "table_env \<Rightarrow> 'h vm_heap \<Rightarrow> object_ref \<Rightarrow> lua_value \<Rightarrow> 'h string_world \<Rightarrow>
    (vm_error, lua_value) result \<times> 'h string_world" where
  "raw_get env vm table key sw =
     try_else (object_kind vm table, sw) id (\<lambda>kind sw.
     if kind \<noteq> Kind_Table then (Inl WrongObjectType, sw)
     else if key = V_Nil \<or> value_is_nan key then (Inr V_Nil, sw)
     else try_else (canonical_key env vm key sw) id (\<lambda>k sw.
       case k of
         None \<Rightarrow> (Inr V_Nil, sw)
       | Some k \<Rightarrow> (with_table vm table (\<lambda>t. table_get env t k), drop_key k sw)))"

definition raw_get_byte_key :: "table_env \<Rightarrow> 'h vm_heap \<Rightarrow> object_ref \<Rightarrow> bytes \<Rightarrow> (vm_error, lua_value) result" where
  "raw_get_byte_key env vm table name = with_table vm table (\<lambda>t. get_byte_key env t name)"

definition vm_restore_existing_byte_key :: "'h vm_heap \<Rightarrow> object_ref \<Rightarrow> bytes \<Rightarrow> lua_value \<Rightarrow> 'h string_world \<Rightarrow>
    (vm_error, unit) result \<times> 'h vm_heap \<times> 'h string_world" where
  "vm_restore_existing_byte_key vm table name value sw =
     (case (case value of V_Object r \<Rightarrow> rbind (object_kind vm r) (\<lambda>_. Inr ()) | _ \<Rightarrow> Inr ()) of
        Inl e \<Rightarrow> (Inl e, vm, sw)
      | Inr _ \<Rightarrow>
          (case with_table vm table id of
             Inl e \<Rightarrow> (Inl e, vm, sw)
           | Inr t \<Rightarrow> (let (r, t, sw) = restore_existing_byte_key name value t sw in (r, put_table table t vm, sw))))"

subsection \<open>The write barrier\<close>

datatype ref_field = Field_TableKey | Field_TableValue

record 'h table_barrier =
  tbar_owner :: object_ref
  tbar_ticket :: "'h reservation option"
  tbar_charge :: "nat option"
  tbar_accounted :: "'h charge option"
  tbar_marks :: "(object_ref \<times> nat) list"
  tbar_count :: nat

text \<open>What the loop over the edges collects: whether to remember the owner, and the objects to mark.\<close>

definition barrier_edge :: "'h vm_heap \<Rightarrow> weak_mode \<Rightarrow> bool \<Rightarrow> bool \<Rightarrow> ref_field \<Rightarrow> object_ref \<Rightarrow>
    bool \<times> (object_ref \<times> nat) list \<Rightarrow> (vm_error, bool \<times> (object_ref \<times> nat) list) result" where
  "barrier_edge vm mode owner_old owner_black field child acc =
     rbind (checked_slot vm child) (\<lambda>_.
     rbind (if owner_old then rbind (gc_age_of vm child) (\<lambda>age. Inr (age \<noteq> Age_Old)) else Inr False) (\<lambda>young.
     rbind (case field of
              Field_TableKey \<Rightarrow> if mode = Keys \<or> mode = All
                then rbind (object_kind vm child) (\<lambda>k. Inr (k \<noteq> Kind_ByteString)) else Inr False
            | Field_TableValue \<Rightarrow> Inr (mode \<noteq> Strong)) (\<lambda>weak.
     let (remember, marks) = acc; remember = (remember \<or> young)
     in if weak \<or> \<not> owner_black then Inr (remember, marks)
        else rbind (ok_or StaleObject (identity child)) (\<lambda>oid.
             rbind (ok_or LedgerInvariant (color (vh_gc vm) (oi_slot oid))) (\<lambda>c.
             Inr (remember, if c = White \<and> child \<notin> fst ` set marks then marks @ [(child, oi_slot oid)] else marks))))))"

fun barrier_edges :: "'h vm_heap \<Rightarrow> weak_mode \<Rightarrow> bool \<Rightarrow> bool \<Rightarrow> (ref_field \<times> object_ref option) list \<Rightarrow>
    bool \<times> (object_ref \<times> nat) list \<Rightarrow> (vm_error, bool \<times> (object_ref \<times> nat) list) result" where
  "barrier_edges vm mode owner_old owner_black [] acc = Inr acc"
| "barrier_edges vm mode owner_old owner_black ((_, None) # es) acc = barrier_edges vm mode owner_old owner_black es acc"
| "barrier_edges vm mode owner_old owner_black ((field, Some child) # es) acc =
     rbind (barrier_edge vm mode owner_old owner_black field child acc) (barrier_edges vm mode owner_old owner_black es)"

definition owner_is_black :: "'h vm_heap \<Rightarrow> object_ref \<Rightarrow> (vm_error, bool) result" where
  "owner_is_black vm owner =
     (if phase (vh_gc vm) \<noteq> GcPause
      then rbind (ok_or StaleObject (identity owner)) (\<lambda>oid.
           rbind (ok_or LedgerInvariant (color (vh_gc vm) (oi_slot oid))) (\<lambda>c. Inr (c = Black)))
      else Inr False)"

text \<open>
  \<open>try_reserve\<close> of the charge list and the size of a reference are arguments: \<open>metadata_ok\<close> and
  \<open>ref_size\<close>.
\<close>

definition prepare_table_write_barrier_edges :: "table_env \<Rightarrow> bool \<Rightarrow> nat \<Rightarrow> 'h vm_heap \<Rightarrow> object_ref \<Rightarrow>
    (ref_field \<times> object_ref option) list \<Rightarrow> 'h string_world \<Rightarrow> (vm_error, 'h table_barrier) result \<times> 'h string_world" where
  "prepare_table_write_barrier_edges env metadata_ok ref_size vm owner edges sw =
     (let g = vh_gc vm
      in try_else (checked_slot vm owner, sw) id (\<lambda>_ sw.
         try_else (with_table vm owner tb_weak_mode, sw) id (\<lambda>mode sw.
         try_else (if gc_mode_of g = Generational then rbind (gc_age_of vm owner) (\<lambda>age. Inr (age = Age_Old)) else Inr False, sw)
           id (\<lambda>owner_old sw.
         try_else (owner_is_black vm owner, sw) id (\<lambda>owner_black sw.
         try_else (barrier_edges vm mode owner_old owner_black edges (False, []), sw) id (\<lambda>(should_remember, marks) sw.
         if work_capacity g - length (work g) < length marks then (Inl AllocationFailed, sw)
         else try_else (ok_or ArithmeticOverflow (checked_add_usize (barrier_count g) (length marks)), sw) id (\<lambda>n sw.
         if phase g = Sweep \<and> marks \<noteq> [] \<and> checked_add_usize (transition_count g) 1 = None then (Inl ArithmeticOverflow, sw)
         else if should_remember \<and> owner \<notin> set (remembered g) then
           try_else (ok_or ArithmeticOverflow (checked_add_usize (remembered_charge g) ref_size), sw) id (\<lambda>charge sw.
           if \<not> metadata_ok then (Inl AllocationFailed, sw)
           else try_else (te_reserve env (vh_ledger vm) 1 ref_size RememberedReserve sw) id (\<lambda>ticket sw.
             (Inr \<lparr>tbar_owner = owner, tbar_ticket = Some ticket, tbar_charge = Some charge, tbar_accounted = None,
                   tbar_marks = marks, tbar_count = n\<rparr>, sw)))
         else (Inr \<lparr>tbar_owner = owner, tbar_ticket = None, tbar_charge = None, tbar_accounted = None,
                    tbar_marks = marks, tbar_count = n\<rparr>, sw))))))))"

definition barrier_commit_accounting :: "'h table_barrier \<Rightarrow> 'h string_world \<Rightarrow>
    (vm_error, unit) result \<times> 'h table_barrier \<times> 'h string_world" where
  "barrier_commit_accounting b sw =
     (case tbar_ticket b of
        None \<Rightarrow> (Inr (), b, sw)
      | Some ticket \<Rightarrow>
          (case in_world (commit_charge ticket) sw of
             (Inl e, sw) \<Rightarrow> (Inl e, b\<lparr>tbar_ticket := None\<rparr>, sw)
           | (Inr c, sw) \<Rightarrow> (Inr (), b\<lparr>tbar_ticket := None, tbar_accounted := Some c\<rparr>, drop_charge_option (tbar_accounted b) sw)))"

definition drop_barrier :: "'h table_barrier \<Rightarrow> 'h string_world \<Rightarrow> 'h string_world" where
  "drop_barrier b sw = drop_charge_option (tbar_accounted b) (drop_ticket_option (tbar_ticket b) sw)"

fun barrier_marks :: "(object_ref \<times> nat) list \<Rightarrow> 'h gc_state \<Rightarrow> 'h gc_state option" where
  "barrier_marks [] g = Some g"
| "barrier_marks ((child, index) # ms) g =
     (case set_color g index Gray of
        None \<Rightarrow> None
      | Some g \<Rightarrow>
          (let g = g\<lparr>work := work g @ [child]\<rparr>
           in barrier_marks ms (if phase g = Sweep then transition g Propagate else g)))"

definition barrier_apply :: "'h table_barrier \<Rightarrow> 'h gc_state \<Rightarrow> 'h gc_state option" where
  "barrier_apply b g =
     (let g = (case tbar_charge b of
                 None \<Rightarrow> g
               | Some charge \<Rightarrow> g\<lparr>remembered := remembered g @ [tbar_owner b], remembered_charge := charge,
                     remembered_charges := (case tbar_accounted b of None \<Rightarrow> remembered_charges g
                        | Some c \<Rightarrow> push_prepared (remembered_charges g) c)\<rparr>)
      in map_option (\<lambda>g. g\<lparr>barrier_count := tbar_count b\<rparr>) (barrier_marks (tbar_marks b) g))"

subsection \<open>Publishing a write\<close>

type_synonym ('h, 'a) vm_outcome = "(vm_error, 'a) result \<times> 'h vm_heap \<times> 'h string_world"

text \<open>
  Both kinds of mutation go through the same steps; \<open>commit_m\<close>, \<open>apply_m\<close> and \<open>drop_m\<close> are those of
  the mutation.
\<close>

definition publish_write :: "('m \<Rightarrow> 'h string_world \<Rightarrow> (vm_error, unit) result \<times> 'm \<times> 'h string_world) \<Rightarrow>
    ('m \<Rightarrow> 'h lua_table \<Rightarrow> 'h string_world \<Rightarrow> 'h lua_table \<times> 'h string_world) \<Rightarrow> ('m \<Rightarrow> 'h string_world \<Rightarrow> 'h string_world) \<Rightarrow>
    'h vm_heap \<Rightarrow> object_ref \<Rightarrow> 'h table_barrier \<Rightarrow> 'm \<Rightarrow> 'h string_world \<Rightarrow> ('h, unit) vm_outcome option" where
  "publish_write commit_m apply_m drop_m vm owner b m sw =
     (case with_table vm owner id of
        Inl e \<Rightarrow> Some (Inl e, vm, drop_m m (drop_barrier b sw))
      | Inr t \<Rightarrow>
          (case barrier_commit_accounting b sw of
             (Inl e, b, sw) \<Rightarrow> Some (Inl e, vm, drop_m m (drop_barrier b sw))
           | (Inr _, b, sw) \<Rightarrow>
               (case commit_m m sw of
                  (Inl e, m, sw) \<Rightarrow> Some (Inl e, vm, drop_m m (drop_barrier b sw))
                | (Inr _, m, sw) \<Rightarrow>
                    (case barrier_apply b (vh_gc vm) of
                       None \<Rightarrow> None
                     | Some g \<Rightarrow>
                         (let (t, sw) = apply_m m t sw in Some (Inr (), put_table owner t (vm\<lparr>vh_gc := g\<rparr>), sw))))))"

definition commit_prepared_table_write :: "'h vm_heap \<Rightarrow> object_ref \<Rightarrow> 'h table_barrier \<Rightarrow> 'h prepared_mutation \<Rightarrow>
    'h string_world \<Rightarrow> ('h, unit) vm_outcome option" where
  "commit_prepared_table_write = publish_write commit_accounting apply_mutation drop_mutation"

definition commit_prepared_ref_pair :: "'h vm_heap \<Rightarrow> object_ref \<Rightarrow> 'h table_barrier \<Rightarrow> 'h prepared_ref_pair \<Rightarrow>
    'h string_world \<Rightarrow> ('h, unit) vm_outcome option" where
  "commit_prepared_ref_pair = publish_write commit_ref_accounting apply_ref_pair drop_ref_pair"

fun foreign_function :: "'h vm_heap \<Rightarrow> lua_value \<Rightarrow> bool" where
  "foreign_function vm (V_CFunction f) = (hf_vm f \<noteq> vh_id vm)"
| "foreign_function vm _ = False"

text \<open>\<open>Some (Inr source, \<dots>)\<close>: the object of a newly stored key, if there is one.\<close>

definition raw_set_with_new_key_source :: "table_env \<Rightarrow> bool \<Rightarrow> nat \<Rightarrow> 'h vm_heap \<Rightarrow> object_ref \<Rightarrow> lua_value \<Rightarrow> lua_value \<Rightarrow>
    'h string_world \<Rightarrow> ('h, object_ref option) vm_outcome option" where
  "raw_set_with_new_key_source env metadata_ok ref_size vm table key value sw =
     (case object_kind vm table of
        Inl e \<Rightarrow> Some (Inl e, vm, sw)
      | Inr kind \<Rightarrow>
        if kind \<noteq> Kind_Table then Some (Inl WrongObjectType, vm, sw)
        else if foreign_function vm value then Some (Inl WrongVm, vm, sw)
        else if key = V_Nil then Some (Inl NilTableKey, vm, sw)
        else if value_is_nan key then Some (Inl NaNTableKey, vm, sw)
        else case canonical_key env vm key sw of
            (Inl e, sw) \<Rightarrow> Some (Inl e, vm, sw)
          | (Inr None, sw) \<Rightarrow> Some (Inl LedgerInvariant, vm, sw)
          | (Inr (Some canonical), sw) \<Rightarrow>
              (case with_table vm table id of
                 Inl e \<Rightarrow> Some (Inl e, vm, drop_key canonical sw)
               | Inr t \<Rightarrow>
                   (case prepare_set env (vh_ledger vm) t canonical value sw of
                      (Inl e, sw) \<Rightarrow> Some (Inl e, vm, sw)
                    | (Inr m, sw) \<Rightarrow>
                        (let (key_edge, value_edge) = new_edges m
                         in case prepare_table_write_barrier_edges env metadata_ok ref_size vm table
                                   [(Field_TableKey, key_edge), (Field_TableValue, value_edge)] sw of
                              (Inl e, sw) \<Rightarrow> Some (Inl e, vm, drop_mutation m sw)
                            | (Inr b, sw) \<Rightarrow>
                                map_option (\<lambda>(r, vm, sw). (rbind r (\<lambda>_. Inr key_edge), vm, sw))
                                  (commit_prepared_table_write vm table b m sw)))))"

definition raw_set :: "table_env \<Rightarrow> bool \<Rightarrow> nat \<Rightarrow> 'h vm_heap \<Rightarrow> object_ref \<Rightarrow> lua_value \<Rightarrow> lua_value \<Rightarrow>
    'h string_world \<Rightarrow> ('h, unit) vm_outcome option" where
  "raw_set env metadata_ok ref_size vm table key value sw =
     map_option (\<lambda>(r, vm, sw). (rbind r (\<lambda>_. Inr ()), vm, sw))
       (raw_set_with_new_key_source env metadata_ok ref_size vm table key value sw)"

definition raw_set_ref_pair :: "table_env \<Rightarrow> bool \<Rightarrow> nat \<Rightarrow> 'h vm_heap \<Rightarrow> object_ref \<Rightarrow> i64 \<times> lua_value \<Rightarrow> i64 \<times> lua_value \<Rightarrow>
    'h string_world \<Rightarrow> ('h, unit) vm_outcome option" where
  "raw_set_ref_pair env metadata_ok ref_size vm table first second sw =
     (case object_kind vm table of
        Inl e \<Rightarrow> Some (Inl e, vm, sw)
      | Inr kind \<Rightarrow>
        if kind \<noteq> Kind_Table then Some (Inl WrongObjectType, vm, sw)
        else if foreign_function vm (snd first) \<or> foreign_function vm (snd second) then Some (Inl WrongVm, vm, sw)
        else case with_table vm table id of
            Inl e \<Rightarrow> Some (Inl e, vm, sw)
          | Inr t \<Rightarrow>
              (case prepare_ref_pair env (vh_ledger vm) t first second sw of
                 (Inl e, sw) \<Rightarrow> Some (Inl e, vm, sw)
               | (Inr p, sw) \<Rightarrow>
                   (case prepare_table_write_barrier_edges env metadata_ok ref_size vm table
                           (map (\<lambda>r. (Field_TableValue, r)) (value_edges p)) sw of
                      (Inl e, sw) \<Rightarrow> Some (Inl e, vm, drop_ref_pair p sw)
                    | (Inr b, sw) \<Rightarrow> commit_prepared_ref_pair vm table b p sw)))"

end
