(* ===== verification/Table_Spec.thy ===== *)
theory Table_Spec
  imports Table_Write
begin

text \<open>
  What a table means and that the operations of \<open>table.rs\<close> implement it. A table stands for a finite
  map from abstract keys to values other than nil; its invariant says that no key is stored twice.
  Lookup, single writes and the paired write refine the operations of that map.
\<close>

subsection \<open>Buckets\<close>

lemma flatten_append [simp]: "flatten (xs @ ys) = flatten xs @ flatten ys"
  by (induction xs rule: flatten.induct) auto

lemma flatten_map_Some [simp]: "flatten (map Some xs) = xs"
  by (induction xs) auto

lemma flatten_replicate [simp]: "flatten (replicate n None) = []"
  by (induction n) auto

lemma in_flatten: "x \<in> set (flatten xs) \<longleftrightarrow> (\<exists>i<length xs. xs ! i = Some x)"
  by (induction xs rule: flatten.induct) (auto simp: less_Suc_eq_0_disj)

lemma in_flatten_Some: "x \<in> set (flatten xs) \<longleftrightarrow> Some x \<in> set xs"
  by (induction xs rule: flatten.induct) auto

lemma flatten_split:
  assumes "i < length xs"
  shows "flatten xs = flatten (take i xs) @ flatten [xs ! i] @ flatten (drop (Suc i) xs)"
  using assms by (metis append_Cons append_Nil flatten_append id_take_nth_drop)

lemma flatten_update:
  assumes "i < length xs"
  shows "flatten (xs[i := x]) = flatten (take i xs) @ flatten [x] @ flatten (drop (Suc i) xs)"
  using assms by (metis append_Cons append_Nil flatten_append upd_conv_take_nth_drop)

definition bucket_keys :: "'h bucket list \<Rightarrow> lua_key list" where
  "bucket_keys buckets = map (\<lambda>(key, _). abs_key key) (flatten buckets)"

lemma bucket_keys_single [simp]: "bucket_keys [Some (k, v)] = [abs_key k]" "bucket_keys [None] = []"
  by (simp_all add: bucket_keys_def)

definition hash_ok :: "'h bucket list \<Rightarrow> bool" where
  "hash_ok buckets \<longleftrightarrow> list_all (\<lambda>(key, _). key_ok key) (flatten buckets) \<and> distinct (bucket_keys buckets)"

fun entry_value :: "lua_key \<Rightarrow> 'h key_kind \<times> lua_value \<Rightarrow> lua_value option" where
  "entry_value k (key, value) = (if value \<noteq> V_Nil \<and> abs_key key = k then Some value else None)"

definition hash_lookup :: "'h bucket list \<Rightarrow> lua_key \<Rightarrow> lua_value option" where
  "hash_lookup buckets k = find_map (entry_value k) (flatten buckets)"

lemma find_map_append [simp]:
  "find_map f (xs @ ys) = (case find_map f xs of None \<Rightarrow> find_map f ys | Some y \<Rightarrow> Some y)"
  by (induction xs) (auto split: option.splits)

lemma find_map_None: "find_map f xs = None \<longleftrightarrow> (\<forall>x\<in>set xs. f x = None)"
  by (induction xs) (auto split: option.splits)

lemma find_map_filter:
  assumes "\<And>x. x \<in> set xs \<Longrightarrow> \<not> P x \<Longrightarrow> f x = None"
  shows "find_map f (filter P xs) = find_map f xs"
  using assms by (induction xs) (auto split: option.splits)

lemma no_entry: "k \<notin> set (map (\<lambda>(key, _). abs_key key) es) \<Longrightarrow> find_map (entry_value k) es = None"
  by (induction es) auto

lemma hash_lookup_live: "hash_lookup buckets k = find_map (entry_value k) (live_entries buckets)"
  unfolding hash_lookup_def live_entries_def by (subst find_map_filter) auto

lemma bucket_keys_update:
  assumes "i < length buckets"
  shows "bucket_keys (buckets[i := b]) = bucket_keys (take i buckets) @ bucket_keys [b] @ bucket_keys (drop (Suc i) buckets)"
  unfolding bucket_keys_def flatten_update [OF assms] by simp

lemma bucket_keys_split:
  assumes "i < length buckets"
  shows "bucket_keys buckets = bucket_keys (take i buckets) @ bucket_keys [buckets ! i] @ bucket_keys (drop (Suc i) buckets)"
  unfolding bucket_keys_def by (subst flatten_split [OF assms]) simp

lemma hash_ok_split:
  assumes "i < length buckets"
  shows "hash_ok buckets \<longleftrightarrow> hash_ok (take i buckets) \<and> hash_ok [buckets ! i] \<and> hash_ok (drop (Suc i) buckets)
    \<and> set (bucket_keys (take i buckets)) \<inter> set (bucket_keys [buckets ! i]) = {}
    \<and> set (bucket_keys (take i buckets)) \<inter> set (bucket_keys (drop (Suc i) buckets)) = {}
    \<and> set (bucket_keys [buckets ! i]) \<inter> set (bucket_keys (drop (Suc i) buckets)) = {}"
  unfolding hash_ok_def bucket_keys_split [OF assms] by (subst flatten_split [OF assms]) auto

lemma hash_lookup_split:
  assumes "i < length buckets"
  shows "hash_lookup buckets k = (case hash_lookup (take i buckets) k of Some v \<Rightarrow> Some v
     | None \<Rightarrow> (case hash_lookup [buckets ! i] k of Some v \<Rightarrow> Some v | None \<Rightarrow> hash_lookup (drop (Suc i) buckets) k))"
  unfolding hash_lookup_def by (subst flatten_split [OF assms]) (simp split: option.split)

lemma hash_lookup_no_key: "k \<notin> set (bucket_keys buckets) \<Longrightarrow> hash_lookup buckets k = None"
  unfolding hash_lookup_def bucket_keys_def by (rule no_entry)

text \<open>Overwriting a bucket that is empty or holds the key already.\<close>

lemma hash_update:
  assumes "i < length buckets" and "hash_ok buckets" and "key_ok key"
    and "case buckets ! i of None \<Rightarrow> abs_key key \<notin> set (bucket_keys buckets) | Some (k, _) \<Rightarrow> abs_key k = abs_key key"
  shows "hash_ok (buckets[i := Some (key, v)])"
    and "hash_lookup (buckets[i := Some (key, v)]) = (hash_lookup buckets)(abs_key key := if v = V_Nil then None else Some v)"
proof -
  let ?a = "take i buckets" and ?z = "drop (Suc i) buckets"
  have len: "i < length (buckets[i := Some (key, v)])" using assms(1) by simp
  have same: "take i (buckets[i := Some (key, v)]) = ?a" "drop (Suc i) (buckets[i := Some (key, v)]) = ?z"
    "(buckets[i := Some (key, v)]) ! i = Some (key, v)" using assms(1) by simp_all
  have old: "hash_ok ?a" "hash_ok ?z" "set (bucket_keys ?a) \<inter> set (bucket_keys ?z) = {}"
    using assms(2) unfolding hash_ok_split [OF assms(1)] by blast+
  have fresh: "abs_key key \<notin> set (bucket_keys ?a)" "abs_key key \<notin> set (bucket_keys ?z)"
  proof -
    have "abs_key key \<notin> set (bucket_keys ?a) \<and> abs_key key \<notin> set (bucket_keys ?z)"
    proof (cases "buckets ! i")
      case None
      then show ?thesis using assms(4) bucket_keys_split [OF assms(1)] by simp
    next
      case (Some e)
      then have "abs_key key \<in> set (bucket_keys [buckets ! i])" using assms(4) by (auto simp: bucket_keys_def split: prod.splits)
      then show ?thesis using assms(2) unfolding hash_ok_split [OF assms(1)] by blast
    qed
    then show "abs_key key \<notin> set (bucket_keys ?a)" "abs_key key \<notin> set (bucket_keys ?z)" by simp_all
  qed
  show "hash_ok (buckets[i := Some (key, v)])"
    unfolding hash_ok_split [OF len] same using old fresh assms(3) by (auto simp: hash_ok_def bucket_keys_def)
  have none: "hash_lookup ?a (abs_key key) = None" "hash_lookup ?z (abs_key key) = None"
    using fresh by (simp_all add: hash_lookup_no_key)
  have other: "k \<noteq> abs_key key \<Longrightarrow> hash_lookup [buckets ! i] k = None" for k
    using assms(4) by (auto simp: hash_lookup_def split: option.splits)
  have single: "hash_lookup [Some (key, v)] k = (if v \<noteq> V_Nil \<and> k = abs_key key then Some v else None)" for k
    by (simp add: hash_lookup_def)
  show "hash_lookup (buckets[i := Some (key, v)]) = (hash_lookup buckets)(abs_key key := if v = V_Nil then None else Some v)"
  proof
    fix k
    show "hash_lookup (buckets[i := Some (key, v)]) k = ((hash_lookup buckets)(abs_key key := if v = V_Nil then None else Some v)) k"
      unfolding hash_lookup_split [OF len] same
      using hash_lookup_split [OF assms(1), of k] none other single by (cases "k = abs_key key") (simp_all split: option.split)
  qed
qed

lemma set_probes:
  assumes "start < n"
  shows "set (probes start n) = {..<n}"
proof -
  have "probe start s n < n" if "s < n" for s using that assms by (auto simp: probe_def)
  moreover have "\<exists>s<n. probe start s n = i" if "i < n" for i
  proof (cases "start \<le> i")
    case True
    then have "i - start < n" "probe start (i - start) n = i" using that by (auto simp: probe_def)
    then show ?thesis by blast
  next
    case False
    then have "i + (n - start) < n" "probe start (i + (n - start)) n = i" using assms by (auto simp: probe_def)
    then show ?thesis by blast
  qed
  ultimately show ?thesis unfolding probes_def by force
qed

lemma bucket_less: "0 < n \<Longrightarrow> bucket env t key n < n"
  by (simp add: bucket_def)

lemma find_set: "find P xs = Some i \<Longrightarrow> i \<in> set xs \<and> P i"
  by (induction xs) (auto split: if_splits)

lemma find_None_set: "find P xs = None \<longleftrightarrow> (\<forall>i\<in>set xs. \<not> P i)"
  by (induction xs) (auto split: if_splits)

lemma bucket_keys_at: "i < length buckets \<Longrightarrow> buckets ! i = Some (k, v) \<Longrightarrow> abs_key k \<in> set (bucket_keys buckets)"
  unfolding bucket_keys_def by (force simp: in_flatten)

lemma hash_ok_at: "hash_ok buckets \<Longrightarrow> i < length buckets \<Longrightarrow> buckets ! i = Some (k, v) \<Longrightarrow> key_ok k"
  unfolding hash_ok_def by (force simp: in_flatten list_all_iff)

lemma find_any_hash_Some:
  assumes "hash_ok (tb_hash t)" and "key_ok key" and "find_any_hash env t key = Some i"
  obtains k v where "i < length (tb_hash t)" and "tb_hash t ! i = Some (k, v)" and "abs_key k = abs_key key"
proof -
  have n: "0 < length (tb_hash t)" using assms(3) by (auto simp: find_any_hash_def Let_def split: if_splits)
  then have *: "i < length (tb_hash t)" "case tb_hash t ! i of None \<Rightarrow> False | Some (stored, _) \<Rightarrow> key_eq stored key"
    using assms(3) find_set set_probes [OF bucket_less [OF n]] by (force simp: find_any_hash_def Let_def)+
  then obtain k v where "tb_hash t ! i = Some (k, v)" "key_eq k key" by (auto split: option.splits)
  with *(1) show ?thesis using that hash_ok_at [OF assms(1)] key_eq_abs [OF _ assms(2)] by blast
qed

lemma find_any_hash_None:
  assumes "hash_ok (tb_hash t)" and "key_ok key" and "find_any_hash env t key = None"
  shows "abs_key key \<notin> set (bucket_keys (tb_hash t))"
proof
  assume "abs_key key \<in> set (bucket_keys (tb_hash t))"
  then obtain i k v where i: "i < length (tb_hash t)" "tb_hash t ! i = Some (k, v)" "abs_key k = abs_key key"
    unfolding bucket_keys_def by (auto simp: in_flatten)
  then have n: "0 < length (tb_hash t)" by linarith
  have "i \<in> set (probes (bucket env t key (length (tb_hash t))) (length (tb_hash t)))"
    using i(1) set_probes [OF bucket_less [OF n]] by blast
  then have "\<not> (case tb_hash t ! i of None \<Rightarrow> False | Some (stored, _) \<Rightarrow> key_eq stored key)"
    using assms(3) n by (simp add: find_any_hash_def Let_def find_None_set)
  then show False using i key_eq_abs [OF hash_ok_at [OF assms(1) i(1,2)] assms(2)] by simp
qed

lemma hash_lookup_at:
  assumes "hash_ok buckets" and "i < length buckets" and "buckets ! i = Some (k, v)"
  shows "hash_lookup buckets (abs_key k) = (if v = V_Nil then None else Some v)"
proof -
  have "buckets[i := Some (k, v)] = buckets" using assms(3) by (metis list_update_id)
  moreover have "hash_lookup (buckets[i := Some (k, v)]) = (hash_lookup buckets)(abs_key k := if v = V_Nil then None else Some v)"
    by (rule hash_update(2) [OF assms(2,1) hash_ok_at [OF assms]]) (simp add: assms(3))
  ultimately show ?thesis by (metis fun_upd_same)
qed

lemma find_hash_lookup:
  assumes "hash_ok (tb_hash t)" and "key_ok key"
  shows "hash_lookup (tb_hash t) (abs_key key) =
    (case find_hash env t key of None \<Rightarrow> None | Some i \<Rightarrow> map_option snd (tb_hash t ! i))"
proof (cases "find_any_hash env t key")
  case None
  then show ?thesis using find_any_hash_None [OF assms None] by (simp add: find_hash_def hash_lookup_no_key)
next
  case (Some i)
  then obtain k v where "i < length (tb_hash t)" "tb_hash t ! i = Some (k, v)" "abs_key k = abs_key key"
    by (rule find_any_hash_Some [OF assms])
  then show ?thesis using Some hash_lookup_at [OF assms(1), of i k v] by (simp add: find_hash_def)
qed

subsection \<open>The map a table stands for\<close>

definition array_lookup :: "lua_value option list \<Rightarrow> lua_key \<Rightarrow> lua_value option" where
  "array_lookup array k = (case k of
     LK_Int n \<Rightarrow> if 0 < n then (case get_at array (nat n - 1) of None \<Rightarrow> None | Some v \<Rightarrow> v) else None
   | _ \<Rightarrow> None)"

definition abs_table :: "'h lua_table \<Rightarrow> lua_key \<Rightarrow> lua_value option" where
  "abs_table t k = (case array_lookup (tb_array t) k of Some v \<Rightarrow> Some v | None \<Rightarrow> hash_lookup (tb_hash t) k)"

definition table_ok :: "'h lua_table \<Rightarrow> bool" where
  "table_ok t \<longleftrightarrow> Some V_Nil \<notin> set (tb_array t) \<and> hash_ok (tb_hash t)
     \<and> list_all (\<lambda>(key, _). array_lookup (tb_array t) (abs_key key) = None) (live_entries (tb_hash t))
     \<and> length (tb_array t) < 2 ^ 63"

text \<open>The map operations a table implements: lookup with nil for a missing key, and assignment.\<close>

definition map_get :: "(lua_key \<Rightarrow> lua_value option) \<Rightarrow> lua_key \<Rightarrow> lua_value" where
  "map_get m k = (case m k of None \<Rightarrow> V_Nil | Some v \<Rightarrow> v)"

definition map_set :: "(lua_key \<Rightarrow> lua_value option) \<Rightarrow> lua_key \<Rightarrow> lua_value \<Rightarrow> lua_key \<Rightarrow> lua_value option" where
  "map_set m k v = m(k := if v = V_Nil then None else Some v)"

lemma array_value_lookup: "array_value t key = array_lookup (tb_array t) (abs_key key)"
  by (cases key) (simp_all add: array_value_def array_lookup_def)

lemma get_at_update: "i < length xs \<Longrightarrow> get_at (xs[i := v]) j = (if j = i then Some v else get_at xs j)"
  by (simp add: get_at_def)

lemma array_lookup_update:
  assumes "i < length array"
  shows "array_lookup (array[i := v]) = (array_lookup array)(LK_Int (int i + 1) := v)"
proof
  fix k
  show "array_lookup (array[i := v]) k = ((array_lookup array)(LK_Int (int i + 1) := v)) k"
  proof (cases k)
    case (LK_Int n)
    have "0 < n \<and> nat n - 1 = i \<longleftrightarrow> n = int i + 1" by linarith
    with LK_Int show ?thesis by (cases "n = int i + 1") (auto simp: array_lookup_def get_at_update [OF assms])
  qed (simp_all add: array_lookup_def)
qed

lemma array_lookup_copy: "array_lookup (copy_into array n) = array_lookup array"
proof
  fix k
  have "(case get_at (copy_into array n) j of None \<Rightarrow> None | Some v \<Rightarrow> v) = (case get_at array j of None \<Rightarrow> None | Some v \<Rightarrow> v)" for j
    by (auto simp: get_at_def copy_into_def nth_append)
  then show "array_lookup (copy_into array n) k = array_lookup array k"
    by (cases k) (simp_all add: array_lookup_def)
qed

lemma live_lookup:
  assumes "hash_ok (tb_hash t)" and "hash_lookup (tb_hash t) k \<noteq> None"
  obtains key v where "(key, v) \<in> set (live_entries (tb_hash t))" and "abs_key key = k"
  using assms(2) unfolding hash_lookup_live
  by (auto simp: find_map_None split: if_splits)

text \<open>At most one part of the table holds a key.\<close>

lemma table_disjoint:
  "table_ok t \<longleftrightarrow> Some V_Nil \<notin> set (tb_array t) \<and> hash_ok (tb_hash t) \<and> length (tb_array t) < 2 ^ 63
     \<and> (\<forall>k. array_lookup (tb_array t) k = None \<or> hash_lookup (tb_hash t) k = None)"
proof (cases "hash_ok (tb_hash t)")
  case True
  have *: "list_all (\<lambda>(key, _). array_lookup (tb_array t) (abs_key key) = None) (live_entries (tb_hash t))
      \<longleftrightarrow> (\<forall>k. array_lookup (tb_array t) k = None \<or> hash_lookup (tb_hash t) k = None)"
    unfolding hash_lookup_live list_all_iff find_map_None
    by (auto simp: live_entries_def split: if_splits)
  show ?thesis unfolding table_ok_def * by (simp only: conj_ac)
qed (simp add: table_ok_def)

lemma table_get_refines:
  assumes "table_ok t" and "key_ok key"
  shows "table_get env t key = map_get (abs_table t) (abs_key key)"
proof -
  have ok: "hash_ok (tb_hash t)" using assms(1) by (simp add: table_disjoint)
  show ?thesis
    using find_hash_lookup [OF ok assms(2), of env]
    by (auto simp: table_get_def map_get_def abs_table_def array_value_lookup split: option.splits)
qed

subsection \<open>Writing a field\<close>

text \<open>What a prepared mutation makes of the two parts.\<close>

fun effect_array :: "'h prepared_mutation \<Rightarrow> 'h lua_table \<Rightarrow> lua_value option list" where
  "effect_array (ArraySlot index value) t = (tb_array t)[index := if value \<noteq> V_Nil then Some value else None]"
| "effect_array (GrowArray next _ _ _) t = next"
| "effect_array _ t = tb_array t"

fun effect_hash :: "'h prepared_mutation \<Rightarrow> 'h lua_table \<Rightarrow> 'h bucket list" where
  "effect_hash (HashSlot index value dead_key) t =
     (tb_hash t)[index := if value = V_Nil then map_option (\<lambda>key. (key, V_Nil)) dead_key
                          else map_option (\<lambda>(key, _). (key, value)) (tb_hash t ! index)]"
| "effect_hash (HashReplace index key value) t = (tb_hash t)[index := Some (key, value)]"
| "effect_hash (HashInsert index key value) t = (tb_hash t)[index := Some (key, value)]"
| "effect_hash (GrowHash next _ _ n key value) t = (place_from 0 (live_entries (tb_hash t)) next)[n := Some (key, value)]"
| "effect_hash _ t = tb_hash t"

lemma install_charge_parts [simp]:
  "tb_array (fst (install_charge f c t sw)) = tb_array t"
  "tb_hash (fst (install_charge f c t sw)) = tb_hash t"
  by (auto simp: install_charge_def split: option.splits prod.splits)

lemma apply_mutation_parts:
  "tb_array (fst (apply_mutation m t sw)) = effect_array m t"
  "tb_hash (fst (apply_mutation m t sw)) = effect_hash m t"
  by (cases m; simp add: apply_mutation_def bump_mutation_version_def split_beta Let_def)+

lemma commit_accounting_effect:
  assumes "commit_accounting m sw = (r, m', sw')"
  shows "effect_array m' t = effect_array m t" and "effect_hash m' t = effect_hash m t" and "new_edges m' = new_edges m"
  using assms by (cases m; auto split: prod.splits)+

lemma table_array_update:
  assumes "table_ok t" and "i < length (tb_array t)" and "hash_lookup (tb_hash t) (LK_Int (int i + 1)) = None"
    and "tb_array t' = (tb_array t)[i := if v \<noteq> V_Nil then Some v else None]" and "tb_hash t' = tb_hash t"
  shows "table_ok t'" and "abs_table t' = map_set (abs_table t) (LK_Int (int i + 1)) v"
proof -
  have look: "array_lookup (tb_array t') = (array_lookup (tb_array t))(LK_Int (int i + 1) := if v \<noteq> V_Nil then Some v else None)"
    unfolding assms(4) by (rule array_lookup_update [OF assms(2)])
  have "Some V_Nil \<notin> set (tb_array t')"
    using assms(1,4) set_update_subset_insert [of "tb_array t" i "if v \<noteq> V_Nil then Some v else None"]
    by (auto simp: table_disjoint split: if_splits)
  with assms(1,3-5) look show "table_ok t'" by (auto simp: table_disjoint)
  show "abs_table t' = map_set (abs_table t) (LK_Int (int i + 1)) v"
    using assms(3,5) look by (auto simp: abs_table_def map_set_def fun_eq_iff split: option.split)
qed

lemma table_array_copy:
  assumes "table_ok t" and "n < 2 ^ 63" and "tb_array t' = copy_into (tb_array t) n" and "tb_hash t' = tb_hash t"
  shows "table_ok t'" and "abs_table t' = abs_table t"
proof -
  have "Some V_Nil \<notin> set (copy_into (tb_array t) n)" "length (copy_into (tb_array t) n) < 2 ^ 63"
    using assms(1,2) by (auto simp: table_disjoint copy_into_def)
  then show "table_ok t'" using assms(1) unfolding table_disjoint assms(3,4) array_lookup_copy by simp
  show "abs_table t' = abs_table t" unfolding abs_table_def assms(3,4) array_lookup_copy by (rule refl)
qed

lemma table_hash_update:
  assumes "table_ok t" and "i < length (tb_hash t)" and "key_ok key"
    and "case tb_hash t ! i of None \<Rightarrow> abs_key key \<notin> set (bucket_keys (tb_hash t)) | Some (k, _) \<Rightarrow> abs_key k = abs_key key"
    and "array_lookup (tb_array t) (abs_key key) = None"
    and "tb_array t' = tb_array t" and "tb_hash t' = (tb_hash t)[i := Some (key, v)]"
  shows "table_ok t'" and "abs_table t' = map_set (abs_table t) (abs_key key) v"
proof -
  have "hash_ok (tb_hash t)" using assms(1) by (simp add: table_disjoint)
  note upd = hash_update [OF assms(2) this assms(3,4), of v]
  show "table_ok t'" using assms(1,5) upd unfolding table_disjoint assms(6,7) by auto
  show "abs_table t' = map_set (abs_table t) (abs_key key) v"
    using assms(5) upd(2) by (auto simp: abs_table_def map_set_def assms(6,7) fun_eq_iff split: option.split)
qed

lemma distinct_map_filter_pairs: "distinct (map f xs) \<Longrightarrow> distinct (map f (filter P xs))"
  by (simp add: distinct_map inj_on_def)

lemma table_hash_compact:
  assumes "table_ok t" and "tb_array t' = tb_array t"
    and "tb_hash t' = map Some (live_entries (tb_hash t)) @ replicate n None"
  shows "table_ok t'" and "abs_table t' = abs_table t"
    and "bucket_keys (tb_hash t') = map (\<lambda>(key, _). abs_key key) (live_entries (tb_hash t))"
proof -
  show keys: "bucket_keys (tb_hash t') = map (\<lambda>(key, _). abs_key key) (live_entries (tb_hash t))"
    by (simp add: bucket_keys_def assms(3))
  have flat: "flatten (tb_hash t') = live_entries (tb_hash t)" by (simp add: assms(3))
  have "hash_ok (tb_hash t')"
    using assms(1) unfolding hash_ok_def keys flat
    by (auto simp: table_ok_def hash_ok_def live_entries_def bucket_keys_def list_all_iff intro: distinct_map_filter_pairs)
  moreover have look: "hash_lookup (tb_hash t') = hash_lookup (tb_hash t)"
    unfolding hash_lookup_live [of "tb_hash t"] by (rule ext) (simp add: hash_lookup_def flat)
  ultimately show "table_ok t'" using assms(1,2) by (auto simp: table_disjoint)
  show "abs_table t' = abs_table t" unfolding abs_table_def assms(2) look by (rule refl)
qed

lemma place_from_append:
  assumes "length xs \<le> n"
  shows "place_from (length ys) xs (map Some ys @ replicate n None) = map Some (ys @ xs) @ replicate (n - length xs) None"
  using assms
proof (induction xs arbitrary: ys n)
  case Nil
  then show ?case by (simp add: place_from_def)
next
  case (Cons x xs)
  then obtain m where n: "n = Suc m" "length xs \<le> m" by (cases n) auto
  have "place_from (length ys) (x # xs) (map Some ys @ replicate n None)
      = place_from (length (ys @ [x])) xs (map Some (ys @ [x]) @ replicate m None)"
    by (simp add: place_from_def n list_update_append)
  also have "\<dots> = map Some ((ys @ [x]) @ xs) @ replicate (m - length xs) None" by (rule Cons.IH [OF n(2)])
  finally show ?case by (simp add: n)
qed

lemma place_from_empty:
  "length xs \<le> n \<Longrightarrow> place_from 0 xs (replicate n None) = map Some xs @ replicate (n - length xs) None"
  using place_from_append [of xs n "[]"] by simp

lemma try_else_Inr:
  "try_else m c k = (Inr b, sw') \<longleftrightarrow> (\<exists>a sw. m = (Inr a, sw) \<and> k a sw = (Inr b, sw'))"
  by (auto simp: try_else_def split: prod.splits sum.splits)

lemmas prepare_simps = try_else_Inr ok_or_Inr_iff Let_def

lemma empty_bucket_Inr:
  assumes "empty_bucket env t buckets key = Inr i"
  shows "i < length buckets" and "buckets ! i = None"
proof -
  have n: "0 < length buckets" using assms by (auto simp: empty_bucket_def Let_def split: if_splits)
  then have "find (\<lambda>i. buckets ! i = None) (probes (bucket env t key (length buckets)) (length buckets)) = Some i"
    using assms by (simp add: empty_bucket_def Let_def ok_or_Inr_iff)
  from find_set [OF this] set_probes [OF bucket_less [OF n]] show "i < length buckets" and "buckets ! i = None" by blast+
qed

lemma checked_bytes_bound:
  assumes "checked_bytes n s = Inr b" and "2 \<le> s"
  shows "n < 2 ^ 63"
proof -
  have "n * 2 \<le> n * s" using assms(2) by simp
  also have "n * s \<le> usize_max" using assms(1) by (auto simp: checked_bytes_def ok_or_Inr_iff)
  finally show ?thesis by (simp add: usize_max_def)
qed

definition mutation_ok :: "'h prepared_mutation \<Rightarrow> 'h lua_table \<Rightarrow> lua_key \<Rightarrow> lua_value \<Rightarrow> bool" where
  "mutation_ok m t k v \<longleftrightarrow> (\<forall>t'. tb_array t' = effect_array m t \<longrightarrow> tb_hash t' = effect_hash m t \<longrightarrow>
     table_ok t' \<and> abs_table t' = map_set (abs_table t) k v)"

lemma table_same_parts:
  assumes "tb_array t' = tb_array t" and "tb_hash t' = tb_hash t"
  shows "table_ok t' = table_ok t" and "abs_table t' = abs_table t"
  unfolding table_ok_def abs_table_def assms by simp_all

lemma hash_insert_ok:
  fixes t :: "'h lua_table"
  assumes ok: "table_ok t" "key_ok key" "array_lookup (tb_array t) (abs_key key) = None"
      "hash_lookup (tb_hash t) (abs_key key) = None"
    and dead: "abs_key key \<in> set (bucket_keys (tb_hash t)) \<Longrightarrow> length (tb_hash t) - length (tb_hash t) div 4 < live_hash_count t + 1"
    and m: "prepare_hash_insert env l t key value sw = (Inr m, sw')"
    and v: "value \<noteq> V_Nil"
  shows "mutation_ok m t (abs_key key) value"
  using m
proof (cases "length (tb_hash t) = 0 \<or> length (tb_hash t) \<le> length (flatten (tb_hash t))
    \<or> length (tb_hash t) - length (tb_hash t) div 4 < live_hash_count t + 1")
  case True
  with m obtain n ticket where m': "m = GrowHash (replicate n None) (Some ticket) None (live_hash_count t) key value"
      and n: "live_hash_count t + 1 \<le> n"
    by (auto simp: prepare_hash_insert_def prepare_simps split: if_splits)
  let ?live = "live_entries (tb_hash t)"
  show ?thesis unfolding mutation_ok_def
  proof (intro allI impI)
    fix t' :: "'h lua_table" assume t': "tb_array t' = effect_array m t" "tb_hash t' = effect_hash m t"
    define c where "c = t'\<lparr>tb_hash := map Some ?live @ replicate (n - length ?live) None\<rparr>"
    have len: "length ?live < n" using n by (simp add: live_hash_count_def)
    have c: "tb_array c = tb_array t" "tb_hash c = map Some ?live @ replicate (n - length ?live) None"
      using t' by (simp_all add: c_def m')
    note compact = table_hash_compact [OF ok(1) c]
    have "hash_lookup (tb_hash t) (abs_key key) = None \<Longrightarrow> abs_key key \<notin> set (bucket_keys (tb_hash c))"
      unfolding hash_lookup_live compact(3) find_map_None by (force simp: live_entries_def split: if_splits)
    with ok(4) have fresh: "abs_key key \<notin> set (bucket_keys (tb_hash c))" by simp
    have at: "tb_hash c ! length ?live = None" using len by (simp add: c nth_append)
    have upd: "tb_array t' = tb_array c" "tb_hash t' = (tb_hash c)[length ?live := Some (key, value)]"
      using t' len by (simp_all add: m' c place_from_empty live_hash_count_def)
    show "table_ok t' \<and> abs_table t' = map_set (abs_table t) (abs_key key) value"
      using table_hash_update [OF compact(1) _ ok(2) _ _ upd] fresh at len ok(3)
      by (simp add: c(1) compact(2) c(2))
  qed
next
  case False
  with m obtain i where m': "m = HashInsert i key value" and i: "i < length (tb_hash t)" "tb_hash t ! i = None"
    by (auto simp: prepare_hash_insert_def prepare_simps dest: empty_bucket_Inr split: if_splits)
  have "abs_key key \<notin> set (bucket_keys (tb_hash t))" using dead False by blast
  then show ?thesis unfolding mutation_ok_def m'
    using table_hash_update [OF ok(1) i(1) ok(2) _ ok(3)] i(2) by simp
qed

lemma new_field_ok:
  fixes t :: "'h lua_table"
  assumes ok: "table_ok t" "key_ok key" "array_lookup (tb_array t) (abs_key key) = None"
      "hash_lookup (tb_hash t) (abs_key key) = None"
    and dead: "abs_key key \<in> set (bucket_keys (tb_hash t)) \<Longrightarrow> length (tb_hash t) - length (tb_hash t) div 4 < live_hash_count t + 1"
    and m: "prepare_new_field env l t key value sw = (Inr m, sw')"
    and v: "value \<noteq> V_Nil" and size: "2 \<le> te_value_size env"
  shows "mutation_ok m t (abs_key key) value"
proof (cases "\<exists>i. array_index key = Some i \<and> i \<le> length (tb_array t)")
  case False
  then have "prepare_hash_insert env l t key value sw = (Inr m, sw')"
    using m by (auto simp: prepare_new_field_def split: option.splits)
  then show ?thesis using hash_insert_ok ok dead v by blast
next
  case True
  then obtain i where i: "array_index key = Some i" "i \<le> length (tb_array t)" by blast
  then have k: "abs_key key = LK_Int (int i + 1)" by (simp add: array_index_abs)
  have free: "hash_lookup (tb_hash t) (LK_Int (int i + 1)) = None" using ok(4) by (simp add: k)
  show ?thesis
  proof (cases "i = length (tb_array t)")
    case False
    with i m have "m = ArraySlot i value" by (auto simp: prepare_new_field_def prepare_simps)
    then show ?thesis unfolding mutation_ok_def k
      using table_array_update [OF ok(1) _ free, of _ "value"] False i(2) by simp
  next
    case True
    with i m obtain n ticket where m': "m = GrowArray ((copy_into (tb_array t) n)[i := Some value]) (Some ticket) None value"
        and n: "doubled 4 i = Inr n" "n < 2 ^ 63"
      by (auto simp: prepare_new_field_def prepare_array_growth_def prepare_simps dest: checked_bytes_bound [OF _ size]
          split: prod.splits)
    have "i < n" using n(1) by (auto simp: doubled_def ok_or_Inr_iff)
    then have len: "i < length (copy_into (tb_array t) n)" by (simp add: copy_into_def True)
    show ?thesis unfolding mutation_ok_def k
    proof (intro allI impI)
      fix t' :: "'h lua_table" assume t': "tb_array t' = effect_array m t" "tb_hash t' = effect_hash m t"
      define c where "c = t'\<lparr>tb_array := copy_into (tb_array t) n\<rparr>"
      have c: "tb_array c = copy_into (tb_array t) n" "tb_hash c = tb_hash t" using t' by (simp_all add: c_def m')
      note copy = table_array_copy [OF ok(1) n(2) c]
      have "tb_array t' = (tb_array c)[i := if value \<noteq> V_Nil then Some value else None]" "tb_hash t' = tb_hash c"
        using t' v by (simp_all add: m' c)
      then show "table_ok t' \<and> abs_table t' = map_set (abs_table t) (LK_Int (int i + 1)) value"
        using table_array_update [OF copy(1), of i t' "value"] len free by (simp add: c copy(2))
    qed
  qed
qed

lemma prepare_set_ok:
  fixes t :: "'h lua_table"
  assumes ok: "table_ok t" "key_ok key" and m: "prepare_set env l t key value sw = (Inr m, sw')"
    and size: "2 \<le> te_value_size env"
  shows "mutation_ok m t (abs_key key) value"
proof (cases "array_value t key")
  case (Some v)
  then obtain i where i: "array_index key = Some i" "i < length (tb_array t)"
    by (auto simp: array_value_def split: option.splits)
  then have k: "abs_key key = LK_Int (int i + 1)" by (simp add: array_index_abs)
  have "hash_lookup (tb_hash t) (LK_Int (int i + 1)) = None"
    using ok(1) Some unfolding table_disjoint array_value_lookup k by (metis option.distinct(1))
  moreover have "m = ArraySlot i value" using m Some i by (simp add: prepare_set_def)
  ultimately show ?thesis unfolding mutation_ok_def k using table_array_update [OF ok(1) i(2)] by simp
next
  case None
  have hok: "hash_ok (tb_hash t)" using ok(1) by (simp add: table_disjoint)
  have arr: "array_lookup (tb_array t) (abs_key key) = None" using None by (simp add: array_value_lookup)
  note look = find_hash_lookup [OF hok ok(2), of env]
  show ?thesis
  proof (cases "find_hash env t key")
    case (Some i)
    then have any: "find_any_hash env t key = Some i"
      by (auto simp: find_hash_def split: option.splits if_splits)
    obtain k v where i: "i < length (tb_hash t)" "tb_hash t ! i = Some (k, v)" "abs_key k = abs_key key"
      by (rule find_any_hash_Some [OF hok ok(2) any])
    have kok: "key_ok k" using hash_ok_at [OF hok i(1,2)] .
    show ?thesis
    proof (cases "value = V_Nil")
      case True
      then obtain k' sw1 where k': "make_dead env l key sw = (Inr k', sw1)" "m = HashSlot i V_Nil (Some k')"
        using m None Some by (auto simp: prepare_set_def prepare_simps)
      note dead = make_dead_ok [OF k'(1)]
      show ?thesis unfolding mutation_ok_def k'(2)
        using table_hash_update [OF ok(1) i(1), of k' _ V_Nil] dead ok(2) i arr True by simp
    next
      case False
      then have m': "m = HashSlot i value None" using m None Some by (simp add: prepare_set_def)
      show ?thesis unfolding mutation_ok_def m'
        using table_hash_update [OF ok(1) i(1) kok, of _ "value"] i arr False by simp
    qed
  next
    case fh: None
    then have free: "hash_lookup (tb_hash t) (abs_key key) = None" using look by simp
    show ?thesis
    proof (cases "value = V_Nil")
      case True
      then have "m = Noop" using m None fh by (simp add: prepare_set_def)
      moreover have "abs_table t (abs_key key) = None" by (simp add: abs_table_def arr free)
      ultimately have "map_set (abs_table t) (abs_key key) value = abs_table t" and "m = Noop"
        using True by (simp_all add: map_set_def fun_upd_idem)
      then show ?thesis unfolding mutation_ok_def
      proof (intro allI impI)
        fix t' :: "'h lua_table" assume "tb_array t' = effect_array m t" and "tb_hash t' = effect_hash m t"
        then have "tb_array t' = tb_array t" and "tb_hash t' = tb_hash t" using \<open>m = Noop\<close> by simp_all
        from table_same_parts [OF this] show "table_ok t' \<and> abs_table t' = map_set (abs_table t) (abs_key key) value"
          using ok(1) \<open>map_set (abs_table t) (abs_key key) value = abs_table t\<close> by simp
      qed
    next
      case vnn: False
      show ?thesis
      proof (cases "find_any_hash env t key")
        case nokey: None
        then have "prepare_new_field env l t key value sw = (Inr m, sw')" using m None fh vnn by (simp add: prepare_set_def)
        then show ?thesis using new_field_ok [OF ok arr free _ _ vnn size] find_any_hash_None [OF hok ok(2) nokey] by blast
      next
        case (Some i)
        obtain k u where i: "i < length (tb_hash t)" "tb_hash t ! i = Some (k, u)" "abs_key k = abs_key key"
          by (rule find_any_hash_Some [OF hok ok(2) Some])
        show ?thesis
        proof (cases "live_hash_count t + 1 \<le> length (tb_hash t) - length (tb_hash t) div 4")
          case True
          then have "m = HashReplace i key value" using m None fh vnn Some by (auto simp: prepare_set_def prepare_simps)
          then show ?thesis unfolding mutation_ok_def using table_hash_update [OF ok(1) i(1) ok(2)] i arr by simp
        next
          case False
          then have "prepare_new_field env l t key value sw = (Inr m, sw')"
            using m None fh vnn Some by (auto simp: prepare_set_def prepare_simps)
          then show ?thesis using new_field_ok [OF ok arr free _ _ vnn size] False by simp
        qed
      qed
    qed
  qed
qed

subsection \<open>Lookup by name and the border\<close>

lemma find_map_unique:
  assumes "x \<in> set xs" and "f x = Some v" and "\<And>y w. y \<in> set xs \<Longrightarrow> f y = Some w \<Longrightarrow> w = v"
  shows "find_map f xs = Some v"
  using assms by (induction xs) (fastforce split: option.splits)+

lemma find_map_at: "find_map f xs = Some v \<Longrightarrow> \<exists>x\<in>set xs. f x = Some v"
  by (induction xs) (auto split: option.splits)

lemma get_byte_key_lookup:
  assumes "hash_ok (tb_hash t)"
  shows "get_byte_key env t name = map_get (hash_lookup (tb_hash t)) (LK_String name)"
proof -
  let ?n = "length (tb_hash t)" and ?start = "seeded_hash env (tb_hash_seed t) [Hash_u8 3, Hash_bytes name] mod length (tb_hash t)"
  let ?f = "\<lambda>i. case tb_hash t ! i of None \<Rightarrow> None
    | Some (key, value) \<Rightarrow> if value \<noteq> V_Nil \<and> string_bytes key = Some name then Some value else None"
  have f: "?f i = Some v \<longleftrightarrow> (\<exists>k. tb_hash t ! i = Some (k, v) \<and> v \<noteq> V_Nil \<and> abs_key k = LK_String name)" for i v
    by (auto simp: string_bytes_abs split: option.splits lua_key.splits if_splits)
  show ?thesis
  proof (cases "?n = 0")
    case True
    then show ?thesis by (simp add: get_byte_key_def map_get_def hash_lookup_def)
  next
    case False
    then have probes: "set (probes ?start ?n) = {..<?n}" by (intro set_probes) simp
    have "find_map ?f (probes ?start ?n) = hash_lookup (tb_hash t) (LK_String name)"
    proof (cases "hash_lookup (tb_hash t) (LK_String name)")
      case None
      then have "?f i = None" if "i < ?n" for i
      proof (cases "?f i")
        case (Some v)
        then obtain k where k: "tb_hash t ! i = Some (k, v)" "v \<noteq> V_Nil" "abs_key k = LK_String name" using f by blast
        with hash_lookup_at [OF assms that k(1)] None show ?thesis by simp
      qed
      then show ?thesis using None probes by (simp add: find_map_None)
    next
      case (Some v)
      obtain i where i: "i < ?n" "?f i = Some v"
        using find_map_at [OF Some [unfolded hash_lookup_def]] f by (fastforce simp: in_flatten split: if_splits)
      have uniq: "w = v" if j: "j < ?n" and w: "?f j = Some w" for j w
      proof -
        obtain k where k: "tb_hash t ! j = Some (k, w)" "w \<noteq> V_Nil" "abs_key k = LK_String name" using w f by blast
        with hash_lookup_at [OF assms j k(1)] Some show ?thesis by simp
      qed
      have "find_map ?f (probes ?start ?n) = Some v"
      proof (rule find_map_unique [of i])
        show "i \<in> set (probes ?start ?n)" unfolding probes using i(1) by simp
        fix j w assume "j \<in> set (probes ?start ?n)" and "?f j = Some w"
        then show "w = v" using uniq unfolding probes by blast
      qed (rule i(2))
      then show ?thesis using Some by (simp only:)
    qed
    then show ?thesis using False by (simp add: get_byte_key_def map_get_def Let_def)
  qed
qed

lemma abs_table_name: "abs_table t (LK_String name) = hash_lookup (tb_hash t) (LK_String name)"
  by (simp add: abs_table_def array_lookup_def)

lemma get_integer_abs: "table_ok t \<Longrightarrow> get_integer env t i = map_get (abs_table t) (LK_Int (sint i))"
  by (simp add: get_integer_def table_get_refines)

lemma abs_table_not_nil:
  assumes "table_ok t"
  shows "abs_table t k \<noteq> Some V_Nil"
proof -
  have "array_lookup (tb_array t) k \<noteq> Some V_Nil"
    using assms nth_mem by (fastforce simp: table_disjoint array_lookup_def split: lua_key.splits option.splits if_splits)
  moreover have "find_map (entry_value k) xs \<noteq> Some V_Nil" for xs :: "('a key_kind \<times> lua_value) list"
    by (induction xs) (auto split: option.splits if_splits)
  ultimately show ?thesis by (auto simp: abs_table_def hash_lookup_def split: option.splits)
qed

lemma map_get_nil: "table_ok t \<Longrightarrow> map_get (abs_table t) k = V_Nil \<longleftrightarrow> abs_table t k = None"
  using abs_table_not_nil [of t k] by (cases "abs_table t k") (auto simp: map_get_def)

lemma border_loop_border:
  assumes "table_ok t" and "0 \<le> sint b" and "\<forall>i. 1 \<le> i \<and> i \<le> sint b \<longrightarrow> abs_table t (LK_Int i) \<noteq> None"
  shows "let r = sint (border_loop env t b) in 0 \<le> r \<and> (\<forall>i. 1 \<le> i \<and> i \<le> r \<longrightarrow> abs_table t (LK_Int i) \<noteq> None)
    \<and> (r < 2 ^ 63 - 1 \<longrightarrow> abs_table t (LK_Int (r + 1)) = None)"
  using assms
proof (induction env t b rule: border_loop.induct)
  case (1 env t b)
  show ?case
  proof (cases "b = i64_max")
    case True
    then have "border_loop env t b = b" by (subst border_loop.simps) simp
    then show ?thesis using True "1.prems" by (simp add: sint_i64_max)
  next
    case b: False
    note s = sint_succ [OF b]
    have get: "get_integer env t (b + 1) = V_Nil \<longleftrightarrow> abs_table t (LK_Int (sint b + 1)) = None"
      using "1.prems"(1) s by (simp add: get_integer_abs map_get_nil)
    show ?thesis
    proof (cases "get_integer env t (b + 1) = V_Nil")
      case True
      then have "border_loop env t b = b" using b by (subst border_loop.simps) simp
      then show ?thesis using True get "1.prems" by simp
    next
      case False
      then have "border_loop env t b = border_loop env t (b + 1)" using b by (subst border_loop.simps) simp
      moreover have "abs_table t (LK_Int i) \<noteq> None" if "1 \<le> i \<and> i \<le> sint (b + 1)" for i
        using that "1.prems"(3) get False s by (cases "i = sint b + 1") auto
      ultimately show ?thesis using "1.IH" [OF b False] "1.prems"(1,2) s by auto
    qed
  qed
qed

subsection \<open>A table as a map\<close>

text \<open>
  The contract of a map from keys to values other than nil: what a lookup returns and what an
  assignment does, through the abstract map a state stands for. \<open>put t k v t'\<close> says that assigning
  \<open>v\<close> to \<open>k\<close> may take \<open>t\<close> to \<open>t'\<close>.
\<close>

locale lua_map =
  fixes inv :: "'t \<Rightarrow> bool" and kinv :: "'k \<Rightarrow> bool" and abst :: "'t \<Rightarrow> lua_key \<Rightarrow> lua_value option"
    and kabs :: "'k \<Rightarrow> lua_key" and get :: "'t \<Rightarrow> 'k \<Rightarrow> lua_value" and put :: "'t \<Rightarrow> 'k \<Rightarrow> lua_value \<Rightarrow> 't \<Rightarrow> bool"
  assumes get_abs: "inv t \<Longrightarrow> kinv k \<Longrightarrow> get t k = map_get (abst t) (kabs k)"
    and put_inv: "inv t \<Longrightarrow> kinv k \<Longrightarrow> put t k v t' \<Longrightarrow> inv t'"
    and put_abs: "inv t \<Longrightarrow> kinv k \<Longrightarrow> put t k v t' \<Longrightarrow> abst t' = map_set (abst t) (kabs k) v"
begin

lemma get_put:
  assumes "inv t" and "kinv k" and "kinv k'" and "put t k v t'"
  shows "get t' k' = (if kabs k' = kabs k then v else get t k')"
  using assms put_inv [OF assms(1,2,4)] by (simp add: get_abs put_abs map_get_def map_set_def)

lemma puts_inv:
  assumes "(\<lambda>t t'. \<exists>k v. kinv k \<and> put t k v t')\<^sup>*\<^sup>* t t'" and "inv t"
  shows "inv t'"
  using assms by (induction rule: rtranclp_induct) (auto intro: put_inv)

end

text \<open>A whole assignment to a table: prepared, accounted for and applied, in any state of the ledger.\<close>

definition table_put :: "table_env \<Rightarrow> 'h ledger \<Rightarrow> 'h lua_table \<Rightarrow> 'h key_kind \<Rightarrow> lua_value \<Rightarrow> 'h lua_table \<Rightarrow> bool" where
  "table_put env l t key value t' \<longleftrightarrow> 2 \<le> te_value_size env
     \<and> (\<exists>sw1 m sw2 sw3 r m' sw4 sw5 sw6. prepare_set env l t key value sw1 = (Inr m, sw2)
          \<and> commit_accounting m sw3 = (Inr r, m', sw4) \<and> apply_mutation m' t sw5 = (t', sw6))"

lemma table_put_ok:
  assumes "table_ok t" and "key_ok key" and "table_put env l t key v t'"
  shows "table_ok t'" and "abs_table t' = map_set (abs_table t) (abs_key key) v"
proof -
  obtain sw1 m sw2 sw3 r m' sw4 sw5 sw6 where m: "prepare_set env l t key v sw1 = (Inr m, sw2)"
      and c: "commit_accounting m sw3 = (Inr r, m', sw4)" and a: "apply_mutation m' t sw5 = (t', sw6)"
      and size: "2 \<le> te_value_size env"
    using assms(3) by (auto simp: table_put_def)
  have "tb_array t' = effect_array m t" "tb_hash t' = effect_hash m t"
    using apply_mutation_parts [of m' t sw5] commit_accounting_effect [OF c] a by simp_all
  with prepare_set_ok [OF assms(1,2) m size] show "table_ok t'" and "abs_table t' = map_set (abs_table t) (abs_key key) v"
    by (simp_all add: mutation_ok_def)
qed

interpretation table_map: lua_map table_ok key_ok abs_table abs_key "table_get env" "table_put env l" for env l
  by unfold_locales (simp_all add: table_get_refines table_put_ok)

text \<open>
  C5: Lookup refines the map a table stands for: whatever the hash function and the order in which
  the buckets are probed, reading a key returns the value of that key in the map, and nil when it has
  none; reading a string key by its bytes, without a string object, returns the same.
\<close>

theorem table_lookup_refines:
  assumes "table_ok t" and "key_ok key"
  shows "table_get env t key = map_get (abs_table t) (abs_key key)
    \<and> get_byte_key env t name = map_get (abs_table t) (LK_String name)"
proof
  show "table_get env t key = map_get (abs_table t) (abs_key key)" by (rule table_map.get_abs [OF assms])
  have "hash_ok (tb_hash t)" using assms(1) by (simp add: table_disjoint)
  then show "get_byte_key env t name = map_get (abs_table t) (LK_String name)"
    by (simp add: get_byte_key_lookup map_get_def abs_table_name)
qed

definition example_table :: "unit lua_table" where
  "example_table = \<lparr>tb_metatable = None, tb_weak_mode = Strong, tb_hash_seed = 0, mutation_version = 0,
     tb_array = [Some (V_Boolean True), None], tb_hash = [None, Some (Key_Integer 9, V_Boolean False)],
     tb_charges = paired_new (internal_ledger 0)\<rparr>"

definition example_env :: table_env where
  "example_env = \<lparr>te_alloc = \<lparr>ae_ok = (\<lambda>_. True), ae_site = (\<lambda>_. example_site)\<rparr>, te_value_size = 16,
     te_bucket_size = 48, te_string_key_size = 64, te_key_excess = 0, te_hasher = (\<lambda>_. 0)\<rparr>"

lemma example_table_ok: "table_ok example_table"
  by (simp add: table_ok_def example_table_def hash_ok_def bucket_keys_def live_entries_def array_lookup_def get_at_def)

lemma table_lookup_refines_witness:
  "table_ok example_table \<and> table_get example_env example_table (Key_Integer 9)
     = map_get (abs_table example_table) (LK_Int 9) \<and> map_get (abs_table example_table) (LK_Int 9) = V_Boolean False"
  using table_lookup_refines [OF example_table_ok, of "Key_Integer 9" example_env] example_table_ok
  by (simp add: map_get_def abs_table_def hash_lookup_def array_lookup_def get_at_def example_table_def)

text \<open>
  C2: An assignment refines the update of the map: when preparing, accounting for and applying it
  succeed, the invariant holds afterwards, the table stands for the old map with that one key
  assigned (or removed, for nil), and a later lookup of any key returns the new value for that key and
  the old one for every other, wherever the field was put and whichever part had to grow.
\<close>

theorem table_set_refines:
  assumes "table_ok t" and "key_ok key" and "2 \<le> te_value_size env"
    and "prepare_set env l t key value sw1 = (Inr m, sw2)" and "commit_accounting m sw3 = (Inr r, m', sw4)"
    and "apply_mutation m' t sw5 = (t', sw6)"
  shows "table_ok t' \<and> abs_table t' = map_set (abs_table t) (abs_key key) value
    \<and> (\<forall>k. key_ok k \<longrightarrow> table_get env t' k = (if key_eq k key then value else table_get env t k))"
proof -
  have put: "table_put env l t key value t'" unfolding table_put_def using assms(3-) by blast
  show ?thesis
    using table_map.put_inv [OF assms(1,2) put] table_map.put_abs [OF assms(1,2) put]
      table_map.get_put [OF assms(1,2) _ put] assms(2) by (simp add: key_eq_abs)
qed

definition example_strings :: "unit string_world" where
  "example_strings = \<lparr>sw_world = example_world,
     sw_shared = (\<lambda>_. \<lparr>mb_charges = paired_new (internal_ledger 0), mb_owners = 0\<rparr>)\<rparr>"

lemma example_prepare:
  "prepare_set example_env (internal_ledger 0) example_table (Key_Integer 1) V_Nil example_strings
     = (Inr (ArraySlot 0 V_Nil), example_strings)"
  by (simp add: prepare_set_def array_value_def example_table_def get_at_def)

lemma table_set_refines_witness:
  "\<exists>t'. apply_mutation (ArraySlot 0 V_Nil) example_table example_strings = (t', example_strings)
     \<and> table_ok t' \<and> abs_table t' = map_set (abs_table example_table) (LK_Int 1) V_Nil"
proof -
  obtain t' where t': "apply_mutation (ArraySlot 0 V_Nil) example_table example_strings = (t', example_strings)"
    by (simp add: apply_mutation_def)
  have "2 \<le> te_value_size example_env" and "key_ok (Key_Integer 1 :: unit key_kind)" by (simp_all add: example_env_def)
  from table_set_refines [OF example_table_ok this(2,1) example_prepare _ t', of undefined "()" undefined] t' show ?thesis
    by simp
qed

text \<open>
  C35: The length operator returns a border: every integer from 1 up to the result has a value in the
  table, and the next one has none (unless the result is the largest integer, where the search stops
  instead of wrapping around). The search always ends.
\<close>

theorem border_len_is_border:
  assumes "table_ok t"
  shows "0 \<le> sint (border_len env t) \<and> (\<forall>i. 1 \<le> i \<and> i \<le> sint (border_len env t) \<longrightarrow> abs_table t (LK_Int i) \<noteq> None)
    \<and> (sint (border_len env t) < 2 ^ 63 - 1 \<longrightarrow> abs_table t (LK_Int (sint (border_len env t) + 1)) = None)"
proof -
  have "\<forall>i. 1 \<le> i \<and> i \<le> sint (0 :: i64) \<longrightarrow> abs_table t (LK_Int i) \<noteq> None" by auto
  from border_loop_border [OF assms _ this, of env] show ?thesis by (simp add: border_len_def Let_def)
qed

lemma border_len_is_border_witness:
  "table_ok example_table \<and> 0 \<le> sint (border_len example_env example_table)"
  using border_len_is_border [OF example_table_ok, of example_env] example_table_ok by simp

end
