(* ===== verification/Table_Pair.thy ===== *)
theory Table_Pair
  imports Table_Spec
begin

text \<open>
  The paired write of \<open>table.rs\<close> (\<open>prepare_ref_pair\<close>): one transaction that grows each part of the
  table at most once and stores two integer fields has the effect of two single assignments.
\<close>

subsection \<open>Slots of the pair\<close>

text \<open>Where a field of the pair may go in the grown table.\<close>

definition slot_valid :: "'h lua_table \<Rightarrow> i64 \<Rightarrow> ref_pair_slot \<Rightarrow> bool" where
  "slot_valid t key slot \<longleftrightarrow> (case slot of
     Slot_Array i \<Rightarrow> sint key = int i + 1 \<and> i < length (tb_array t) \<and> hash_lookup (tb_hash t) (LK_Int (sint key)) = None
   | Slot_HashExisting i \<Rightarrow> i < length (tb_hash t) \<and> array_lookup (tb_array t) (LK_Int (sint key)) = None
       \<and> (\<exists>k v. tb_hash t ! i = Some (k, v) \<and> abs_key k = LK_Int (sint key))
   | Slot_HashNew i \<Rightarrow> i < length (tb_hash t) \<and> array_lookup (tb_array t) (LK_Int (sint key)) = None
       \<and> tb_hash t ! i = None \<and> LK_Int (sint key) \<notin> set (bucket_keys (tb_hash t)))"

lemma apply_ref_entry_ok:
  assumes ok: "table_ok t" and valid: "slot_valid t (rp_key e) (rp_slot e)" and v: "rp_value e \<noteq> V_Nil"
    and t': "apply_ref_entry e t sw = (t', sw')"
  shows "table_ok t'" and "abs_table t' = map_set (abs_table t) (LK_Int (sint (rp_key e))) (rp_value e)"
proof -
  have "table_ok t' \<and> abs_table t' = map_set (abs_table t) (LK_Int (sint (rp_key e))) (rp_value e)"
  proof (cases "rp_slot e")
    case (Slot_Array i)
    then show ?thesis
      using table_array_update [OF ok, of i t' "rp_value e"] valid v t' by (auto simp: slot_valid_def apply_ref_entry_def)
  next
    case (Slot_HashExisting i)
    then obtain k u where i: "i < length (tb_hash t)" "tb_hash t ! i = Some (k, u)" "abs_key k = LK_Int (sint (rp_key e))"
        "array_lookup (tb_array t) (LK_Int (sint (rp_key e))) = None"
      using valid by (auto simp: slot_valid_def)
    have "key_ok k" using ok hash_ok_at [OF _ i(1,2)] by (simp add: table_disjoint)
    then show ?thesis
      using table_hash_update [OF ok i(1), of k t' "rp_value e"] i t' Slot_HashExisting by (auto simp: apply_ref_entry_def)
  next
    case (Slot_HashNew i)
    then show ?thesis
      using table_hash_update [OF ok, of i "Key_Integer (rp_key e)" t' "rp_value e"] valid t'
      by (auto simp: slot_valid_def apply_ref_entry_def)
  qed
  then show "table_ok t'" and "abs_table t' = map_set (abs_table t) (LK_Int (sint (rp_key e))) (rp_value e)" by simp_all
qed

lemma apply_ref_entry_keeps:
  assumes ok: "table_ok t" and valid: "slot_valid t (rp_key e) (rp_slot e)" and other: "slot_valid t key slot"
    and keys: "rp_key e \<noteq> key" and slots: "\<And>i. rp_slot e = Slot_HashNew i \<Longrightarrow> slot \<noteq> Slot_HashNew i"
    and v: "rp_value e \<noteq> V_Nil" and t': "apply_ref_entry e t sw = (t', sw')"
  shows "slot_valid t' key slot"
proof -
  have hok: "hash_ok (tb_hash t)" using ok by (simp add: table_disjoint)
  have key: "LK_Int (sint key) \<noteq> LK_Int (sint (rp_key e))" using keys by (simp add: sint_eq_iff)
  show ?thesis
  proof (cases "rp_slot e")
    case (Slot_Array i)
    then have "sint (rp_key e) = int i + 1" "i < length (tb_array t)" and t: "tb_array t' = (tb_array t)[i := Some (rp_value e)]" "tb_hash t' = tb_hash t"
      using valid t' by (auto simp: slot_valid_def apply_ref_entry_def)
    then have "array_lookup (tb_array t') (LK_Int (sint key)) = array_lookup (tb_array t) (LK_Int (sint key))"
      using key by (simp add: array_lookup_update)
    with other t show ?thesis by (auto simp: slot_valid_def split: ref_pair_slot.splits)
  next
    case (Slot_HashExisting i)
    then obtain k u where i: "i < length (tb_hash t)" "tb_hash t ! i = Some (k, u)" "abs_key k = LK_Int (sint (rp_key e))"
      using valid by (auto simp: slot_valid_def)
    have t: "tb_array t' = tb_array t" "tb_hash t' = (tb_hash t)[i := Some (k, rp_value e)]"
      using t' i Slot_HashExisting by (auto simp: apply_ref_entry_def)
    note upd = hash_update [OF i(1) hok hash_ok_at [OF hok i(1,2)], of "rp_value e"]
    have look: "hash_lookup (tb_hash t') (LK_Int (sint key)) = hash_lookup (tb_hash t) (LK_Int (sint key))"
      using upd(2) i key t by simp
    have "bucket_keys (tb_hash t') = bucket_keys (tb_hash t)"
      using bucket_keys_update [OF i(1), of "Some (k, rp_value e)"] bucket_keys_split [OF i(1)] i(2) t by simp
    with look show ?thesis using other t i key by (auto simp: slot_valid_def nth_list_update split: ref_pair_slot.splits)
  next
    case (Slot_HashNew i)
    then have i: "i < length (tb_hash t)" "tb_hash t ! i = None" "LK_Int (sint (rp_key e)) \<notin> set (bucket_keys (tb_hash t))"
      and t: "tb_array t' = tb_array t" "tb_hash t' = (tb_hash t)[i := Some (Key_Integer (rp_key e), rp_value e)]"
      using valid t' by (auto simp: slot_valid_def apply_ref_entry_def)
    note upd = hash_update [OF i(1) hok, of "Key_Integer (rp_key e)" "rp_value e"]
    have look: "hash_lookup (tb_hash t') (LK_Int (sint key)) = hash_lookup (tb_hash t) (LK_Int (sint key))"
      using upd(2) i key t by simp
    have "set (bucket_keys (tb_hash t')) \<subseteq> insert (LK_Int (sint (rp_key e))) (set (bucket_keys (tb_hash t)))"
      using bucket_keys_update [OF i(1), of "Some (Key_Integer (rp_key e), rp_value e)"] bucket_keys_split [OF i(1)] i(2) t
      by auto
    with look show ?thesis using other t i key slots Slot_HashNew
      by (auto simp: slot_valid_def nth_list_update split: ref_pair_slot.splits)
  qed
qed

lemma apply_ref_entries_ok:
  assumes "table_ok t" and "list_all (\<lambda>e. slot_valid t (rp_key e) (rp_slot e) \<and> rp_value e \<noteq> V_Nil) es"
    and "distinct (map rp_key es)" and "\<And>i. length (filter (\<lambda>e. rp_slot e = Slot_HashNew i) es) \<le> 1"
    and "apply_ref_entries es t sw = (t', sw')"
  shows "table_ok t' \<and> abs_table t' = foldl (\<lambda>m e. map_set m (LK_Int (sint (rp_key e))) (rp_value e)) (abs_table t) es"
  using assms
proof (induction es arbitrary: t sw)
  case (Cons e es)
  obtain t1 sw1 where t1: "apply_ref_entry e t sw = (t1, sw1)" by fastforce
  have e: "slot_valid t (rp_key e) (rp_slot e)" "rp_value e \<noteq> V_Nil" using Cons.prems(2) by simp_all
  have "slot_valid t1 (rp_key f) (rp_slot f)" if f: "f \<in> set es" for f
  proof (rule apply_ref_entry_keeps [OF Cons.prems(1) e(1) _ _ _ e(2) t1])
    show "slot_valid t (rp_key f) (rp_slot f)" "rp_key e \<noteq> rp_key f"
      using Cons.prems(2,3) f by (auto simp: list_all_iff)
    fix i assume "rp_slot e = Slot_HashNew i"
    then have "filter (\<lambda>e. rp_slot e = Slot_HashNew i) es = []" using Cons.prems(4) [of i] by simp
    then show "rp_slot f \<noteq> Slot_HashNew i" using f by (auto simp: filter_empty_conv)
  qed
  then have "list_all (\<lambda>e. slot_valid t1 (rp_key e) (rp_slot e) \<and> rp_value e \<noteq> V_Nil) es"
    using Cons.prems(2) by (auto simp: list_all_iff)
  moreover have "length (filter (\<lambda>e. rp_slot e = Slot_HashNew i) es) \<le> 1" for i
    using Cons.prems(4) [of i] by (simp split: if_splits)
  ultimately show ?case
    using Cons.IH [OF apply_ref_entry_ok(1) [OF Cons.prems(1) e t1]] Cons.prems(3,5) t1
      apply_ref_entry_ok(2) [OF Cons.prems(1) e t1] by simp
qed simp

definition raw_slot :: "'h lua_table \<Rightarrow> nat \<Rightarrow> i64 \<Rightarrow> ref_pair_slot \<Rightarrow> bool" where
  "raw_slot t array_len key slot \<longleftrightarrow> (case slot of
     Slot_Array i \<Rightarrow> sint key = int i + 1 \<and> i < array_len \<and> hash_lookup (tb_hash t) (LK_Int (sint key)) = None
   | Slot_HashExisting i \<Rightarrow> i < length (tb_hash t) \<and> array_lookup (tb_array t) (LK_Int (sint key)) = None
       \<and> (\<exists>k v. tb_hash t ! i = Some (k, v) \<and> abs_key k = LK_Int (sint key))
   | Slot_HashNew _ \<Rightarrow> array_lookup (tb_array t) (LK_Int (sint key)) = None
       \<and> LK_Int (sint key) \<notin> set (bucket_keys (tb_hash t)))"

fun bucket_needed :: "'h lua_table \<Rightarrow> ref_pair_slot option \<Rightarrow> nat" where
  "bucket_needed t (Some (Slot_HashExisting i)) = (if bucket_dead t i then 1 else 0)"
| "bucket_needed t (Some (Slot_HashNew _)) = 1"
| "bucket_needed t _ = 0"

definition slot_for :: "(i64 \<Rightarrow> ref_pair_slot \<Rightarrow> bool) \<Rightarrow> (i64 \<times> lua_value) option \<Rightarrow> ref_pair_slot option \<Rightarrow> bool" where
  "slot_for P v s \<longleftrightarrow> (case v of None \<Rightarrow> s = None | Some (key, _) \<Rightarrow> (\<exists>x. s = Some x \<and> P key x))"

lemma ref_slot_ok:
  assumes ok: "table_ok t" and len: "length (tb_array t) \<le> array_len"
    and r: "ref_slot l env t array_len key n sw = (Inr (slot, n'), sw')"
  shows "raw_slot t array_len key slot" and "n' = n + bucket_needed t (Some slot)"
proof -
  have hok: "hash_ok (tb_hash t)" using ok by (simp add: table_disjoint)
  let ?k = "Key_Integer key :: 'a key_kind"
  have "raw_slot t array_len key slot \<and> n' = n + bucket_needed t (Some slot)"
  proof (cases "array_value t ?k")
    case (Some v)
    then obtain i where i: "array_index ?k = Some i" "i < length (tb_array t)"
      by (auto simp: array_value_def split: option.splits if_splits)
    have "hash_lookup (tb_hash t) (LK_Int (sint key)) = None"
      using ok Some unfolding table_disjoint array_value_lookup by (metis abs_key.simps(1) option.distinct(1))
    then show ?thesis using r Some i len
      by (auto simp: ref_slot_def Let_def raw_slot_def array_index_abs [where k = ?k] split: if_splits)
  next
    case None
    then have arr: "array_lookup (tb_array t) (LK_Int (sint key)) = None" by (simp add: array_value_lookup)
    show ?thesis
    proof (cases "find_any_hash env t ?k")
      case (Some i)
      obtain k v where i: "i < length (tb_hash t)" "tb_hash t ! i = Some (k, v)" "abs_key k = LK_Int (sint key)"
        using find_any_hash_Some [OF hok _ Some] by auto
      then show ?thesis using r None Some arr
        by (auto simp: ref_slot_def prepare_simps raw_slot_def split: if_splits)
    next
      case any: None
      have free: "LK_Int (sint key) \<notin> set (bucket_keys (tb_hash t))" using find_any_hash_None [OF hok _ any] by simp
      have "(\<exists>i. slot = Slot_Array i \<and> array_index ?k = Some i \<and> i < array_len \<and> n' = n) \<or> slot = Slot_HashNew 0 \<and> n' = n + 1"
        using r None any by (auto simp: ref_slot_def prepare_simps split: if_splits)
      then show ?thesis
      proof
        assume "\<exists>i. slot = Slot_Array i \<and> array_index ?k = Some i \<and> i < array_len \<and> n' = n"
        then show ?thesis using free hash_lookup_no_key
          by (auto simp: raw_slot_def array_index_abs [where k = ?k] simp del: array_index.simps)
      next
        assume "slot = Slot_HashNew 0 \<and> n' = n + 1"
        then show ?thesis using arr free by (simp add: raw_slot_def)
      qed
    qed
  qed
  then show "raw_slot t array_len key slot" and "n' = n + bucket_needed t (Some slot)" by simp_all
qed

lemma ref_slots_ok:
  assumes "table_ok t" and "length (tb_array t) \<le> array_len"
    and "ref_slots l env t array_len vs n sw = (Inr (slots, n'), sw')"
  shows "list_all2 (slot_for (raw_slot t array_len)) vs slots \<and> n' = n + sum_list (map (bucket_needed t) slots)"
  using assms(3)
proof (induction vs arbitrary: n sw slots)
  case (Cons v vs)
  show ?case
  proof (cases v)
    case None
    then obtain rest where "slots = None # rest" "ref_slots l env t array_len vs n sw = (Inr (rest, n'), sw')"
      using Cons.prems by (auto simp: try_else_Inr)
    with Cons.IH None show ?thesis by (simp add: slot_for_def)
  next
    case (Some kv)
    obtain key u where kv: "kv = (key, u)" by fastforce
    obtain slot m sw1 rest where *: "ref_slot l env t array_len key n sw = (Inr (slot, m), sw1)"
        "ref_slots l env t array_len vs m sw1 = (Inr (rest, n'), sw')" "slots = Some slot # rest"
      using Cons.prems by (auto simp: try_else_Inr Some kv)
    with Cons.IH [OF *(2)] ref_slot_ok [OF assms(1,2) *(1)] Some kv show ?thesis by (simp add: slot_for_def)
  qed
qed simp

lemma hash_lookup_None_live:
  "hash_lookup buckets k = None \<longleftrightarrow> k \<notin> set (map (\<lambda>(key, _). abs_key key) (live_entries buckets))"
  unfolding hash_lookup_live find_map_None by (force simp: live_entries_def split: if_splits)

lemma live_entries_split:
  assumes "i < length buckets" and "buckets ! i = Some (k, v)" and "v \<noteq> V_Nil"
  shows "live_entries buckets = live_entries (take i buckets) @ (k, v) # live_entries (drop (Suc i) buckets)"
  unfolding live_entries_def using assms by (subst flatten_split [OF assms(1)]) simp

fun new_indices :: "ref_pair_slot option list \<Rightarrow> nat list" where
  "new_indices (Some (Slot_HashNew i) # ss) = i # new_indices ss"
| "new_indices (_ # ss) = new_indices ss"
| "new_indices [] = []"

lemma slot_forE:
  assumes "slot_for P v s"
  obtains (none) "v = None" "s = None"
    | (array) key u i where "v = Some (key, u)" "s = Some (Slot_Array i)" "P key (Slot_Array i)"
    | (new) key u i where "v = Some (key, u)" "s = Some (Slot_HashNew i)" "P key (Slot_HashNew i)"
    | (old) key u i where "v = Some (key, u)" "s = Some (Slot_HashExisting i)" "P key (Slot_HashExisting i)"
proof (cases v)
  case None
  then show ?thesis using assms none by (simp add: slot_for_def)
next
  case (Some kv)
  moreover obtain key u where "kv = (key, u)" by fastforce
  moreover obtain x where "s = Some x" "P (fst kv) x" using assms Some by (auto simp: slot_for_def split: prod.splits)
  ultimately show ?thesis using array new old by (cases x) auto
qed

text \<open>The table between the growth of its parts and the writes.\<close>

definition grown :: "'h lua_table \<Rightarrow> nat \<Rightarrow> nat option \<Rightarrow> 'h lua_table \<Rightarrow> bool" where
  "grown t array_len hash_len t1 \<longleftrightarrow> tb_array t1 = copy_into (tb_array t) array_len \<and> length (tb_array t) \<le> array_len
     \<and> tb_hash t1 = (case hash_len of None \<Rightarrow> tb_hash t
         | Some n \<Rightarrow> map Some (live_entries (tb_hash t)) @ replicate (n - live_hash_count t) None)"

lemma grown_ok:
  assumes "table_ok t" and "grown t array_len hash_len t1" and "array_len < 2 ^ 63"
  shows "table_ok t1" and "abs_table t1 = abs_table t"
proof -
  define c where "c = t1\<lparr>tb_hash := tb_hash t\<rparr>"
  have c: "tb_array c = copy_into (tb_array t) array_len" "tb_hash c = tb_hash t"
    using assms(2) by (simp_all add: grown_def c_def)
  note copy = table_array_copy [OF assms(1,3) c]
  have "table_ok t1 \<and> abs_table t1 = abs_table t"
  proof (cases hash_len)
    case None
    then have "tb_array t1 = tb_array c" "tb_hash t1 = tb_hash c" using assms(2) by (simp_all add: grown_def c_def)
    from table_same_parts [OF this] copy show ?thesis by simp
  next
    case (Some n)
    then have "tb_array t1 = tb_array c" "tb_hash t1 = map Some (live_entries (tb_hash c)) @ replicate (n - live_hash_count t) None"
      using assms(2) by (simp_all add: grown_def c_def)
    from table_hash_compact(1,2) [OF copy(1) this] copy(2) show ?thesis by simp
  qed
  then show "table_ok t1" and "abs_table t1 = abs_table t" by simp_all
qed

lemma grown_array_lookup: "grown t array_len hash_len t1 \<Longrightarrow> array_lookup (tb_array t1) = array_lookup (tb_array t)"
  by (simp add: grown_def array_lookup_copy)

lemma grown_hash_lookup: "grown t array_len hash_len t1 \<Longrightarrow> hash_lookup (tb_hash t1) = hash_lookup (tb_hash t)"
  by (auto simp: grown_def hash_lookup_live fun_eq_iff hash_lookup_def live_entries_def filter_map split: option.splits)

lemma place_growing:
  assumes ok: "table_ok t" and g: "grown t array_len (Some n) t1"
    and "list_all2 (slot_for (raw_slot t array_len)) vs ss"
    and "live_hash_count t \<le> next" and "next + sum_list (map (bucket_needed t) ss) \<le> n"
    and "ref_place env t True next claimed vs ss = Inr fs"
  shows "list_all2 (slot_for (slot_valid t1)) vs fs \<and> distinct (new_indices fs) \<and> (\<forall>i\<in>set (new_indices fs). next \<le> i)"
  using assms(3-)
proof (induction vs ss arbitrary: "next" fs rule: list_all2_induct)
  case (Cons v vs s ss)
  have hash: "tb_hash t1 = map Some (live_entries (tb_hash t)) @ replicate (n - live_hash_count t) None"
    and alen: "length (tb_array t1) = array_len" using g by (simp_all add: grown_def copy_into_def)
  note look = grown_array_lookup [OF g] grown_hash_lookup [OF g]
  have fresh: "slot_valid t1 key (Slot_HashNew next)"
    if "hash_lookup (tb_hash t) (LK_Int (sint key)) = None" "array_lookup (tb_array t) (LK_Int (sint key)) = None" "next < n" for key
    using that Cons.prems(1) unfolding slot_valid_def hash_lookup_None_live
    by (auto simp: look hash nth_append live_hash_count_def bucket_keys_def)
  have hok: "hash_ok (tb_hash t)" using ok by (simp add: table_disjoint)
  consider (none) "v = None" "s = None" | (array) key u i where "v = Some (key, u)" "s = Some (Slot_Array i)" "raw_slot t array_len key (Slot_Array i)"
    | (new) key u i where "v = Some (key, u)" "s = Some (Slot_HashNew i)" "raw_slot t array_len key (Slot_HashNew i)"
    | (dead) key u i where "v = Some (key, u)" "s = Some (Slot_HashExisting i)" "raw_slot t array_len key (Slot_HashExisting i)" "bucket_dead t i"
    | (live) key u i where "v = Some (key, u)" "s = Some (Slot_HashExisting i)" "raw_slot t array_len key (Slot_HashExisting i)" "\<not> bucket_dead t i"
    using Cons.hyps(1) by (elim slot_forE) blast+
  then show ?case
  proof cases
    case none
    then obtain rest where "ref_place env t True next claimed vs ss = Inr rest" "fs = None # rest"
      using Cons.prems(3) by (auto simp: rbind_Inr_iff)
    with Cons.IH [OF Cons.prems(1)] Cons.prems(2) none show ?thesis by (simp add: slot_for_def)
  next
    case array
    then obtain rest where *: "ref_place env t True next claimed vs ss = Inr rest" "fs = Some (Slot_Array i) # rest"
      using Cons.prems(3) by (auto simp: rbind_Inr_iff)
    have "slot_valid t1 key (Slot_Array i)" using array(3) by (auto simp: raw_slot_def slot_valid_def look alen)
    with * Cons.IH [OF Cons.prems(1) _ *(1)] Cons.prems(2) array show ?thesis by (simp add: slot_for_def)
  next
    case new
    then obtain rest where *: "ref_place env t True (Suc next) claimed vs ss = Inr rest" "fs = Some (Slot_HashNew next) # rest"
      using Cons.prems(3) by (auto simp: rbind_Inr_iff)
    have "slot_valid t1 key (Slot_HashNew next)"
      using fresh [of key] new(2,3) Cons.prems(2) by (simp add: raw_slot_def hash_lookup_no_key)
    with * Cons.IH [OF _ _ *(1)] Cons.prems(1,2) new show ?thesis by (fastforce simp: slot_for_def)
  next
    case dead
    then obtain rest where *: "ref_place env t True (Suc next) claimed vs ss = Inr rest" "fs = Some (Slot_HashNew next) # rest"
      using Cons.prems(3) by (auto simp: rbind_Inr_iff)
    obtain k where k: "i < length (tb_hash t)" "tb_hash t ! i = Some (k, V_Nil)" "abs_key k = LK_Int (sint key)"
      using dead(3,4) by (auto simp: raw_slot_def bucket_dead_def)
    have "slot_valid t1 key (Slot_HashNew next)"
      using fresh [of key] dead(2-4) Cons.prems(2) hash_lookup_at [OF hok k(1,2)] k(3) by (simp add: raw_slot_def)
    with * Cons.IH [OF _ _ *(1)] Cons.prems(1,2) dead show ?thesis by (fastforce simp: slot_for_def)
  next
    case live
    let ?j = "length (live_entries (take i (tb_hash t)))"
    obtain rest where *: "ref_place env t True next claimed vs ss = Inr rest" "fs = Some (Slot_HashExisting ?j) # rest"
      using Cons.prems(3) live by (auto simp: rbind_Inr_iff)
    obtain k u where k: "i < length (tb_hash t)" "tb_hash t ! i = Some (k, u)" "abs_key k = LK_Int (sint key)" "u \<noteq> V_Nil"
      using live(3,4) by (auto simp: raw_slot_def bucket_dead_def)
    have "tb_hash t1 ! ?j = Some (k, u)" "?j < length (tb_hash t1)"
      by (simp_all add: hash live_entries_split [OF k(1,2,4)] nth_append)
    then have "slot_valid t1 key (Slot_HashExisting ?j)" using live(3) k(3) by (auto simp: raw_slot_def slot_valid_def look)
    with * Cons.IH [OF Cons.prems(1) _ *(1)] Cons.prems(2) live show ?thesis by (simp add: slot_for_def)
  qed
qed simp

lemma place_keeping:
  assumes ok: "table_ok t" and g: "grown t array_len None t1"
    and "list_all2 (slot_for (raw_slot t array_len)) vs ss"
    and "ref_place env t False next claimed vs ss = Inr fs"
  shows "list_all2 (slot_for (slot_valid t1)) vs fs \<and> distinct (new_indices fs) \<and> set (new_indices fs) \<inter> set claimed = {}"
  using assms(3-)
proof (induction vs ss arbitrary: claimed fs rule: list_all2_induct)
  case (Cons v vs s ss)
  have hash: "tb_hash t1 = tb_hash t" and alen: "length (tb_array t1) = array_len"
    using g by (simp_all add: grown_def copy_into_def)
  note look = grown_array_lookup [OF g] grown_hash_lookup [OF g]
  have keep: ?case if valid: "slot_for (slot_valid t1) v s" and kind: "s = None \<or> (\<exists>i. s = Some (Slot_Array i) \<or> s = Some (Slot_HashExisting i))"
  proof -
    obtain rest where *: "ref_place env t False next claimed vs ss = Inr rest" "fs = s # rest"
      using Cons.prems kind by (auto simp: rbind_Inr_iff)
    have "new_indices fs = new_indices rest" using kind *(2) by auto
    with Cons.IH [OF *(1)] valid *(2) show ?thesis by simp
  qed
  consider (none) "v = None" "s = None" | (array) key u i where "v = Some (key, u)" "s = Some (Slot_Array i)" "raw_slot t array_len key (Slot_Array i)"
    | (new) key u i where "v = Some (key, u)" "s = Some (Slot_HashNew i)" "raw_slot t array_len key (Slot_HashNew i)"
    | (old) key u i where "v = Some (key, u)" "s = Some (Slot_HashExisting i)" "raw_slot t array_len key (Slot_HashExisting i)"
    using Cons.hyps(1) by (elim slot_forE) blast+
  then show ?case
  proof cases
    case none
    then show ?thesis using keep by (simp add: slot_for_def)
  next
    case array
    then have "slot_valid t1 key (Slot_Array i)" by (auto simp: raw_slot_def slot_valid_def look alen)
    then show ?thesis using keep array by (simp add: slot_for_def)
  next
    case old
    then have "slot_valid t1 key (Slot_HashExisting i)" by (simp add: raw_slot_def slot_valid_def look hash)
    then show ?thesis using keep old by (simp add: slot_for_def)
  next
    case new
    let ?n = "length (tb_hash t)"
    obtain j rest where j: "find (\<lambda>i. tb_hash t ! i = None \<and> i \<notin> set claimed) (probes (bucket env t (Key_Integer key) ?n) ?n) = Some j"
        "ref_place env t False next (j # claimed) vs ss = Inr rest" "fs = Some (Slot_HashNew j) # rest"
      using Cons.prems new by (auto simp: rbind_Inr_iff split: option.splits)
    have n: "0 < ?n" using j(1) by (cases "tb_hash t") (auto simp: probes_def)
    have *: "j < ?n" "tb_hash t ! j = None" "j \<notin> set claimed"
      using find_set [OF j(1)] set_probes [OF bucket_less [OF n]] by blast+
    then have "slot_valid t1 key (Slot_HashNew j)" using new(3) by (simp add: raw_slot_def slot_valid_def look hash)
    then show ?thesis using Cons.IH [OF j(2)] j(3) new *(3) by (auto simp: slot_for_def)
  qed
qed simp

lemma ref_array_len_bounds:
  "ref_array_len env t vs k n = Inr m \<Longrightarrow> n \<le> m"
proof (induction k arbitrary: n)
  case (Suc k)
  show ?case
  proof (cases "ref_boundary env t vs n")
    case True
    then obtain d where "doubled 4 n = Inr d" "ref_array_len env t vs k d = Inr m" using Suc.prems by (auto simp: rbind_Inr_iff)
    moreover from this have "n \<le> d" by (auto simp: doubled_def ok_or_Inr_iff)
    ultimately show ?thesis using Suc.IH by fastforce
  qed (use Suc.prems in simp)
qed simp

lemma ref_hash_len_bounds:
  "ref_hash_len required filled inserts n = Inr m \<Longrightarrow> n \<le> m \<and> required \<le> m"
proof (induction required filled inserts n rule: ref_hash_len.induct)
  case (1 required filled inserts n)
  from "1.prems" obtain more where more: "(if n - n div 4 < required then Inr True
            else rbind (ok_or ArithmeticOverflow (checked_add_usize filled inserts)) (\<lambda>k. Inr (n < k))) = Inr more"
      and m: "(if more then rbind (doubled 1 n) (ref_hash_len required filled inserts) else Inr n) = Inr m"
    by (subst (asm) ref_hash_len.simps) (auto simp: rbind_Inr_iff)
  show ?case
  proof (cases more)
    case True
    with m obtain d where d: "doubled 1 n = Inr d" "ref_hash_len required filled inserts d = Inr m" by (auto simp: rbind_Inr_iff)
    with "1.IH" [OF more True d(1)] doubled_grows [OF d(1)] show ?thesis by simp
  next
    case False
    then have "n = m" "\<not> n - n div 4 < required" using m more by (auto split: if_splits)
    then show ?thesis by simp
  qed
qed

lemma distinct_count_le: "distinct xs \<Longrightarrow> count_list xs x \<le> 1"
  by (induction xs) (auto simp: count_list_0_iff)

lemma ref_entries:
  assumes "list_all2 (slot_for P) vs fs"
  shows "map (\<lambda>e. (rp_key e, rp_value e)) (flatten (map2 ref_entry vs fs)) = flatten vs
    \<and> list_all (\<lambda>e. P (rp_key e) (rp_slot e)) (flatten (map2 ref_entry vs fs))
    \<and> (\<forall>i. length (filter (\<lambda>e. rp_slot e = Slot_HashNew i) (flatten (map2 ref_entry vs fs))) = count_list (new_indices fs) i)"
  using assms
proof (induction rule: list_all2_induct)
  case (Cons v vs s fs)
  from Cons.hyps(1) show ?case by (cases rule: slot_forE) (use Cons.IH in auto)
qed simp

lemma ref_array_growth_ok:
  assumes "ref_array_growth env l t array_len sw = (Inr g, sw')" and "length (tb_array t) \<le> array_len"
    and "length (tb_array t) < 2 ^ 63" and "2 \<le> te_value_size env"
  shows "array_len < 2 ^ 63 \<and> (case g of None \<Rightarrow> array_len = length (tb_array t) | Some g \<Rightarrow> rg_next g = copy_into (tb_array t) array_len)"
  using assms by (auto simp: ref_array_growth_def prepare_simps dest: checked_bytes_bound split: if_splits)

lemma ref_hash_growth_ok:
  assumes "ref_hash_growth env l t hash_len sw = (Inr g, sw')" and "length (tb_hash t) \<le> hash_len"
  shows "case g of None \<Rightarrow> hash_len = length (tb_hash t) | Some g \<Rightarrow> rg_next g = replicate hash_len None"
  using assms by (auto simp: ref_hash_growth_def prepare_simps split: if_splits)

lemma commit_ref_growth_next:
  "commit_ref_growth g sw = (r, g', sw') \<Longrightarrow> map_option rg_next g' = map_option rg_next g"
  by (auto simp: commit_ref_growth_def split: option.splits prod.splits)

lemma commit_ref_accounting_parts:
  assumes "commit_ref_accounting p sw = (r, p', sw')"
  shows "rp_entries p' = rp_entries p" and "map_option rg_next (rp_array_growth p') = map_option rg_next (rp_array_growth p)"
    and "map_option rg_next (rp_hash_growth p') = map_option rg_next (rp_hash_growth p)"
  using assms
  by (auto simp: commit_ref_accounting_def dest!: commit_ref_growth_next split: if_splits sum.splits prod.splits)

text \<open>A prepared pair: how far the parts grow and the buckets of the fields, for any table that has grown so.\<close>

lemma prepare_ref_pair_ok:
  assumes ok: "table_ok t" and size: "2 \<le> te_value_size env"
    and p: "prepare_ref_pair env l t first second sw = (Inr p, sw')"
  obtains array_len hash_len fs where
    "array_len < 2 ^ 63" "length (tb_array t) \<le> array_len"
    "case rp_array_growth p of None \<Rightarrow> array_len = length (tb_array t) | Some g \<Rightarrow> rg_next g = copy_into (tb_array t) array_len"
    "case rp_hash_growth p of None \<Rightarrow> True | Some g \<Rightarrow> rg_next g = replicate hash_len None \<and> live_hash_count t \<le> hash_len"
    "rp_entries p = map2 ref_entry (ref_values first second) fs" "distinct (new_indices fs)"
    "\<forall>t1. grown t array_len (if rp_hash_growth p = None then None else Some hash_len) t1 \<longrightarrow>
       list_all2 (slot_for (slot_valid t1)) (ref_values first second) fs"
    "list_all (\<lambda>(_, v). v \<noteq> V_Nil) (flatten (ref_values first second))"
proof -
  let ?vs = "ref_values first second"
  from p obtain array_len sw1 slots inserts sw2 ag sw3 hash_len hg sw4 fs where
    *: "ref_array_len env t ?vs 2 (length (tb_array t)) = Inr array_len"
    "ref_slots l env t array_len ?vs 0 sw1 = (Inr (slots, inserts), sw2)"
    "ref_array_growth env l t array_len sw2 = (Inr ag, sw3)"
    "ref_hash_len (live_hash_count t + inserts) (length (flatten (tb_hash t))) inserts (length (tb_hash t)) = Inr hash_len"
    "ref_hash_growth env l t hash_len sw3 = (Inr hg, sw4)"
    "ref_place env t (hg \<noteq> None) (live_hash_count t) [] ?vs slots = Inr fs"
    "p = \<lparr>rp_entries = map2 ref_entry ?vs fs, rp_array_growth = ag, rp_hash_growth = hg\<rparr>"
    "\<not> list_ex (\<lambda>(_, v). v = V_Nil) (flatten ?vs)"
    by (auto simp: prepare_ref_pair_def prepare_simps split: if_splits prod.splits)
  have alen: "length (tb_array t) \<le> array_len" using ref_array_len_bounds [OF *(1)] .
  have len: "length (tb_array t) < 2 ^ 63" using ok by (simp add: table_disjoint)
  have hlen: "length (tb_hash t) \<le> hash_len" "live_hash_count t + inserts \<le> hash_len" using ref_hash_len_bounds [OF *(4)] by simp_all
  have slots: "list_all2 (slot_for (raw_slot t array_len)) ?vs slots" "inserts = sum_list (map (bucket_needed t) slots)"
    using ref_slots_ok [OF ok alen *(2)] by simp_all
  let ?g = "if hg = None then None else Some hash_len"
  have placed: "list_all2 (slot_for (slot_valid t1)) ?vs fs \<and> distinct (new_indices fs)" if "grown t array_len ?g t1" for t1
  proof (cases hg)
    case None
    then have "grown t array_len None t1" and "ref_place env t False (live_hash_count t) [] ?vs slots = Inr fs"
      using that *(6) by simp_all
    from place_keeping [OF ok this(1) slots(1) this(2)] show ?thesis by simp
  next
    case (Some g)
    then have "grown t array_len (Some hash_len) t1" and "ref_place env t True (live_hash_count t) [] ?vs slots = Inr fs"
      using that *(6) by simp_all
    from place_growing [OF ok this(1) slots(1) order_refl _ this(2)] hlen(2) slots(2) show ?thesis by simp
  qed
  define t1 where "t1 = t\<lparr>tb_array := copy_into (tb_array t) array_len, tb_hash := (case ?g of None \<Rightarrow> tb_hash t
         | Some n \<Rightarrow> map Some (live_entries (tb_hash t)) @ replicate (n - live_hash_count t) None)\<rparr>"
  have "grown t array_len ?g t1" using alen by (simp add: grown_def t1_def)
  with placed have dist: "distinct (new_indices fs)" by blast
  show ?thesis
  proof (rule that [of array_len hash_len fs])
    show "list_all (\<lambda>(_, v). v \<noteq> V_Nil) (flatten ?vs)" using *(8) by (auto simp: list_all_iff list_ex_iff)
  qed (use ref_array_growth_ok [OF *(3) alen len size] ref_hash_growth_ok [OF *(5) hlen(1)] alen hlen(2) *(7) placed dist
        in \<open>auto split: option.splits\<close>)
qed

lemma ref_values_fold:
  "foldl (\<lambda>m (k, v). map_set m (LK_Int (sint k)) v) m (flatten (ref_values first second))
     = map_set (map_set m (LK_Int (sint (fst first))) (snd first)) (LK_Int (sint (fst second))) (snd second)"
  by (cases first; cases second) (simp add: ref_values_def map_set_def)

lemma ref_values_distinct: "distinct (map fst (flatten (ref_values first second)))"
  by (simp add: ref_values_def)

lemma install_charge_eq:
  "install_charge f c t sw = (t', sw') \<Longrightarrow> tb_array t' = tb_array t \<and> tb_hash t' = tb_hash t"
  using install_charge_parts [of f c t sw] by simp

lemma apply_ref_pair_grown:
  assumes "case rp_array_growth p of None \<Rightarrow> array_len = length (tb_array t) | Some g \<Rightarrow> rg_next g = copy_into (tb_array t) array_len"
    and "case rp_hash_growth p of None \<Rightarrow> True | Some g \<Rightarrow> rg_next g = replicate hash_len None \<and> live_hash_count t \<le> hash_len"
    and "length (tb_array t) \<le> array_len" and "apply_ref_pair p t sw = (t', sw')"
  obtains t1 sw1 t2 sw2 where "grown t array_len (if rp_hash_growth p = None then None else Some hash_len) t1"
    "apply_ref_entries (flatten (rp_entries p)) t1 sw1 = (t2, sw2)" "t' = bump_mutation_version t2"
proof -
  obtain ta swa where a: "(case rp_array_growth p of None \<Rightarrow> (t, sw)
      | Some g \<Rightarrow> install_charge replace_first (rg_charge g) (t\<lparr>tb_array := rg_next g\<rparr>) (drop_ticket_option (rg_ticket g) sw)) = (ta, swa)"
    by fastforce
  obtain th swh where h: "(case rp_hash_growth p of None \<Rightarrow> (ta, swa)
      | Some g \<Rightarrow> install_charge replace_second (rg_charge g)
          (ta\<lparr>tb_hash := place_from 0 (live_entries (tb_hash ta)) (rg_next g)\<rparr>)
          (drop_keys (dead_keys (tb_hash ta)) (drop_ticket_option (rg_ticket g) swa))) = (th, swh)"
    by fastforce
  obtain t2 sw2 where e: "apply_ref_entries (flatten (rp_entries p)) th swh = (t2, sw2)" by fastforce
  have ta: "tb_array ta = copy_into (tb_array t) array_len \<and> tb_hash ta = tb_hash t"
  proof (cases "rp_array_growth p")
    case None
    then show ?thesis using a assms(1) by (simp add: copy_into_def)
  next
    case (Some g)
    then show ?thesis using a assms(1) install_charge_eq by fastforce
  qed
  have "tb_array th = tb_array ta \<and> tb_hash th = (case (if rp_hash_growth p = None then None else Some hash_len) of None \<Rightarrow> tb_hash t
         | Some n \<Rightarrow> map Some (live_entries (tb_hash t)) @ replicate (n - live_hash_count t) None)"
  proof (cases "rp_hash_growth p")
    case None
    then show ?thesis using h ta by simp
  next
    case (Some g)
    then have "rg_next g = replicate hash_len None" "live_hash_count t \<le> hash_len" using assms(2) by simp_all
    then have "place_from 0 (live_entries (tb_hash ta)) (rg_next g)
        = map Some (live_entries (tb_hash t)) @ replicate (hash_len - live_hash_count t) None"
      using ta by (simp add: place_from_empty live_hash_count_def)
    then show ?thesis using h Some install_charge_eq by fastforce
  qed
  then have "grown t array_len (if rp_hash_growth p = None then None else Some hash_len) th"
    using ta assms(3) by (simp add: grown_def)
  moreover have "t' = bump_mutation_version t2"
    using assms(4) a h e by (simp add: apply_ref_pair_def)
  ultimately show ?thesis using that e by blast
qed

lemma table_ref_pair_ok:
  assumes ok: "table_ok t" and size: "2 \<le> te_value_size env"
    and p: "prepare_ref_pair env l t first second sw = (Inr p, sw1)"
    and c: "commit_ref_accounting p sw2 = (r, p', sw3)"
    and t': "apply_ref_pair p' t sw4 = (t', sw5)"
  shows "table_ok t'" and "abs_table t' = map_set (map_set (abs_table t) (LK_Int (sint (fst first))) (snd first))
      (LK_Int (sint (fst second))) (snd second)"
proof -
  obtain array_len hash_len fs where
    *: "array_len < 2 ^ 63" "length (tb_array t) \<le> array_len"
    "case rp_array_growth p of None \<Rightarrow> array_len = length (tb_array t) | Some g \<Rightarrow> rg_next g = copy_into (tb_array t) array_len"
    "case rp_hash_growth p of None \<Rightarrow> True | Some g \<Rightarrow> rg_next g = replicate hash_len None \<and> live_hash_count t \<le> hash_len"
    "rp_entries p = map2 ref_entry (ref_values first second) fs" "distinct (new_indices fs)"
    "\<forall>t1. grown t array_len (if rp_hash_growth p = None then None else Some hash_len) t1 \<longrightarrow>
       list_all2 (slot_for (slot_valid t1)) (ref_values first second) fs"
    "list_all (\<lambda>(_, v). v \<noteq> V_Nil) (flatten (ref_values first second))"
    by (rule prepare_ref_pair_ok [OF ok size p])
  note same = commit_ref_accounting_parts [OF c]
  have ag: "case rp_array_growth p' of None \<Rightarrow> array_len = length (tb_array t) | Some g \<Rightarrow> rg_next g = copy_into (tb_array t) array_len"
    using *(3) same(2) by (auto split: option.splits)
  have hg: "case rp_hash_growth p' of None \<Rightarrow> True | Some g \<Rightarrow> rg_next g = replicate hash_len None \<and> live_hash_count t \<le> hash_len"
    using *(4) same(3) by (auto split: option.splits)
  have none: "rp_hash_growth p' = None \<longleftrightarrow> rp_hash_growth p = None" using same(3) by (cases "rp_hash_growth p'"; cases "rp_hash_growth p") auto
  obtain t1 sw1 t2 sw2 where g: "grown t array_len (if rp_hash_growth p' = None then None else Some hash_len) t1"
    and e: "apply_ref_entries (flatten (rp_entries p')) t1 sw1 = (t2, sw2)" and bump: "t' = bump_mutation_version t2"
    by (rule apply_ref_pair_grown [OF ag hg *(2) t'])
  let ?es = "flatten (map2 ref_entry (ref_values first second) fs)"
  have es: "flatten (rp_entries p') = ?es" using same(1) *(5) by simp
  note entries = ref_entries [OF *(7) [rule_format, OF g [unfolded none]]]
  have keys: "map (\<lambda>e. (rp_key e, rp_value e)) ?es = flatten (ref_values first second)" using entries by blast
  have "map fst (map (\<lambda>e. (rp_key e, rp_value e)) ?es) = map rp_key ?es" by (simp add: o_def)
  then have dist: "distinct (map rp_key ?es)" using keys ref_values_distinct [of first second] by metis
  have "list_all (\<lambda>e. rp_value e \<noteq> V_Nil) ?es"
    using *(8) unfolding keys [symmetric] list.pred_map by (simp add: o_def)
  moreover have "list_all (\<lambda>e. slot_valid t1 (rp_key e) (rp_slot e)) ?es" using entries by blast
  ultimately have valid: "list_all (\<lambda>e. slot_valid t1 (rp_key e) (rp_slot e) \<and> rp_value e \<noteq> V_Nil) ?es"
    by (simp add: list_all_iff)
  have new: "length (filter (\<lambda>e. rp_slot e = Slot_HashNew i) ?es) \<le> 1" for i
    using entries distinct_count_le [OF *(6)] by simp
  note final = apply_ref_entries_ok [OF grown_ok(1) [OF ok g *(1)] valid dist new e [unfolded es]]
  have "foldl (\<lambda>m e. map_set m (LK_Int (sint (rp_key e))) (rp_value e)) (abs_table t) ?es
      = foldl (\<lambda>m (k, v). map_set m (LK_Int (sint k)) v) (abs_table t) (map (\<lambda>e. (rp_key e, rp_value e)) ?es)"
    by (simp add: foldl_map)
  then have "abs_table t2 = map_set (map_set (abs_table t) (LK_Int (sint (fst first))) (snd first))
      (LK_Int (sint (fst second))) (snd second)"
    using final grown_ok(2) [OF ok g *(1)] keys ref_values_fold by simp
  moreover have "tb_array t' = tb_array t2" "tb_hash t' = tb_hash t2" by (simp_all add: bump bump_mutation_version_def)
  ultimately show "table_ok t'" and "abs_table t' = map_set (map_set (abs_table t) (LK_Int (sint (fst first))) (snd first))
      (LK_Int (sint (fst second))) (snd second)"
    using final table_same_parts by metis+
qed

text \<open>
  C33: The paired write equals two assignments: when it succeeds, the table stands for the old map with
  the first field assigned and then the second (the second value wins when the keys are equal), and
  the invariant holds, however the array and the hash part grew in the one step.
\<close>

theorem ref_pair_refines:
  assumes "table_ok t" and "2 \<le> te_value_size env"
    and "prepare_ref_pair env l t (k1, v1) (k2, v2) sw1 = (Inr p, sw2)"
    and "commit_ref_accounting p sw3 = (Inr r, p', sw4)" and "apply_ref_pair p' t sw5 = (t', sw6)"
  shows "table_ok t' \<and> abs_table t' = map_set (map_set (abs_table t) (LK_Int (sint k1)) v1) (LK_Int (sint k2)) v2"
  using table_ref_pair_ok [OF assms] by simp

definition example_pair :: "unit prepared_ref_pair" where
  "example_pair = \<lparr>rp_entries = [Some \<lparr>rp_key = 1, rp_value = V_Boolean False, rp_slot = Slot_Array 0\<rparr>,
       Some \<lparr>rp_key = 9, rp_value = V_Boolean True, rp_slot = Slot_HashExisting 1\<rparr>],
     rp_array_growth = None, rp_hash_growth = None\<rparr>"

lemma example_find: "find_any_hash example_env example_table (Key_Integer 9) = Some 1"
  by (simp add: find_any_hash_def example_table_def probes_def probe_def bucket_def seeded_hash_def example_env_def
      key_eq_def Let_def)

lemma example_table_simps:
  "length (tb_array example_table) = 2" "length (tb_hash example_table) = 2" "live_hash_count example_table = 1"
  "length (flatten (tb_hash example_table)) = 1"
  by (simp_all add: example_table_def live_hash_count_def live_entries_def)

lemma example_slots:
  "ref_slot (internal_ledger 0) example_env example_table 2 1 0 example_strings = (Inr (Slot_Array 0, 0), example_strings)"
  "ref_slot (internal_ledger 0) example_env example_table 2 9 0 example_strings = (Inr (Slot_HashExisting 1, 0), example_strings)"
  using example_find
  by (simp_all add: ref_slot_def array_value_def get_at_def bucket_dead_def Let_def) (simp_all add: example_table_def)

lemma example_prepare_pair:
  "prepare_ref_pair example_env (internal_ledger 0) example_table (1, V_Boolean False) (9, V_Boolean True) example_strings
     = (Inr example_pair, example_strings)"
proof -
  let ?vs = "[Some (1, V_Boolean False), Some (9, V_Boolean True)] :: (i64 \<times> lua_value) option list"
  have "ref_array_len example_env example_table ?vs 2 2 = Inr 2" by (simp add: numeral_2_eq_2 ref_boundary_def)
  moreover have "ref_slots (internal_ledger 0) example_env example_table 2 ?vs 0 example_strings
      = (Inr ([Some (Slot_Array 0), Some (Slot_HashExisting 1)], 0), example_strings)"
    by (simp add: example_slots try_else_def)
  moreover have "ref_hash_len 1 1 0 2 = Inr 2" by (subst ref_hash_len.simps) (simp add: checked_add_usize_def usize_max_def)
  moreover have "ref_values (1, V_Boolean False) (9, V_Boolean True) = ?vs" by (simp add: ref_values_def)
  ultimately show ?thesis
    by (simp del: ref_slots.simps ref_array_len.simps One_nat_def add: prepare_ref_pair_def try_else_def Let_def example_pair_def
        ref_array_growth_def ref_hash_growth_def example_table_simps checked_add_usize_def usize_max_def)
qed

lemma ref_pair_refines_witness:
  "\<exists>t'. apply_ref_pair example_pair example_table example_strings = (t', example_strings) \<and> table_ok t'
     \<and> abs_table t' = map_set (map_set (abs_table example_table) (LK_Int 1) (V_Boolean False)) (LK_Int 9) (V_Boolean True)"
proof -
  obtain t' where t': "apply_ref_pair example_pair example_table example_strings = (t', example_strings)"
    by (simp add: apply_ref_pair_def example_pair_def apply_ref_entry_def)
  have c: "commit_ref_accounting example_pair example_strings = (Inr (), example_pair, example_strings)"
    by (simp add: commit_ref_accounting_def example_pair_def growth_bytes_def commit_ref_growth_def checked_add_usize_def usize_max_def)
  have size: "2 \<le> te_value_size example_env" by (simp add: example_env_def)
  from ref_pair_refines [OF example_table_ok size example_prepare_pair c t'] t' show ?thesis by simp
qed

end
