(* ===== verification/Vm_Table.thy ===== *)
theory Vm_Table
  imports Vm_Heap Table_Pair
begin

text \<open>
  Tables inside a machine. A value is turned into a key so that two values name the same field
  exactly when they are raw-equal; the traversal by \<open>next\<close> visits every field of an unchanged table
  once; a raw assignment changes one field of one table, or nothing at all.
\<close>

subsection \<open>Keys and raw equality\<close>

text \<open>The abstract key of a value: a number by its exact value, a string by its bytes, any other object by identity.\<close>

fun value_key :: "'h vm_heap \<Rightarrow> lua_value \<Rightarrow> lua_key option" where
  "value_key vm V_Nil = None"
| "value_key vm (V_Boolean b) = Some (LK_Bool b)"
| "value_key vm (V_Integer n) = Some (LK_Int (sint n))"
| "value_key vm (V_Float f) =
     (if is_nan f then None
      else case to_integer (Num_Float f) Op_ConvertToInteger of Inr n \<Rightarrow> Some (LK_Int (sint n)) | Inl _ \<Rightarrow> Some (LK_Float (f64_units f)))"
| "value_key vm (V_LightUserdata p) = Some (LK_Light p)"
| "value_key vm (V_CFunction f) = (if hf_vm f = vh_id vm then Some (LK_CFunction f) else None)"
| "value_key vm (V_Object r) =
     (case checked_slot vm r of
        Inl _ \<Rightarrow> None
      | Inr s \<Rightarrow> (case ho_payload (os_object s) of Payload_ByteString b \<Rightarrow> Some (LK_String (as_bytes b))
                  | _ \<Rightarrow> map_option LK_Object (identity r)))"

lemma f64_neg_units: "f64_mag f < 2 ^ 63 \<Longrightarrow> f64_units (f64_neg f) = - f64_units f"
  by (simp add: f64_neg_def f64_units_def)

lemma f64_neg_nan: "f64_mag f < 2 ^ 63 \<Longrightarrow> is_nan (f64_neg f) = is_nan f"
  by (simp add: f64_neg_def is_nan_def)

lemma f64_ge_neg_limit:
  assumes "\<not> is_nan f"
  shows "f64_ge f (f64_neg two_to_63) \<longleftrightarrow> f64_ge f (f64_of_int (- (2 ^ 63)))"
proof -
  have fin: "is_finite two_to_63"
    unfolding two_to_63_def f64_units_finite f64_units_i64_limits using one_units_inf by (simp add: abs_less_iff)
  then have mag: "f64_mag two_to_63 < 2 ^ 63" using inf_mag_less by (simp add: is_finite_def)
  have "f64_units (f64_neg two_to_63) = f64_units (f64_of_int (- (2 ^ 63)))"
    unfolding f64_neg_units [OF mag] unfolding two_to_63_def f64_units_i64_limits by simp
  moreover have "\<not> is_nan (f64_neg two_to_63)" using f64_neg_nan [OF mag] fin by simp
  ultimately show ?thesis
    using f64_cmp_not_nan(3) [OF assms f64_of_int_not_nan] f64_cmp_not_nan(3) [OF assms] by simp
qed

lemma canonical_float:
  assumes "\<not> is_nan f"
  shows "canonical_key env vm (V_Float f) sw =
    (Inr (Some (case to_integer (Num_Float f) Op_ConvertToInteger of Inr n \<Rightarrow> Key_Integer n | Inl _ \<Rightarrow> Key_Float f)), sw)"
  using assms f64_ge_neg_limit [OF assms] by (auto simp: two_to_63_def)

lemma long_string_key_ok:
  assumes "long_string_key env vm source string sw = (Inr k, sw')"
  shows "key_ok k \<and> abs_key k = LK_String (as_bytes string)"
proof -
  have "as_bytes shared = as_bytes string" if "shared_table_key string sw = (Some shared, sw1)" for shared sw1 sw
    using that by (cases string) auto
  moreover have "as_bytes copy = b" if "in_world (string_try_from_bytes a l b) sw = (Inr (copy, ticket), sw1)"
    for a copy b ticket sw1 and l :: "'a ledger" and sw
    using that by (auto simp: string_try_from_bytes_def in_world_def split: prod.splits sum.splits)
  ultimately show ?thesis using assms
    by (auto simp: long_string_key_def Let_def try_else_Inr split: prod.splits option.splits)
qed

lemma short_string_key_ok:
  assumes "length b \<le> 8"
  shows "key_ok (short_string_key source b)" and "abs_key (short_string_key source b) = LK_String b"
proof -
  have "unat (of_nat (length b) :: u8) = length b" using assms by (simp add: unat_of_nat)
  then show "abs_key (short_string_key source b) = LK_String b" by (simp add: short_string_key_def inline_as_bytes_def)
qed (simp add: short_string_key_def)

lemma canonical_key_ok:
  assumes "canonical_key env vm v sw = (Inr (Some k), sw')"
  shows "key_ok k" and "value_key vm v = Some (abs_key k)"
proof -
  have "key_ok k \<and> value_key vm v = Some (abs_key k)"
  proof (cases v)
    case (V_Float f)
    show ?thesis
    proof (cases "is_nan f")
      case True
      then show ?thesis using assms V_Float by simp
    next
      case False
      then show ?thesis using assms unfolding V_Float canonical_float [OF False]
        by (auto split: sum.splits simp del: to_integer.simps)
    qed
  next
    case (V_Object r)
    show ?thesis using assms unfolding V_Object
      by (auto simp: object_kind_def with_byte_string_def rbind_Inr_iff string_len_def try_else_Inr
          short_string_key_ok dest: long_string_key_ok split: sum.splits object_kind.splits heap_payload.splits if_splits option.splits)
  qed (use assms in \<open>auto split: if_splits\<close>)
  then show "key_ok k" and "value_key vm v = Some (abs_key k)" by simp_all
qed

fun number_key :: "number \<Rightarrow> lua_key" where
  "number_key (Num_Integer n) = LK_Int (sint n)"
| "number_key (Num_Float f) =
     (case to_integer (Num_Float f) Op_ConvertToInteger of Inr n \<Rightarrow> LK_Int (sint n) | Inl _ \<Rightarrow> LK_Float (f64_units f))"

lemma number_key_cases:
  assumes "\<not> number_nan l"
  shows "(\<exists>n :: i64. number_key l = LK_Int (sint n) \<and> num_units l = sint n * int one_units)
    \<or> number_key l = LK_Float (num_units l) \<and> (\<forall>n :: i64. num_units l \<noteq> sint n * int one_units)"
proof (cases l)
  case (Num_Integer n)
  then show ?thesis by (intro disjI1 exI [of _ n]) simp
next
  case (Num_Float f)
  show ?thesis
  proof (cases "to_integer (Num_Float f) Op_ConvertToInteger")
    case (Inl e)
    then have "key_ok (Key_Float f)" using assms Num_Float by (simp del: to_integer.simps)
    then have "\<forall>n :: i64. num_units l \<noteq> sint n * int one_units" using key_ok_float Num_Float by simp
    then show ?thesis using Inl Num_Float by (simp del: to_integer.simps)
  next
    case (Inr n)
    then have "num_units l = sint n * int one_units" using to_integer_float_exact [of f _ n] Num_Float by simp
    then show ?thesis using Inr Num_Float by (intro disjI1 exI [of _ n]) (simp del: to_integer.simps)
  qed
qed

lemma number_key_equal:
  assumes "\<not> number_nan l" and "\<not> number_nan r"
  shows "equal_num l r \<longleftrightarrow> number_key l = number_key r"
proof -
  have "equal_num l r \<longleftrightarrow> num_units l = num_units r"
    using assms by (simp add: equal_num_def number_cmp.cmp_eq)
  also have "\<dots> \<longleftrightarrow> number_key l = number_key r"
    using number_key_cases [OF assms(1)] number_key_cases [OF assms(2)] by (elim disjE exE conjE) (auto, metis)
  finally show ?thesis .
qed

lemma value_key_number:
  "number_if v = Some l \<Longrightarrow> value_key vm v = (if number_nan l then None else Some (number_key l))"
  by (cases v) (auto simp del: to_integer.simps split: sum.splits)

lemma value_key_not_number:
  assumes "number_if v = None" and "value_key vm v = Some k"
  shows "k \<noteq> LK_Int n" and "k \<noteq> LK_Float u"
  using assms by (cases v; auto split: sum.splits heap_payload.splits if_splits)+

lemma number_key_number: "(\<exists>n. number_key l = LK_Int n) \<or> (\<exists>u. number_key l = LK_Float u)"
  by (cases l) (auto simp del: to_integer.simps split: sum.split)

lemma checked_identity_key: "value_key vm v = Some k \<Longrightarrow> checked_identity vm v = Inr ()"
  by (cases v) (auto simp: object_kind_def vm_result_def split: sum.splits if_splits)

lemma checked_slot_identity:
  assumes "checked_slot vm r = Inr s"
  shows "identity r = Some oid \<Longrightarrow> checked_slot vm r' = Inr s' \<Longrightarrow> identity r' = Some oid \<Longrightarrow> r = r' \<and> s = s'"
  using assms by (auto simp: checked_slot_def rbind_Inr_iff ok_or_Inr_iff split: if_splits option.splits heap_slot.splits)

lemma raw_equal_objects:
  assumes "value_key vm (V_Object a) = Some x" and "value_key vm (V_Object b) = Some y"
  shows "raw_equal vm (V_Object a) (V_Object b) = Inr (x = y)"
proof -
  obtain s t where s: "checked_slot vm a = Inr s" and t: "checked_slot vm b = Inr t"
    using assms by (auto split: sum.splits)
  have ids: "\<exists>i. identity a = Some i" "\<exists>j. identity b = Some j"
    using s t by (auto simp: checked_slot_def rbind_Inr_iff ok_or_Inr_iff)
  have same: "identity a = identity b \<longleftrightarrow> a = b" using checked_slot_identity [OF s _ t] ids by metis
  have ss: "a = b \<Longrightarrow> s = t" using s t by simp
  show ?thesis
  proof (cases "payload_kind (ho_payload (os_object s)) = Kind_ByteString \<and> payload_kind (ho_payload (os_object t)) = Kind_ByteString")
    case True
    then obtain c d where "ho_payload (os_object s) = Payload_ByteString c" "ho_payload (os_object t) = Payload_ByteString d"
      by (cases "ho_payload (os_object s)"; cases "ho_payload (os_object t)") auto
    then show ?thesis using assms s t by (auto simp: raw_equal_def object_kind_def with_byte_string_def vm_result_def)
  next
    case False
    then have "raw_equal vm (V_Object a) (V_Object b) = Inr (a = b)"
      using s t by (auto simp: raw_equal_def object_kind_def vm_result_def value_equal_def)
    moreover have "a = b \<longleftrightarrow> x = y"
      using assms False s t same ids ss by (auto split: heap_payload.splits)
    ultimately show ?thesis by simp
  qed
qed

lemma raw_equal_keys:
  assumes "value_key vm a = Some x" and "value_key vm b = Some y"
  shows "raw_equal_value vm a b = Inr (x = y)"
proof -
  have start: "raw_equal_value vm a b = raw_equal vm a b"
    using assms by (simp add: raw_equal_value_def checked_identity_key)
  show ?thesis
  proof (cases "(\<exists>r. a = V_Object r) \<and> (\<exists>r. b = V_Object r)")
    case True
    then show ?thesis using raw_equal_objects assms start by auto
  next
    case False
    then have eq: "raw_equal vm a b = Inr (value_equal a b)" by (cases a; cases b) (auto simp: raw_equal_def)
    have "value_equal a b \<longleftrightarrow> x = y"
    proof (cases "number_if a"; cases "number_if b")
      fix l r assume lr: "number_if a = Some l" "number_if b = Some r"
      then show ?thesis using assms number_key_equal [of l r]
        by (auto simp: value_equal_def value_key_number split: if_splits)
    next
      fix l assume "number_if a = Some l" "number_if b = None"
      then show ?thesis using assms number_key_number [of l] value_key_not_number [OF _ assms(2)]
        by (auto simp: value_equal_def value_key_number split: if_splits)
    next
      fix r assume "number_if a = None" "number_if b = Some r"
      then show ?thesis using assms number_key_number [of r] value_key_not_number [OF _ assms(1)]
        by (auto simp: value_equal_def value_key_number split: if_splits)
    next
      assume "number_if a = None" "number_if b = None"
      then show ?thesis using assms False
        by (cases a; cases b) (auto simp: value_equal_def split: if_splits sum.splits heap_payload.splits)
    qed
    then show ?thesis using start eq by simp
  qed
qed

subsection \<open>Traversal\<close>

text \<open>The entries in the order of the traversal, from an array slot and a bucket on.\<close>

definition array_pairs :: "nat \<Rightarrow> lua_value option list \<Rightarrow> (lua_value \<times> lua_value) list" where
  "array_pairs start vs = flatten (map (\<lambda>(i, v). map_option (Pair (V_Integer (of_nat i + 1))) v) (enumerate start vs))"

definition hash_pairs :: "'h bucket list \<Rightarrow> (lua_value \<times> lua_value) list" where
  "hash_pairs buckets = map (\<lambda>(key, value). (as_value key, value)) (live_entries buckets)"

definition traversal :: "'h lua_table \<Rightarrow> (lua_value \<times> lua_value) list" where
  "traversal t = array_pairs 0 (tb_array t) @ hash_pairs (tb_hash t)"

fun first_of :: "'a list \<Rightarrow> 'a option" where
  "first_of [] = None"
| "first_of (x # _) = Some x"

text \<open>
  What the heap owes a table: the value of a live key still stands for that key, a native function
  among the keys belongs to this machine, and the slot of an object key has not become a string.
\<close>

definition not_string :: "'h vm_heap \<Rightarrow> object_id \<Rightarrow> bool" where
  "not_string vm oid = (case get_at (vh_slots vm) (oi_slot oid) of
     Some (Occupied s) \<Rightarrow> os_generation s = oi_generation oid \<longrightarrow> payload_kind (ho_payload (os_object s)) \<noteq> Kind_ByteString
   | _ \<Rightarrow> True)"

definition entry_alive :: "'h vm_heap \<Rightarrow> 'h key_kind \<times> lua_value \<Rightarrow> bool" where
  "entry_alive vm e = (case e of (key, value) \<Rightarrow>
     (value \<noteq> V_Nil \<longrightarrow> value_key vm (as_value key) = Some (abs_key key))
     \<and> (case key of Key_CFunction f \<Rightarrow> hf_vm f = vh_id vm | Key_Object k \<Rightarrow> not_string vm (ok_id k) | _ \<Rightarrow> True))"

definition table_alive :: "'h vm_heap \<Rightarrow> 'h lua_table \<Rightarrow> bool" where
  "table_alive vm t \<longleftrightarrow> list_all (entry_alive vm) (flatten (tb_hash t))"

lemma array_pairs_simps [simp]:
  "array_pairs start [] = []"
  "array_pairs start (None # vs) = array_pairs (Suc start) vs"
  "array_pairs start (Some v # vs) = (V_Integer (of_nat start + 1), v) # array_pairs (Suc start) vs"
  by (simp_all add: array_pairs_def)

lemma next_array_first:
  assumes "start + length vs < 2 ^ 63"
  shows "next_array start vs = Inr (first_of (array_pairs start vs))"
  using assms by (induction start vs rule: next_array.induct) (simp_all add: array_key_def)

lemma hash_pairs_first:
  "find_map (\<lambda>(key, value). if value \<noteq> V_Nil then Some (as_value key, value) else None) (flatten buckets)
     = first_of (hash_pairs buckets)"
proof -
  have "find_map (\<lambda>(key, value). if value \<noteq> V_Nil then Some (as_value key, value) else None) es
      = first_of (map (\<lambda>(key, value). (as_value key, value)) (filter (\<lambda>(_, value). value \<noteq> V_Nil) es))"
    for es :: "('a key_kind \<times> lua_value) list"
    by (induction es) auto
  then show ?thesis by (simp add: hash_pairs_def live_entries_def)
qed

lemma first_of_append: "first_of (xs @ ys) = (case first_of xs of None \<Rightarrow> first_of ys | Some x \<Rightarrow> Some x)"
  by (cases xs) auto

lemma next_raw_from:
  assumes "next_start vm t previous = Inr (a, h)" and "length (tb_array t) < 2 ^ 63" and "a \<le> length (tb_array t)"
  shows "next_raw vm t previous = Inr (first_of (array_pairs a (drop a (tb_array t)) @ hash_pairs (drop h (tb_hash t))))"
  using assms next_array_first [of a "drop a (tb_array t)"]
  by (simp add: next_raw_def first_of_append hash_pairs_first split: option.split)

lemma matches_previous_key:
  assumes "key_ok key" and "entry_alive vm (key, value)" and "value_key vm previous = Some x"
  shows "matches_previous vm key previous = Inr (abs_key key = x)"
proof -
  have str: ?thesis if b: "string_bytes key = Some b" for b
  proof -
    have k: "abs_key key = LK_String b" using b by (simp add: string_bytes_abs split: lua_key.splits)
    show ?thesis
    proof (cases previous)
      case (V_Object r)
      then obtain s where s: "checked_slot vm r = Inr s" using assms(3) by (auto split: sum.splits)
      then show ?thesis using assms(3) V_Object b k
        by (auto simp: matches_previous_def object_kind_def with_byte_string_def vm_result_def split: heap_payload.splits)
    qed (use assms(3) b k in \<open>auto simp: matches_previous_def split: if_splits sum.splits\<close>)
  qed
  have num: ?thesis if "string_bytes key = None" "\<And>k. key \<noteq> Key_Object k"
  proof -
    have "value_key vm (as_value key) = Some (abs_key key)"
      using that assms(1,2) by (cases key) (auto simp: entry_alive_def simp del: to_integer.simps split: sum.splits)
    then have "raw_equal_value vm (as_value key) previous = Inr (abs_key key = x)" using assms(3) by (rule raw_equal_keys)
    then show ?thesis using that by (cases key) (auto simp: matches_previous_def)
  qed
  have obj: ?thesis if k: "key = Key_Object k" for k
  proof (cases previous)
    case (V_Object r)
    then obtain s where s: "checked_slot vm r = Inr s" using assms(3) by (auto split: sum.splits)
    have "identity r = Some (ok_id k) \<longleftrightarrow> LK_Object (ok_id k) = x"
    proof (cases "identity r = Some (ok_id k)")
      case True
      then have "payload_kind (ho_payload (os_object s)) \<noteq> Kind_ByteString"
        using assms(2) s k by (auto simp: entry_alive_def not_string_def checked_slot_def split: if_splits option.splits heap_slot.splits)
      then show ?thesis using assms(3) V_Object s True by (auto split: heap_payload.splits)
    next
      case False
      then show ?thesis using assms(3) V_Object s by (auto split: heap_payload.splits)
    qed
    then show ?thesis using V_Object k by (simp add: matches_previous_def)
  qed (use assms(3) k in \<open>auto simp: matches_previous_def split: if_splits sum.splits\<close>)
  show ?thesis using str num obj by (cases "string_bytes key"; cases key) auto
qed

lemma find_array_previous_find:
  assumes "list_all (\<lambda>i. i < 2 ^ 63 - 1) is" and "value_key vm previous = Some x"
  shows "find_array_previous vm previous is = Inr (find (\<lambda>i. x = LK_Int (int i + 1)) is)"
  using assms(1)
proof (induction "is")
  case (Cons i "is")
  have "sint (word_of_int (int i + 1) :: i64) = int i + 1"
    using Cons.prems by (intro sint_word_of_int_i64) auto
  then have "value_key vm (V_Integer (of_nat i + 1)) = Some (LK_Int (int i + 1))" by simp
  from raw_equal_keys [OF this assms(2)] Cons show ?case by (auto simp: array_key_def)
qed simp

lemma find_hash_previous_None:
  assumes "list_all (\<lambda>(key, v). key_ok key \<and> entry_alive vm (key, v) \<and> abs_key key \<noteq> x) (flatten es)"
    and "value_key vm previous = Some x"
  shows "find_hash_previous vm previous i es = Inr None"
  using assms by (induction vm previous i es rule: find_hash_previous.induct) (auto simp: matches_previous_key)

lemma find_hash_previous_Some:
  assumes "list_all (\<lambda>(key, v). key_ok key \<and> entry_alive vm (key, v)) (flatten es)" and "value_key vm previous = Some x"
    and "n < length es" and "es ! n = Some (k, v)" and "abs_key k = x"
    and "list_all (\<lambda>(key, v). abs_key key \<noteq> x) (flatten (take n es))"
  shows "find_hash_previous vm previous i es = Inr (Some (i + n))"
  using assms
proof (induction vm previous i es arbitrary: n rule: find_hash_previous.induct)
  case (2 vm previous i es)
  then obtain m where "n = Suc m" by (cases n) auto
  with 2 show ?case by auto
next
  case (3 vm previous i key u es)
  show ?case
  proof (cases n)
    case 0
    with 3 show ?thesis by (auto simp: matches_previous_key)
  next
    case (Suc m)
    then have "matches_previous vm key previous = Inr False" using 3 by (auto simp: matches_previous_key)
    with 3 Suc show ?thesis by auto
  qed
qed simp

lemma array_pairs_split:
  assumes "array_pairs start vs = xs @ p # ys"
  obtains i v where "i < length vs" and "vs ! i = Some v" and "p = (V_Integer (of_nat (start + i) + 1), v)"
    and "ys = array_pairs (start + Suc i) (drop (Suc i) vs)"
  using assms
proof (induction vs arbitrary: start xs thesis)
  case (Cons v vs)
  have later: ?case if vs: "array_pairs (Suc start) vs = zs @ p # ys" for zs
  proof (rule Cons.IH [OF _ vs])
    fix i u assume "i < length vs" "vs ! i = Some u" "p = (V_Integer (of_nat (Suc start + i) + 1), u)"
      "ys = array_pairs (Suc start + Suc i) (drop (Suc i) vs)"
    then show ?case using Cons.prems(1) [of "Suc i" u] by (simp add: algebra_simps)
  qed
  show ?case
  proof (cases v)
    case None
    then have "array_pairs (Suc start) vs = xs @ p # ys" using Cons.prems(2) by simp
    then show ?thesis by (rule later)
  next
    case (Some u)
    show ?thesis
    proof (cases xs)
      case Nil
      then show ?thesis using Cons.prems(1) [of 0 u] Cons.prems(2) Some by simp
    next
      case (Cons q zs)
      then show ?thesis using later Cons.prems(2) Some by simp
    qed
  qed
qed simp

lemma hash_pairs_simps [simp]:
  "hash_pairs [] = []"
  "hash_pairs (None # es) = hash_pairs es"
  "hash_pairs (Some (k, v) # es) = (if v \<noteq> V_Nil then (as_value k, v) # hash_pairs es else hash_pairs es)"
  by (simp_all add: hash_pairs_def live_entries_def)

lemma hash_pairs_split:
  assumes "hash_pairs es = xs @ p # ys"
  obtains b key v where "b < length es" and "es ! b = Some (key, v)" and "v \<noteq> V_Nil" and "p = (as_value key, v)"
    and "ys = hash_pairs (drop (Suc b) es)"
  using assms
proof (induction es arbitrary: xs thesis)
  case (Cons e es)
  have later: ?case if es: "hash_pairs es = zs @ p # ys" for zs
  proof (rule Cons.IH [OF _ es])
    fix b key v assume "b < length es" "es ! b = Some (key, v)" "v \<noteq> V_Nil" "p = (as_value key, v)"
      "ys = hash_pairs (drop (Suc b) es)"
    then show ?case using Cons.prems(1) [of "Suc b" key v] by simp
  qed
  show ?case
  proof (cases "\<exists>key v. e = Some (key, v) \<and> v \<noteq> V_Nil")
    case True
    then obtain key v where e: "e = Some (key, v)" "v \<noteq> V_Nil" by blast
    show ?thesis
    proof (cases xs)
      case Nil
      then show ?thesis using Cons.prems(1) [of 0 key v] Cons.prems(2) e by simp
    next
      case (Cons q xs')
      then show ?thesis using later Cons.prems(2) e by simp
    qed
  next
    case False
    then have "hash_pairs (e # es) = hash_pairs es" by (cases e) auto
    then have "hash_pairs es = xs @ p # ys" using Cons.prems(2) by simp
    then show ?thesis by (rule later)
  qed
qed simp

lemma find_upt_unique:
  assumes "i < n" and "P i" and "\<And>j. P j \<Longrightarrow> j = i"
  shows "find P [0..<n] = Some i"
proof -
  have "\<not> P ([0..<n] ! j)" if "j < i" for j using that assms(1) assms(3) [of j] by fastforce
  then show ?thesis unfolding find_Some_iff using assms(1,2) by (intro exI [of _ i]) simp
qed

lemma find_int_key:
  "find (\<lambda>j. LK_Int n = LK_Int (int j + 1)) [0..<m] = (if 1 \<le> n \<and> n \<le> int m then Some (nat n - 1) else None)"
proof (cases "1 \<le> n \<and> n \<le> int m")
  case True
  then have "find (\<lambda>j. n = int j + 1) [0..<m] = Some (nat n - 1)" by (intro find_upt_unique) auto
  then show ?thesis using True by simp
next
  case False
  then show ?thesis by (auto simp: find_None_iff)
qed

lemma array_bound: "table_ok t \<Longrightarrow> list_all (\<lambda>i. i < 2 ^ 63 - 1) [0..<length (tb_array t)]"
  by (auto simp: table_disjoint list_all_iff)

lemma entries_ok: "table_ok t \<Longrightarrow> table_alive vm t \<Longrightarrow> list_all (\<lambda>(key, v). key_ok key \<and> entry_alive vm (key, v)) (flatten (tb_hash t))"
  by (auto simp: table_disjoint hash_ok_def table_alive_def list_all_iff)

lemma next_start_array:
  assumes ok: "table_ok t" and "i < length (tb_array t)" and "tb_array t ! i = Some v"
  shows "next_start vm t (V_Integer (of_nat i + 1)) = Inr (Suc i, 0)"
proof -
  have "i < 2 ^ 63 - 1" using assms(2) ok by (simp add: table_disjoint)
  then have "sint (word_of_int (int i + 1) :: i64) = int i + 1" by (intro sint_word_of_int_i64) auto
  then have "value_key vm (V_Integer (of_nat i + 1)) = Some (LK_Int (int i + 1))" by simp
  from find_array_previous_find [OF array_bound [OF ok] this] have "find_array_previous vm (V_Integer (of_nat i + 1)) [0..<length (tb_array t)] = Inr (Some i)"
    using find_int_key [of "int i + 1" "length (tb_array t)"] assms(2) by simp
  then show ?thesis using assms(3) by (simp add: next_start_def)
qed

lemma next_start_hash:
  assumes ok: "table_ok t" and alive: "table_alive vm t" and "b < length (tb_hash t)" and "tb_hash t ! b = Some (key, v)" and "v \<noteq> V_Nil"
  shows "next_start vm t (as_value key) = Inr (length (tb_array t), Suc b)"
proof -
  have in_set: "(key, v) \<in> set (flatten (tb_hash t))" using assms(3,4) by (auto simp: in_flatten)
  then have "entry_alive vm (key, v)" using alive by (simp add: table_alive_def list_all_iff)
  then have vk: "value_key vm (as_value key) = Some (abs_key key)" using assms(5) by (simp add: entry_alive_def)
  have "distinct (bucket_keys (tb_hash t))" using ok by (simp add: table_disjoint hash_ok_def)
  then have "abs_key key \<notin> set (bucket_keys (take b (tb_hash t)))"
    unfolding bucket_keys_split [OF assms(3)] assms(4) by simp
  then have before: "list_all (\<lambda>(k, v). abs_key k \<noteq> abs_key key) (flatten (take b (tb_hash t)))"
    by (force simp: bucket_keys_def list_all_iff)
  have hash: "find_hash_previous vm (as_value key) 0 (tb_hash t) = Inr (Some b)"
    using find_hash_previous_Some [OF entries_ok [OF ok alive] vk assms(3,4) refl before, of 0] by simp
  have "hash_lookup (tb_hash t) (abs_key key) \<noteq> None"
    using hash_lookup_at [OF _ assms(3,4)] ok assms(5) by (simp add: table_disjoint)
  then have empty: "array_lookup (tb_array t) (abs_key key) = None" using ok by (auto simp: table_disjoint)
  have "tb_array t ! i = None" if "find (\<lambda>i. abs_key key = LK_Int (int i + 1)) [0..<length (tb_array t)] = Some i" for i
  proof -
    from find_set [OF that] have "i < length (tb_array t)" "abs_key key = LK_Int (int i + 1)" by auto
    then show ?thesis using empty by (simp add: array_lookup_def get_at_def nat_add_distrib)
  qed
  moreover have "as_value key \<noteq> V_Nil" by (cases key) auto
  ultimately show ?thesis
    using find_array_previous_find [OF array_bound [OF ok] vk] hash by (auto simp: next_start_def split: option.split)
qed

lemma next_raw_after:
  assumes ok: "table_ok t" and alive: "table_alive vm t" and "traversal t = xs @ (k, v) # ys"
  shows "next_raw vm t k = Inr (first_of ys)"
proof -
  have len: "length (tb_array t) < 2 ^ 63" using ok by (simp add: table_disjoint)
  let ?a = "array_pairs 0 (tb_array t)" and ?h = "hash_pairs (tb_hash t)"
  consider (array) zs where "?a = xs @ (k, v) # zs" "ys = zs @ ?h"
    | (hash) zs where "?h = zs @ (k, v) # ys" "xs = ?a @ zs"
    using assms(3) unfolding traversal_def by (auto simp: append_eq_append_conv2 append_eq_Cons_conv)
  then show ?thesis
  proof cases
    case array
    obtain i u where i: "i < length (tb_array t)" "tb_array t ! i = Some u" "(k, v) = (V_Integer (of_nat (0 + i) + 1), u)"
        "zs = array_pairs (0 + Suc i) (drop (Suc i) (tb_array t))"
      by (rule array_pairs_split [OF array(1)])
    then have "next_start vm t k = Inr (Suc i, 0)" using next_start_array [OF ok] by simp
    from next_raw_from [OF this len] i array(2) show ?thesis by simp
  next
    case hash
    obtain b key u where b: "b < length (tb_hash t)" "tb_hash t ! b = Some (key, u)" "u \<noteq> V_Nil" "(k, v) = (as_value key, u)"
        "ys = hash_pairs (drop (Suc b) (tb_hash t))"
      by (rule hash_pairs_split [OF hash(1)])
    then have "next_start vm t k = Inr (length (tb_array t), Suc b)" using next_start_hash [OF ok alive] by simp
    from next_raw_from [OF this len] b(5) show ?thesis by simp
  qed
qed

lemma next_raw_first: "table_ok t \<Longrightarrow> next_raw vm t V_Nil = Inr (first_of (traversal t))"
  using next_raw_from [of vm t V_Nil 0 0] by (simp add: next_start_def traversal_def table_disjoint)

text \<open>Calling \<open>next\<close> with each key it returned, until it returns none; \<open>None\<close> when the fuel does not last.\<close>

fun walk :: "'h vm_heap \<Rightarrow> 'h lua_table \<Rightarrow> nat \<Rightarrow> lua_value \<Rightarrow> (runtime_error, (lua_value \<times> lua_value) list) result option" where
  "walk vm t 0 previous = None"
| "walk vm t (Suc n) previous =
     (case next_raw vm t previous of
        Inl e \<Rightarrow> Some (Inl e)
      | Inr None \<Rightarrow> Some (Inr [])
      | Inr (Some (k, v)) \<Rightarrow> map_option (\<lambda>r. rbind r (\<lambda>rest. Inr ((k, v) # rest))) (walk vm t n k))"

definition visited :: "'h vm_heap \<Rightarrow> 'h lua_table \<Rightarrow> (lua_key option \<times> lua_value) list" where
  "visited vm t = map (\<lambda>(k, v). (value_key vm k, v)) (traversal t)"

lemma walk_after:
  assumes "table_ok t" and "table_alive vm t" and "traversal t = xs @ ys" and "length ys < fuel"
    and "next_raw vm t previous = Inr (first_of ys)"
  shows "walk vm t fuel previous = Some (Inr ys)"
  using assms(3-)
proof (induction ys arbitrary: xs fuel previous)
  case Nil
  then show ?case by (cases fuel) auto
next
  case (Cons p ys)
  then obtain n where n: "fuel = Suc n" by (cases fuel) auto
  obtain k v where p: "p = (k, v)" by fastforce
  have "next_raw vm t k = Inr (first_of ys)" using next_raw_after [OF assms(1,2)] Cons.prems(1) p by simp
  then have "walk vm t n k = Some (Inr ys)" using Cons.IH [of "xs @ [p]" n k] Cons.prems n by simp
  then show ?case using Cons.prems(3) n p by simp
qed

lemma array_visited_all:
  assumes "start + length vs < 2 ^ 63"
  shows "distinct (map (value_key vm \<circ> fst) (array_pairs start vs))
    \<and> (\<forall>(k, v)\<in>set (array_pairs start vs). \<exists>n. value_key vm k = Some (LK_Int n) \<and> int start < n)
    \<and> (\<forall>n v. (Some (LK_Int n), v) \<in> (\<lambda>(k, v). (value_key vm k, v)) ` set (array_pairs start vs)
      \<longleftrightarrow> (\<exists>i<length vs. n = int (start + i) + 1 \<and> vs ! i = Some v))"
  using assms
proof (induction vs arbitrary: start)
  case (Cons u vs)
  have key: "sint (word_of_int (int start + 1) :: i64) = int start + 1"
    using Cons.prems by (intro sint_word_of_int_i64) auto
  have bound: "Suc start + length vs < 2 ^ 63" using Cons.prems by simp
  note IH = Cons.IH [OF bound]
  have one: "distinct (map (value_key vm \<circ> fst) (array_pairs start (u # vs)))"
  proof -
    have "\<forall>(k, v)\<in>set (array_pairs (Suc start) vs). value_key vm k \<noteq> Some (LK_Int (int start + 1))"
      using IH by fastforce
    moreover have "distinct (map (value_key vm \<circ> fst) (array_pairs (Suc start) vs))" using IH by blast
    ultimately show ?thesis using key by (cases u) auto
  qed
  have two: "\<forall>(k, v)\<in>set (array_pairs start (u # vs)). \<exists>n. value_key vm k = Some (LK_Int n) \<and> int start < n"
    using IH key by (cases u) fastforce+
  have three: "(Some (LK_Int n), v) \<in> (\<lambda>(k, v). (value_key vm k, v)) ` set (array_pairs start (u # vs))
      \<longleftrightarrow> (\<exists>i<length (u # vs). n = int (start + i) + 1 \<and> (u # vs) ! i = Some v)" for n v
  proof -
    have "(\<exists>i<length (u # vs). n = int (start + i) + 1 \<and> (u # vs) ! i = Some v)
        \<longleftrightarrow> n = int start + 1 \<and> u = Some v \<or> (\<exists>i<length vs. n = int (Suc start + i) + 1 \<and> vs ! i = Some v)"
      by (auto simp: less_Suc_eq_0_disj)
    also have "(\<exists>i<length vs. n = int (Suc start + i) + 1 \<and> vs ! i = Some v)
        \<longleftrightarrow> (Some (LK_Int n), v) \<in> (\<lambda>(k, v). (value_key vm k, v)) ` set (array_pairs (Suc start) vs)" using IH by blast
    finally show ?thesis using key by (cases u) auto
  qed
  show ?case using one two three by blast
qed simp

lemma array_visited:
  assumes "start + length vs < 2 ^ 63"
  shows "distinct (map (value_key vm \<circ> fst) (array_pairs start vs))"
    and "(k, v) \<in> set (array_pairs start vs) \<Longrightarrow> \<exists>n. value_key vm k = Some (LK_Int n) \<and> int start < n"
    and "(Some (LK_Int n), v) \<in> (\<lambda>(k, v). (value_key vm k, v)) ` set (array_pairs start vs)
      \<longleftrightarrow> (\<exists>i<length vs. n = int (start + i) + 1 \<and> vs ! i = Some v)"
  using array_visited_all [OF assms, of vm] by auto

lemma hash_visited:
  assumes "table_ok t" and "table_alive vm t"
  shows "map (\<lambda>(k, v). (value_key vm k, v)) (hash_pairs (tb_hash t))
    = map (\<lambda>(key, v). (Some (abs_key key), v)) (live_entries (tb_hash t))"
  using assms by (auto simp: hash_pairs_def table_alive_def list_all_iff entry_alive_def live_entries_def)

lemma hash_lookup_entry:
  assumes "hash_ok buckets"
  shows "hash_lookup buckets k = Some v \<longleftrightarrow> (k, v) \<in> (\<lambda>(key, v). (abs_key key, v)) ` set (live_entries buckets)"
proof
  assume "hash_lookup buckets k = Some v"
  then show "(k, v) \<in> (\<lambda>(key, v). (abs_key key, v)) ` set (live_entries buckets)"
    unfolding hash_lookup_live by (auto dest!: find_map_at split: if_splits)
next
  assume "(k, v) \<in> (\<lambda>(key, v). (abs_key key, v)) ` set (live_entries buckets)"
  then obtain key i where "i < length buckets" "buckets ! i = Some (key, v)" "v \<noteq> V_Nil" "abs_key key = k"
    by (auto simp: live_entries_def in_flatten)
  then show "hash_lookup buckets k = Some v" using hash_lookup_at [OF assms] by auto
qed

lemma array_lookup_entry:
  "array_lookup vs k = Some v \<longleftrightarrow> (\<exists>n. k = LK_Int n \<and> (\<exists>i<length vs. n = int i + 1 \<and> vs ! i = Some v))"
proof (cases k)
  case (LK_Int n)
  have "(0 < n \<and> nat n - 1 < length vs \<and> vs ! (nat n - 1) = Some v) \<longleftrightarrow> (\<exists>i<length vs. n = int i + 1 \<and> vs ! i = Some v)"
    by (auto simp: nat_add_distrib intro: exI [of _ "nat n - 1"])
  then show ?thesis using LK_Int by (auto simp: array_lookup_def split: option.splits if_splits)
qed (simp_all add: array_lookup_def)

lemma visited_exact:
  assumes ok: "table_ok t" and alive: "table_alive vm t"
  shows "distinct (map fst (visited vm t))" and "(Some k, v) \<in> set (visited vm t) \<longleftrightarrow> abs_table t k = Some v"
proof -
  have len: "0 + length (tb_array t) < 2 ^ 63" and hok: "hash_ok (tb_hash t)"
    and dis: "\<And>k. array_lookup (tb_array t) k = None \<or> hash_lookup (tb_hash t) k = None"
    using ok by (simp_all add: table_disjoint)
  let ?a = "map (\<lambda>(k, v). (value_key vm k, v)) (array_pairs 0 (tb_array t))"
  let ?h = "map (\<lambda>(key, v). (Some (abs_key key), v)) (live_entries (tb_hash t))"
  have vis: "visited vm t = ?a @ ?h" by (simp add: visited_def traversal_def hash_visited [OF ok alive])
  have array: "(Some k, v) \<in> set ?a \<longleftrightarrow> array_lookup (tb_array t) k = Some v" for k v
  proof (cases "\<exists>n. k = LK_Int n")
    case True
    then obtain n where n: "k = LK_Int n" by blast
    show ?thesis unfolding n set_map array_visited(3) [OF len] array_lookup_entry by simp
  next
    case False
    then have "(Some k, v) \<notin> set ?a" using array_visited(2) [OF len, of _ _ vm] by fastforce
    then show ?thesis using False by (simp add: array_lookup_entry)
  qed
  have hash: "(Some k, v) \<in> set ?h \<longleftrightarrow> hash_lookup (tb_hash t) k = Some v" for k v
    unfolding hash_lookup_entry [OF hok] by force
  show "(Some k, v) \<in> set (visited vm t) \<longleftrightarrow> abs_table t k = Some v"
    using array hash dis [of k] unfolding vis set_append abs_table_def by (auto split: option.splits)
  have da: "distinct (map fst ?a)" using array_visited(1) [OF len] by (simp add: comp_def split_beta)
  have "distinct (map (\<lambda>(key, _). abs_key key) (live_entries (tb_hash t)))"
    using hok unfolding hash_ok_def bucket_keys_def live_entries_def by (intro distinct_map_filter_pairs) simp
  then have dh: "distinct (map fst ?h)" by (simp add: distinct_map comp_def split_beta inj_on_def)
  have "x \<notin> fst ` set ?h" if x: "x \<in> fst ` set ?a" for x
  proof -
    obtain k v where kv: "(k, v) \<in> set (array_pairs 0 (tb_array t))" "x = value_key vm k" using x by auto
    then obtain n where n: "x = Some (LK_Int n)" using array_visited(2) [OF len kv(1)] by blast
    with x obtain v where "array_lookup (tb_array t) (LK_Int n) = Some v" using array by fastforce
    with dis have "hash_lookup (tb_hash t) (LK_Int n) = None" by (metis option.distinct(1))
    then show ?thesis using hash [of "LK_Int n"] n by fastforce
  qed
  then show "distinct (map fst (visited vm t))" using da dh unfolding vis map_append distinct_append set_map by blast
qed

subsection \<open>Properties of keys and traversal\<close>

text \<open>
  C34: A key is well formed whatever value it was made from: a nil or NaN gives no key, every other
  value that is accepted gives a key that stands for exactly that value (an integral float becomes
  the integer, a string its bytes, an object its identity).
\<close>

theorem canonical_key_wellformed:
  assumes "canonical_key env vm v sw = (Inr r, sw')"
  shows "case r of None \<Rightarrow> v = V_Nil \<or> value_is_nan v
    | Some k \<Rightarrow> key_ok k \<and> value_key vm v = Some (abs_key k)"
proof (cases r)
  case None
  then show ?thesis
    using assms by (cases v) (auto simp: try_else_Inr split: if_splits sum.splits object_kind.splits option.splits)
next
  case (Some k)
  then show ?thesis using canonical_key_ok [of env vm v sw k sw'] assms by simp
qed

definition example_vm :: "unit vm_heap" where
  "example_vm = \<lparr>vh_id = VmId 1, vh_ledger = internal_ledger 0, vh_gc = gc_new Lua54, vh_slots = []\<rparr>"

lemma canonical_key_wellformed_witness:
  "canonical_key example_env example_vm (V_Integer 9) example_strings = (Inr (Some (Key_Integer 9)), example_strings)
     \<and> key_ok (Key_Integer 9 :: unit key_kind) \<and> value_key example_vm (V_Integer 9) = Some (abs_key (Key_Integer 9 :: unit key_kind))"
  using canonical_key_wellformed [of example_env example_vm "V_Integer 9" example_strings "Some (Key_Integer 9)"] by simp

text \<open>
  C13: Two values name the same field exactly when they are raw-equal: comparing the keys made from
  them gives the answer of the equality operator without metamethods (also across integers and
  floats, and for strings that are different objects with the same bytes), and equal keys feed the
  same data to the hash function.
\<close>

theorem key_equality_is_raw_equality:
  assumes "canonical_key env vm a sw1 = (Inr (Some ka), sw2)" and "canonical_key env vm b sw3 = (Inr (Some kb), sw4)"
  shows "raw_equal_value vm a b = Inr (key_eq ka kb) \<and> (key_eq ka kb \<longrightarrow> key_hash ka = key_hash kb)"
proof -
  note a = canonical_key_ok [OF assms(1)] and b = canonical_key_ok [OF assms(2)]
  show ?thesis
    using raw_equal_keys [OF a(2) b(2)] key_eq_abs [OF a(1) b(1)] abs_key_hash [OF a(1) b(1)] by simp
qed

lemma key_equality_is_raw_equality_witness:
  "raw_equal_value example_vm (V_Integer 9) (V_Integer 8)
     = Inr (key_eq (Key_Integer 9 :: unit key_kind) (Key_Integer 8))"
  using key_equality_is_raw_equality [of example_env example_vm "V_Integer 9" example_strings "Key_Integer 9" example_strings
      "V_Integer 8" example_strings "Key_Integer 8" example_strings] by simp

text \<open>
  C7: Traversal is complete: starting from nil and handing each returned key back to \<open>next\<close>, an
  unchanged table yields every field of its map exactly once and then the end; as many steps as there
  are fields, plus one, are enough. This needs the objects of the live keys to be alive.
\<close>

theorem next_visits_all:
  assumes "table_ok t" and "table_alive vm t" and "length (traversal t) < fuel"
  shows "walk vm t fuel V_Nil = Some (Inr (traversal t)) \<and> distinct (map fst (visited vm t))
    \<and> (\<forall>k v. (Some k, v) \<in> set (visited vm t) \<longleftrightarrow> abs_table t k = Some v)"
  using walk_after [OF assms(1,2) _ assms(3) next_raw_first [OF assms(1)], of "[]"] visited_exact [OF assms(1,2)] by simp

lemma next_visits_all_witness:
  "walk example_vm example_table 3 V_Nil = Some (Inr [(V_Integer 1, V_Boolean True), (V_Integer 9, V_Boolean False)])"
proof -
  have "traversal example_table = [(V_Integer 1, V_Boolean True), (V_Integer 9, V_Boolean False)]"
    by (simp add: traversal_def example_table_def hash_pairs_def live_entries_def)
  moreover have "table_alive example_vm example_table"
    by (simp add: table_alive_def example_table_def entry_alive_def)
  ultimately show ?thesis using next_visits_all [OF example_table_ok, of example_vm 3] by simp
qed

text \<open>
  C37: Clearing a field during a traversal can lose others: when the field the traversal stands on is
  in the array part and a removed entry of the same key is still in a bucket, assigning nil to the
  field and asking for the next one goes on behind that bucket. Every later array field and every
  earlier bucket is skipped, although the language allows clearing a field during a traversal.
\<close>

theorem next_skips_after_clear:
  assumes "table_ok t" and "table_alive vm t" and "i < length (tb_array t)" and "tb_array t ! i = Some v"
    and "b < length (tb_hash t)" and "tb_hash t ! b = Some (k, V_Nil)" and "abs_key k = LK_Int (int i + 1)"
  shows "prepare_set env l t (Key_Integer (of_nat i + 1)) V_Nil sw = (Inr (ArraySlot i V_Nil), sw)
    \<and> next_raw vm (fst (apply_mutation (ArraySlot i V_Nil) t sw)) (V_Integer (of_nat i + 1))
        = Inr (first_of (hash_pairs (drop (Suc b) (tb_hash t))))"
proof -
  have "i < 2 ^ 63 - 1" using assms(1,3) by (simp add: table_disjoint)
  then have "sint (word_of_int (int i + 1) :: i64) = int i + 1" by (intro sint_word_of_int_i64) auto
  then have s: "sint (of_nat i + 1 :: i64) = int i + 1" by simp
  then have idx: "array_index (Key_Integer (of_nat i + 1) :: 'a key_kind) = Some i" by (simp add: nat_add_distrib)
  have prep: "prepare_set env l t (Key_Integer (of_nat i + 1)) V_Nil sw = (Inr (ArraySlot i V_Nil), sw)"
    using assms(3,4) idx by (simp add: prepare_set_def array_value_def get_at_def del: array_index.simps)
  define t' where "t' = fst (apply_mutation (ArraySlot i V_Nil) t sw)"
  have parts: "tb_array t' = (tb_array t)[i := None]" "tb_hash t' = tb_hash t"
    using apply_mutation_parts [of "ArraySlot i V_Nil" t sw] by (simp_all add: t'_def)
  have hok: "hash_ok (tb_hash t)" using assms(1) by (simp add: table_disjoint)
  have "hash_lookup (tb_hash t) (LK_Int (int i + 1)) = None" using hash_lookup_at [OF hok assms(5,6)] assms(7) by simp
  then have ok: "table_ok t'" using table_array_update(1) [OF assms(1,3), of t' V_Nil] parts by simp
  have alive: "table_alive vm t'" using assms(2) parts by (simp add: table_alive_def)
  have vk: "value_key vm (V_Integer (of_nat i + 1)) = Some (LK_Int (int i + 1))" using s by simp
  have "find_array_previous vm (V_Integer (of_nat i + 1)) [0..<length (tb_array t')] = Inr (Some i)"
    using find_array_previous_find [OF array_bound [OF ok] vk] find_int_key [of "int i + 1" "length (tb_array t')"]
      assms(3) parts by simp
  moreover have "find_hash_previous vm (V_Integer (of_nat i + 1)) 0 (tb_hash t') = Inr (Some b)"
  proof -
    have "abs_key k \<notin> set (bucket_keys (take b (tb_hash t)))"
      using hok unfolding hash_ok_split [OF assms(5)] assms(6) by simp
    then have "list_all (\<lambda>(key, v). abs_key key \<noteq> LK_Int (int i + 1)) (flatten (take b (tb_hash t)))"
      using assms(7) by (force simp: bucket_keys_def list_all_iff)
    from find_hash_previous_Some [OF entries_ok [OF ok alive] vk _ _ assms(7), of b V_Nil 0] this assms(5,6) parts
    show ?thesis by simp
  qed
  ultimately have "next_start vm t' (V_Integer (of_nat i + 1)) = Inr (length (tb_array t'), Suc b)"
    using assms(3) parts by (simp add: next_start_def)
  from next_raw_from [OF this] ok parts prep show ?thesis by (simp add: t'_def table_disjoint)
qed

text \<open>
  The tables of that kind are reachable: with three live entries and the removed one in four buckets,
  assigning the removed integer key again is sent to the array part.
\<close>

definition stale_table :: "lua_value option \<Rightarrow> unit lua_table" where
  "stale_table v = \<lparr>tb_metatable = None, tb_weak_mode = Strong, tb_hash_seed = 0, mutation_version = 0,
     tb_array = [Some (V_Boolean True), Some (V_Boolean True), v, Some (V_Boolean True)],
     tb_hash = [Some (Key_Integer 10, V_Boolean True), Some (Key_Integer 20, V_Boolean True), Some (Key_Integer 3, V_Nil),
       Some (Key_Integer 30, V_Boolean True)],
     tb_charges = paired_new (internal_ledger 0)\<rparr>"

lemma stale_table_reached:
  "case fst (prepare_set example_env (internal_ledger 0) (stale_table None) (Key_Integer 3) (V_Boolean True) example_strings) of
     Inr (ArraySlot i v) \<Rightarrow> i = 2 \<and> v = V_Boolean True | _ \<Rightarrow> False"
  by code_simp

lemma next_skips_after_clear_witness:
  "table_ok (stale_table (Some (V_Boolean True)))
    \<and> next_raw example_vm (fst (apply_mutation (ArraySlot 2 V_Nil) (stale_table (Some (V_Boolean True))) example_strings)) (V_Integer 3)
        = Inr (Some (V_Integer 30, V_Boolean True))
    \<and> abs_table (stale_table (Some (V_Boolean True))) (LK_Int 4) = Some (V_Boolean True)"
proof -
  have ok: "table_ok (stale_table (Some (V_Boolean True)))"
    by (simp add: table_ok_def stale_table_def hash_ok_def bucket_keys_def live_entries_def array_lookup_def get_at_def)
  have alive: "table_alive example_vm (stale_table (Some (V_Boolean True)))"
    by (simp add: table_alive_def stale_table_def entry_alive_def)
  have "hash_pairs (drop (Suc 2) (tb_hash (stale_table (Some (V_Boolean True))))) = [(V_Integer 30, V_Boolean True)]"
    by (simp add: stale_table_def hash_pairs_def live_entries_def)
  moreover have "abs_table (stale_table (Some (V_Boolean True))) (LK_Int 4) = Some (V_Boolean True)"
    by (simp add: stale_table_def abs_table_def array_lookup_def get_at_def numeral_3_eq_3)
  moreover have "tb_array (stale_table (Some (V_Boolean True))) ! 2 = Some (V_Boolean True)"
      "tb_hash (stale_table (Some (V_Boolean True))) ! 2 = Some (Key_Integer 3, V_Nil)"
    by (simp_all add: stale_table_def)
  ultimately show ?thesis
    using next_skips_after_clear [OF ok alive, of 2 "V_Boolean True" 2 "Key_Integer 3"] ok
    by (simp add: stale_table_def)
qed

end
