(* ===== verification/Number_Text.thy ===== *)
theory Number_Text
  imports Vm_Heap Lex_Number
begin

text \<open>
  Numbers as text: how a number is printed (\<open>NumberBytes\<close>, \<open>format_lua_float\<close> and \<open>basic_number_bytes\<close>
  of \<open>vm/ops.rs\<close>) and how a string is read as a number (\<open>lua_integer\<close>, \<open>lua_hex_number\<close>,
  \<open>parse_number_bytes\<close> and \<open>number\<close> of \<open>stdlib/basic.rs\<close>). What they use of the standard library, the
  decimal formatting of integers and floats, is written out on exact rationals.
\<close>

subsection \<open>Standard library: decimal formatting\<close>

function dec_digits :: "nat \<Rightarrow> bytes" where
  "dec_digits n = (if n < 10 then [48 + of_nat n] else dec_digits (n div 10) @ [48 + of_nat (n mod 10)])"
  by pat_completeness auto
termination
  by (relation "measure id") auto

declare dec_digits.simps [simp del]

definition show_int :: "int \<Rightarrow> bytes" where
  "show_int i = (if i < 0 then 45 # dec_digits (nat (- i)) else dec_digits (nat i))"

text \<open>The decimal exponent of \<open>n / d\<close>, and the quotient rounded to nearest, ties to even.\<close>

definition dec_exp :: "nat \<Rightarrow> nat \<Rightarrow> int" where
  "dec_exp n d =
     (if d \<le> n then int (length (dec_digits (n div d))) - 1
      else - int (length (dec_digits ((d - 1) div n))))"

definition div_half_even :: "nat \<Rightarrow> nat \<Rightarrow> nat" where
  "div_half_even n d =
     (let q = n div d; r = n mod d in if 2 * r < d \<or> (2 * r = d \<and> even q) then q else Suc q)"

definition sci_digits :: "nat \<Rightarrow> nat \<Rightarrow> nat \<Rightarrow> nat \<times> int" where
  "sci_digits p n d =
     (let e = dec_exp n d;
          k = int p - 1 - e;
          m = (if 0 \<le> k then div_half_even (n * 10 ^ nat k) d else div_half_even n (d * 10 ^ nat (- k)))
      in if m = 10 ^ p then (10 ^ (p - 1), e + 1) else (m, e))"

text \<open>\<open>{:.*e}\<close> of a finite float, with \<open>p\<close> digits in all (so \<open>p - 1\<close> after the point), \<open>p > 1\<close>.\<close>

definition format_e :: "nat \<Rightarrow> f64 \<Rightarrow> bytes" where
  "format_e p v =
     (let n = mag_units (f64_mag v);
          (digits, e) = (if n = 0 then (replicate p 48, 0)
                         else let (m, e) = sci_digits p n one_units in (dec_digits m, e))
      in (if f64_sign v then [45] else []) @ hd digits # 46 # tl digits @ 101 # show_int e)"

text \<open>\<open>{:+03}\<close> of an integer.\<close>

definition show_signed3 :: "int \<Rightarrow> bytes" where
  "show_signed3 i =
     (let digits = dec_digits (nat \<bar>i\<bar>)
      in (if i < 0 then 45 else 43) # replicate (2 - length digits) 48 @ digits)"

subsection \<open>Printing a number\<close>

text \<open>A \<open>NumberBytes\<close> is given by the bytes written so far; it holds at most 128.\<close>

type_synonym number_bytes = bytes

definition nb_append :: "bytes \<Rightarrow> number_bytes \<Rightarrow> (runtime_error, number_bytes) result" where
  "nb_append b number =
     (if length number + length b \<le> 128 then Inr (number @ b) else Inl (Rt_Vm ArithmeticOverflow))"

fun nb_zeros :: "nat \<Rightarrow> number_bytes \<Rightarrow> (runtime_error, number_bytes) result" where
  "nb_zeros 0 number = Inr number"
| "nb_zeros (Suc n) number = rbind (nb_append [48] number) (nb_zeros n)"

function scientific :: "lua_profile \<Rightarrow> f64 \<Rightarrow> nat \<Rightarrow> (runtime_error, number_bytes \<times> nat) result" where
  "scientific profile v precision =
     rbind (nb_append (format_e precision v) []) (\<lambda>candidate.
     if \<not> from_utf8 candidate then Inl (Rt_Vm ArithmeticOverflow)
     else case parse_f64 candidate of
         None \<Rightarrow> Inl (Rt_Vm ArithmeticOverflow)
       | Some parsed \<Rightarrow>
           if profile = Lua54 \<or> f64_eq parsed v \<or> precision = 17 then Inr (candidate, precision)
           else scientific profile v 17)"
  by pat_completeness auto
termination
  by (relation "measure (\<lambda>(_, _, p). if p = 17 then 0 else 1)") auto

declare scientific.simps [simp del]

fun collect_digits :: "bytes \<Rightarrow> bytes \<Rightarrow> (runtime_error, bytes) result" where
  "collect_digits [] digits = Inr digits"
| "collect_digits (byte # rest) digits =
     (if is_ascii_digit byte then
        if length digits < 17 then collect_digits rest (digits @ [byte]) else Inl (Rt_Vm ArithmeticOverflow)
      else if byte \<noteq> 46 \<and> byte \<noteq> 45 then Inl (Rt_Vm ArithmeticOverflow)
      else collect_digits rest digits)"

function strip_zeros :: "bytes \<Rightarrow> bytes" where
  "strip_zeros digits = (if 1 < length digits \<and> last digits = 48 then strip_zeros (butlast digits) else digits)"
  by pat_completeness auto
termination
  by (relation "measure length") auto

declare strip_zeros.simps [simp del]

definition split_once_e :: "bytes \<Rightarrow> (bytes \<times> bytes) option" where
  "split_once_e text =
     (if 101 \<in> set text then Some (takeWhile (\<lambda>b. b \<noteq> 101) text, tl (dropWhile (\<lambda>b. b \<noteq> 101) text)) else None)"

definition layout_digits :: "nat \<Rightarrow> bytes \<Rightarrow> int \<Rightarrow> number_bytes \<Rightarrow> (runtime_error, number_bytes) result" where
  "layout_digits precision digits exponent number =
     (if exponent < - 4 \<or> int precision \<le> exponent then
        rbind (nb_append (take 1 digits) number) (\<lambda>number.
        rbind (if 1 < length digits then rbind (nb_append [46] number) (nb_append (drop 1 digits)) else Inr number)
          (nb_append (101 # show_signed3 exponent)))
      else
        let decimal = exponent + 1
        in if decimal \<le> 0 then
             rbind (nb_append [48, 46] number) (\<lambda>number.
             rbind (nb_zeros (nat (- decimal)) number) (nb_append digits))
           else
             let decimal = nat decimal
             in if length digits \<le> decimal then
                  rbind (nb_append digits number) (\<lambda>number.
                  rbind (nb_zeros (decimal - length digits) number) (nb_append [46, 48]))
                else
                  rbind (nb_append (take decimal digits) number) (\<lambda>number.
                  rbind (nb_append [46] number) (nb_append (drop decimal digits))))"

definition format_lua_float :: "lua_profile \<Rightarrow> f64 \<Rightarrow> number_bytes \<Rightarrow> (runtime_error, number_bytes) result" where
  "format_lua_float profile v number =
     (if is_nan v then nb_append (bs ''nan'') number
      else if f64_eq v (f64_inf False) then nb_append (bs ''inf'') number
      else if f64_eq v (f64_inf True) then nb_append (bs ''-inf'') number
      else
        rbind (scientific profile v (case profile of Lua54 \<Rightarrow> 14 | Lua55 \<Rightarrow> 15)) (\<lambda>(text, precision).
        if \<not> from_utf8 text then Inl (Rt_Vm ArithmeticOverflow)
        else rbind (ok_or (Rt_Vm ArithmeticOverflow) (split_once_e text)) (\<lambda>(mantissa, exponent_text).
        rbind (ok_or (Rt_Vm ArithmeticOverflow) (parse_i32 exponent_text)) (\<lambda>exponent.
        rbind (collect_digits mantissa []) (\<lambda>digits.
        if digits = [] then Inl (Rt_Vm ArithmeticOverflow)
        else
          let digits = strip_zeros digits
          in rbind (if f64_sign v then nb_append [45] number else Inr number)
               (layout_digits precision digits exponent))))))"

fun basic_number_bytes :: "lua_profile \<Rightarrow> lua_value \<Rightarrow> (runtime_error, number_bytes) result" where
  "basic_number_bytes profile (V_Integer n) = nb_append (show_int (sint n)) []"
| "basic_number_bytes profile (V_Float v) = format_lua_float profile v []"
| "basic_number_bytes profile _ = Inl Rt_BasicArgument"

subsection \<open>Reading a number\<close>

fun lua_integer :: "lua_value \<Rightarrow> i64 option" where
  "lua_integer (V_Integer n) = Some n"
| "lua_integer (V_Float v) =
     (if is_finite v \<and> f64_eq (f64_fract v) (f64_zero False) \<and> f64_ge v (f64_of_int (- (2 ^ 63)))
         \<and> f64_lt v (f64_of_int (2 ^ 63))
      then Some (f64_to_i64 v) else None)"
| "lua_integer _ = None"

definition is_ascii_whitespace :: "u8 \<Rightarrow> bool" where
  "is_ascii_whitespace b \<longleftrightarrow> b \<in> {32, 9, 10, 12, 13}"

definition to_ascii_uppercase :: "u8 \<Rightarrow> u8" where
  "to_ascii_uppercase b = (if is_ascii_lowercase b then b - 32 else b)"

definition trim_ws :: "bytes \<Rightarrow> bytes" where
  "trim_ws text = rev (dropWhile is_ascii_whitespace (rev (dropWhile is_ascii_whitespace text)))"

record hex_scan =
  hx_integer :: u64
  hx_number :: f64
  hx_digits :: nat
  hx_fraction :: f64
  hx_dot :: bool

fun hex_scan_loop :: "bytes \<Rightarrow> hex_scan \<Rightarrow> bytes \<times> hex_scan" where
  "hex_scan_loop [] st = ([], st)"
| "hex_scan_loop (byte # rest) st =
     (if byte = 46 \<and> \<not> hx_dot st then hex_scan_loop rest (st\<lparr>hx_dot := True\<rparr>)
      else case hex_value byte of
          None \<Rightarrow> (byte # rest, st)
        | Some digit \<Rightarrow>
            let st = st\<lparr>hx_digits := hx_digits st + 1, hx_integer := hx_integer st * 16 + ucast digit\<rparr>;
                d = f64_of_int (uint digit);
                st = (if hx_dot st then
                        let fraction = f64_div (hx_fraction st) (f64_of_int 16)
                        in st\<lparr>hx_fraction := fraction, hx_number := f64_add (hx_number st) (f64_mul d fraction)\<rparr>
                      else st\<lparr>hx_number := f64_add (f64_mul (hx_number st) (f64_of_int 16)) d\<rparr>)
            in hex_scan_loop rest st)"

definition is_sign_byte :: "u8 \<Rightarrow> bool" where
  "is_sign_byte b \<longleftrightarrow> b = 45 \<or> b = 43"

text \<open>\<open>pow2\<close> is \<open>powi\<close> of base two in the standard library, whose precision it leaves open.\<close>

definition lua_hex_number :: "(int \<Rightarrow> f64) \<Rightarrow> bytes \<Rightarrow> lua_value option" where
  "lua_hex_number pow2 text =
     (let negative = (text \<noteq> [] \<and> hd text = 45);
          body = (if text \<noteq> [] \<and> is_sign_byte (hd text) then tl text else text)
      in if take 2 body \<notin> {bs ''0x'', bs ''0X''} then None
         else
           let (rest, st) = hex_scan_loop (drop 2 body)
                 \<lparr>hx_integer = 0, hx_number = f64_zero False, hx_digits = 0, hx_fraction = f64_of_int 1, hx_dot = False\<rparr>
           in if hx_digits st = 0 then None
              else if \<not> hx_dot st \<and> rest = [] \<and> hx_digits st \<le> 16 then
                Some (V_Integer (if negative then 0 - hx_integer st else hx_integer st))
              else
                Option.bind
                  (if rest \<noteq> [] \<and> is_p (hd rest) then
                     if from_utf8 (tl rest) then map_option (\<lambda>e. f64_mul (hx_number st) (pow2 e)) (parse_i32 (tl rest))
                     else None
                   else if rest \<noteq> [] then None
                   else Some (hx_number st))
                  (\<lambda>n. Some (V_Float (if negative then f64_neg n else n))))"

definition parse_number_bytes :: "(int \<Rightarrow> f64) \<Rightarrow> bytes \<Rightarrow> lua_value option" where
  "parse_number_bytes pow2 b =
     (if \<not> from_utf8 b then None
      else
        let text = trim_ws b
        in if take 2 text \<in> {bs ''0x'', bs ''0X''} \<or> take 2 (drop 1 text) \<in> {bs ''0x'', bs ''0X''} then
             lua_hex_number pow2 text
           else case parse_i64 text of
               Some n \<Rightarrow> Some (V_Integer n)
             | None \<Rightarrow>
                 let w = map to_ascii_lowercase (dropWhile is_sign_byte text)
                 in if w \<in> {bs ''nan'', bs ''inf'', bs ''infinity''} then None
                    else map_option V_Float (parse_f64 text))"

fun radix_loop :: "u64 \<Rightarrow> bytes \<Rightarrow> u64 \<Rightarrow> nat \<Rightarrow> (bytes \<times> u64 \<times> nat) option" where
  "radix_loop base [] n digits = Some ([], n, digits)"
| "radix_loop base (first # rest) n digits =
     (if \<not> is_ascii_digit first \<and> \<not> is_ascii_alphabetic first then Some (first # rest, n, digits)
      else
        let digit = (if is_ascii_digit first then first - 48 else to_ascii_uppercase first - 65 + 10)
        in if base \<le> ucast digit then None
           else radix_loop base rest (n * base + ucast digit) (digits + 1))"

definition radix_number :: "i64 \<Rightarrow> bytes \<Rightarrow> lua_value" where
  "radix_number base b =
     (let input = dropWhile is_ascii_whitespace b;
          negative = (input \<noteq> [] \<and> hd input = 45);
          input = (if input \<noteq> [] \<and> is_sign_byte (hd input) then tl input else input)
      in case radix_loop base input 0 0 of
           None \<Rightarrow> V_Nil
         | Some (rest, n, digits) \<Rightarrow>
             if digits = 0 \<or> \<not> list_all is_ascii_whitespace rest then V_Nil
             else V_Integer (if negative then 0 - n else n))"

definition basic_number :: "(int \<Rightarrow> f64) \<Rightarrow> 'h vm_heap \<Rightarrow> lua_value \<Rightarrow> lua_value option \<Rightarrow> (runtime_error, lua_value) result" where
  "basic_number pow2 vm v base =
     (let no_base = (base = None \<or> base = Some V_Nil)
      in if no_base \<and> number_if v \<noteq> None then Inr v
         else case v of
             V_Object object \<Rightarrow>
               rbind (vm_result (object_kind vm object)) (\<lambda>kind.
               if kind \<noteq> Kind_ByteString then (if no_base then Inr V_Nil else Inl Rt_BasicArgument)
               else rbind (vm_result (with_byte_string vm object (\<lambda>string.
                 let b = as_bytes string
                 in case base of
                      Some radix \<Rightarrow>
                        if radix = V_Nil then Inr (case parse_number_bytes pow2 b of None \<Rightarrow> V_Nil | Some n \<Rightarrow> n)
                        else rbind (ok_or Rt_BasicArgument (lua_integer radix)) (\<lambda>radix.
                          if 2 \<le> sint radix \<and> sint radix \<le> 36 then Inr (radix_number radix b) else Inl Rt_BasicArgument)
                    | None \<Rightarrow> Inr (case parse_number_bytes pow2 b of None \<Rightarrow> V_Nil | Some n \<Rightarrow> n)))) id)
           | _ \<Rightarrow> if no_base then Inr V_Nil else Inl Rt_BasicArgument)"

end
