(* ===== verification/Number_Round.thy ===== *)
theory Number_Round
  imports Number_Text Complex_Main
begin

text \<open>
  Printing and reading numbers are inverse to each other. The decimal digits of a quotient are within half
  a unit of it, a float is the nearest one to every number closer than half the gap to its
  neighbours, and seventeen digits are always that close; the rest follows the printed text through the
  parser.
\<close>

subsection \<open>Rounding to the nearest float\<close>

lemma mag_units_step:
  assumes "m < 2 ^ 53" and "s \<noteq> 0 \<longrightarrow> 2 ^ 52 \<le> m"
  shows "mag_units (s * 2 ^ 52 + m) = m * 2 ^ s" and "mag_units (Suc (s * 2 ^ 52 + m)) = Suc m * 2 ^ s"
proof -
  have units: "mag_units (s * 2 ^ 52 + j) = j * 2 ^ s" if "j < 2 ^ 53" "s \<noteq> 0 \<longrightarrow> 2 ^ 52 \<le> j" for j
    using that mag_units_shift [of j s] mag_units_small [of j] by (cases "s = 0") auto
  show "mag_units (s * 2 ^ 52 + m) = m * 2 ^ s" using assms by (rule units)
  show "mag_units (Suc (s * 2 ^ 52 + m)) = Suc m * 2 ^ s"
  proof (cases "Suc m < 2 ^ 53")
    case True
    then show ?thesis using units [of "Suc m"] assms(2) by (simp only: add_Suc_right) auto
  next
    case False
    then have m: "Suc m = 2 ^ 53" using assms(1) by simp
    have "Suc (s * 2 ^ 52 + m) = Suc s * 2 ^ 52 + 2 ^ 52" using m by (simp only: add_Suc_right [symmetric]) simp
    then show ?thesis using mag_units_shift [of "2 ^ 52" "Suc s"] m by simp
  qed
qed

lemma round_mag_cases:
  assumes "0 < den"
  obtains k where "mag_units k * den \<le> num" and "num < mag_units (Suc k) * den"
    and "round_mag num den = min (if (mag_units k + mag_units (Suc k)) * den < 2 * num \<or>
            ((mag_units k + mag_units (Suc k)) * den = 2 * num \<and> odd k) then Suc k else k) inf_mag"
proof -
  define q where "q = num div den"
  define s where "s = bit_width q - 53"
  define m where "m = q div 2 ^ s"
  define k where "k = s * 2 ^ 52 + m"
  have "(2::nat) ^ bit_width q \<le> 2 ^ (53 + s)" by (rule power_increasing) (simp_all add: s_def)
  then have "q < 2 ^ 53 * 2 ^ s" using bit_width_upper [of q] unfolding power_add by linarith
  then have m53: "m < 2 ^ 53" unfolding m_def by (simp add: less_mult_imp_div_less)
  have m52: "s \<noteq> 0 \<longrightarrow> 2 ^ 52 \<le> m"
  proof
    assume s: "s \<noteq> 0"
    then have w: "bit_width q - 1 = 52 + s" unfolding s_def by simp
    have "q \<noteq> 0" using s unfolding s_def by (cases "q = 0") auto
    then have "2 ^ (52 + s) \<le> q" using bit_width_lower [of q] w by simp
    then have "2 ^ 52 * 2 ^ s div 2 ^ s \<le> m" unfolding m_def power_add by (rule div_le_mono)
    then show "2 ^ 52 \<le> m" by simp
  qed
  note units = mag_units_step [OF m53 m52, folded k_def]
  have lo: "m * 2 ^ s * den \<le> num"
  proof -
    have "m * 2 ^ s \<le> q" unfolding m_def by simp
    then have "m * 2 ^ s * den \<le> q * den" by simp
    also have "\<dots> \<le> num" unfolding q_def by simp
    finally show ?thesis .
  qed
  have hi: "num < Suc m * 2 ^ s * den"
  proof -
    have "q < Suc m * 2 ^ s" unfolding m_def by (simp add: div_less_iff_less_mult [symmetric] del: mult_Suc)
    then have "Suc q * den \<le> Suc m * 2 ^ s * den" by (simp only: mult_le_mono1 Suc_leI)
    moreover have "num < Suc q * den" unfolding q_def using assms by (simp add: div_less_iff_less_mult [symmetric] del: mult_Suc)
    ultimately show ?thesis by linarith
  qed
  have parity: "odd k \<longleftrightarrow> odd m" unfolding k_def by simp
  have "round_mag num den = min (if 2 ^ s * den < 2 * (num - m * 2 ^ s * den)
       \<or> (2 ^ s * den = 2 * (num - m * 2 ^ s * den) \<and> odd m) then Suc k else k) inf_mag"
    unfolding round_mag_def Let_def q_def [symmetric] s_def [symmetric] m_def [symmetric] k_def by simp
  also have "\<dots> = min (if (mag_units k + mag_units (Suc k)) * den < 2 * num \<or>
            ((mag_units k + mag_units (Suc k)) * den = 2 * num \<and> odd k) then Suc k else k) inf_mag"
  proof -
    have e: "(mag_units k + mag_units (Suc k)) * den = 2 * (m * 2 ^ s * den) + 2 ^ s * den"
      unfolding units by (simp add: algebra_simps)
    have "2 ^ s * den < 2 * (num - m * 2 ^ s * den) \<longleftrightarrow> (mag_units k + mag_units (Suc k)) * den < 2 * num"
      "2 ^ s * den = 2 * (num - m * 2 ^ s * den) \<longleftrightarrow> (mag_units k + mag_units (Suc k)) * den = 2 * num"
      unfolding e using lo by linarith+
    then show ?thesis unfolding parity by simp
  qed
  finally show ?thesis by (intro that [of k]) (use lo hi in \<open>simp_all only: units\<close>)
qed

lemma round_mag_nearest:
  assumes "0 < den" and "k < inf_mag"
    and upper: "2 * num < (mag_units k + mag_units (Suc k)) * den"
    and lower: "k \<noteq> 0 \<Longrightarrow> (mag_units (k - 1) + mag_units k) * den < 2 * num"
  shows "round_mag num den = k"
proof -
  obtain j where j: "mag_units j * den \<le> num" "num < mag_units (Suc j) * den"
    and r: "round_mag num den = min (if (mag_units j + mag_units (Suc j)) * den < 2 * num \<or>
            ((mag_units j + mag_units (Suc j)) * den = 2 * num \<and> odd j) then Suc j else j) inf_mag"
    using \<open>0 < den\<close> by (rule round_mag_cases)
  have below: "a < b" if "mag_units a * den < mag_units b * den" for a b using that by simp
  have "mag_units k * den < mag_units (Suc k) * den" using \<open>0 < den\<close> mag_units_Suc [of k] by simp
  then have "num < mag_units (Suc k) * den" using upper unfolding add_mult_distrib by linarith
  then have jk: "j < Suc k" using j(1) by - (rule below, linarith)
  show ?thesis
  proof (cases "j = k")
    case True
    then show ?thesis using r upper assms(2) by simp
  next
    case False
    with jk have "j < k" by simp
    then have k0: "k \<noteq> 0" by simp
    have "mag_units (k - 1) * den < mag_units k * den" using \<open>0 < den\<close> k0 by simp
    then have "mag_units (k - 1) * den < num" using lower [OF k0] unfolding add_mult_distrib by linarith
    then have "k - 1 < Suc j" using j(2) by - (rule below, linarith)
    then have "k = Suc j" using \<open>j < k\<close> by simp
    then show ?thesis using r lower [OF k0] assms(2) by simp
  qed
qed

lemma mag_gap_above: "mag_units k \<le> 2 ^ 53 * (mag_units (Suc k) - mag_units k)"
proof (cases "k < 2 ^ 52")
  case True
  then show ?thesis using mag_units_step [of k 0] by simp
next
  case False
  define s where "s = (k - 2 ^ 52) div 2 ^ 52"
  define m where "m = (k - 2 ^ 52) mod 2 ^ 52 + 2 ^ 52"
  have k: "k = s * 2 ^ 52 + m" unfolding s_def m_def using False by simp
  have m: "2 ^ 52 \<le> m" "m < 2 ^ 53" unfolding m_def by simp_all
  show ?thesis using mag_units_step [of m s] m unfolding k by (simp add: algebra_simps)
qed

lemma mag_gap_below:
  assumes "k \<noteq> 0"
  shows "mag_units k \<le> 2 ^ 53 * (mag_units k - mag_units (k - 1))"
proof -
  obtain j where j: "k = Suc j" using assms by (cases k) auto
  obtain s m where sm: "j = s * 2 ^ 52 + m" "m < 2 ^ 53" "s \<noteq> 0 \<longrightarrow> 2 ^ 52 \<le> m"
  proof (cases "j < 2 ^ 52")
    case True
    then show thesis by (intro that [of 0 j]) simp_all
  next
    case False
    then show thesis by (intro that [of "(j - 2 ^ 52) div 2 ^ 52" "(j - 2 ^ 52) mod 2 ^ 52 + 2 ^ 52"]) simp_all
  qed
  note units = mag_units_step [OF sm(2,3), folded sm(1)]
  have "Suc m * 2 ^ s \<le> 2 ^ 53 * 2 ^ s" using sm(2) by (intro mult_right_mono) simp_all
  then show ?thesis unfolding j using units by simp
qed

subsection \<open>Decimal digits\<close>

lemma dec_digits_not_Nil [simp]: "dec_digits n \<noteq> []"
  by (subst dec_digits.simps) simp

lemma dec_digits_small: "n < 10 \<Longrightarrow> dec_digits n = [48 + of_nat n]"
  and dec_digits_step: "\<not> n < 10 \<Longrightarrow> dec_digits n = dec_digits (n div 10) @ [48 + of_nat (n mod 10)]"
  by (simp_all add: dec_digits.simps [of n])

lemma digit_byte [simp]:
  assumes "n < 10"
  shows "is_ascii_digit (48 + of_nat n)" and "digit_val (48 + of_nat n) = n"
proof -
  have u: "unat (48 + of_nat n :: u8) = 48 + n"
    using assms by (simp add: unat_word_ariths unat_of_nat)
  show "is_ascii_digit (48 + of_nat n)" using assms by (simp add: is_ascii_digit_def word_le_nat_alt u)
  have "(48 + of_nat n :: u8) - 48 = of_nat n" by simp
  then show "digit_val (48 + of_nat n) = n" using assms by (simp add: digit_val_def unat_of_nat)
qed

lemma dec_digits_digits: "b \<in> set (dec_digits n) \<Longrightarrow> is_ascii_digit b"
proof (induction n rule: dec_digits.induct)
  case (1 n)
  show ?case
  proof (cases "n < 10")
    case True
    then show ?thesis using "1.prems" by (simp add: dec_digits_small)
  next
    case False
    then have "b \<in> set (dec_digits (n div 10)) \<or> b = 48 + of_nat (n mod 10)"
      using "1.prems" unfolding dec_digits_step [OF False] by auto
    then show ?thesis using "1.IH" False by auto
  qed
qed

text \<open>The value of a run of digits.\<close>

definition nat_of_digits :: "bytes \<Rightarrow> nat" where
  "nat_of_digits xs = foldl (\<lambda>a b. 10 * a + digit_val b) 0 xs"

lemma foldl_digits: "foldl (\<lambda>a b. 10 * a + digit_val b) acc xs = acc * 10 ^ length xs + nat_of_digits xs"
  unfolding nat_of_digits_def
proof (induction xs arbitrary: acc)
  case (Cons b xs)
  show ?case using Cons [of "10 * acc + digit_val b"] Cons [of "digit_val b"] by (simp add: algebra_simps)
qed simp

lemma digits_val_foldl:
  "digits_val acc xs = (if \<forall>b\<in>set xs. is_ascii_digit b then Some (acc * 10 ^ length xs + nat_of_digits xs) else None)"
  unfolding foldl_digits [symmetric] by (induction xs arbitrary: acc) auto

lemma nat_of_digits_append:
  "nat_of_digits (xs @ ys) = nat_of_digits xs * 10 ^ length ys + nat_of_digits ys"
  using foldl_digits [of "nat_of_digits xs" ys] by (simp add: nat_of_digits_def)

lemma nat_of_digits_simps [simp]:
  "nat_of_digits [] = 0" "nat_of_digits [b] = digit_val b"
  by (simp_all add: nat_of_digits_def)

lemma nat_of_digits_zeros [simp]: "nat_of_digits (replicate n 48) = 0"
  by (induction n) (use nat_of_digits_append [of "[48]"] in \<open>simp_all add: digit_val_def\<close>)

lemma nat_of_dec_digits [simp]: "nat_of_digits (dec_digits n) = n"
proof (induction n rule: dec_digits.induct)
  case (1 n)
  then show ?case by (subst dec_digits.simps) (simp add: nat_of_digits_append)
qed

lemma dec_digits_length:
  "n < 10 ^ length (dec_digits n)"
  "n \<noteq> 0 \<Longrightarrow> 10 ^ (length (dec_digits n) - 1) \<le> n"
proof -
  show "n < 10 ^ length (dec_digits n)"
  proof (induction n rule: dec_digits.induct)
    case (1 n)
    show ?case
    proof (cases "n < 10")
      case True
      then show ?thesis by (simp add: dec_digits_small)
    next
      case False
      with 1 have "n div 10 < 10 ^ length (dec_digits (n div 10))" by simp
      then have "n < 10 * 10 ^ length (dec_digits (n div 10))" by linarith
      then show ?thesis unfolding dec_digits_step [OF False] by simp
    qed
  qed
  show "n \<noteq> 0 \<Longrightarrow> 10 ^ (length (dec_digits n) - 1) \<le> n"
  proof (induction n rule: dec_digits.induct)
    case (1 n)
    show ?case
    proof (cases "n < 10")
      case True
      then show ?thesis using "1.prems" by (simp add: dec_digits_small)
    next
      case False
      with 1 have IH: "10 ^ (length (dec_digits (n div 10)) - 1) \<le> n div 10" by simp
      have "length (dec_digits (n div 10)) \<noteq> 0" by simp
      then have "10 * 10 ^ (length (dec_digits (n div 10)) - 1) = (10::nat) ^ length (dec_digits (n div 10))"
        by (metis power_eq_if)
      then have "10 ^ length (dec_digits (n div 10)) \<le> n" using IH by linarith
      then show ?thesis unfolding dec_digits_step [OF False] by simp
    qed
  qed
qed

lemma dec_digits_length_eq:
  assumes "10 ^ (p - 1) \<le> m" and "m < 10 ^ p" and "p \<noteq> 0"
  shows "length (dec_digits m) = p"
proof -
  let ?l = "length (dec_digits m)"
  have m: "m \<noteq> 0" using assms(1) by (metis not_one_le_zero one_le_numeral one_le_power order_trans)
  have "(10::nat) ^ (p - 1) < 10 ^ ?l" using assms(1) dec_digits_length(1) [of m] by (rule order.strict_trans1)
  then have "p - 1 < ?l" by (rule power_less_imp_less_exp [rotated]) simp
  moreover have "(10::nat) ^ (?l - 1) < 10 ^ p" using dec_digits_length(2) [OF m] assms(2) by (rule order.strict_trans1)
  then have "?l - 1 < p" by (rule power_less_imp_less_exp [rotated]) simp
  ultimately show ?thesis using assms(3) by linarith
qed

subsection \<open>The shortest exponent and the digits of a quotient\<close>

lemma dec_exp_bounds:
  assumes "0 < n" and "0 < d"
  shows "10 powi dec_exp n d \<le> real n / real d" and "real n / real d < 10 powi (dec_exp n d + 1)"
proof -
  have "10 powi dec_exp n d \<le> real n / real d \<and> real n / real d < 10 powi (dec_exp n d + 1)"
  proof (cases "d \<le> n")
    case True
    define q where "q = n div d"
    define l where "l = length (dec_digits q)"
    have "q \<noteq> 0" unfolding q_def using True assms by (simp add: div_eq_0_iff)
    have l: "0 < l" unfolding l_def by simp
    have lo: "10 ^ (l - 1) \<le> q" and hi: "q < 10 ^ l"
      unfolding l_def using dec_digits_length [of q] \<open>q \<noteq> 0\<close> by simp_all
    have "10 ^ (l - 1) * d \<le> n"
      using mult_right_mono [OF lo, of d] div_times_less_eq_dividend [of n d] unfolding q_def by linarith
    then have "real (10 ^ (l - 1) * d) \<le> real n" by (simp only: of_nat_le_iff)
    then have a: "10 ^ (l - 1) \<le> real n / real d" using assms by (simp add: field_simps)
    have "n < 10 ^ l * d" using hi assms unfolding q_def by (simp add: div_less_iff_less_mult)
    then have "real n < real (10 ^ l * d)" by (simp only: of_nat_less_iff)
    then have b: "real n / real d < 10 ^ l" using assms by (simp add: field_simps)
    have "int (l - 1) = int l - 1" using l by simp
    then have e: "dec_exp n d = int (l - 1)" unfolding dec_exp_def l_def q_def using True by simp
    have e1: "dec_exp n d + 1 = int l" unfolding e using l by simp
    show ?thesis unfolding e1 unfolding e power_int_of_nat using a b by simp
  next
    case False
    define c where "c = (d - 1) div n"
    define l where "l = length (dec_digits c)"
    have "c \<noteq> 0" unfolding c_def using False assms by (simp add: div_eq_0_iff)
    have l: "0 < l" unfolding l_def by simp
    have lo: "10 ^ (l - 1) \<le> c" and hi: "c < 10 ^ l"
      unfolding l_def using dec_digits_length [of c] \<open>c \<noteq> 0\<close> by simp_all
    have "d - 1 < 10 ^ l * n" using hi assms unfolding c_def by (simp add: div_less_iff_less_mult)
    then have "d \<le> 10 ^ l * n" by linarith
    then have "real d \<le> real (10 ^ l * n)" by (simp only: of_nat_le_iff)
    then have a: "inverse (10 ^ l) \<le> real n / real d" using assms by (simp add: field_simps)
    have "10 ^ (l - 1) * n \<le> d - 1"
      using mult_right_mono [OF lo, of n] div_times_less_eq_dividend [of "d - 1" n] unfolding c_def by linarith
    then have "10 ^ (l - 1) * n < d" using assms by linarith
    then have "real (10 ^ (l - 1) * n) < real d" by (simp only: of_nat_less_iff)
    then have b: "real n / real d < inverse (10 ^ (l - 1))" using assms by (simp add: field_simps)
    have e: "dec_exp n d = - int l" unfolding dec_exp_def l_def c_def using False by simp
    have e1: "dec_exp n d + 1 = - int (l - 1)" unfolding e using l by simp
    show ?thesis unfolding e1 unfolding e power_int_minus power_int_of_nat using a b by simp
  qed
  then show "10 powi dec_exp n d \<le> real n / real d" and "real n / real d < 10 powi (dec_exp n d + 1)" by simp_all
qed

lemma div_half_even_error:
  assumes "0 < d"
  shows "2 * \<bar>real (div_half_even n d) - real n / real d\<bar> \<le> 1"
    and "n div d \<le> div_half_even n d" and "div_half_even n d \<le> Suc (n div d)"
proof -
  have n: "real n = real (n div d) * real d + real (n mod d)"
    by (metis div_mult_mod_eq of_nat_add of_nat_mult)
  have q: "real n / real d = real (n div d) + real (n mod d) / real d" using assms by (subst n) (simp add: add_divide_distrib)
  have r: "n mod d < d" using assms by simp
  show "2 * \<bar>real (div_half_even n d) - real n / real d\<bar> \<le> 1"
  proof (cases "2 * (n mod d) < d \<or> (2 * (n mod d) = d \<and> even (n div d))")
    case True
    then have "real (2 * (n mod d)) \<le> real d" by (simp only: of_nat_le_iff) auto
    then show ?thesis unfolding q div_half_even_def using True assms by (simp add: Let_def field_simps)
  next
    case False
    then have "real d \<le> real (2 * (n mod d))" by (simp only: of_nat_le_iff) auto
    then show ?thesis unfolding q div_half_even_def using False assms r by (simp add: Let_def field_simps abs_if)
  qed
qed (auto simp: div_half_even_def Let_def)

lemma div_half_even_between:
  assumes "0 < d" and "real lo \<le> real n / real d" and "real n / real d < real hi"
  shows "lo \<le> div_half_even n d" and "div_half_even n d \<le> hi"
proof -
  have "real (lo * d) \<le> real n" using assms by (simp add: field_simps)
  then have "lo * d \<le> n" by (simp only: of_nat_le_iff)
  then have "lo \<le> n div d" using assms(1) by (simp add: less_eq_div_iff_mult_less_eq)
  then show "lo \<le> div_half_even n d" using div_half_even_error(2) [OF assms(1), of n] by linarith
  have "real n < real (hi * d)" using assms by (simp add: field_simps)
  then have "n < hi * d" by (simp only: of_nat_less_iff)
  then have "n div d < hi" using assms(1) by (simp add: div_less_iff_less_mult)
  then show "div_half_even n d \<le> hi" using div_half_even_error(3) [OF assms(1), of n] by linarith
qed

lemma sci_digits_scaled:
  assumes "0 < n" and "0 < d" and "0 < p" and k: "k = int p - 1 - dec_exp n d"
    and m: "m = (if 0 \<le> k then div_half_even (n * 10 ^ nat k) d else div_half_even n (d * 10 ^ nat (- k)))"
  shows "10 ^ (p - 1) \<le> m" and "m \<le> 10 ^ p" and "2 * \<bar>real m - real n / real d * 10 powi k\<bar> \<le> 1"
proof -
  define y where "y = real n / real d * 10 powi k"
  obtain a b where ab: "0 < b" "real a / real b = y" "m = div_half_even a b"
  proof (cases "0 \<le> k")
    case True
    then show thesis using assms(2) m
      by (intro that [of d "n * 10 ^ nat k"]) (simp_all add: y_def power_int_def)
  next
    case False
    then show thesis using assms(2) m
      by (intro that [of "d * 10 ^ nat (- k)" n]) (simp_all add: y_def power_int_def field_simps)
  qed
  have "10 powi dec_exp n d * 10 powi k \<le> y" "y < 10 powi (dec_exp n d + 1) * 10 powi k"
    unfolding y_def using dec_exp_bounds [OF assms(1,2)] by (intro mult_right_mono mult_strict_right_mono; simp)+
  moreover have "10 powi dec_exp n d * 10 powi k = (10 ^ (p - 1) :: real)"
    using power_int_add [of "10::real" "dec_exp n d" k] power_int_of_nat [of "10::real" "p - 1"] assms(3)
    by (simp add: k of_nat_diff)
  moreover have "10 powi (dec_exp n d + 1) * 10 powi k = (10 ^ p :: real)"
    using power_int_add [of "10::real" "dec_exp n d + 1" k] by (simp add: k)
  ultimately have lo: "real (10 ^ (p - 1)) \<le> real a / real b" and hi: "real a / real b < real (10 ^ p)"
    unfolding ab(2) by simp_all
  show "10 ^ (p - 1) \<le> m" "m \<le> 10 ^ p" unfolding ab(3) using div_half_even_between [OF ab(1) lo hi] by simp_all
  show "2 * \<bar>real m - real n / real d * 10 powi k\<bar> \<le> 1"
    using div_half_even_error(1) [OF ab(1), of a] unfolding ab(2,3) y_def .
qed

lemma sci_digits_bounds:
  assumes "0 < n" and "0 < d" and "sci_digits p n d = (m, e)" and "0 < p"
  shows "10 ^ (p - 1) \<le> m" and "m < 10 ^ p"
    and "2 * \<bar>real m * 10 powi (e - int p + 1) - real n / real d\<bar> \<le> real n / real d * 10 powi (1 - int p)"
proof -
  define k where "k = int p - 1 - dec_exp n d"
  define M where "M = (if 0 \<le> k then div_half_even (n * 10 ^ nat k) d else div_half_even n (d * 10 ^ nat (- k)))"
  note M = sci_digits_scaled [OF assms(1,2,4) k_def M_def]
  have me: "(m, e) = (if M = 10 ^ p then (10 ^ (p - 1), dec_exp n d + 1) else (M, dec_exp n d))"
    using assms(3) unfolding sci_digits_def Let_def k_def [symmetric] M_def [symmetric] by simp
  show "10 ^ (p - 1) \<le> m" "m < 10 ^ p"
    using me M(1,2) assms(4) by (auto split: if_splits)
  have val: "real m * 10 powi (e - int p + 1) = real M * 10 powi (- k)"
  proof (cases "M = 10 ^ p")
    case True
    then have "real m * 10 powi (e - int p + 1) = 10 powi (int p - 1) * 10 powi (dec_exp n d + 1 - int p + 1)"
      using me assms(4) by (simp add: power_int_def of_nat_diff nat_diff_distrib)
    also have "\<dots> = 10 powi int p * 10 powi (- k)" by (subst (1 2) power_int_add [symmetric]) (simp_all add: k_def algebra_simps)
    finally show ?thesis using True by simp
  next
    case False
    then show ?thesis using me unfolding k_def by (simp add: algebra_simps)
  qed
  have "real M * 10 powi (- k) - real n / real d = (real M - real n / real d * 10 powi k) * 10 powi (- k)"
    by (simp add: algebra_simps flip: power_int_add)
  then have "2 * \<bar>real m * 10 powi (e - int p + 1) - real n / real d\<bar>
      = 2 * \<bar>real M - real n / real d * 10 powi k\<bar> * 10 powi (- k)"
    unfolding val by (simp add: abs_mult)
  also have "\<dots> \<le> 1 * 10 powi (- k)" by (intro mult_right_mono M(3)) simp
  also have "\<dots> = 10 powi dec_exp n d * 10 powi (1 - int p)" unfolding k_def by (subst power_int_add [symmetric]) (simp_all add: algebra_simps)
  also have "\<dots> \<le> real n / real d * 10 powi (1 - int p)"
    by (intro mult_right_mono dec_exp_bounds(1) assms) simp
  finally show "2 * \<bar>real m * 10 powi (e - int p + 1) - real n / real d\<bar> \<le> real n / real d * 10 powi (1 - int p)" .
qed

subsection \<open>Decimals as floats\<close>

lemma round_mag_scale:
  assumes "0 < den" and "0 < c"
  shows "round_mag (num * c) (den * c) = round_mag num den"
proof -
  have q: "num * c div (den * c) = num div den" using assms by simp
  have r: "num * c - m * 2 ^ s * (den * c) = (num - m * 2 ^ s * den) * c" for m s
    by (simp add: diff_mult_distrib mult.assoc)
  have "2 ^ s * (den * c) < 2 * (x * c) \<longleftrightarrow> 2 ^ s * den < 2 * x"
    "2 ^ s * (den * c) = 2 * (x * c) \<longleftrightarrow> 2 ^ s * den = 2 * x" for s x
    using assms(2) by (simp_all flip: mult.assoc)
  then show ?thesis unfolding round_mag_def Let_def q r by simp
qed

lemma round_mag_ratio:
  assumes "0 < den" and "0 < den'" and "real num / real den = real num' / real den'"
  shows "round_mag num den = round_mag num' den'"
proof -
  have "real (num * den') = real (num' * den)" using assms by (simp add: field_simps)
  then have e: "num * den' = num' * den" by (simp only: of_nat_eq_iff)
  have "round_mag num den = round_mag (num * den') (den * den')" using assms by (simp add: round_mag_scale)
  also have "\<dots> = round_mag (num' * den) (den' * den)" by (simp only: e mult.commute [of den])
  also have "\<dots> = round_mag num' den'" using assms by (simp add: round_mag_scale)
  finally show ?thesis .
qed

lemma f64_of_decimal_ratio:
  obtains num den where "0 < den" and "real num / real den = real m * 10 powi e * real one_units"
    and "f64_of_decimal s m e = f64_round s num den"
proof (cases "0 \<le> e")
  case True
  then show thesis by (intro that [of 1 "m * 10 ^ nat e * one_units"]) (simp_all add: f64_of_decimal_def power_int_def)
next
  case False
  then show thesis
    by (intro that [of "10 ^ nat (- e)" "m * one_units"]) (simp_all add: f64_of_decimal_def power_int_def field_simps)
qed

lemma f64_of_decimal_cong:
  assumes "real m * 10 powi e = real m' * 10 powi e'"
  shows "f64_of_decimal s m e = f64_of_decimal s m' e'"
proof -
  obtain a b where ab: "0 < b" "real a / real b = real m * 10 powi e * real one_units"
    "f64_of_decimal s m e = f64_round s a b" by (rule f64_of_decimal_ratio)
  obtain c d where cd: "0 < d" "real c / real d = real m' * 10 powi e' * real one_units"
    "f64_of_decimal s m' e' = f64_round s c d" by (rule f64_of_decimal_ratio)
  have "round_mag a b = round_mag c d" using ab(1) cd(1) by (rule round_mag_ratio) (simp only: ab(2) cd(2) assms)
  then show ?thesis by (simp add: ab(3) cd(3) f64_round_def)
qed

lemma round_mag_nearest_real:
  assumes "0 < den" and "k < inf_mag"
    and "2 * (real num / real den) < real (mag_units k + mag_units (Suc k))"
    and "k \<noteq> 0 \<Longrightarrow> real (mag_units (k - 1) + mag_units k) < 2 * (real num / real den)"
  shows "round_mag num den = k"
proof (rule round_mag_nearest [OF assms(1,2)])
  have "real (2 * num) < real ((mag_units k + mag_units (Suc k)) * den)"
    using assms(1,3) by (simp add: field_simps)
  then show "2 * num < (mag_units k + mag_units (Suc k)) * den" by (simp only: of_nat_less_iff)
  assume "k \<noteq> 0"
  then have "real ((mag_units (k - 1) + mag_units k) * den) < real (2 * num)"
    using assms(1,4) by (simp add: field_simps)
  then show "(mag_units (k - 1) + mag_units k) * den < 2 * num" by (simp only: of_nat_less_iff)
qed

lemma near_gap:
  assumes "2 * \<bar>x - real n\<bar> \<le> real n * 10 powi (- 16)" and "n \<le> 2 ^ 53 * gap" and "0 < gap"
  shows "2 * \<bar>x - real n\<bar> < real gap"
proof -
  have "real n \<le> real (2 ^ 53 * gap)" using assms(2) by (simp only: of_nat_le_iff)
  then have "real n * 10 powi (- 16) \<le> real (2 ^ 53 * gap) * 10 powi (- 16)" by (intro mult_right_mono) simp_all
  also have "\<dots> < real gap" using assms(3) by (simp add: power_int_def field_simps)
  finally show ?thesis using assms(1) by linarith
qed

text \<open>Seventeen digits determine a float.\<close>

lemma decimal_17:
  assumes "is_finite v" and "f64_mag v \<noteq> 0" and "sci_digits 17 (mag_units (f64_mag v)) one_units = (m, e)"
  shows "f64_of_decimal (f64_sign v) m (e - 16) = v"
proof -
  let ?k = "f64_mag v"
  let ?n = "mag_units ?k"
  obtain a b where ab: "0 < b" "real a / real b = real m * 10 powi (e - 16) * real one_units"
    "f64_of_decimal (f64_sign v) m (e - 16) = f64_round (f64_sign v) a b" by (rule f64_of_decimal_ratio)
  define x where "x = real a / real b"
  have n: "0 < ?n" using assms(2) mag_units_eq_0_iff [of ?k] by linarith
  have "2 * \<bar>real m * 10 powi (e - 16) - real ?n / real one_units\<bar> \<le> real ?n / real one_units * 10 powi (- 16)"
    using sci_digits_bounds(3) [OF n one_units_pos(1) assms(3)] by simp
  then have "2 * \<bar>real m * 10 powi (e - 16) - real ?n / real one_units\<bar> * real one_units
      \<le> real ?n / real one_units * 10 powi (- 16) * real one_units" by (rule mult_right_mono) simp
  moreover have "\<bar>real m * 10 powi (e - 16) - real ?n / real one_units\<bar> * real one_units = \<bar>x - real ?n\<bar>"
    unfolding x_def ab(2) by (subst abs_of_nat [symmetric, of one_units], subst abs_mult [symmetric]) (simp add: left_diff_distrib)
  ultimately have near: "2 * \<bar>x - real ?n\<bar> \<le> real ?n * 10 powi (- 16)" by (simp add: mult.assoc)
  have up: "2 * \<bar>x - real ?n\<bar> < real (mag_units (Suc ?k) - ?n)"
    using near mag_gap_above by (rule near_gap) (simp add: mag_units_Suc)
  have down: "2 * \<bar>x - real ?n\<bar> < real (?n - mag_units (?k - 1))"
    using near mag_gap_below [OF assms(2)] by (rule near_gap) (use assms(2) in simp)
  have "round_mag a b = ?k"
  proof (rule round_mag_nearest_real [OF ab(1)])
    show "?k < inf_mag" using assms(1) by (simp add: is_finite_def)
    show "2 * (real a / real b) < real (?n + mag_units (Suc ?k))"
      using up mag_units_Suc [of ?k] unfolding x_def [symmetric] by (simp add: of_nat_diff abs_if split: if_splits)
    show "real (mag_units (?k - 1) + ?n) < 2 * (real a / real b)"
      using down assms(2) unfolding x_def [symmetric] by (simp add: of_nat_diff abs_if split: if_splits)
  qed
  then show ?thesis unfolding ab(3) f64_round_def by simp
qed

subsection \<open>Reading a printed float\<close>

definition all_digits :: "bytes \<Rightarrow> bool" where
  "all_digits xs \<longleftrightarrow> (\<forall>b\<in>set xs. is_ascii_digit b)"

lemma all_digits_simps [simp]:
  "all_digits []" "all_digits (b # xs) \<longleftrightarrow> is_ascii_digit b \<and> all_digits xs"
  "all_digits (xs @ ys) \<longleftrightarrow> all_digits xs \<and> all_digits ys" "all_digits (dec_digits n)" "all_digits (replicate n 48)"
proof -
  have "is_ascii_digit 48" by (simp add: is_ascii_digit_def)
  then show "all_digits []" "all_digits (b # xs) \<longleftrightarrow> is_ascii_digit b \<and> all_digits xs"
    "all_digits (xs @ ys) \<longleftrightarrow> all_digits xs \<and> all_digits ys" "all_digits (dec_digits n)" "all_digits (replicate n 48)"
    by (auto simp: all_digits_def dec_digits_digits)
qed

lemma all_digits_take_drop [simp]:
  "all_digits xs \<Longrightarrow> all_digits (take n xs)" "all_digits xs \<Longrightarrow> all_digits (drop n xs)"
  by (auto simp: all_digits_def dest: in_set_takeD in_set_dropD)

lemma parse_digits_all: "all_digits xs \<Longrightarrow> xs \<noteq> [] \<Longrightarrow> parse_digits xs = Some (nat_of_digits xs)"
  by (simp add: parse_digits_def digits_val_foldl all_digits_def)

lemma digit_not [simp]:
  assumes "is_ascii_digit b"
  shows "b \<noteq> 45" "b \<noteq> 43" "b \<noteq> 46" "\<not> is_exp_mark b" "b \<noteq> 101"
  using assms by (auto simp: is_ascii_digit_def is_exp_mark_def word_le_nat_alt)

definition exp_text :: "bytes \<Rightarrow> int \<Rightarrow> bool" where
  "exp_text ex e \<longleftrightarrow> (let eneg = (ex \<noteq> [] \<and> hd ex = 45);
       body = (if ex \<noteq> [] \<and> (hd ex = 45 \<or> hd ex = 43) then tl ex else ex)
     in parse_digits body = Some (nat \<bar>e\<bar>) \<and> (eneg \<longleftrightarrow> e < 0))"

lemma hd_dec_digits [simp]: "is_ascii_digit (hd (dec_digits n))"
  by (rule dec_digits_digits [of _ n]) simp

lemma exp_text_show_int: "exp_text (show_int e) e"
proof -
  have "hd (dec_digits n) \<noteq> 45" "hd (dec_digits n) \<noteq> 43" for n using digit_not(1,2) [OF hd_dec_digits] by auto
  then show ?thesis by (simp add: exp_text_def show_int_def parse_digits_all Let_def)
qed

lemma exp_text_show_signed3: "exp_text (show_signed3 e) e"
  by (simp add: exp_text_def show_signed3_def parse_digits_all Let_def nat_of_digits_append)

lemma parse_i32_exp_text: "exp_text ex e \<Longrightarrow> \<bar>e\<bar> < 2 ^ 31 \<Longrightarrow> parse_i32 ex = Some e"
  by (auto simp: exp_text_def parse_i32_def parse_int_def Let_def split: if_splits)

lemma takeWhile_dropWhile_mark:
  assumes "\<forall>b\<in>set xs. P b" and "ys = [] \<or> \<not> P (hd ys)"
  shows "takeWhile P (xs @ ys) = xs" and "dropWhile P (xs @ ys) = ys"
proof -
  have "takeWhile P ys = []" "dropWhile P ys = ys" using assms(2) by (cases ys; simp)+
  then show "takeWhile P (xs @ ys) = xs" "dropWhile P (xs @ ys) = ys"
    using assms(1) by (simp_all add: takeWhile_append dropWhile_append)
qed

lemma parse_unsigned_parts:
  assumes "takeWhile (\<lambda>b. \<not> is_exp_mark b) xs = sig" and "dropWhile (\<lambda>b. \<not> is_exp_mark b) xs = mark"
    and "takeWhile (\<lambda>b. b \<noteq> 46) sig = w" and "tl (dropWhile (\<lambda>b. b \<noteq> 46) sig) = f"
    and "w @ f \<noteq> []" and "digits_val 0 (w @ f) = Some n"
  shows "parse_unsigned_f64 neg xs =
     (if mark = [] then Some (f64_of_decimal neg n (- int (length f)))
      else let ex = tl mark;
               eneg = (ex \<noteq> [] \<and> hd ex = 45);
               body = (if ex \<noteq> [] \<and> (hd ex = 45 \<or> hd ex = 43) then tl ex else ex)
           in case parse_digits body of
                None \<Rightarrow> None
              | Some e \<Rightarrow> Some (f64_of_decimal neg n ((if eneg then - int e else int e) - int (length f))))"
  unfolding parse_unsigned_f64_def Let_def assms(1,2) unfolding assms(3,4) unfolding assms(6) if_not_P [OF assms(5)] by simp

lemma parse_unsigned_decimal:
  assumes "all_digits w" and "all_digits f" and "w @ f \<noteq> []" and "point = [] \<and> f = [] \<or> point = [46]"
    and "mark = [] \<and> e = 0 \<or> (\<exists>ex. mark = 101 # ex \<and> exp_text ex e)"
  shows "parse_unsigned_f64 neg (w @ point @ f @ mark) = Some (f64_of_decimal neg (nat_of_digits (w @ f)) (e - int (length f)))"
proof -
  let ?sig = "w @ point @ f"
  have sig: "\<forall>b\<in>set ?sig. \<not> is_exp_mark b"
    using assms(1,2,4) unfolding all_digits_def by (auto dest: digit_not(4)) (simp_all add: is_exp_mark_def)
  have m: "mark = [] \<or> \<not> \<not> is_exp_mark (hd mark)" using assms(5) by (auto simp: is_exp_mark_def)
  have split: "takeWhile (\<lambda>b. \<not> is_exp_mark b) (?sig @ mark) = ?sig" "dropWhile (\<lambda>b. \<not> is_exp_mark b) (?sig @ mark) = mark"
    using takeWhile_dropWhile_mark [OF sig m] by simp_all
  have w46: "\<forall>b\<in>set w. b \<noteq> 46" using assms(1) by (auto simp: all_digits_def)
  have p46: "point @ f = [] \<or> \<not> hd (point @ f) \<noteq> 46" using assms(4) by auto
  have parts: "takeWhile (\<lambda>b. b \<noteq> 46) ?sig = w" "tl (dropWhile (\<lambda>b. b \<noteq> 46) ?sig) = f"
    using takeWhile_dropWhile_mark [OF w46 p46] assms(4) by auto
  have val: "digits_val 0 (w @ f) = Some (nat_of_digits (w @ f))"
    using assms(1,2) by (simp add: digits_val_foldl all_digits_def ball_Un)
  note parse = parse_unsigned_parts [OF split(1) [unfolded append_assoc] split(2) [unfolded append_assoc] parts assms(3) val]
  show ?thesis
  proof (cases "mark = []")
    case True
    then show ?thesis using assms(5) unfolding parse by simp
  next
    case False
    then obtain ex where ex: "mark = 101 # ex" "exp_text ex e" using assms(5) by auto
    then show ?thesis unfolding parse by (auto simp: exp_text_def Let_def)
  qed
qed

lemma strip_zeros_spec:
  assumes "xs \<noteq> []"
  shows "\<exists>z. xs = strip_zeros xs @ replicate z 48" and "strip_zeros xs \<noteq> []"
proof -
  have "(\<exists>z. xs = strip_zeros xs @ replicate z 48) \<and> strip_zeros xs \<noteq> []"
    using assms
  proof (induction xs rule: strip_zeros.induct)
    case (1 xs)
    show ?case
    proof (cases "1 < length xs \<and> last xs = 48")
      case True
      then have b: "butlast xs \<noteq> []" by (cases xs rule: rev_cases) auto
      then obtain z where z: "butlast xs = strip_zeros (butlast xs) @ replicate z 48" and ne: "strip_zeros (butlast xs) \<noteq> []"
        using 1 True by auto
      have "xs = butlast xs @ [48]" using True "1.prems" append_butlast_last_id by metis
      also have "\<dots> = strip_zeros (butlast xs) @ replicate (Suc z) 48"
        by (subst z) (simp add: replicate_append_same)
      finally have "xs = strip_zeros (butlast xs) @ replicate (Suc z) 48" .
      moreover have "strip_zeros xs = strip_zeros (butlast xs)" using True by (simp add: strip_zeros.simps [of xs])
      ultimately show ?thesis using ne by metis
    next
      case False
      then have "strip_zeros xs = xs" by (simp only: strip_zeros.simps [of xs] if_False)
      then show ?thesis using "1.prems" by (intro conjI exI [of _ 0]) simp_all
    qed
  qed
  then show "\<exists>z. xs = strip_zeros xs @ replicate z 48" and "strip_zeros xs \<noteq> []" by simp_all
qed

lemma collect_digits_filter:
  assumes "\<forall>b\<in>set xs. is_ascii_digit b \<or> b = 46 \<or> b = 45"
    and "length acc + length (filter is_ascii_digit xs) \<le> 17"
  shows "collect_digits xs acc = Inr (acc @ filter is_ascii_digit xs)"
  using assms by (induction xs arbitrary: acc) auto

lemma nb_append_fits: "length xs + length b \<le> 128 \<Longrightarrow> nb_append b xs = Inr (xs @ b)"
  by (simp add: nb_append_def)

lemma nb_zeros_fits: "length xs + n \<le> 128 \<Longrightarrow> nb_zeros n xs = Inr (xs @ replicate n 48)"
  by (induction n arbitrary: xs) (simp_all add: nb_append_fits)

lemma dec_digits_length_le: "n < 10 ^ k \<Longrightarrow> 0 < k \<Longrightarrow> length (dec_digits n) \<le> k"
proof (rule ccontr)
  assume *: "n < 10 ^ k" "0 < k" "\<not> length (dec_digits n) \<le> k"
  then have "n \<noteq> 0" by (intro notI) (simp add: dec_digits_small)
  then have "10 ^ (length (dec_digits n) - 1) \<le> n" by (rule dec_digits_length)
  then have "(10::nat) ^ (length (dec_digits n) - 1) < 10 ^ k" using *(1) by (rule order.strict_trans1)
  then have "length (dec_digits n) - 1 < k" by (rule power_less_imp_less_exp [rotated]) simp
  then show False using * by linarith
qed

text \<open>The bytes of a printed number, and the text of a float without its sign.\<close>

definition num_byte :: "u8 \<Rightarrow> bool" where
  "num_byte b \<longleftrightarrow> is_ascii_digit b \<or> b \<in> {43, 45, 46, 101}"

definition float_text :: "bytes \<Rightarrow> (bool \<Rightarrow> f64) \<Rightarrow> bool" where
  "float_text body value \<longleftrightarrow> body \<noteq> [] \<and> is_ascii_digit (hd body) \<and> (\<forall>b\<in>set body. num_byte b) \<and> \<not> all_digits body
     \<and> (\<forall>neg. parse_unsigned_f64 neg body = Some (value neg))"

lemma num_byte_exp: "b \<in> set (show_int e) \<Longrightarrow> num_byte b" "b \<in> set (show_signed3 e) \<Longrightarrow> num_byte b"
proof -
  have "num_byte 48" by (simp add: num_byte_def is_ascii_digit_def)
  then show "b \<in> set (show_int e) \<Longrightarrow> num_byte b" "b \<in> set (show_signed3 e) \<Longrightarrow> num_byte b"
    by (auto simp: show_int_def show_signed3_def Let_def num_byte_def dest: dec_digits_digits split: if_splits)
qed

lemma float_text_decimal:
  assumes "all_digits w" and "all_digits f" and "w \<noteq> []" and "point = [] \<and> f = [] \<or> point = [46]"
    and "mark = [] \<and> e = 0 \<or> (\<exists>ex. mark = 101 # ex \<and> exp_text ex e \<and> (\<forall>b\<in>set ex. num_byte b))"
    and "point \<noteq> [] \<or> mark \<noteq> []"
    and "real (nat_of_digits (w @ f)) * 10 powi (e - int (length f)) = real m * 10 powi k"
  shows "float_text (w @ point @ f @ mark) (\<lambda>neg. f64_of_decimal neg m k)"
proof -
  have m: "mark = [] \<and> e = 0 \<or> (\<exists>ex. mark = 101 # ex \<and> exp_text ex e)" using assms(5) by auto
  have "\<not> is_ascii_digit 46" "\<not> is_ascii_digit 101" by (auto dest: digit_not)
  then have "\<not> all_digits (w @ point @ f @ mark)" using assms(4,5,6) by auto
  moreover have "\<forall>b\<in>set (w @ point @ f @ mark). num_byte b"
    using assms(1,2,4,5) by (auto simp: num_byte_def all_digits_def)
  moreover have "is_ascii_digit (hd w)" using assms(1,3) by (cases w) auto
  ultimately show ?thesis unfolding float_text_def
    using parse_unsigned_decimal [OF assms(1,2) _ assms(4) m] assms(3) f64_of_decimal_cong [OF assms(7)] by auto
qed

lemma powi_add_real: "10 powi (a + b) = (10 powi a * 10 powi b :: real)"
  by (simp add: power_int_add)

lemma layout_float_text:
  assumes "all_digits ds" and "ds \<noteq> []" and "length ds \<le> 17" and "precision \<le> 17" and "\<bar>e\<bar> < 10 ^ 4"
    and "length sign_text \<le> 1"
  obtains body where "layout_digits precision ds e sign_text = Inr (sign_text @ body)"
    and "float_text body (\<lambda>neg. f64_of_decimal neg (nat_of_digits ds) (e + 1 - int (length ds)))"
proof -
  have l1: "0 < length ds" using assms(2) by simp
  consider (sci) "e < - 4 \<or> int precision \<le> e" | (small) "\<not> (e < - 4 \<or> int precision \<le> e)" "e + 1 \<le> 0"
    | (whole) "\<not> (e < - 4 \<or> int precision \<le> e)" "0 < e + 1" "length ds \<le> nat (e + 1)"
    | (mixed) "\<not> (e < - 4 \<or> int precision \<le> e)" "0 < e + 1" "nat (e + 1) < length ds" by linarith
  then show thesis
  proof cases
    case sci
    have "nat \<bar>e\<bar> < 10 ^ 4" using assms(5) by simp
    then have "length (dec_digits (nat \<bar>e\<bar>)) \<le> 4" by (rule dec_digits_length_le) simp
    then have s3: "length (show_signed3 e) \<le> 7" by (simp add: show_signed3_def Let_def)
    let ?point = "if 1 < length ds then [46] else []"
    let ?mark = "101 # show_signed3 e"
    have ds: "take 1 ds @ drop 1 ds = ds" by simp
    show thesis
    proof (rule that [of "take 1 ds @ ?point @ drop 1 ds @ ?mark"])
      show "layout_digits precision ds e sign_text = Inr (sign_text @ take 1 ds @ ?point @ drop 1 ds @ ?mark)"
        using sci s3 assms(3,6) l1 by (simp add: layout_digits_def nb_append_fits)
      have "int (length (drop 1 ds)) = int (length ds) - 1" using l1 unfolding length_drop by linarith
      then show "float_text (take 1 ds @ ?point @ drop 1 ds @ ?mark) (\<lambda>neg. f64_of_decimal neg (nat_of_digits ds) (e + 1 - int (length ds)))"
        by (intro float_text_decimal [where e = e]) (use assms(1,2) in \<open>auto simp: ds exp_text_show_signed3 num_byte_exp algebra_simps\<close>)
    qed
  next
    case small
    let ?f = "replicate (nat (- (e + 1))) 48 @ ds"
    show thesis
    proof (rule that [of "[48] @ [46] @ ?f @ []"])
      show "layout_digits precision ds e sign_text = Inr (sign_text @ [48] @ [46] @ ?f @ [])"
        using small assms(3,4,6) by (simp add: layout_digits_def nb_append_fits nb_zeros_fits)
      have "nat_of_digits ([48] @ ?f) = nat_of_digits ds"
        using nat_of_digits_append [of "48 # replicate (nat (- (e + 1))) 48" ds]
          nat_of_digits_zeros [of "Suc (nat (- (e + 1)))"] by simp
      moreover have "0 - int (length ?f) = e + 1 - int (length ds)" using small by simp
      ultimately show "float_text ([48] @ [46] @ ?f @ []) (\<lambda>neg. f64_of_decimal neg (nat_of_digits ds) (e + 1 - int (length ds)))"
        by (intro float_text_decimal [where e = 0]) (use assms(1) in \<open>auto simp: is_ascii_digit_def simp del: length_append\<close>)
    qed
  next
    case whole
    define z where "z = nat (e + 1) - length ds"
    let ?w = "ds @ replicate z 48"
    show thesis
    proof (rule that [of "?w @ [46] @ [48] @ []"])
      show "layout_digits precision ds e sign_text = Inr (sign_text @ ?w @ [46] @ [48] @ [])"
        using whole assms(3,4,6) by (simp add: layout_digits_def nb_append_fits nb_zeros_fits z_def)
      have "nat_of_digits (?w @ [48]) = nat_of_digits ds * 10 ^ Suc z"
        using nat_of_digits_append [of ds "replicate (Suc z) 48"] nat_of_digits_zeros [of "Suc z"]
        by (simp add: replicate_append_same)
      moreover have "e + 1 - int (length ds) = int (Suc z) + (0 - int (length [48::u8]))" using whole by (simp add: z_def)
      ultimately have "real (nat_of_digits (?w @ [48])) * 10 powi (0 - int (length [48::u8]))
          = real (nat_of_digits ds) * 10 powi (e + 1 - int (length ds))"
        by (simp only: powi_add_real power_int_of_nat of_nat_mult of_nat_power of_nat_numeral mult.assoc)
      then show "float_text (?w @ [46] @ [48] @ []) (\<lambda>neg. f64_of_decimal neg (nat_of_digits ds) (e + 1 - int (length ds)))"
        by (intro float_text_decimal [where e = 0]) (use assms(1,2) in \<open>auto simp: is_ascii_digit_def\<close>)
    qed
  next
    case mixed
    define c where "c = nat (e + 1)"
    have ds: "take c ds @ drop c ds = ds" by simp
    show thesis
    proof (rule that [of "take c ds @ [46] @ drop c ds @ []"])
      show "layout_digits precision ds e sign_text = Inr (sign_text @ take c ds @ [46] @ drop c ds @ [])"
        using mixed assms(3,4,6) by (simp add: layout_digits_def nb_append_fits Let_def c_def)
      have "0 - int (length (drop c ds)) = e + 1 - int (length ds)" using mixed by (simp add: c_def of_nat_diff)
      then show "float_text (take c ds @ [46] @ drop c ds @ []) (\<lambda>neg. f64_of_decimal neg (nat_of_digits ds) (e + 1 - int (length ds)))"
        by (intro float_text_decimal [where e = 0]) (use assms(1,2) mixed in \<open>auto simp: ds c_def simp del: length_drop\<close>)
    qed
  qed
qed

lemma digit_lower [simp]: "is_ascii_digit b \<Longrightarrow> to_ascii_lowercase b = b"
  by (auto simp: to_ascii_lowercase_def is_ascii_uppercase_def is_ascii_digit_def word_le_nat_alt)

lemma digit_not_name [simp]: "is_ascii_digit b \<Longrightarrow> b \<noteq> 105" "is_ascii_digit b \<Longrightarrow> b \<noteq> 110"
  by (auto simp: is_ascii_digit_def word_le_nat_alt)

lemma parse_f64_float_text:
  assumes "float_text body F"
  shows "parse_f64 ((if neg then [45] else []) @ body) = Some (F neg)"
proof -
  obtain b rest where b: "body = b # rest" "is_ascii_digit b" using assms by (cases body) (auto simp: float_text_def)
  have "map to_ascii_lowercase body \<notin> {bs ''inf'', bs ''infinity''}" "map to_ascii_lowercase body \<noteq> bs ''nan''"
    unfolding b(1) using digit_not_name [OF b(2)] b(2) by (auto simp: bs_def)
  moreover have "parse_unsigned_f64 neg body = Some (F neg)" using assms by (simp add: float_text_def)
  ultimately show ?thesis using b by (cases neg) (simp_all add: parse_f64_def Let_def)
qed

lemma from_utf8_ascii: "\<forall>b\<in>set xs. b < 128 \<Longrightarrow> from_utf8 xs"
  by (induction xs) (simp_all add: from_utf8.simps)

lemma num_byte_ascii: "num_byte b \<Longrightarrow> b < 128" "num_byte b \<Longrightarrow> \<not> is_ascii_whitespace b"
  "num_byte b \<Longrightarrow> b \<noteq> 120 \<and> b \<noteq> 88"
  by (auto simp: num_byte_def is_ascii_digit_def is_ascii_whitespace_def word_le_nat_alt word_less_nat_alt)

lemma from_utf8_num: "\<forall>b\<in>set xs. num_byte b \<Longrightarrow> from_utf8 xs"
  by (rule from_utf8_ascii) (simp add: num_byte_ascii)

lemma trim_ws_num:
  assumes "\<forall>b\<in>set xs. num_byte b"
  shows "trim_ws xs = xs"
proof -
  have "dropWhile is_ascii_whitespace ys = ys" if "\<forall>b\<in>set ys. num_byte b" for ys
    using that by (cases ys) (simp_all add: num_byte_ascii)
  then show ?thesis using assms by (simp add: trim_ws_def)
qed

lemma not_hex_num:
  assumes "\<forall>b\<in>set xs. num_byte b"
  shows "take 2 xs \<notin> {bs ''0x'', bs ''0X''}" and "take 2 (drop 1 xs) \<notin> {bs ''0x'', bs ''0X''}"
proof -
  have x: "120 \<notin> set xs" "88 \<notin> set xs" using assms by (auto dest: num_byte_ascii(3))
  have h: "120 \<in> set (bs ''0x'')" "88 \<in> set (bs ''0X'')" by (simp_all add: bs_def)
  have *: "ys \<notin> {bs ''0x'', bs ''0X''}" if "set ys \<subseteq> set xs" for ys using that x h by blast
  show "take 2 xs \<notin> {bs ''0x'', bs ''0X''}" and "take 2 (drop 1 xs) \<notin> {bs ''0x'', bs ''0X''}"
    by (rule *, meson in_set_takeD in_set_dropD subsetI)+
qed

lemma parse_number_num:
  assumes "\<forall>b\<in>set xs. num_byte b"
  shows "parse_number_bytes pow2 xs = (case parse_i64 xs of
      Some n \<Rightarrow> Some (V_Integer n)
    | None \<Rightarrow> let w = map to_ascii_lowercase (dropWhile is_sign_byte xs)
              in if w \<in> {bs ''nan'', bs ''inf'', bs ''infinity''} then None else map_option V_Float (parse_f64 xs))"
  unfolding parse_number_bytes_def Let_def trim_ws_num [OF assms]
  using not_hex_num [OF assms] from_utf8_num [OF assms] by (simp only: simp_thms if_False)

lemma parse_number_float_text:
  assumes "float_text body F"
  shows "parse_number_bytes pow2 ((if neg then [45] else []) @ body) = Some (V_Float (F neg))"
proof -
  let ?t = "(if neg then [45] else []) @ body"
  obtain b rest where b: "body = b # rest" "is_ascii_digit b" using assms by (cases body) (auto simp: float_text_def)
  have num: "\<forall>b\<in>set ?t. num_byte b" using assms by (auto simp: float_text_def num_byte_def)
  have "parse_digits body = None"
    using assms by (auto simp: float_text_def parse_digits_def digits_val_foldl all_digits_def)
  then have i: "parse_i64 ?t = None" using b by (simp add: parse_i64_def parse_int_def Let_def)
  have d: "dropWhile is_sign_byte ?t = body" using b by (simp add: is_sign_byte_def)
  have "map to_ascii_lowercase body \<notin> {bs ''nan'', bs ''inf'', bs ''infinity''}"
    unfolding b(1) using digit_not_name [OF b(2)] b(2) by (auto simp: bs_def)
  then show ?thesis
    unfolding parse_number_num [OF num] i Let_def d parse_f64_float_text [OF assms] by (simp only: option.simps if_False)
qed

lemma dec_exp_abs:
  assumes "0 < n" and "n < 10 ^ 2098" and "d \<le> 10 ^ 1074"
  shows "\<bar>dec_exp n d\<bar> \<le> 2098"
proof (cases "d \<le> n")
  case True
  have "n div d < 10 ^ 2098" using assms(2) by (rule order.strict_trans1 [rotated]) simp
  then have "length (dec_digits (n div d)) \<le> 2098" by (rule dec_digits_length_le) simp
  then show ?thesis using True unfolding dec_exp_def by simp
next
  case False
  have "d - 1 < 10 ^ 1074" using assms(3) False by linarith
  then have "(d - 1) div n < 10 ^ 1074" by (rule order.strict_trans1 [rotated]) simp
  then have "length (dec_digits ((d - 1) div n)) \<le> 1074" by (rule dec_digits_length_le) simp
  then show ?thesis using False unfolding dec_exp_def by simp
qed

lemma f64_eq_same_sign:
  assumes "f64_eq a b" and "f64_sign a = f64_sign b"
  shows "a = b"
proof -
  have "f64_units a = f64_units b"
    using assms(1) by (auto simp: f64_eq_def f64_cmp_def cmp_int_def split: if_splits)
  then have "f64_mag a = f64_mag b" using assms(2) by (simp add: f64_units_def split: if_splits)
  then have "f64_make (f64_sign a) (f64_mag a) = f64_make (f64_sign b) (f64_mag b)" using assms(2) by simp
  then show ?thesis by (simp only: f64_make_eq)
qed

lemma f64_of_decimal_sign [simp]: "f64_sign (f64_of_decimal s m e) = s"
  by (simp add: f64_of_decimal_def)

lemma f64_of_decimal_zero: "f64_of_decimal s 0 e = f64_make s 0"
  using round_mag_units [of 0] by (simp add: f64_of_decimal_def f64_round_def round_mag_def)

text \<open>What the scientific format of a finite float holds.\<close>

lemma format_e_parts:
  assumes "is_finite v" and "1 < p" and "p \<le> 17"
  obtains ds e where "format_e p v = (if f64_sign v then [45] else []) @ hd ds # 46 # tl ds @ 101 # show_int e"
    and "length ds = p" and "all_digits ds" and "\<bar>e\<bar> < 10 ^ 4"
    and "p = 17 \<Longrightarrow> f64_of_decimal (f64_sign v) (nat_of_digits ds) (e + 1 - int p) = v"
proof (cases "f64_mag v = 0")
  case True
  then have "v = f64_make (f64_sign v) 0" using f64_make_eq [of v] by simp
  then show thesis using True by (intro that [of "replicate p 48" 0]) (simp_all add: format_e_def f64_of_decimal_zero)
next
  case False
  let ?n = "mag_units (f64_mag v)"
  obtain m e where me: "sci_digits p ?n one_units = (m, e)" by fastforce
  have n: "0 < ?n" using False mag_units_eq_0_iff [of "f64_mag v"] by linarith
  have p0: "0 < p" using assms(2) by simp
  note b = sci_digits_bounds [OF n one_units_pos(1) me p0]
  have len: "length (dec_digits m) = p" using b(1,2) p0 by (intro dec_digits_length_eq) simp_all
  have "?n < mag_units inf_mag" using assms(1) by (simp add: is_finite_def)
  also have "\<dots> \<le> 10 ^ 2098" unfolding mag_units_inf by (rule power_mono) simp_all
  finally have n_less: "?n < 10 ^ 2098" .
  have "one_units \<le> 10 ^ 1074" unfolding one_units_def by (rule power_mono) simp_all
  with n n_less have "\<bar>dec_exp ?n one_units\<bar> \<le> 2098" by (rule dec_exp_abs)
  moreover have "e = dec_exp ?n one_units \<or> e = dec_exp ?n one_units + 1"
    using me by (auto simp: sci_digits_def Let_def split: if_splits)
  ultimately have e: "\<bar>e\<bar> < 10 ^ 4" by auto
  have "format_e p v = (if f64_sign v then [45] else []) @ hd (dec_digits m) # 46 # tl (dec_digits m) @ 101 # show_int e"
    using False me by (simp add: format_e_def)
  then show thesis using len e decimal_17 [OF assms(1) False, of m e] me by (intro that [of "dec_digits m" e]) simp_all
qed

lemma format_e_float_text:
  assumes "length ds = p" and "1 < p" and "all_digits ds"
  shows "float_text (hd ds # 46 # tl ds @ 101 # show_int e) (\<lambda>neg. f64_of_decimal neg (nat_of_digits ds) (e + 1 - int p))"
proof -
  have ds: "[hd ds] @ tl ds = ds" and l: "e - int (length (tl ds)) = e + 1 - int p"
    using assms(1,2) by (cases ds; simp)+
  have "float_text ([hd ds] @ [46] @ tl ds @ 101 # show_int e) (\<lambda>neg. f64_of_decimal neg (nat_of_digits ds) (e + 1 - int p))"
    by (rule float_text_decimal [where e = e])
      (use assms l ds in \<open>auto simp: exp_text_show_int num_byte_exp simp del: length_tl, (cases ds; simp)+\<close>)
  then show ?thesis by simp
qed

lemma format_e_num:
  assumes "is_finite v" and "1 < p" and "p \<le> 17"
  shows "length (format_e p v) \<le> 128" and "from_utf8 (format_e p v)"
    and "\<exists>f. parse_f64 (format_e p v) = Some f \<and> f64_sign f = f64_sign v \<and> (p = 17 \<longrightarrow> f = v)"
proof -
  obtain ds e where f: "format_e p v = (if f64_sign v then [45] else []) @ hd ds # 46 # tl ds @ 101 # show_int e"
    and ds: "length ds = p" "all_digits ds" and e: "\<bar>e\<bar> < 10 ^ 4"
    and v: "p = 17 \<Longrightarrow> f64_of_decimal (f64_sign v) (nat_of_digits ds) (e + 1 - int p) = v"
    using format_e_parts [OF assms] by blast
  note t = format_e_float_text [OF ds(1) assms(2) ds(2), of e]
  have "nat \<bar>e\<bar> < 10 ^ 4" using e by simp
  then have "length (dec_digits (nat \<bar>e\<bar>)) \<le> 4" by (rule dec_digits_length_le) simp
  then have "length (show_int e) \<le> 5" by (simp add: show_int_def abs_if split: if_splits)
  then show "length (format_e p v) \<le> 128" unfolding f using ds(1) assms(3) by (cases "f64_sign v") simp_all
  have "\<forall>b\<in>set (format_e p v). num_byte b" unfolding f using t by (auto simp: float_text_def num_byte_def)
  then show "from_utf8 (format_e p v)" by (rule from_utf8_num)
  show "\<exists>f. parse_f64 (format_e p v) = Some f \<and> f64_sign f = f64_sign v \<and> (p = 17 \<longrightarrow> f = v)"
    unfolding f parse_f64_float_text [OF t] using v by simp
qed

lemma scientific_finite:
  assumes "is_finite v" and "p \<in> {14, 15, 17}"
  obtains q where "q \<in> {14, 15, 17}" and "scientific profile v p = Inr (format_e q v, q)"
    and "profile = Lua55 \<Longrightarrow> parse_f64 (format_e q v) = Some v"
proof -
  have step: "scientific profile v q = (if profile = Lua54 \<or> parse_f64 (format_e q v) = Some v \<or> q = 17
      then Inr (format_e q v, q) else scientific profile v 17)" if "q \<in> {14, 15, 17}" for q
  proof -
    have q: "1 < q" "q \<le> 17" using that by auto
    obtain f where f: "parse_f64 (format_e q v) = Some f" "f64_sign f = f64_sign v"
      using format_e_num(3) [OF assms(1) q] by blast
    have "f64_eq f v \<longleftrightarrow> f = v"
      using f64_eq_same_sign [of f v] f(2) assms(1) by (auto simp: f64_eq_def f64_cmp_def cmp_int_def)
    then show ?thesis
      by (subst scientific.simps) (simp add: nb_append_def format_e_num [OF assms(1) q] f)
  qed
  have last: "parse_f64 (format_e 17 v) = Some v" using format_e_num(3) [OF assms(1), of 17] by auto
  show thesis
  proof (cases "profile = Lua54 \<or> parse_f64 (format_e p v) = Some v \<or> p = 17")
    case True
    then show thesis using assms(2) step [OF assms(2)] last by (intro that [of p]) auto
  next
    case False
    then show thesis using step [OF assms(2)] step [of 17] last by (intro that [of 17]) auto
  qed
qed

lemma f64_inf_parts [simp]: "f64_mag (f64_inf s) = inf_mag" "f64_sign (f64_inf s) = s"
  unfolding f64_inf_def by (rule f64_mag_make f64_sign_make, rule inf_mag_less)+

lemma f64_inf_not_nan [simp]: "\<not> is_nan (f64_inf s)"
  by (simp add: is_nan_def)

lemma format_lua_float_finite:
  assumes "is_finite v"
  obtains body F where "format_lua_float profile v [] = Inr ((if f64_sign v then [45] else []) @ body)"
    and "float_text body F" and "profile = Lua55 \<Longrightarrow> F (f64_sign v) = v"
proof -
  let ?s = "if f64_sign v then [45] else [] :: bytes"
  have start: "(case profile of Lua54 \<Rightarrow> 14 | Lua55 \<Rightarrow> 15) \<in> {14, 15, 17 :: nat}" by (cases profile) simp_all
  obtain q where q: "q \<in> {14, 15, 17}" "scientific profile v (case profile of Lua54 \<Rightarrow> 14 | Lua55 \<Rightarrow> 15) = Inr (format_e q v, q)"
    and same: "profile = Lua55 \<Longrightarrow> parse_f64 (format_e q v) = Some v"
    by (rule scientific_finite [OF assms start]) blast
  have q17: "1 < q" "q \<le> 17" using q(1) by auto
  obtain ds e where f: "format_e q v = ?s @ hd ds # 46 # tl ds @ 101 # show_int e"
    and ds: "length ds = q" "all_digits ds" and e: "\<bar>e\<bar> < 10 ^ 4"
    using format_e_parts [OF assms q17] by blast
  obtain h t where ht: "ds = h # t" using ds(1) q17 by (cases ds) auto
  have no_e: "\<forall>b\<in>set (?s @ h # 46 # t). b \<noteq> 101" using ds(2) ht by (auto simp: all_digits_def dest: digit_not(5))
  have split: "split_once_e (format_e q v) = Some (?s @ h # 46 # t, show_int e)"
    using takeWhile_dropWhile_mark [OF no_e, where ys = "101 # show_int e"] unfolding f ht by (simp add: split_once_e_def)
  have "\<not> is_ascii_digit 46" "\<not> is_ascii_digit 45" by (auto dest: digit_not)
  then have fil: "filter is_ascii_digit (?s @ h # 46 # t) = ds" using ds(2) ht by (auto simp: all_digits_def filter_id_conv)
  have "\<forall>b\<in>set (?s @ h # 46 # t). is_ascii_digit b \<or> b = 46 \<or> b = 45" using ds(2) ht by (auto simp: all_digits_def)
  then have coll: "collect_digits (?s @ h # 46 # t) [] = Inr ds"
    using collect_digits_filter [of "?s @ h # 46 # t" "[]"] ds(1) q17 unfolding fil by (simp del: collect_digits.simps)
  have ex: "parse_i32 (show_int e) = Some e" using e by (intro parse_i32_exp_text exp_text_show_int) simp
  define D where "D = strip_zeros ds"
  obtain z where z: "ds = D @ replicate z 48" and D: "D \<noteq> []" unfolding D_def using strip_zeros_spec [of ds] ht by auto
  have Ddig: "all_digits D" "length D \<le> 17" using ds z q17 by (auto simp del: all_digits_simps(2))
  obtain body where body: "layout_digits q D e ?s = Inr (?s @ body)"
    and t: "float_text body (\<lambda>neg. f64_of_decimal neg (nat_of_digits D) (e + 1 - int (length D)))"
    by (rule layout_float_text [OF Ddig(1) D Ddig(2) q17(2) e, where sign_text = ?s]) simp_all
  have out: "format_lua_float profile v [] = Inr (?s @ body)"
  proof -
    have "\<not> is_nan v" "\<not> f64_eq v (f64_inf False)" "\<not> f64_eq v (f64_inf True)" 

      using assms f64_units_finite_bounds [OF assms] f64_units_infinite [of "f64_inf False"] f64_units_infinite [of "f64_inf True"]
      by (auto simp: f64_eq_def f64_cmp_def cmp_int_def is_infinite_def split: if_splits)
    then show ?thesis unfolding format_lua_float_def q(2)
      using split coll ex body format_e_num(2) [OF assms q17] ht
      by (cases "f64_sign v") (simp_all add: nb_append_def D_def)
  qed
  have cong: "real (nat_of_digits D) * 10 powi (e + 1 - int (length D)) = real (nat_of_digits ds) * 10 powi (e + 1 - int q)"
  proof -
    have "e + 1 - int (length D) = int z + (e + 1 - int q)" using ds(1) z by simp
    then show ?thesis using z by (simp only: powi_add_real power_int_of_nat) (simp add: nat_of_digits_append)
  qed
  note parsed = parse_f64_float_text [OF format_e_float_text [OF ds(1) q17(1) ds(2), of e], of "f64_sign v"]
  have "f64_of_decimal (f64_sign v) (nat_of_digits D) (e + 1 - int (length D)) = v" if "profile = Lua55"
    unfolding f64_of_decimal_cong [OF cong] using same [OF that] unfolding f parsed by simp
  with out t show thesis by (rule that)
qed

lemma integer_text:
  "basic_number_bytes profile (V_Integer i) = Inr (show_int (sint i))"
  "parse_number_bytes pow2 (show_int (sint i)) = Some (V_Integer i)"
proof -
  let ?n = "nat \<bar>sint i\<bar>"
  have range: "- (2 ^ 63) \<le> sint i" "sint i < 2 ^ 63" using sint_greater_eq [of i] sint_less [of i] by simp_all
  then have "?n < 10 ^ 19" by auto
  then have "length (dec_digits ?n) \<le> 19" by (rule dec_digits_length_le) simp
  then have "length (show_int (sint i)) \<le> 20" by (simp add: show_int_def abs_if split: if_splits)
  then show "basic_number_bytes profile (V_Integer i) = Inr (show_int (sint i))" by (simp add: nb_append_def)
  have "parse_int (- (2 ^ 63)) (2 ^ 63 - 1) (show_int (sint i)) = Some (sint i)"
    using exp_text_show_int [of "sint i"] range by (auto simp: exp_text_def parse_int_def Let_def split: if_splits)
  then have "parse_i64 (show_int (sint i)) = Some i" by (simp add: parse_i64_def)
  then show "parse_number_bytes pow2 (show_int (sint i)) = Some (V_Integer i)"
    by (subst parse_number_num) (simp_all add: num_byte_exp)
qed

text \<open>
  C3: Printing a number and reading it back gives the number: an integer is printed in full under either
  profile, and for Lua 5.5 the shortest of fifteen and seventeen digits that the printer settles on
  determines every finite float, subnormal numbers and the sign of zero included. The buffer of the
  printer never overflows.
\<close>

theorem number_text_roundtrip:
  assumes "is_finite v"
  shows "(\<exists>text. basic_number_bytes profile (V_Integer i) = Inr text
            \<and> parse_number_bytes pow2 text = Some (V_Integer i))
    \<and> (\<exists>text. basic_number_bytes Lua55 (V_Float v) = Inr text
            \<and> parse_number_bytes pow2 text = Some (V_Float v))"
proof -
  obtain body F where "format_lua_float Lua55 v [] = Inr ((if f64_sign v then [45] else []) @ body)"
    and "float_text body F" and "F (f64_sign v) = v"
    by (rule format_lua_float_finite [OF assms, where profile = Lua55]) blast
  then show ?thesis using integer_text(1) [of profile i] integer_text(2) [of pow2 i] parse_number_float_text [of body F pow2 "f64_sign v"]
    by (auto simp del: basic_number_bytes.simps(1))
qed

lemma number_text_roundtrip_witness:
  "\<exists>text. basic_number_bytes Lua55 (V_Float (F64 1)) = Inr text
     \<and> parse_number_bytes (\<lambda>_. f64_zero False) text = Some (V_Float (F64 1))"
  using number_text_roundtrip [of "F64 1" Lua55 0 "\<lambda>_. f64_zero False"]
  by (simp add: is_finite_def f64_mag_def inf_mag_def)

end
