(* ===== verification/String_Support.thy ===== *)
theory String_Support
  imports Number_Text
begin

text \<open>
  What the functions of the string library share (the first part of \<open>stdlib/string.rs\<close>): the arguments of
  a call as integers and bytes, positions within a string, and the buffers and result lists that the
  ledger of the VM pays for.
\<close>

text \<open>The allocator, the size of a value, the language profile and \<open>powi\<close> of base two.\<close>

record lib_env =
  le_alloc :: alloc_env
  le_value_size :: nat
  le_profile :: lua_profile
  le_pow2 :: "int \<Rightarrow> f64"

subsection \<open>Arguments\<close>

definition string_arg :: "lua_value list \<Rightarrow> nat \<Rightarrow> (runtime_error, lua_value) result" where
  "string_arg args index = ok_or Rt_StringArgument (get_at args index)"

definition string_integer :: "lib_env \<Rightarrow> 'h vm_heap \<Rightarrow> lua_value \<Rightarrow> (runtime_error, i64) result" where
  "string_integer env vm v =
     rbind (basic_number (le_pow2 env) vm v None) (\<lambda>number. ok_or Rt_StringArgument (lua_integer number))"

definition string_optional_integer :: "lib_env \<Rightarrow> 'h vm_heap \<Rightarrow> lua_value option \<Rightarrow> i64 \<Rightarrow> (runtime_error, i64) result" where
  "string_optional_integer env vm v dflt =
     (case v of None \<Rightarrow> Inr dflt | Some v \<Rightarrow> if v = V_Nil then Inr dflt else string_integer env vm v)"

text \<open>
  \<open>with_bytes\<close>: the bytes of a string, or of a number printed; the closure is applied to the result by the
  caller. The string and the UTF-8 library differ in the error for any other value.
\<close>

definition value_bytes :: "runtime_error \<Rightarrow> lib_env \<Rightarrow> 'h vm_heap \<Rightarrow> lua_value \<Rightarrow> (runtime_error, bytes) result" where
  "value_bytes err env vm v =
     (case v of
        V_Object object \<Rightarrow>
          rbind (vm_result (object_kind vm object)) (\<lambda>kind.
          if kind = Kind_ByteString then vm_result (with_byte_string vm object as_bytes) else Inl err)
      | V_Integer n \<Rightarrow> basic_number_bytes (le_profile env) v
      | V_Float f \<Rightarrow> basic_number_bytes (le_profile env) v
      | _ \<Rightarrow> Inl err)"

definition with_bytes :: "lib_env \<Rightarrow> 'h vm_heap \<Rightarrow> lua_value \<Rightarrow> (bytes \<Rightarrow> (runtime_error, 'a) result) \<Rightarrow> (runtime_error, 'a) result" where
  "with_bytes env vm v f = rbind (value_bytes Rt_StringArgument env vm v) f"

definition max_size :: "lua_profile \<Rightarrow> nat" where
  "max_size profile = (case profile of Lua54 \<Rightarrow> 2 ^ 31 - 1 | Lua55 \<Rightarrow> 2 ^ 63 - 1)"

subsection \<open>Positions\<close>

definition start_position :: "i64 \<Rightarrow> nat \<Rightarrow> nat" where
  "start_position pos n =
     (let p = sint pos
      in if 0 < p then nat p
         else if p = 0 then 1
         else let backward = nat (- p) in if n < backward then 1 else n - backward + 1)"

definition end_position :: "i64 \<Rightarrow> nat \<Rightarrow> nat" where
  "end_position pos n =
     (let p = sint pos
      in if 0 \<le> p then min (nat p) n
         else let backward = nat (- p) in if n < backward then 0 else n - backward + 1)"

definition string_range :: "lib_env \<Rightarrow> 'h vm_heap \<Rightarrow> lua_value list \<Rightarrow> nat \<Rightarrow> bool \<Rightarrow> (runtime_error, nat \<times> nat) result" where
  "string_range env vm args n byte =
     rbind (string_optional_integer env vm (get_at args 1) 1) (\<lambda>first.
     rbind (string_optional_integer env vm (get_at args 2) (if byte then first else - 1)) (\<lambda>last.
     Inr (start_position first n, end_position last n)))"

definition lib_string_len :: "lib_env \<Rightarrow> 'h vm_heap \<Rightarrow> lua_value \<Rightarrow> (runtime_error, nat) result" where
  "lib_string_len env vm v = with_bytes env vm v (\<lambda>b. Inr (length b))"

subsection \<open>Buffers and results\<close>

text \<open>A result of the VM as a result of the library, with the state it leaves.\<close>

definition lift_vm :: "(vm_error, 'a) result \<times> 'w \<Rightarrow> (runtime_error, 'a) result \<times> 'w" where
  "lift_vm m = (let (r, w) = m in (vm_result r, w))"

record 'h buffer =
  bf_bytes :: bytes
  bf_ledger :: "'h ledger"
  bf_charge :: nat
  bf_owner :: "'h charge option"

definition drop_owner :: "'h charge option \<Rightarrow> 'h world \<Rightarrow> 'h world" where
  "drop_owner c w = (case c of None \<Rightarrow> w | Some c \<Rightarrow> drop_charge c w)"

definition work_reserve :: "lib_env \<Rightarrow> 'h ledger \<Rightarrow> nat \<Rightarrow> nat \<Rightarrow> fail_point \<Rightarrow> 'h world \<Rightarrow>
    (runtime_error, 'h reservation) result \<times> 'h world" where
  "work_reserve env l n elem point w =
     lift_vm (reserve_vec l n elem (ae_ok (le_alloc env) point) point (ae_site (le_alloc env) point) w)"

definition buffer_new :: "lib_env \<Rightarrow> 'h ledger \<Rightarrow> nat \<Rightarrow> 'h world \<Rightarrow> (runtime_error, 'h buffer) result \<times> 'h world" where
  "buffer_new env l n w =
     try_else (work_reserve env l n 1 WorkReserve w) id (\<lambda>ticket w.
     try_else (lift_vm (commit_charge ticket w)) id (\<lambda>owner w.
     (Inr \<lparr>bf_bytes = [], bf_ledger = l, bf_charge = n, bf_owner = Some owner\<rparr>, w)))"

definition buffer_empty :: "'h ledger \<Rightarrow> 'h buffer" where
  "buffer_empty l = \<lparr>bf_bytes = [], bf_ledger = l, bf_charge = 0, bf_owner = None\<rparr>"

definition drop_buffer :: "'h buffer \<Rightarrow> 'h world \<Rightarrow> 'h world" where
  "drop_buffer b w = drop_owner (bf_owner b) w"

definition reserve_extra :: "lib_env \<Rightarrow> 'h buffer \<Rightarrow> nat \<Rightarrow> 'h world \<Rightarrow> (runtime_error, 'h buffer) result \<times> 'h world" where
  "reserve_extra env b additional w =
     (case checked_add_usize (length (bf_bytes b)) additional of
        None \<Rightarrow> (Inl (Rt_Vm ArithmeticOverflow), w)
      | Some needed \<Rightarrow>
          if needed \<le> bf_charge b then (Inr b, w)
          else
            let next = max (case checked_mul_usize (max (bf_charge b) 1) 2 of None \<Rightarrow> needed | Some n \<Rightarrow> n) needed
            in try_else (work_reserve env (bf_ledger b) next 1 WorkReserve w) id (\<lambda>ticket w.
               try_else (lift_vm (commit_charge ticket w)) id (\<lambda>owner w.
               (Inr (b\<lparr>bf_owner := Some owner, bf_charge := next\<rparr>), drop_owner (bf_owner b) w))))"

definition buffer_append :: "lib_env \<Rightarrow> 'h buffer \<Rightarrow> bytes \<Rightarrow> 'h world \<Rightarrow> (runtime_error, 'h buffer) result \<times> 'h world" where
  "buffer_append env b xs w =
     try_else (reserve_extra env b (length xs) w) id (\<lambda>b w. (Inr (b\<lparr>bf_bytes := bf_bytes b @ xs\<rparr>), w))"

text \<open>A list of results with the reservation that pays for it until it is handed over.\<close>

type_synonym 'h result_values = "lua_value list \<times> 'h reservation option"

definition lib_values :: "lib_env \<Rightarrow> 'h ledger \<Rightarrow> lua_value list \<Rightarrow> 'h world \<Rightarrow> (runtime_error, 'h result_values) result \<times> 'h world" where
  "lib_values env l input w =
     try_else (work_reserve env l (length input) (le_value_size env) ReturnReserve w) id (\<lambda>ticket w.
     (Inr (input, Some ticket), w))"

definition owned_bytes :: "lib_env \<Rightarrow> 'h vm_heap \<Rightarrow> lua_value \<Rightarrow> 'h world \<Rightarrow> (runtime_error, 'h buffer) result \<times> 'h world" where
  "owned_bytes env vm v w =
     (case value_bytes Rt_StringArgument env vm v of
        Inl e \<Rightarrow> (Inl e, w)
      | Inr source \<Rightarrow>
          try_else (buffer_new env (vh_ledger vm) (length source) w) id (\<lambda>b w.
          (Inr (b\<lparr>bf_bytes := bf_bytes b @ source\<rparr>), w)))"

end
