(* ===== verification/Utf8.thy ===== *)
theory Utf8
  imports String_Support
begin

unbundle bit_operations_syntax

text \<open>
  The UTF-8 library (\<open>stdlib/utf8.rs\<close>). Positions are byte positions as Lua counts them, an \<open>i128\<close> is an
  \<open>int\<close> (no value comes near its bounds). The closure \<open>work\<close>, with which the caller meters the steps of
  a function and can stop it, has a state of its own; the other part of the state is the memory of the
  ledgers.
\<close>

datatype utf8_builtin =
    Utf8_Len | Utf8_Codepoint | Utf8_Char | Utf8_Codes object_ref object_ref | Utf8_Offset | Utf8_Iterator bool

datatype 'h utf8_prepared =
    Prep_Values "lua_value list" "'h reservation option"
  | Prep_Bytes "'h buffer"
  | Prep_Codes object_ref lua_value

datatype stop = Stop_Aborted | Stop_Error runtime_error

type_synonym 's meter = "nat \<Rightarrow> 's \<Rightarrow> (runtime_error, bool) result \<times> 's"

definition MAX_UTF :: u32 where
  "MAX_UTF = 0x7fffffff"

definition MAX_UNICODE :: u32 where
  "MAX_UNICODE = 0x10ffff"

definition LIMITS :: "u32 list" where
  "LIMITS = [- 1, 0x80, 0x800, 0x10000, 0x200000, 0x4000000]"

subsection \<open>Errors and arguments\<close>

definition stop_result :: "(runtime_error, 'a) result \<Rightarrow> (stop, 'a) result" where
  "stop_result r = (case r of Inl e \<Rightarrow> Inl (Stop_Error e) | Inr x \<Rightarrow> Inr x)"

definition utf8_arg :: "lua_value list \<Rightarrow> nat \<Rightarrow> (stop, lua_value) result" where
  "utf8_arg args index = ok_or (Stop_Error Rt_Utf8Argument) (get_at args index)"

definition charge_work :: "'s meter \<Rightarrow> nat \<Rightarrow> 's \<Rightarrow> (stop, unit) result \<times> 's" where
  "charge_work meter units s =
     (case meter units s of
        (Inl e, s) \<Rightarrow> (Inl (Stop_Error e), s)
      | (Inr ok, s) \<Rightarrow> (if ok then Inr () else Inl Stop_Aborted, s))"

definition charge_string :: "'h vm_heap \<Rightarrow> 's meter \<Rightarrow> lua_value \<Rightarrow> 's \<Rightarrow> (stop, unit) result \<times> 's" where
  "charge_string vm meter v s =
     (case v of
        V_Object object \<Rightarrow>
          try_else (stop_result (vm_result (object_kind vm object)), s) id (\<lambda>kind s.
          if kind = Kind_ByteString then
            try_else (stop_result (vm_result (with_byte_string vm object string_len)), s) id (\<lambda>n s. charge_work meter n s)
          else (Inr (), s))
      | _ \<Rightarrow> (Inr (), s))"

definition utf8_integer :: "lib_env \<Rightarrow> 'h vm_heap \<Rightarrow> 's meter \<Rightarrow> lua_value \<Rightarrow> 's \<Rightarrow> (stop, i64) result \<times> 's" where
  "utf8_integer env vm meter v s =
     try_else (charge_string vm meter v s) id (\<lambda>_ s.
     (rbind (case basic_number (le_pow2 env) vm v None of
               Inl e \<Rightarrow> Inl (Stop_Error (if e = Rt_BasicArgument then Rt_Utf8Argument else e))
             | Inr n \<Rightarrow> Inr n)
        (\<lambda>number. ok_or (Stop_Error Rt_Utf8Argument) (lua_integer number)), s))"

definition utf8_optional_integer :: "lib_env \<Rightarrow> 'h vm_heap \<Rightarrow> 's meter \<Rightarrow> lua_value option \<Rightarrow> i64 \<Rightarrow> 's \<Rightarrow> (stop, i64) result \<times> 's" where
  "utf8_optional_integer env vm meter v dflt s =
     (case v of None \<Rightarrow> (Inr dflt, s) | Some v \<Rightarrow> if v = V_Nil then (Inr dflt, s) else utf8_integer env vm meter v s)"

definition utf8_bytes :: "lib_env \<Rightarrow> 'h vm_heap \<Rightarrow> lua_value \<Rightarrow> (stop, bytes) result" where
  "utf8_bytes env vm v = stop_result (value_bytes Rt_Utf8Argument env vm v)"

definition relative :: "i64 \<Rightarrow> nat \<Rightarrow> int" where
  "relative pos n =
     (let p = sint pos in if 0 \<le> p then p else if int n < - p then 0 else int n + p + 1)"

definition truthy_arg :: "lua_value list \<Rightarrow> nat \<Rightarrow> bool" where
  "truthy_arg args index = (case get_at args index of None \<Rightarrow> False | Some v \<Rightarrow> is_truthy v)"

subsection \<open>Decoding and encoding\<close>

definition byte_at :: "'s meter \<Rightarrow> bytes \<Rightarrow> nat \<Rightarrow> 's \<Rightarrow> (stop, u8) result \<times> 's" where
  "byte_at meter b index s =
     try_else (charge_work meter 1 s) id (\<lambda>_ s. (Inr (case get_at b index of None \<Rightarrow> 0 | Some x \<Rightarrow> x), s))"

definition is_cont :: "u8 \<Rightarrow> bool" where
  "is_cont byte \<longleftrightarrow> byte AND 0xc0 = 0x80"

definition leading_ones :: "u8 \<Rightarrow> nat" where
  "leading_ones b = length (takeWhile (bit b) [7, 6, 5, 4, 3, 2, 1, 0])"

definition lead_parts :: "u8 \<Rightarrow> (nat \<times> u32) option" where
  "lead_parts lead =
     (if lead < 0x80 then Some (0, ucast lead)
      else if 0xfe \<le> lead then None
      else
        let n = leading_ones lead
        in if \<not> (2 \<le> n \<and> n \<le> 6) then None
           else Some (n - 1, ucast (lead AND (push_bit (7 - n) 1 - 1))))"

fun continue_decode :: "'s meter \<Rightarrow> bytes \<Rightarrow> nat \<Rightarrow> nat list \<Rightarrow> u32 \<Rightarrow> 's \<Rightarrow> (stop, u32 option) result \<times> 's" where
  "continue_decode meter b index [] code s = (Inr (Some code), s)"
| "continue_decode meter b index (offset # offsets) code s =
     (case Option.bind (checked_add_usize index offset) (get_at b) of
        None \<Rightarrow> (Inr None, s)
      | Some next \<Rightarrow>
          try_else (charge_work meter 1 s) id (\<lambda>_ s.
          if \<not> is_cont next then (Inr None, s)
          else continue_decode meter b index offsets (push_bit 6 code OR ucast (next AND 0x3f)) s))"

definition rejected :: "bool \<Rightarrow> nat \<Rightarrow> u32 \<Rightarrow> bool" where
  "rejected strict continuations code \<longleftrightarrow>
     (continuations \<noteq> 0 \<and> code < LIMITS ! continuations) \<or> MAX_UTF < code
     \<or> (strict \<and> (MAX_UNICODE < code \<or> (0xd800 \<le> code \<and> code \<le> 0xdfff)))"

definition decode :: "'s meter \<Rightarrow> bytes \<Rightarrow> nat \<Rightarrow> bool \<Rightarrow> 's \<Rightarrow> (stop, (nat \<times> u32) option) result \<times> 's" where
  "decode meter b index strict s =
     try_else (byte_at meter b index s) id (\<lambda>lead s.
     case lead_parts lead of
       None \<Rightarrow> (Inr None, s)
     | Some (continuations, code) \<Rightarrow>
         try_else (continue_decode meter b index [1..<continuations + 1] code s) id (\<lambda>r s.
         case r of
           None \<Rightarrow> (Inr None, s)
         | Some code \<Rightarrow>
             (if rejected strict continuations code then Inr None
              else Inr (map_option (\<lambda>next. (next, code)) (checked_add_usize index (continuations + 1))), s)))"

definition encode_length :: "u32 \<Rightarrow> nat" where
  "encode_length code =
     (if code \<le> 0x7f then 1 else if code \<le> 0x7ff then 2 else if code \<le> 0xffff then 3
      else if code \<le> 0x1fffff then 4 else if code \<le> 0x3ffffff then 5 else 6)"

text \<open>The loop fills the bytes from the last down to the second; \<open>tail\<close> is what it has filled.\<close>

fun encode_tail :: "nat \<Rightarrow> u32 \<Rightarrow> bytes \<Rightarrow> u32 \<times> bytes" where
  "encode_tail 0 v tail = (v, tail)"
| "encode_tail (Suc n) v tail = encode_tail n (drop_bit 6 v) ((0x80 OR (ucast v AND 0x3f)) # tail)"

definition encode :: "u32 \<Rightarrow> bytes" where
  "encode code =
     (let n = encode_length code;
          (v, tail) = encode_tail (n - 1) code []
      in (if n = 1 then ucast v else push_bit (8 - n) (NOT 0) OR ucast v) # tail)"

subsection \<open>The functions of the library\<close>

text \<open>The state: that of the caller's meter and the memory of the ledgers.\<close>

definition on_meter :: "('s \<Rightarrow> ('e, 'a) result \<times> 's) \<Rightarrow> 's \<times> 'w \<Rightarrow> ('e, 'a) result \<times> ('s \<times> 'w)" where
  "on_meter f st = (let (r, s) = f (fst st) in (r, (s, snd st)))"

definition on_memory :: "('w \<Rightarrow> (runtime_error, 'a) result \<times> 'w) \<Rightarrow> 's \<times> 'w \<Rightarrow> (stop, 'a) result \<times> ('s \<times> 'w)" where
  "on_memory f st = (let (r, w) = f (snd st) in (stop_result r, (fst st, w)))"

type_synonym ('s, 'h, 'a) utf8_run = "'s \<times> 'h world \<Rightarrow> (stop, 'a) result \<times> ('s \<times> 'h world)"

definition utf8_output :: "lib_env \<Rightarrow> 'h vm_heap \<Rightarrow> 's meter \<Rightarrow> lua_value list \<Rightarrow> ('s, 'h, 'h utf8_prepared) utf8_run" where
  "utf8_output env vm meter vs st =
     try_else (on_meter (charge_work meter (length vs)) st) id (\<lambda>_ st.
     try_else (on_memory (lib_values env (vh_ledger vm) vs) st) id (\<lambda>(vs, ticket) st.
     (Inr (Prep_Values vs ticket), st)))"

lemma checked_add_usize_gt: "checked_add_usize a b = Some c \<Longrightarrow> c = a + b"
  by (auto simp: checked_add_usize_def split: if_splits)

lemma decode_advances:
  assumes "decode meter b index strict s = (Inr (Some (next, code)), s')"
  shows "index < next"
  using assms
  by (auto simp: decode_def try_else_def dest!: checked_add_usize_gt split: prod.splits sum.splits option.splits if_splits)

function len_loop :: "'s meter \<Rightarrow> bytes \<Rightarrow> bool \<Rightarrow> nat \<Rightarrow> nat \<Rightarrow> i64 \<Rightarrow> 's \<Rightarrow> (stop, nat + i64) result \<times> 's" where
  "len_loop meter b strict stop_at pos n s =
     (if stop_at \<le> pos then (Inr (Inr n), s)
      else case decode meter b pos strict s of
          (Inl e, s) \<Rightarrow> (Inl e, s)
        | (Inr None, s) \<Rightarrow> (Inr (Inl pos), s)
        | (Inr (Some (next, _)), s) \<Rightarrow>
            if sint n + 1 < 2 ^ 63 then len_loop meter b strict stop_at next (n + 1) s
            else (Inl (Stop_Error (Rt_Vm ArithmeticOverflow)), s))"
  by pat_completeness auto
termination
  by (relation "measure (\<lambda>(_, _, _, stop_at, pos, _, _). stop_at - pos)") (auto dest!: decode_advances [OF sym])

declare len_loop.simps [simp del]

definition utf8_len :: "lib_env \<Rightarrow> 'h vm_heap \<Rightarrow> 's meter \<Rightarrow> lua_value list \<Rightarrow> ('s, 'h, 'h utf8_prepared) utf8_run" where
  "utf8_len env vm meter args st =
     try_else (rbind (utf8_arg args 0) (utf8_bytes env vm), st) id (\<lambda>b st.
     try_else (on_meter (utf8_optional_integer env vm meter (get_at args 1) 1) st) id (\<lambda>first st.
     try_else (on_meter (utf8_optional_integer env vm meter (get_at args 2) (- 1)) st) id (\<lambda>last st.
     let first = relative first (length b);
         last = relative last (length b);
         lax = truthy_arg args 3
     in if first < 1 \<or> int (length b) + 1 < first \<or> int (length b) < last then (Inl (Stop_Error Rt_Utf8Argument), st)
        else
          try_else (on_meter (len_loop meter b (\<not> lax) (nat last) (nat (first - 1)) 0) st) id (\<lambda>r st.
          case r of
            Inl pos \<Rightarrow> utf8_output env vm meter [V_Nil, V_Integer (of_nat pos + 1)] st
          | Inr n \<Rightarrow> utf8_output env vm meter [V_Integer n] st))))"

function codepoint_loop :: "'s meter \<Rightarrow> bytes \<Rightarrow> bool \<Rightarrow> nat \<Rightarrow> nat \<Rightarrow> lua_value list \<Rightarrow> 's \<Rightarrow> (stop, lua_value list) result \<times> 's" where
  "codepoint_loop meter b strict stop_at pos vs s =
     (if stop_at \<le> pos then (Inr vs, s)
      else case decode meter b pos strict s of
          (Inl e, s) \<Rightarrow> (Inl e, s)
        | (Inr None, s) \<Rightarrow> (Inl (Stop_Error Rt_Utf8Sequence), s)
        | (Inr (Some (next, code)), s) \<Rightarrow> codepoint_loop meter b strict stop_at next (vs @ [V_Integer (ucast code)]) s)"
  by pat_completeness auto
termination
  by (relation "measure (\<lambda>(_, _, _, stop_at, pos, _, _). stop_at - pos)") (auto dest!: decode_advances [OF sym])

declare codepoint_loop.simps [simp del]

definition utf8_codepoint :: "lib_env \<Rightarrow> 'h vm_heap \<Rightarrow> 's meter \<Rightarrow> lua_value list \<Rightarrow> ('s, 'h, 'h utf8_prepared) utf8_run" where
  "utf8_codepoint env vm meter args st =
     try_else (rbind (utf8_arg args 0) (utf8_bytes env vm), st) id (\<lambda>b st.
     try_else (on_meter (utf8_optional_integer env vm meter (get_at args 1) 1) st) id (\<lambda>first st.
     let first = relative first (length b)
     in try_else
          (case get_at args 2 of
             None \<Rightarrow> (Inr first, st)
           | Some v \<Rightarrow>
               if v = V_Nil then (Inr first, st)
               else try_else (on_meter (utf8_integer env vm meter v) st) id (\<lambda>last st. (Inr (relative last (length b)), st)))
          id (\<lambda>last st.
        let lax = truthy_arg args 3
        in if first < 1 \<or> int (length b) < last then (Inl (Stop_Error Rt_Utf8Argument), st)
           else if last < first then (Inr (Prep_Values [] None), st)
           else
             let upper = last - first + 1
             in if 2 ^ 31 - 1 < upper then (Inl (Stop_Error Rt_Utf8Argument), st)
                else
                  try_else (on_meter (charge_work meter (nat upper)) st) id (\<lambda>_ st.
                  try_else (on_memory (work_reserve env (vh_ledger vm) (nat upper) (le_value_size env) ReturnReserve) st) id
                    (\<lambda>ticket st.
                  try_else (on_meter (codepoint_loop meter b (\<not> lax) (nat last) (nat (first - 1)) []) st)
                    (\<lambda>(s, w). (s, drop_reservation ticket w)) (\<lambda>vs st.
                  (Inr (Prep_Values vs (Some ticket)), st)))))))"

fun char_loop :: "lib_env \<Rightarrow> 'h vm_heap \<Rightarrow> 's meter \<Rightarrow> lua_value list \<Rightarrow> 'h buffer \<Rightarrow> ('s, 'h, 'h buffer) utf8_run" where
  "char_loop env vm meter [] buffer st = (Inr buffer, st)"
| "char_loop env vm meter (v # vs) buffer st =
     (let undo = (\<lambda>(s, w). (s, drop_buffer buffer w))
      in try_else (on_meter (utf8_integer env vm meter v) st) undo (\<lambda>code st.
         if \<not> (0 \<le> sint code \<and> sint code \<le> uint MAX_UTF) then (Inl (Stop_Error Rt_Utf8Argument), undo st)
         else
           let b = encode (ucast code)
           in try_else (on_meter (charge_work meter (length b)) st) undo (\<lambda>_ st.
              try_else (on_memory (buffer_append env buffer b) st) undo (\<lambda>buffer st.
              char_loop env vm meter vs buffer st))))"

definition char_bytes :: "lib_env \<Rightarrow> 'h vm_heap \<Rightarrow> 's meter \<Rightarrow> lua_value list \<Rightarrow> ('s, 'h, 'h utf8_prepared) utf8_run" where
  "char_bytes env vm meter args st =
     (case checked_mul_usize (length args) 6 of
        None \<Rightarrow> (Inl (Stop_Error (Rt_Vm ArithmeticOverflow)), st)
      | Some maximum \<Rightarrow>
          if max_size (le_profile env) < maximum then (Inl (Stop_Error Rt_Utf8Argument), st)
          else
            try_else (char_loop env vm meter args (buffer_empty (vh_ledger vm)) st) id (\<lambda>buffer st.
            try_else (on_meter (charge_work meter 1) st) (\<lambda>(s, w). (s, drop_buffer buffer w)) (\<lambda>_ st.
            (Inr (Prep_Bytes buffer), st))))"

text \<open>\<open>utf8.offset\<close>: back to the start of a character, then characters backward or forward.\<close>

fun back_loop :: "'s meter \<Rightarrow> bytes \<Rightarrow> nat \<Rightarrow> 's \<Rightarrow> (stop, nat) result \<times> 's" where
  "back_loop meter b 0 s = (Inr 0, s)"
| "back_loop meter b (Suc pos) s =
     try_else (byte_at meter b (Suc pos) s) id (\<lambda>byte s.
     if is_cont byte then back_loop meter b pos s else (Inr (Suc pos), s))"

lemma byte_at_cont:
  assumes "byte_at meter b pos s = (Inr byte, s')" and "is_cont byte"
  shows "pos < length b"
proof (rule ccontr)
  assume "\<not> pos < length b"
  then have "byte = 0" using assms(1) by (auto simp: byte_at_def get_at_def try_else_def split: prod.splits sum.splits)
  then show False using assms(2) by (simp add: is_cont_def)
qed

function forward_loop :: "'s meter \<Rightarrow> bytes \<Rightarrow> nat \<Rightarrow> 's \<Rightarrow> (stop, nat) result \<times> 's" where
  "forward_loop meter b pos s =
     (case byte_at meter b pos s of
        (Inl e, s) \<Rightarrow> (Inl e, s)
      | (Inr byte, s) \<Rightarrow> if is_cont byte then forward_loop meter b (Suc pos) s else (Inr pos, s))"
  by pat_completeness auto
termination
  by (relation "measure (\<lambda>(_, b, pos, _). length b - pos)") (auto dest!: byte_at_cont [OF sym])

declare forward_loop.simps [simp del]

fun offset_back :: "'s meter \<Rightarrow> bytes \<Rightarrow> nat \<Rightarrow> nat \<Rightarrow> 's \<Rightarrow> (stop, nat \<times> nat) result \<times> 's" where
  "offset_back meter b 0 pos s = (Inr (0, pos), s)"
| "offset_back meter b (Suc n) pos s =
     (if pos = 0 then (Inr (Suc n, 0), s)
      else try_else (back_loop meter b (pos - 1) s) id (\<lambda>pos s. offset_back meter b n pos s))"

fun offset_forward :: "'s meter \<Rightarrow> bytes \<Rightarrow> nat \<Rightarrow> nat \<Rightarrow> 's \<Rightarrow> (stop, nat \<times> nat) result \<times> 's" where
  "offset_forward meter b 0 pos s = (Inr (0, pos), s)"
| "offset_forward meter b (Suc n) pos s =
     (if length b \<le> pos then (Inr (Suc n, pos), s)
      else try_else (forward_loop meter b (Suc pos) s) id (\<lambda>pos s. offset_forward meter b n pos s))"

text \<open>How many characters are left to pass, and the position reached.\<close>

definition offset_walk :: "'s meter \<Rightarrow> bytes \<Rightarrow> int \<Rightarrow> nat \<Rightarrow> 's \<Rightarrow> (stop, nat \<times> nat) result \<times> 's" where
  "offset_walk meter b n pos s =
     (if n = 0 then try_else (back_loop meter b pos s) id (\<lambda>pos s. (Inr (0, pos), s))
      else
        try_else (byte_at meter b pos s) id (\<lambda>byte s.
        if is_cont byte then (Inl (Stop_Error Rt_Utf8Sequence), s)
        else if n < 0 then offset_back meter b (nat (- n)) pos s
        else offset_forward meter b (nat (n - 1)) pos s))"

definition utf8_offset :: "lib_env \<Rightarrow> 'h vm_heap \<Rightarrow> 's meter \<Rightarrow> lua_value list \<Rightarrow> ('s, 'h, 'h utf8_prepared) utf8_run" where
  "utf8_offset env vm meter args st =
     try_else (rbind (utf8_arg args 0) (utf8_bytes env vm), st) id (\<lambda>b st.
     try_else (utf8_arg args 1, st) id (\<lambda>v st.
     try_else (on_meter (utf8_integer env vm meter v) st) id (\<lambda>n st.
     try_else
       (case get_at args 2 of
          None \<Rightarrow> (Inr (if 0 \<le> sint n then 1 else int (length b) + 1), st)
        | Some v \<Rightarrow>
            if v = V_Nil then (Inr (if 0 \<le> sint n then 1 else int (length b) + 1), st)
            else try_else (on_meter (utf8_integer env vm meter v) st) id (\<lambda>p st. (Inr (relative p (length b)), st)))
       id (\<lambda>first st.
     if first < 1 \<or> int (length b) + 1 < first then (Inl (Stop_Error Rt_Utf8Argument), st)
     else
       try_else (on_meter (offset_walk meter b (sint n) (nat (first - 1))) st) id (\<lambda>(left, pos) st.
       if left \<noteq> 0 then utf8_output env vm meter [V_Nil] st
       else
         let start = V_Integer (of_nat pos + 1)
         in if le_profile env = Lua54 then utf8_output env vm meter [start] st
            else
              try_else (on_meter (byte_at meter b pos) st) id (\<lambda>current st.
              try_else
                (if current AND 0x80 = 0 then (Inr pos, st)
                 else if is_cont current then (Inl (Stop_Error Rt_Utf8Sequence), st)
                 else try_else (on_meter (forward_loop meter b (pos + 1)) st) id (\<lambda>next st. (Inr (next - 1), st)))
                id (\<lambda>finish st. utf8_output env vm meter [start, V_Integer (of_nat finish + 1)] st)))))))"

definition utf8_codes :: "lib_env \<Rightarrow> 'h vm_heap \<Rightarrow> 's meter \<Rightarrow> lua_value list \<Rightarrow> object_ref \<Rightarrow> object_ref \<Rightarrow>
    ('s, 'h, 'h utf8_prepared) utf8_run" where
  "utf8_codes env vm meter args strict lax st =
     try_else (utf8_arg args 0, st) id (\<lambda>source st.
     try_else (utf8_bytes env vm source, st) id (\<lambda>b st.
     try_else
       (if b = [] then (Inr False, st)
        else try_else (on_meter (byte_at meter b 0) st) id (\<lambda>byte st. (Inr (is_cont byte), st)))
       id (\<lambda>broken st.
     if broken then (Inl (Stop_Error Rt_Utf8Sequence), st)
     else
       try_else (if number_if source \<noteq> None then on_meter (charge_work meter (length b)) st else (Inr (), st)) id (\<lambda>_ st.
       try_else (on_meter (charge_work meter 3) st) id (\<lambda>_ st.
       (Inr (Prep_Codes (if truthy_arg args 1 then lax else strict) source), st))))))"

definition iterator_control :: "lib_env \<Rightarrow> 'h vm_heap \<Rightarrow> 's meter \<Rightarrow> lua_value option \<Rightarrow> 's \<Rightarrow> (stop, i64) result \<times> 's" where
  "iterator_control env vm meter v s =
     (case v of
        None \<Rightarrow> (Inr 0, s)
      | Some v \<Rightarrow>
          try_else (charge_string vm meter v s) id (\<lambda>_ s.
          (case basic_number (le_pow2 env) vm v None of
             Inr number \<Rightarrow> Inr (case lua_integer number of None \<Rightarrow> 0 | Some n \<Rightarrow> n)
           | Inl e \<Rightarrow> if e = Rt_BasicArgument then Inr 0 else Inl (Stop_Error e), s)))"

definition utf8_iterator :: "lib_env \<Rightarrow> 'h vm_heap \<Rightarrow> 's meter \<Rightarrow> lua_value list \<Rightarrow> bool \<Rightarrow> ('s, 'h, 'h utf8_prepared) utf8_run" where
  "utf8_iterator env vm meter args strict st =
     try_else (rbind (utf8_arg args 0) (utf8_bytes env vm), st) id (\<lambda>b st.
     try_else (on_meter (iterator_control env vm meter (get_at args 1)) st) id (\<lambda>control st.
     try_else (if unat control < length b then on_meter (forward_loop meter b (unat control)) st else (Inr (unat control), st)) id
       (\<lambda>pos st.
     if length b \<le> pos then (Inr (Prep_Values [] None), st)
     else
       try_else (on_meter (decode meter b pos strict) st) id (\<lambda>r st.
       case r of
         None \<Rightarrow> (Inl (Stop_Error Rt_Utf8Sequence), st)
       | Some (next, code) \<Rightarrow>
           try_else
             (if next < length b then try_else (on_meter (byte_at meter b next) st) id (\<lambda>byte st. (Inr (is_cont byte), st))
              else (Inr False, st))
             id (\<lambda>broken st.
           if broken then (Inl (Stop_Error Rt_Utf8Sequence), st)
           else utf8_output env vm meter [V_Integer (of_nat pos + 1), V_Integer (ucast code)] st)))))"

definition utf8_execute :: "lib_env \<Rightarrow> 'h vm_heap \<Rightarrow> 's meter \<Rightarrow> utf8_builtin \<Rightarrow> lua_value list \<Rightarrow> 's \<times> 'h world \<Rightarrow>
    (runtime_error, 'h utf8_prepared option) result \<times> ('s \<times> 'h world)" where
  "utf8_execute env vm meter kind args st =
     (let (r, st) =
        (case kind of
           Utf8_Len \<Rightarrow> utf8_len env vm meter args st
         | Utf8_Codepoint \<Rightarrow> utf8_codepoint env vm meter args st
         | Utf8_Char \<Rightarrow> char_bytes env vm meter args st
         | Utf8_Codes strict lax \<Rightarrow> utf8_codes env vm meter args strict lax st
         | Utf8_Offset \<Rightarrow> utf8_offset env vm meter args st
         | Utf8_Iterator strict \<Rightarrow> utf8_iterator env vm meter args strict st)
      in (case r of
            Inr prepared \<Rightarrow> Inr (Some prepared)
          | Inl Stop_Aborted \<Rightarrow> Inr None
          | Inl (Stop_Error e) \<Rightarrow> Inl e, st))"

end
