(* ===== verification/Utf8_Spec.thy ===== *)
theory Utf8_Spec
  imports Utf8 Lexer
begin

unbundle bit_operations_syntax

text \<open>
  The UTF-8 library round-trips. Shifting six bits in and out are inverse to each other, a lead byte holds the
  length and the first bits, and so the decoder accepts exactly the encodings; lists of code points
  survive \<open>utf8.char\<close> and \<open>utf8.codepoint\<close>.
\<close>

subsection \<open>Bytes and bits\<close>

lemma byte_masks: "(0x3f :: 'a::len word) = mask 6" "(0x80 :: 'a word) = push_bit 7 1" "(0xc0 :: 'a word) = push_bit 6 (mask 2)"
  by (simp_all add: mask_eq_exp_minus_1)

lemma bit_128: "bit (128 :: int) n \<longleftrightarrow> n = 7"
proof -
  have "(128 :: int) = 2 ^ 7" by simp
  then show ?thesis by (simp only: bit_exp_iff) auto
qed

lemma is_cont_bits: "is_cont x \<longleftrightarrow> bit x 7 \<and> \<not> bit x 6"
proof
  assume "is_cont x"
  then have *: "bit (x AND push_bit 6 (mask 2)) n = bit (push_bit 7 1 :: u8) n" for n by (simp only: is_cont_def byte_masks)
  show "bit x 7 \<and> \<not> bit x 6" using * [of 7] * [of 6] by (simp add: bit_simps bit_128)
next
  assume *: "bit x 7 \<and> \<not> bit x 6"
  have "x AND push_bit 6 (mask 2) = push_bit 7 1"
  proof (rule bit_word_eqI)
    fix n assume "n < LENGTH(8)"
    then have "n < 6 \<or> n = 6 \<or> n = 7" by (simp; arith)
    then show "bit (x AND push_bit 6 (mask 2)) n = bit (push_bit 7 1 :: u8) n" using * by (auto simp: bit_simps bit_128)
  qed
  then show "is_cont x" by (simp only: is_cont_def byte_masks)
qed

lemma cont_byte: "is_cont (0x80 OR (y AND 0x3f))"
  unfolding is_cont_bits byte_masks by (simp add: bit_simps bit_128)

lemma cont_byte_same:
  assumes "is_cont x"
  shows "0x80 OR (x AND 0x3f) = x"
  unfolding byte_masks
proof (rule bit_word_eqI)
  fix n assume "n < LENGTH(8)"
  then have "n < 6 \<or> n = 6 \<or> n = 7" by (simp; arith)
  then show "bit (push_bit 7 1 OR (x AND mask 6)) n = bit x n"
    using assms unfolding is_cont_bits by (auto simp: bit_simps bit_128)
qed

lemma word_bits_below:
  fixes c :: "'a::len word"
  assumes "c < 2 ^ k" and "bit c n"
  shows "n < k"
  using less_mask_eq [OF assms(1)] assms(2) by (metis bit_and_iff bit_mask_iff)

lemma shift_in_out:
  fixes c :: u32
  assumes "c < 2 ^ 26"
  shows "drop_bit 6 (push_bit 6 c OR ucast (x AND (0x3f :: u8))) = c"
    and "ucast (push_bit 6 c OR ucast (x AND (0x3f :: u8))) AND 0x3f = x AND (0x3f :: u8)"
proof -
  note hi = word_bits_below [OF assms]
  show "drop_bit 6 (push_bit 6 c OR ucast (x AND (0x3f :: u8))) = c"
    unfolding byte_masks by (rule bit_word_eqI) (use hi in \<open>auto simp: bit_simps\<close>)
  show "ucast (push_bit 6 c OR ucast (x AND (0x3f :: u8))) AND 0x3f = x AND (0x3f :: u8)"
    unfolding byte_masks by (rule bit_word_eqI) (auto simp: bit_simps bit_128)
qed

lemma shift_out_in:
  fixes v :: u32
  shows "push_bit 6 (drop_bit 6 v) OR ucast ((0x80 OR (ucast v AND 0x3f)) AND (0x3f :: u8)) = v"
  unfolding byte_masks
proof (rule bit_word_eqI)
  fix n assume "n < LENGTH(32)"
  then show "bit (push_bit 6 (drop_bit 6 v) OR ucast ((push_bit 7 1 OR (ucast v AND mask 6)) AND (mask 6 :: u8))) n = bit v n"
    by (cases "n < 6") (auto simp: bit_simps bit_128)
qed

lemma word_below_bits:
  fixes c :: "'a::len word"
  assumes "\<And>n. bit c n \<Longrightarrow> n < k" and "k < LENGTH('a)"
  shows "c < 2 ^ k"
proof -
  have "c AND mask k = c" by (rule bit_word_eqI) (use assms(1) in \<open>auto simp: bit_simps\<close>)
  then show ?thesis using assms(2) by (metis and_mask_less')
qed

subsection \<open>Lead bytes\<close>

lemma lead_ascii: "(lead :: u8) < 0x80 \<longleftrightarrow> \<not> bit lead 7"
proof -
  have e: "(0x80 :: u8) = 2 ^ 7" by simp
  show ?thesis
  proof
    assume "lead < 0x80"
    then show "\<not> bit lead 7" unfolding e using word_bits_below by blast
  next
    assume *: "\<not> bit lead 7"
    have "n < 7" if "bit lead n" for n using that bit_imp_le_length [OF that] * by (cases "n = 7") auto
    then show "lead < 0x80" unfolding e by (rule word_below_bits) auto
  qed
qed

lemma leading_ones_cases:
  "leading_ones b = (if \<not> bit b 7 then 0 else if \<not> bit b 6 then 1 else if \<not> bit b 5 then 2 else if \<not> bit b 4 then 3
     else if \<not> bit b 3 then 4 else if \<not> bit b 2 then 5 else if \<not> bit b 1 then 6 else if \<not> bit b 0 then 7 else 8)"
  by (simp add: leading_ones_def)

lemma leading_ones_spec:
  assumes "leading_ones b = m" and "m \<le> 7"
  shows "\<not> bit b (7 - m)" and "8 - m \<le> i \<Longrightarrow> i < 8 \<Longrightarrow> bit b i"
proof -
  have set: "bit b 7" if "1 \<le> m" using assms(1) that unfolding leading_ones_cases by (auto split: if_splits)
  have 6: "bit b 6" if "2 \<le> m" using assms(1) that unfolding leading_ones_cases by (auto split: if_splits)
  have 5: "bit b 5" if "3 \<le> m" using assms(1) that unfolding leading_ones_cases by (auto split: if_splits)
  have 4: "bit b 4" if "4 \<le> m" using assms(1) that unfolding leading_ones_cases by (auto split: if_splits)
  have 3: "bit b 3" if "5 \<le> m" using assms(1) that unfolding leading_ones_cases by (auto split: if_splits)
  have 2: "bit b 2" if "6 \<le> m" using assms(1) that unfolding leading_ones_cases by (auto split: if_splits)
  have 1: "bit b 1" if "7 \<le> m" using assms(1) that unfolding leading_ones_cases by (auto split: if_splits)
  show "\<not> bit b (7 - m)" using assms unfolding leading_ones_cases by (auto split: if_splits)
  assume i: "8 - m \<le> i" "i < 8"
  then have "i \<in> {1, 2, 3, 4, 5, 6, 7}" using assms(2) by (simp; arith)
  then show "bit b i" using i set 6 5 4 3 2 1 by (elim insertE) simp_all
qed

lemma clear_bit_less:
  assumes "\<not> bit (lead :: u8) k" and "k \<in> {1, 2, 3, 4, 5}"
  shows "lead < 0xfe"
proof -
  have "lead AND NOT (push_bit k 1) = lead"
    by (rule bit_word_eqI) (use assms(1) in \<open>auto simp: bit_simps\<close>)
  then have "lead \<le> NOT (push_bit k 1)" by (metis word_and_le1)
  also have "\<dots> < 0xfe" using assms(2) by auto
  finally show ?thesis .
qed

lemma lead_parts_cases:
  "lead_parts lead = (if \<not> bit lead 7 then Some (0, ucast lead)
     else if 2 \<le> leading_ones lead \<and> leading_ones lead \<le> 6
     then Some (leading_ones lead - 1, ucast (lead AND mask (7 - leading_ones lead))) else None)"
proof -
  have "\<not> 0xfe \<le> lead" if "2 \<le> leading_ones lead" "leading_ones lead \<le> 6"
  proof -
    have "\<not> bit lead (7 - leading_ones lead)" using that unfolding leading_ones_cases by (auto split: if_splits)
    moreover have "7 - leading_ones lead \<in> {1, 2, 3, 4, 5}" using that by (simp; arith)
    ultimately show ?thesis using clear_bit_less [of lead] by (auto simp: not_le)
  qed
  then show ?thesis unfolding lead_parts_def lead_ascii Let_def mask_eq_exp_minus_1 by (simp add: push_bit_of_1)
qed

lemma lead_byte_bits:
  assumes "n \<in> {1, 2, 3, 4, 5}"
  shows "bit (push_bit (7 - n) (NOT 0) OR ucast (c :: u32) :: u8) i \<longleftrightarrow> i < 8 \<and> (7 - n \<le> i \<or> bit c i)"
  using assms by (auto simp: bit_simps)

lemma lead_parts_encode:
  assumes "n \<in> {1, 2, 3, 4, 5}" and "(c :: u32) < 2 ^ (6 - n)"
  shows "lead_parts (push_bit (7 - n) (NOT 0) OR ucast c) = Some (n, c)"
proof -
  define l :: u8 where "l = push_bit (7 - n) (NOT 0) OR ucast c"
  have bits: "bit l i \<longleftrightarrow> i < 8 \<and> (7 - n \<le> i \<or> bit c i)" for i unfolding l_def by (rule lead_byte_bits [OF assms(1)])
  have c: "bit c i \<Longrightarrow> i < 6 - n" for i using word_bits_below [OF assms(2)] .
  then have "\<not> bit c (6 - n)" by blast
  then have lo: "leading_ones l = Suc n" using assms(1) unfolding leading_ones_cases bits by (elim insertE) simp_all
  have "(ucast (l AND mask (7 - Suc n)) :: u32) = c"
  proof (rule bit_word_eqI)
    fix i assume "i < LENGTH(32)"
    show "bit (ucast (l AND mask (7 - Suc n)) :: u32) i = bit c i"
      using c [of i] assms(1) by (auto simp: bit_simps bits)
  qed
  then show ?thesis unfolding l_def [symmetric] lead_parts_cases lo using assms(1) by (auto simp: bits)
qed

lemma lead_parts_decode:
  assumes "lead_parts lead = Some (n, c)" and "n \<noteq> 0"
  shows "n \<in> {1, 2, 3, 4, 5}" and "c < 2 ^ (6 - n)" and "lead = push_bit (7 - n) (NOT 0) OR ucast c"
proof -
  have b7: "bit lead 7" and m: "leading_ones lead = Suc n" and c: "c = ucast (lead AND mask (6 - n))"
    and n: "1 \<le> n" "n \<le> 5"
    using assms unfolding lead_parts_cases by (auto split: if_splits)
  show n5: "n \<in> {1, 2, 3, 4, 5}" using n by (simp; arith)
  show "c < 2 ^ (6 - n)" by (rule word_below_bits) (auto simp: c bit_simps)
  show "lead = push_bit (7 - n) (NOT 0) OR ucast c"
  proof (rule bit_word_eqI)
    fix i assume i: "i < LENGTH(8)"
    have c_bit: "bit c i \<longleftrightarrow> bit lead i \<and> i < 6 - n" using i unfolding c by (simp add: bit_simps conj_commute)
    have "7 - n \<le> i \<Longrightarrow> bit lead i" using leading_ones_spec(2) [OF m, of i] n i by simp
    moreover have "\<not> bit lead (6 - n)" using leading_ones_spec(1) [OF m] n by simp
    ultimately show "bit lead i = bit (push_bit (7 - n) (NOT 0) OR ucast c :: u8) i"
      unfolding lead_byte_bits [OF n5] c_bit using i by (cases "i = 6 - n") auto
  qed
qed

subsection \<open>Encoding and decoding are inverse\<close>

definition decode_fold :: "u32 \<Rightarrow> bytes \<Rightarrow> u32" where
  "decode_fold c cs = foldl (\<lambda>c x. push_bit 6 c OR ucast (x AND 0x3f)) c cs"

lemma decode_fold_simps [simp]:
  "decode_fold c [] = c"
  "decode_fold c (x # cs) = decode_fold (push_bit 6 c OR ucast (x AND 0x3f)) cs"
  "decode_fold c (cs @ [x]) = push_bit 6 (decode_fold c cs) OR ucast (x AND 0x3f)"
  by (simp_all add: decode_fold_def)

lemma less_power_mono:
  fixes c :: u32
  assumes "c < 2 ^ k" and "k \<le> m" and "m < 32"
  shows "c < 2 ^ m"
  by (rule word_below_bits) (use word_bits_below [OF assms(1)] assms(2,3) in \<open>auto intro: less_le_trans\<close>)

lemma decode_fold_bound:
  assumes "c < 2 ^ k" and "k + 6 * length cs < 32"
  shows "decode_fold c cs < 2 ^ (k + 6 * length cs)"
  using assms(2)
proof (induction cs rule: rev_induct)
  case (snoc x cs)
  then have "decode_fold c cs < 2 ^ (k + 6 * length cs)" by simp
  note b = word_bits_below [OF this]
  have "i < k + 6 * length (cs @ [x])" if i: "bit (push_bit 6 (decode_fold c cs) OR ucast (x AND (0x3f :: u8))) i" for i
    using i b [of "i - 6"] unfolding byte_masks by (auto simp: bit_simps)
  moreover have "k + 6 * length (cs @ [x]) < LENGTH(32)" using snoc.prems by simp
  ultimately show ?case unfolding decode_fold_simps by (rule word_below_bits)
qed (use assms(1) in simp)

lemma encode_tail_fold:
  assumes "c < 2 ^ k" and "k + 6 * length cs < 32" and "list_all is_cont cs"
  shows "encode_tail (length cs) (decode_fold c cs) rest = (c, cs @ rest)"
  using assms(2,3)
proof (induction cs arbitrary: rest rule: rev_induct)
  case (snoc x cs)
  have "decode_fold c cs < 2 ^ (k + 6 * length cs)" using snoc.prems assms(1) by (intro decode_fold_bound) simp_all
  then have "decode_fold c cs < 2 ^ 26" by (rule less_power_mono) (use snoc.prems in simp_all)
  note s = shift_in_out [OF this, of x]
  have "0x80 OR (ucast (push_bit 6 (decode_fold c cs) OR ucast (x AND 0x3f) :: u32) AND 0x3f) = x"
    unfolding s(2) using snoc.prems(2) by (intro cont_byte_same) simp
  then show ?case using snoc s(1) by simp
qed simp

lemma encode_tail_spec:
  "\<exists>cs. encode_tail n v rest = (drop_bit (6 * n) v, cs @ rest) \<and> length cs = n \<and> list_all is_cont cs
     \<and> decode_fold (drop_bit (6 * n) v) cs = v"
proof (induction n arbitrary: v rest)
  case (Suc n)
  let ?x = "0x80 OR (ucast v AND 0x3f) :: u8"
  obtain cs where cs: "encode_tail n (drop_bit 6 v) (?x # rest) = (drop_bit (6 * n) (drop_bit 6 v), cs @ ?x # rest)"
    "length cs = n" "list_all is_cont cs" "decode_fold (drop_bit (6 * n) (drop_bit 6 v)) cs = drop_bit 6 v"
    using Suc.IH [of "drop_bit 6 v" "?x # rest"] by blast
  have "6 * Suc n = 6 + 6 * n" by simp
  then show ?case using cs
    by (intro exI [of _ "cs @ [?x]"]) (simp add: cont_byte shift_out_in add.commute)
qed simp

lemma encode_length_limits:
  assumes "encode_length v = Suc n" and "v \<le> MAX_UTF"
  shows "n \<le> 5" and "n \<noteq> 0 \<Longrightarrow> LIMITS ! n \<le> v" and "n \<noteq> 0 \<Longrightarrow> v < 2 ^ (6 - n + 6 * n)" and "n = 0 \<Longrightarrow> v < 0x80"
  using assms by (auto simp: encode_length_def LIMITS_def MAX_UTF_def word_le_nat_alt word_less_nat_alt split: if_splits)

lemma encode_length_eq:
  assumes "n \<in> {1, 2, 3, 4, 5}" and "LIMITS ! n \<le> v" and "v < 2 ^ (6 - n + 6 * n)"
  shows "encode_length v = Suc n"
  using assms by (elim insertE) (auto simp: encode_length_def LIMITS_def word_le_nat_alt word_less_nat_alt)

lemma encode_decoded:
  assumes lp: "lead_parts lead = Some (n, c)" and "length cs = n" and "list_all is_cont cs"
    and r: "\<not> rejected strict n (decode_fold c cs)"
  shows "encode (decode_fold c cs) = lead # cs"
proof (cases "n = 0")
  case True
  then have "cs = []" "c = ucast lead" "lead < 0x80"
    using assms(2) lp unfolding lead_ascii lead_parts_cases by (auto split: if_splits)
  moreover have "(ucast lead :: u32) \<le> 0x7f" using \<open>lead < 0x80\<close> by (simp add: word_le_nat_alt word_less_nat_alt unsigned_ucast_eq take_bit_eq_mod)
  moreover have "(ucast (ucast lead :: u32) :: u8) = lead" by (rule bit_word_eqI) (simp add: bit_simps)
  ultimately show ?thesis by (simp add: encode_def encode_length_def)
next
  case False
  note lead = lead_parts_decode [OF lp False]
  have b: "decode_fold c cs < 2 ^ (6 - n + 6 * n)"
    using decode_fold_bound [OF lead(2), of cs] lead(1) assms(2) by auto
  have "LIMITS ! n \<le> decode_fold c cs" using r False by (simp add: rejected_def not_less)
  then have len: "encode_length (decode_fold c cs) = Suc n" using lead(1) b by (intro encode_length_eq)
  have "encode_tail n (decode_fold c cs) [] = (c, cs)"
    using encode_tail_fold [OF lead(2) _ assms(3), of "[]"] lead(1) assms(2) by auto
  then show ?thesis using lead(3) False by (simp add: encode_def len)
qed

lemma encode_parts:
  assumes "v \<le> MAX_UTF"
  obtains lead n c cs where "encode v = lead # cs" and "lead_parts lead = Some (n, c)" and "length cs = n"
    and "list_all is_cont cs" and "decode_fold c cs = v" and "n \<noteq> 0 \<longrightarrow> LIMITS ! n \<le> v"
proof -
  obtain n where n: "encode_length v = Suc n" by (cases "encode_length v") (auto simp: encode_length_def split: if_splits)
  note lim = encode_length_limits [OF n assms]
  let ?c = "drop_bit (6 * n) v"
  obtain cs where cs: "encode_tail n v [] = (?c, cs)" "length cs = n" "list_all is_cont cs" "decode_fold ?c cs = v"
    using encode_tail_spec [of n v "[]"] by auto
  show thesis
  proof (cases "n = 0")
    case True
    have v: "v < 0x80" by (rule lim(4) [OF True])
    then have "v < 2 ^ 7" by simp
    note below = word_bits_below [OF this]
    have "(ucast (ucast v :: u8) :: u32) = v" by (rule bit_word_eqI) (auto simp: bit_simps dest: below)
    moreover have "(ucast v :: u8) < 0x80" unfolding lead_ascii using below [of 7] by (auto simp: bit_simps)
    ultimately have "(ucast v :: u8) < 0x80" "(ucast (ucast v :: u8) :: u32) = v" by simp_all
    then have "lead_parts (ucast v) = Some (0, v)" by (simp add: lead_parts_def)
    then show thesis using cs True n by (intro that [of "ucast v" "[]" 0 v]) (simp_all add: encode_def)
  next
    case False
    have n5: "n \<in> {1, 2, 3, 4, 5}" using False lim(1) by (simp; arith)
    have "?c < 2 ^ (6 - n)"
    proof (rule word_below_bits)
      fix i assume "bit ?c i"
      then show "i < 6 - n" using word_bits_below [OF lim(3) [OF False], of "6 * n + i"] by (simp add: bit_simps)
    qed (use n5 in auto)
    then have "lead_parts (push_bit (7 - n) (NOT 0) OR ucast ?c) = Some (n, ?c)" by (rule lead_parts_encode [OF n5])
    moreover have "encode v = (push_bit (7 - n) (NOT 0) OR ucast ?c) # cs" using cs(1) False n by (simp add: encode_def)
    ultimately show thesis using cs lim(2) by (intro that impI)
  qed
qed

subsection \<open>The decoder accepts exactly the encodings\<close>

text \<open>A meter that never stops the function.\<close>

definition meter_allows :: "'s meter \<Rightarrow> bool" where
  "meter_allows meter \<longleftrightarrow> (\<forall>units s. fst (meter units s) = Inr True)"

lemma charge_allowed:
  assumes "meter_allows meter"
  obtains s' where "charge_work meter units s = (Inr (), s')"
  using assms by (cases "meter units s") (auto simp: meter_allows_def charge_work_def dest!: spec [of _ units] spec [of _ s])

lemma byte_at_allowed:
  assumes "meter_allows meter"
  obtains s' where "byte_at meter b i s = (Inr (case get_at b i of None \<Rightarrow> 0 | Some x \<Rightarrow> x), s')"
  by (rule charge_allowed [OF assms, of 1 s]) (simp add: byte_at_def try_else_def)

lemma continue_decode_allowed:
  assumes "meter_allows meter" and "length b \<le> usize_max"
  shows "fst (continue_decode meter b i [j..<j + n] c s) =
    Inr (let cs = take n (drop (i + j) b) in if length cs = n \<and> list_all is_cont cs then Some (decode_fold c cs) else None)"
proof (induction n arbitrary: j c s)
  case (Suc n)
  have bind: "Option.bind (checked_add_usize i j) (get_at b) = get_at b (i + j)"
    using assms(2) by (auto simp: checked_add_usize_def get_at_def)
  have upt: "[j..<j + Suc n] = j # [Suc j..<Suc j + n]" by (simp add: upt_conv_Cons)
  show ?case
  proof (cases "i + j < length b")
    case False
    then show ?thesis unfolding upt by (simp add: bind get_at_def)
  next
    case True
    obtain s' where s': "charge_work meter 1 s = (Inr (), s')" by (rule charge_allowed [OF assms(1)])
    have "take (Suc n) (drop (i + j) b) = b ! (i + j) # take n (drop (i + Suc j) b)"
      using True by (simp add: Cons_nth_drop_Suc [symmetric])
    then show ?thesis unfolding upt using True Suc.IH [of "Suc j" _ s'] s'
      by (simp add: bind get_at_def try_else_def Let_def)
  qed
qed simp

lemma decode_allowed:
  assumes "meter_allows meter" and "length b \<le> usize_max" and "i < length b"
  shows "fst (decode meter b i strict s) = Inr (case lead_parts (b ! i) of
      None \<Rightarrow> None
    | Some (n, c) \<Rightarrow>
        let cs = take n (drop (Suc i) b)
        in if length cs = n \<and> list_all is_cont cs \<and> \<not> rejected strict n (decode_fold c cs)
           then Some (i + n + 1, decode_fold c cs) else None)"
proof -
  obtain s' where lead: "byte_at meter b i s = (Inr (b ! i), s')"
    by (rule byte_at_allowed [OF assms(1), of b i s]) (use assms(3) in \<open>simp add: get_at_def\<close>)
  show ?thesis
  proof (cases "lead_parts (b ! i)")
    case None
    then show ?thesis by (simp add: decode_def lead try_else_def)
  next
    case (Some nc)
    obtain n c where nc: "nc = (n, c)" by fastforce
    define cs where "cs = take n (drop (Suc i) b)"
    obtain r s'' where run: "continue_decode meter b i [1..<n + 1] c s' = (r, s'')" by fastforce
    have "r = Inr (if length cs = n \<and> list_all is_cont cs then Some (decode_fold c cs) else None)"
      using continue_decode_allowed [OF assms(1,2), of i 1 n c s'] run by (simp add: Let_def cs_def)
    moreover have "checked_add_usize i (n + 1) = Some (i + n + 1)" if "length cs = n"
      using that assms(2,3) by (auto simp: cs_def checked_add_usize_def)
    ultimately show ?thesis
      unfolding Some nc decode_def lead try_else_def prod.case sum.case option.case run Let_def cs_def [symmetric] by auto
  qed
qed

definition code_ok :: "bool \<Rightarrow> u32 \<Rightarrow> bool" where
  "code_ok strict code \<longleftrightarrow> code \<le> MAX_UTF \<and> (strict \<longrightarrow> code \<le> MAX_UNICODE \<and> \<not> (0xd800 \<le> code \<and> code \<le> 0xdfff))"

lemma rejected_code_ok: "\<not> rejected strict n code \<longleftrightarrow> code_ok strict code \<and> (n \<noteq> 0 \<longrightarrow> LIMITS ! n \<le> code)"
  by (auto simp: rejected_def code_ok_def)

lemma decode_iff:
  assumes "meter_allows meter" and "length b \<le> usize_max" and "i < length b"
  shows "fst (decode meter b i strict s) = Inr (Some (next, code)) \<longleftrightarrow>
    code_ok strict code \<and> next = i + length (encode code) \<and> take (length (encode code)) (drop i b) = encode code"
proof
  assume "fst (decode meter b i strict s) = Inr (Some (next, code))"
  then obtain n c cs where lp: "lead_parts (b ! i) = Some (n, c)" and cs: "cs = take n (drop (Suc i) b)"
    "length cs = n" "list_all is_cont cs" and r: "\<not> rejected strict n (decode_fold c cs)"
    and nx: "next = i + n + 1" "code = decode_fold c cs"
    unfolding decode_allowed [OF assms] by (auto simp: Let_def split: option.splits if_splits)
  have e: "encode code = b ! i # cs" using encode_decoded [OF lp cs(2,3) r] nx(2) by simp
  moreover have "take (Suc n) (drop i b) = b ! i # cs" using assms(3) cs(1) by (simp add: Cons_nth_drop_Suc [symmetric])
  ultimately show "code_ok strict code \<and> next = i + length (encode code) \<and> take (length (encode code)) (drop i b) = encode code"
    using r nx cs(2) by (simp add: rejected_code_ok)
next
  assume *: "code_ok strict code \<and> next = i + length (encode code) \<and> take (length (encode code)) (drop i b) = encode code"
  then have "code \<le> MAX_UTF" by (simp add: code_ok_def)
  then obtain lead n c cs where e: "encode code = lead # cs" and lp: "lead_parts lead = Some (n, c)"
    and cs: "length cs = n" "list_all is_cont cs" "decode_fold c cs = code" and lim: "n \<noteq> 0 \<longrightarrow> LIMITS ! n \<le> code"
    by (rule encode_parts)
  have "b ! i # take n (drop (Suc i) b) = lead # cs"
    using * e cs(1) assms(3) by (simp add: Cons_nth_drop_Suc [symmetric])
  then show "fst (decode meter b i strict s) = Inr (Some (next, code))"
    unfolding decode_allowed [OF assms] using lp cs * lim e by (simp add: rejected_code_ok del: length_take length_drop)
qed

text \<open>The escapes of the lexer and \<open>utf8.char\<close> encode alike.\<close>

lemma encode_tail_map:
  "encode_tail n v rest =
     (drop_bit (6 * n) v, map (\<lambda>k. 0x80 OR (ucast (drop_bit (6 * k) v) AND 0x3f)) (rev [0..<n]) @ rest)"
proof (induction n arbitrary: v rest)
  case (Suc n)
  have "rev [0..<Suc n] = map Suc (rev [0..<n]) @ [0]"
    by (simp only: upt_conv_Cons zero_less_Suc rev.simps map_Suc_upt [symmetric] rev_map)
  then show ?case using Suc by (simp add: add.commute del: upt_Suc)
qed simp

lemma unicode_bytes_encode:
  assumes "unicode_length_prefix v = Some (n, prefix)"
  shows "unicode_bytes n prefix v = encode v"
proof -
  have ucast_and: "(ucast (w AND 0x3f) :: u8) = ucast w AND 0x3f" for w :: u32
    unfolding byte_masks by (rule bit_word_eqI) (auto simp: bit_simps)
  have "encode_length v = n" and "n \<noteq> 0" and "prefix = (if n = 1 then 0 else push_bit (8 - n) (NOT 0))"
    using assms by (auto simp: unicode_length_prefix_def encode_length_def mask_eq_exp_minus_1 split: if_splits)
  then show ?thesis
    by (simp add: encode_def unicode_bytes_def encode_tail_map ucast_and mult.commute)
qed

text \<open>
  C12: The decoder of the UTF-8 library accepts exactly the encodings: at a position within the string it
  returns a code and the position after it if and only if the code is valid for the mode and the bytes from
  the position on are its encoding, so every valid code survives a round trip, and neither an overlong nor
  a truncated sequence is decoded. The escapes of the lexer write the same bytes as \<open>utf8.char\<close>.
\<close>

theorem utf8_decode_exact:
  assumes "meter_allows meter" and "length b \<le> usize_max" and "i < length b"
    and "unicode_length_prefix v = Some (n, prefix)"
  shows "(fst (decode meter b i strict s) = Inr (Some (next, code)) \<longleftrightarrow>
      code_ok strict code \<and> next = i + length (encode code) \<and> take (length (encode code)) (drop i b) = encode code)
    \<and> unicode_bytes n prefix v = encode v"
  using decode_iff [OF assms(1-3)] unicode_bytes_encode [OF assms(4)] by blast

lemma utf8_decode_exact_witness:
  "(fst (decode (\<lambda>_ s. (Inr True, s)) [0xe2, 0x82, 0xac] 0 True ()) = Inr (Some (3, 0x20ac)) \<longleftrightarrow>
      code_ok True 0x20ac \<and> 3 = 0 + length (encode 0x20ac)
      \<and> take (length (encode 0x20ac)) (drop 0 [0xe2, 0x82, 0xac]) = encode 0x20ac)
    \<and> unicode_bytes 3 0xe0 0x20ac = encode 0x20ac"
  by (rule utf8_decode_exact) (simp_all add: meter_allows_def usize_max_def unicode_length_prefix_def)

subsection \<open>Whole strings\<close>

lemma encode_not_Nil [simp]: "encode code \<noteq> []"
  by (simp add: encode_def Let_def split: prod.split)

lemma decode_at:
  assumes "meter_allows meter" and "length (pre @ encode code @ post) \<le> usize_max" and "code_ok strict code"
  obtains s' where "decode meter (pre @ encode code @ post) (length pre) strict s
      = (Inr (Some (length pre + length (encode code), code)), s')"
proof -
  let ?b = "pre @ encode code @ post"
  have "length pre < length ?b" by simp
  then have "fst (decode meter ?b (length pre) strict s) = Inr (Some (length pre + length (encode code), code))"
    using decode_iff [OF assms(1,2)] assms(3) by simp
  then show thesis by (cases "decode meter ?b (length pre) strict s") (auto intro: that)
qed

lemma codepoint_loop_codes:
  assumes "meter_allows meter" and "list_all (code_ok strict) codes"
    and "length (pre @ concat (map encode codes)) \<le> usize_max"
  shows "fst (codepoint_loop meter (pre @ concat (map encode codes)) strict
      (length (pre @ concat (map encode codes))) (length pre) vs s) = Inr (vs @ map (\<lambda>c. V_Integer (ucast c)) codes)"
  using assms(2,3)
proof (induction codes arbitrary: pre vs s)
  case (Cons c codes)
  let ?b = "pre @ encode c @ concat (map encode codes)"
  have fits: "length ?b \<le> usize_max" and ok: "code_ok strict c" using Cons.prems by simp_all
  obtain s' where d: "decode meter ?b (length pre) strict s = (Inr (Some (length pre + length (encode c), c)), s')"
    by (rule decode_at [OF assms(1) fits ok])
  have "fst (codepoint_loop meter ?b strict (length ?b) (length (pre @ encode c)) (vs @ [V_Integer (ucast c)]) s')
      = Inr ((vs @ [V_Integer (ucast c)]) @ map (\<lambda>c. V_Integer (ucast c)) codes)"
    using Cons.IH [of "pre @ encode c"] Cons.prems by simp
  then show ?case by (subst codepoint_loop.simps) (simp add: d)
qed (simp add: codepoint_loop.simps)

lemma len_loop_codes:
  assumes "meter_allows meter" and "list_all (code_ok strict) codes"
    and "length (pre @ concat (map encode codes)) < 2 ^ 63" and "n \<le> length pre"
  shows "fst (len_loop meter (pre @ concat (map encode codes)) strict
      (length (pre @ concat (map encode codes))) (length pre) (of_nat n) s) = Inr (Inr (of_nat (n + length codes)))"
  using assms(2-4)
proof (induction codes arbitrary: pre n s)
  case (Cons c codes)
  let ?b = "pre @ encode c @ concat (map encode codes)"
  have fits: "length ?b \<le> usize_max" and ok: "code_ok strict c" using Cons.prems by (simp_all add: usize_max_def)
  obtain s' where d: "decode meter ?b (length pre) strict s = (Inr (Some (length pre + length (encode c), c)), s')"
    by (rule decode_at [OF assms(1) fits ok])
  have l: "1 \<le> length (encode c)" by (simp add: Suc_le_eq)
  have "sint (of_nat n :: i64) = int n"
    using Cons.prems(2,3) by (simp add: signed_of_nat signed_take_bit_int_eq_self)
  then have fit: "sint (of_nat n :: i64) + 1 < 2 ^ 63" using Cons.prems(2,3) l by simp
  have "fst (len_loop meter ?b strict (length ?b) (length (pre @ encode c)) (of_nat (Suc n)) s')
      = Inr (Inr (of_nat (Suc n + length codes)))"
    using Cons.IH [of "pre @ encode c" "Suc n"] Cons.prems l by simp
  then show ?case using fit by (subst len_loop.simps) (simp add: d add.commute)
qed (simp add: len_loop.simps)

lemma reserve_extra_bytes: "reserve_extra env b n w = (Inr b', w') \<Longrightarrow> bf_bytes b' = bf_bytes b"
  by (auto simp: reserve_extra_def try_else_def Let_def split: option.splits prod.splits sum.splits if_splits)

lemma lift_vm_error: "lift_vm m = (Inl e, w) \<Longrightarrow> \<exists>v. e = Rt_Vm v"
  by (auto simp: lift_vm_def vm_result_def split: prod.splits sum.splits)

lemma buffer_append_cases:
  obtains b' w' where "buffer_append env b xs w = (Inr b', w')" and "bf_bytes b' = bf_bytes b @ xs"
  | v w' where "buffer_append env b xs w = (Inl (Rt_Vm v), w')"
proof (cases "buffer_append env b xs w")
  case (Pair r w')
  show thesis
  proof (cases r)
    case (Inl e)
    then have "\<exists>v. e = Rt_Vm v" using Pair
      by (auto simp: buffer_append_def reserve_extra_def work_reserve_def try_else_def Let_def dest: lift_vm_error
          split: option.splits prod.splits sum.splits if_splits)
    then show thesis using Pair Inl that(2) by auto
  next
    case (Inr b')
    then have "bf_bytes b' = bf_bytes b @ xs" using Pair
      by (auto simp: buffer_append_def try_else_def dest: reserve_extra_bytes split: prod.splits sum.splits)
    then show thesis using Pair Inr that(1) by auto
  qed
qed

lemma utf8_integer_value [simp]: "utf8_integer env vm meter (V_Integer n) s = (Inr n, s)"
  by (simp add: utf8_integer_def charge_string_def basic_number_def try_else_def)

lemma buffer_empty_bytes [simp]: "bf_bytes (buffer_empty l) = []"
  by (simp add: buffer_empty_def)

lemma char_loop_codes:
  assumes "meter_allows meter" and "list_all (\<lambda>c. c \<le> MAX_UTF) codes"
  shows "case fst (char_loop env vm meter (map (\<lambda>c. V_Integer (ucast c)) codes) buffer st) of
      Inr b \<Rightarrow> bf_bytes b = bf_bytes buffer @ concat (map encode codes)
    | Inl e \<Rightarrow> \<exists>v. e = Stop_Error (Rt_Vm v)"
  using assms(2)
proof (induction codes arbitrary: buffer st)
  case (Cons c codes)
  obtain s w where st: "st = (s, w)" by fastforce
  have u: "(ucast (ucast c :: i64) :: u32) = c" by (rule bit_word_eqI) (simp add: bit_simps)
  have "uint c < 2 ^ 32" using uint_lt2p [of c] by simp
  then have "sint (ucast c :: i64) = uint c"
    using order_trans [OF _ uint_ge_0 [of c], of "- (2 ^ 63)"] by (simp add: signed_ucast_eq signed_take_bit_int_eq_self_iff)
  then have range: "0 \<le> sint (ucast c :: i64) \<and> sint (ucast c :: i64) \<le> uint MAX_UTF" using Cons.prems by (simp add: word_le_def)
  obtain s' where s': "charge_work meter (length (encode c)) s = (Inr (), s')" by (rule charge_allowed [OF assms(1)])
  show ?case
  proof (cases rule: buffer_append_cases [of env buffer "encode c" w])
    case (1 b' w')
    then show ?thesis using Cons.IH [of b' "(s', w')"] Cons.prems range
      by (simp add: st try_else_def on_meter_def on_memory_def stop_result_def u s' split: sum.splits)
  next
    case (2 v w')
    then show ?thesis using range
      by (simp add: st try_else_def on_meter_def on_memory_def stop_result_def u s')
  qed
qed simp

text \<open>
  C38: A list of code points survives the library: \<open>utf8.char\<close> writes the encodings one after the other
  unless the ledger refuses the memory, \<open>utf8.codepoint\<close> over the whole string reads the same code points
  back, and \<open>utf8.len\<close> counts them.
\<close>

theorem utf8_codes_roundtrip:
  assumes "meter_allows meter" and "list_all (code_ok strict) codes" and "length (concat (map encode codes)) < 2 ^ 63"
  shows "(case fst (char_loop env vm meter (map (\<lambda>c. V_Integer (ucast c)) codes) (buffer_empty l) st) of
        Inr b \<Rightarrow> bf_bytes b = concat (map encode codes)
      | Inl e \<Rightarrow> \<exists>v. e = Stop_Error (Rt_Vm v))
    \<and> fst (codepoint_loop meter (concat (map encode codes)) strict (length (concat (map encode codes))) 0 [] s)
        = Inr (map (\<lambda>c. V_Integer (ucast c)) codes)
    \<and> fst (len_loop meter (concat (map encode codes)) strict (length (concat (map encode codes))) 0 0 s)
        = Inr (Inr (of_nat (length codes)))"
proof -
  have "list_all (\<lambda>c. c \<le> MAX_UTF) codes" using assms(2) by (auto simp: list_all_iff code_ok_def)
  then have "case fst (char_loop env vm meter (map (\<lambda>c. V_Integer (ucast c)) codes) (buffer_empty l) st) of
        Inr b \<Rightarrow> bf_bytes b = concat (map encode codes)
      | Inl e \<Rightarrow> \<exists>v. e = Stop_Error (Rt_Vm v)"
    using char_loop_codes [OF assms(1), where codes = codes and env = env and vm = vm and buffer = "buffer_empty l" and st = st] by (auto split: sum.splits)
  moreover have "length (concat (map encode codes)) \<le> usize_max" using assms(3) by (simp add: usize_max_def)
  ultimately show ?thesis
    using codepoint_loop_codes [OF assms(1,2), of "[]" "[]" s] len_loop_codes [OF assms(1,2), of "[]" 0 s] assms(3) by simp
qed

lemma utf8_codes_roundtrip_witness:
  "fst (codepoint_loop (\<lambda>_ s. (Inr True, s)) (concat (map encode [0x48, 0x20ac])) True
      (length (concat (map encode [0x48, 0x20ac]))) 0 [] ()) = Inr [V_Integer 0x48, V_Integer 0x20ac]"
proof -
  let ?meter = "\<lambda>_ s. (Inr True, s)"
  have "length (concat (map encode [0x48, 0x20ac])) = 4" by code_simp
  then have fits: "length (concat (map encode [0x48, 0x20ac])) < 2 ^ 63" by (simp del: concat.simps list.map)
  have allows: "meter_allows ?meter" by (simp add: meter_allows_def)
  have ok: "list_all (code_ok True) [0x48, 0x20ac]" by (simp add: code_ok_def MAX_UTF_def MAX_UNICODE_def)
  from conjunct1 [OF conjunct2 [OF utf8_codes_roundtrip [OF allows ok fits]]] show ?thesis
    by (simp del: concat.simps)
qed

end
