(* ===== verification/Pack.thy ===== *)
theory Pack
  imports String_Support
begin

unbundle bit_operations_syntax

text \<open>
  \<open>string.pack\<close>, \<open>string.unpack\<close> and \<open>string.packsize\<close> (\<open>stdlib/pack.rs\<close>): the parser of format strings, the
  pass that checks the arguments and computes the size, the pass that writes, and the two passes of
  unpacking. A slice outside the data, which would panic, is \<open>None\<close> in the second pass. A string that
  unpacking makes is given by its bytes; the heap object for it is not modelled.
\<close>

subsection \<open>The parser of format strings\<close>

datatype pack_kind = K_Int bool | K_Float | K_Char | K_String | K_Zero | K_Pad | K_Align | K_Noop

record pack_spec =
  ps_kind :: pack_kind
  ps_size :: nat
  ps_pad :: nat
  ps_little :: bool

text \<open>
  The platform: the order of bytes, the alignment of the largest native type under Lua 5.5, and the sizes of
  the C types; a \<open>usize\<close> has eight bytes.
\<close>

record pack_platform =
  pp_little :: bool
  pp_align :: nat
  pp_short :: nat
  pp_int :: nat
  pp_long :: nat

record pack_parser =
  pr_bytes :: bytes
  pr_offset :: nat
  pr_little :: bool
  pr_maxalign :: nat
  pr_native_align :: nat

definition native_max_align :: "pack_platform \<Rightarrow> lua_profile \<Rightarrow> nat" where
  "native_max_align plat profile = (if profile = Lua54 then 8 else pp_align plat)"

definition parser_new :: "pack_platform \<Rightarrow> lua_profile \<Rightarrow> bytes \<Rightarrow> pack_parser" where
  "parser_new plat profile b =
     \<lparr>pr_bytes = b, pr_offset = 0, pr_little = pp_little plat, pr_maxalign = 1,
      pr_native_align = native_max_align plat profile\<rparr>"

function number_loop :: "bytes \<Rightarrow> nat \<Rightarrow> nat \<Rightarrow> (runtime_error, nat \<times> nat) result" where
  "number_loop b offset n =
     (if offset < length b \<and> is_ascii_digit (b ! offset) then
        case Option.bind (checked_mul_usize n 10) (\<lambda>n. checked_add_usize n (digit_val (b ! offset))) of
          None \<Rightarrow> Inl Rt_StringArgument
        | Some n \<Rightarrow> number_loop b (Suc offset) n
      else Inr (n, offset))"
  by pat_completeness auto
termination
  by (relation "measure (\<lambda>(b, offset, _). length b - offset)") auto

declare number_loop.simps [simp del]

definition parser_number :: "nat \<Rightarrow> pack_parser \<Rightarrow> (runtime_error, nat \<times> pack_parser) result" where
  "parser_number dflt p =
     (case get_at (pr_bytes p) (pr_offset p) of
        Some digit \<Rightarrow>
          if is_ascii_digit digit then
            rbind (number_loop (pr_bytes p) (pr_offset p) 0) (\<lambda>(n, offset). Inr (n, p\<lparr>pr_offset := offset\<rparr>))
          else Inr (dflt, p)
      | None \<Rightarrow> Inr (dflt, p))"

definition parser_limited :: "nat \<Rightarrow> pack_parser \<Rightarrow> (runtime_error, nat \<times> pack_parser) result" where
  "parser_limited dflt p =
     rbind (parser_number dflt p) (\<lambda>(size, p).
     if 1 \<le> size \<and> size \<le> 16 then Inr (size, p) else Inl Rt_StringArgument)"

definition with_kind :: "pack_kind \<Rightarrow> nat \<times> pack_parser \<Rightarrow> (runtime_error, (pack_kind \<times> nat) \<times> pack_parser) result" where
  "with_kind kind r = Inr ((kind, fst r), snd r)"

definition option_code :: "pack_platform \<Rightarrow> u8 \<Rightarrow> pack_parser \<Rightarrow> (runtime_error, (pack_kind \<times> nat) \<times> pack_parser) result" where
  "option_code plat code p =
     (if code = of_char CHR ''b'' then Inr ((K_Int True, 1), p)
      else if code = of_char CHR ''B'' then Inr ((K_Int False, 1), p)
      else if code = of_char CHR ''h'' then Inr ((K_Int True, pp_short plat), p)
      else if code = of_char CHR ''H'' then Inr ((K_Int False, pp_short plat), p)
      else if code = of_char CHR ''l'' then Inr ((K_Int True, pp_long plat), p)
      else if code = of_char CHR ''L'' then Inr ((K_Int False, pp_long plat), p)
      else if code = of_char CHR ''j'' then Inr ((K_Int True, 8), p)
      else if code = of_char CHR ''J'' then Inr ((K_Int False, 8), p)
      else if code = of_char CHR ''T'' then Inr ((K_Int False, 8), p)
      else if code = of_char CHR ''i'' then rbind (parser_limited (pp_int plat) p) (with_kind (K_Int True))
      else if code = of_char CHR ''I'' then rbind (parser_limited (pp_int plat) p) (with_kind (K_Int False))
      else if code = of_char CHR ''f'' then Inr ((K_Float, 4), p)
      else if code = of_char CHR ''d'' \<or> code = of_char CHR ''n'' then Inr ((K_Float, 8), p)
      else if code = of_char CHR ''c'' then rbind (parser_number usize_max p) (with_kind K_Char)
      else if code = of_char CHR ''s'' then rbind (parser_limited 8 p) (with_kind K_String)
      else if code = of_char CHR ''z'' then Inr ((K_Zero, 0), p)
      else if code = of_char CHR ''x'' then Inr ((K_Pad, 1), p)
      else if code = of_char CHR ''X'' then Inr ((K_Align, 0), p)
      else if code = of_char CHR '' '' then Inr ((K_Noop, 0), p)
      else if code = of_char CHR ''<'' then Inr ((K_Noop, 0), p\<lparr>pr_little := True\<rparr>)
      else if code = of_char CHR ''>'' then Inr ((K_Noop, 0), p\<lparr>pr_little := False\<rparr>)
      else if code = of_char CHR ''='' then Inr ((K_Noop, 0), p\<lparr>pr_little := pp_little plat\<rparr>)
      else if code = of_char CHR ''!'' then
        rbind (parser_limited (pr_native_align p) p) (\<lambda>(n, p). Inr ((K_Noop, 0), p\<lparr>pr_maxalign := n\<rparr>))
      else Inl Rt_StringArgument)"

definition parser_option :: "pack_platform \<Rightarrow> pack_parser \<Rightarrow> (runtime_error, (pack_kind \<times> nat) option \<times> pack_parser) result" where
  "parser_option plat p =
     (case get_at (pr_bytes p) (pr_offset p) of
        None \<Rightarrow> Inr (None, p)
      | Some code \<Rightarrow>
          if code = 0 then Inr (None, p)
          else
            rbind (option_code plat code (p\<lparr>pr_offset := pr_offset p + 1\<rparr>)) (\<lambda>((kind, size), p).
            if kind = K_Char \<and> size = usize_max then Inl Rt_StringArgument else Inr (Some (kind, size), p)))"

definition is_power_of_two :: "nat \<Rightarrow> bool" where
  "is_power_of_two n \<longleftrightarrow> n \<noteq> 0 \<and> n AND (n - 1) = 0"

definition parser_align :: "pack_platform \<Rightarrow> pack_kind \<Rightarrow> nat \<Rightarrow> pack_parser \<Rightarrow> (runtime_error, nat \<times> pack_parser) result" where
  "parser_align plat kind sz p =
     (if kind = K_Align then
        rbind (parser_option plat p) (\<lambda>(opt, p).
        case opt of
          None \<Rightarrow> Inl Rt_StringArgument
        | Some (next, sz) \<Rightarrow> if next = K_Char \<or> sz = 0 then Inl Rt_StringArgument else Inr (sz, p))
      else if kind = K_Char then Inr (1, p)
      else Inr (sz, p))"

definition pad_to :: "nat \<Rightarrow> nat \<Rightarrow> nat" where
  "pad_to align sofar = (if 1 < align then (align - (sofar AND (align - 1))) AND (align - 1) else 0)"

definition parser_next :: "pack_platform \<Rightarrow> pack_parser \<Rightarrow> nat \<Rightarrow> (runtime_error, (pack_spec \<times> pack_parser) option) result" where
  "parser_next plat p sofar =
     rbind (parser_option plat p) (\<lambda>(opt, p).
     case opt of
       None \<Rightarrow> Inr None
     | Some (kind, sz) \<Rightarrow>
         rbind (parser_align plat kind sz p) (\<lambda>(align, p).
         let align = min align (pr_maxalign p)
         in if 1 < align \<and> \<not> is_power_of_two align then Inl Rt_StringArgument
            else Inr (Some (\<lparr>ps_kind = kind, ps_size = sz, ps_pad = pad_to align sofar, ps_little = pr_little p\<rparr>, p))))"

text \<open>Every specification consumes a byte of the format.\<close>

lemma number_loop_advances: "number_loop b offset n = Inr (m, offset') \<Longrightarrow> offset \<le> offset'"
  by (induction b offset n rule: number_loop.induct)
    (subst (asm) (2) number_loop.simps, fastforce split: if_splits option.splits)

lemma parser_number_advances:
  "parser_number dflt p = Inr (n, p') \<Longrightarrow> pr_offset p \<le> pr_offset p' \<and> pr_bytes p' = pr_bytes p"
  by (auto simp: parser_number_def rbind_def dest: number_loop_advances split: option.splits if_splits sum.splits)

lemma parser_limited_advances:
  "parser_limited dflt p = Inr (n, p') \<Longrightarrow> pr_offset p \<le> pr_offset p' \<and> pr_bytes p' = pr_bytes p"
  by (auto simp: parser_limited_def rbind_def dest: parser_number_advances split: if_splits sum.splits)

lemma option_code_advances:
  "option_code plat code p = Inr (r, p') \<Longrightarrow> pr_offset p \<le> pr_offset p' \<and> pr_bytes p' = pr_bytes p"
  unfolding option_code_def
  by (auto simp: rbind_def with_kind_def dest!: parser_limited_advances parser_number_advances split: if_splits sum.splits)

lemma parser_option_advances:
  assumes "parser_option plat p = Inr (Some r, p')"
  shows "pr_offset p < pr_offset p' \<and> pr_offset p < length (pr_bytes p) \<and> pr_bytes p' = pr_bytes p"
proof -
  have "pr_offset p < length (pr_bytes p)"
    using assms by (auto simp: parser_option_def get_at_def split: if_splits)
  then show ?thesis using assms
    by (auto simp: parser_option_def rbind_def dest!: option_code_advances split: option.splits if_splits sum.splits)
qed

lemma parser_align_advances:
  "parser_align plat kind sz p = Inr (align, p') \<Longrightarrow> pr_offset p \<le> pr_offset p' \<and> pr_bytes p' = pr_bytes p"
  by (auto simp: parser_align_def rbind_def dest!: parser_option_advances split: option.splits if_splits sum.splits)

lemma parser_next_advances:
  assumes "parser_next plat p sofar = Inr (Some (spec, p'))"
  shows "pr_offset p < pr_offset p' \<and> pr_offset p < length (pr_bytes p) \<and> pr_bytes p' = pr_bytes p"
proof -
  obtain kind sz q align where "parser_option plat p = Inr (Some (kind, sz), q)"
    and "parser_align plat kind sz q = Inr (align, p')"
    using assms by (auto simp: parser_next_def rbind_def Let_def split: sum.splits option.splits if_splits)
  then show ?thesis using parser_option_advances parser_align_advances by (metis order.strict_trans2)
qed

text \<open>
  \<open>while let Some(spec) = parser.next(...)?\<close>, the loop of every pass: \<open>at\<close> gives the position that the
  alignment is computed from, a step that would panic is \<open>None\<close>.
\<close>

function format_loop :: "pack_platform \<Rightarrow> (pack_spec \<Rightarrow> 'a \<Rightarrow> (runtime_error, 'a) result option) \<Rightarrow> ('a \<Rightarrow> nat) \<Rightarrow>
    pack_parser \<Rightarrow> 'a \<Rightarrow> (runtime_error, 'a) result option" where
  "format_loop plat step1 at p st =
     (case parser_next plat p (at st) of
        Inl e \<Rightarrow> Some (Inl e)
      | Inr None \<Rightarrow> Some (Inr st)
      | Inr (Some (spec, p)) \<Rightarrow>
          (case step1 spec st of
             None \<Rightarrow> None
           | Some (Inl e) \<Rightarrow> Some (Inl e)
           | Some (Inr st) \<Rightarrow> format_loop plat step1 at p st))"
  by pat_completeness auto
termination
  by (relation "measure (\<lambda>(_, _, _, p, _). length (pr_bytes p) - pr_offset p)") (auto dest: parser_next_advances)

declare format_loop.simps [simp del]

subsection \<open>Checking the arguments and computing the size\<close>

definition checked_size :: "lua_profile \<Rightarrow> nat \<Rightarrow> nat \<Rightarrow> (runtime_error, nat) result" where
  "checked_size profile current extra =
     rbind (ok_or Rt_StringArgument (checked_add_usize current extra)) (\<lambda>n.
     if max_size profile < n then Inl Rt_StringArgument else Inr n)"

definition pack_number :: "lib_env \<Rightarrow> 'h vm_heap \<Rightarrow> lua_value \<Rightarrow> (runtime_error, f64) result" where
  "pack_number env vm v =
     rbind (basic_number (le_pow2 env) vm v None) (\<lambda>n.
     case n of V_Integer i \<Rightarrow> Inr (f64_of_int (sint i)) | V_Float f \<Rightarrow> Inr f | _ \<Rightarrow> Inl Rt_StringArgument)"

definition validate_integer :: "i64 \<Rightarrow> nat \<Rightarrow> bool \<Rightarrow> (runtime_error, unit) result" where
  "validate_integer v n sgnd =
     (if n < 8 then
        if sgnd then
          let limit = 2 ^ (n * 8 - 1)
          in if sint v < - limit \<or> limit \<le> sint v then Inl Rt_StringArgument else Inr ()
        else if sint v < 0 \<or> 2 ^ (n * 8) \<le> sint v then Inl Rt_StringArgument else Inr ()
      else Inr ())"

definition arg_integer :: "lib_env \<Rightarrow> 'h vm_heap \<Rightarrow> lua_value list \<Rightarrow> nat \<Rightarrow> (runtime_error, i64) result" where
  "arg_integer env vm args index = rbind (string_arg args index) (string_integer env vm)"

definition arg_number :: "lib_env \<Rightarrow> 'h vm_heap \<Rightarrow> lua_value list \<Rightarrow> nat \<Rightarrow> (runtime_error, f64) result" where
  "arg_number env vm args index = rbind (string_arg args index) (pack_number env vm)"

definition arg_bytes :: "lib_env \<Rightarrow> 'h vm_heap \<Rightarrow> lua_value list \<Rightarrow> nat \<Rightarrow> (runtime_error, bytes) result" where
  "arg_bytes env vm args index = rbind (string_arg args index) (\<lambda>v. with_bytes env vm v Inr)"

definition check_string :: "lib_env \<Rightarrow> 'h vm_heap \<Rightarrow> pack_spec \<Rightarrow> lua_value \<Rightarrow> nat \<Rightarrow> (runtime_error, unit) result" where
  "check_string env vm spec v n =
     (case ps_kind spec of
        K_Char \<Rightarrow> if ps_size spec < n then Inl Rt_StringArgument else Inr ()
      | K_String \<Rightarrow> if ps_size spec < 8 \<and> 2 ^ (ps_size spec * 8) \<le> n then Inl Rt_StringArgument else Inr ()
      | K_Zero \<Rightarrow> with_bytes env vm v (\<lambda>b. if 0 \<in> set b then Inl Rt_StringArgument else Inr ())
      | _ \<Rightarrow> Inr ())"

definition string_extra :: "pack_kind \<Rightarrow> nat \<Rightarrow> (runtime_error, nat) result" where
  "string_extra kind n =
     (if kind = K_Zero then ok_or Rt_StringArgument (checked_add_usize n 1)
      else if kind = K_String then Inr n else Inr 0)"

definition pack_size_step :: "lib_env \<Rightarrow> 'h vm_heap \<Rightarrow> lua_value list \<Rightarrow> pack_spec \<Rightarrow> nat \<times> nat \<Rightarrow> (runtime_error, nat \<times> nat) result" where
  "pack_size_step env vm args spec st =
     (let (sofar, index) = st; profile = le_profile env
      in rbind (checked_size profile sofar (ps_pad spec)) (\<lambda>sofar.
         rbind (checked_size profile sofar (ps_size spec)) (\<lambda>sofar.
         case ps_kind spec of
           K_Int sgnd \<Rightarrow>
             rbind (arg_integer env vm args index) (\<lambda>v.
             rbind (validate_integer v (ps_size spec) sgnd) (\<lambda>_. Inr (sofar, index + 1)))
         | K_Float \<Rightarrow> rbind (arg_number env vm args index) (\<lambda>_. Inr (sofar, index + 1))
         | K_Pad \<Rightarrow> Inr (sofar, index)
         | K_Align \<Rightarrow> Inr (sofar, index)
         | K_Noop \<Rightarrow> Inr (sofar, index)
         | _ \<Rightarrow>
             rbind (string_arg args index) (\<lambda>v.
             rbind (lib_string_len env vm v) (\<lambda>n.
             rbind (check_string env vm spec v n) (\<lambda>_.
             rbind (string_extra (ps_kind spec) n) (\<lambda>extra.
             rbind (checked_size profile sofar extra) (\<lambda>sofar. Inr (sofar, index + 1)))))))))"

definition pack_size :: "pack_platform \<Rightarrow> lib_env \<Rightarrow> 'h vm_heap \<Rightarrow> lua_value list \<Rightarrow> (runtime_error, nat) result option" where
  "pack_size plat env vm args =
     (case rbind (string_arg args 0) (\<lambda>v. with_bytes env vm v Inr) of
        Inl e \<Rightarrow> Some (Inl e)
      | Inr format \<Rightarrow>
          map_option (\<lambda>r. rbind r (\<lambda>(sofar, _). Inr sofar))
            (format_loop plat (\<lambda>spec st. Some (pack_size_step env vm args spec st)) fst
               (parser_new plat (le_profile env) format) (0, 1)))"

subsection \<open>Writing\<close>

definition write_integer :: "bytes \<Rightarrow> u64 \<Rightarrow> nat \<Rightarrow> bool \<Rightarrow> bool \<Rightarrow> bytes" where
  "write_integer output number n little negative =
     foldl (\<lambda>output index.
       let part = (if 8 \<le> index then (if negative then 255 else 0) else ucast (drop_bit (index * 8) number))
       in if little then output @ [part]
          else take (length output - index) output @ part # drop (length output - index) output) output [0..<n]"

text \<open>
  \<open>as f32\<close>: a single-precision number is 24 bits times a power of two from \<open>2 ^ - 149\<close> on, and rounding is to
  nearest, ties to even; back to \<open>f64\<close> is exact.
\<close>

definition f32_unit :: nat where
  "f32_unit = 2 ^ 925"

definition round_mag32 :: "nat \<Rightarrow> nat" where
  "round_mag32 u =
     (let q = u div f32_unit; s = bit_width q - 24; m = q div 2 ^ s;
          r = u - m * 2 ^ s * f32_unit; h = 2 ^ s * f32_unit; k = s * 2 ^ 23 + m
      in min (if h < 2 * r \<or> (h = 2 * r \<and> odd m) then Suc k else k) (255 * 2 ^ 23))"

definition f32_of_f64 :: "f64 \<Rightarrow> u32" where
  "f32_of_f64 f =
     (let s = (if f64_sign f then 2 ^ 31 else 0)
      in if is_nan f then 0x7fc00000 else word_of_nat (s + round_mag32 (mag_units (f64_mag f))))"

definition f64_of_f32 :: "u32 \<Rightarrow> f64" where
  "f64_of_f32 w =
     (let s = (2 ^ 31 \<le> unat w); k = unat w mod 2 ^ 31; e = k div 2 ^ 23; m = k mod 2 ^ 23
      in if e = 255 then (if m = 0 then f64_inf s else f64_nan)
         else f64_round s ((if e = 0 then m else (2 ^ 23 + m) * 2 ^ (e - 1)) * f32_unit) 1)"

definition le_bytes :: "nat \<Rightarrow> 'a::len word \<Rightarrow> bytes" where
  "le_bytes n w = map (\<lambda>i. ucast (drop_bit (i * 8) w)) [0..<n]"

definition from_le_bytes :: "bytes \<Rightarrow> 'a::len word" where
  "from_le_bytes b = foldr (\<lambda>x w. push_bit 8 w OR ucast x) b 0"

definition float_bytes :: "f64 \<Rightarrow> nat \<Rightarrow> bool \<Rightarrow> bytes" where
  "float_bytes v n little =
     (let b = (if n = 4 then le_bytes 4 (f32_of_f64 v) else le_bytes 8 (to_bits v))
      in if little then b else rev b)"

definition string_bytes :: "pack_spec \<Rightarrow> bytes \<Rightarrow> bytes \<Rightarrow> bytes option" where
  "string_bytes spec output b =
     (let output = (if ps_kind spec = K_String
                    then write_integer output (of_nat (length b)) (ps_size spec) (ps_little spec) False else output);
          output = output @ b
      in if ps_kind spec = K_Char then
           if ps_size spec < length b then None else Some (output @ replicate (ps_size spec - length b) 0)
         else if ps_kind spec = K_Zero then Some (output @ [0])
         else Some output)"

definition pack_step :: "lib_env \<Rightarrow> 'h vm_heap \<Rightarrow> lua_value list \<Rightarrow> pack_spec \<Rightarrow> bytes \<times> nat \<Rightarrow>
    (runtime_error, bytes \<times> nat) result option" where
  "pack_step env vm args spec st =
     (let (output, index) = st;
          output = output @ replicate (ps_pad spec) 0
      in case ps_kind spec of
           K_Int sgnd \<Rightarrow>
             Some (rbind (arg_integer env vm args index) (\<lambda>n.
               Inr (write_integer output n (ps_size spec) (ps_little spec) (sgnd \<and> sint n < 0), index + 1)))
         | K_Float \<Rightarrow>
             Some (rbind (arg_number env vm args index) (\<lambda>v.
               Inr (output @ float_bytes v (ps_size spec) (ps_little spec), index + 1)))
         | K_Pad \<Rightarrow> Some (Inr (output @ [0], index))
         | K_Align \<Rightarrow> Some (Inr (output, index))
         | K_Noop \<Rightarrow> Some (Inr (output, index))
         | _ \<Rightarrow>
             (case arg_bytes env vm args index of
                Inl e \<Rightarrow> Some (Inl e)
              | Inr b \<Rightarrow> map_option (\<lambda>output. Inr (output, index + 1)) (string_bytes spec output b)))"

definition pack_loop :: "pack_platform \<Rightarrow> lib_env \<Rightarrow> 'h vm_heap \<Rightarrow> lua_value list \<Rightarrow> bytes \<Rightarrow> (runtime_error, bytes \<times> nat) result option" where
  "pack_loop plat env vm args format =
     format_loop plat (pack_step env vm args) (\<lambda>st. length (fst st)) (parser_new plat (le_profile env) format) ([], 1)"

text \<open>\<open>string.pack\<close> up to the heap object for the bytes it has written.\<close>

definition pack :: "pack_platform \<Rightarrow> lib_env \<Rightarrow> 'h vm_heap \<Rightarrow> lua_value list \<Rightarrow> 'h world \<Rightarrow>
    ((runtime_error, 'h buffer) result \<times> 'h world) option" where
  "pack plat env vm args w =
     (case pack_size plat env vm args of
        None \<Rightarrow> None
      | Some (Inl e) \<Rightarrow> Some (Inl e, w)
      | Some (Inr n) \<Rightarrow>
          (case string_arg args 0 of
             Inl e \<Rightarrow> Some (Inl e, w)
           | Inr v \<Rightarrow>
               (case owned_bytes env vm v w of
                  (Inl e, w) \<Rightarrow> Some (Inl e, w)
                | (Inr format, w) \<Rightarrow>
                    (case buffer_new env (vh_ledger vm) n w of
                       (Inl e, w) \<Rightarrow> Some (Inl e, drop_buffer format w)
                     | (Inr output, w) \<Rightarrow>
                         map_option (\<lambda>r. case r of
                             Inl e \<Rightarrow> (Inl e, drop_buffer format (drop_buffer output w))
                           | Inr (b, _) \<Rightarrow> (Inr (output\<lparr>bf_bytes := b\<rparr>), drop_buffer format w))
                           (pack_loop plat env vm args (bf_bytes format))))))"

subsection \<open>Reading\<close>

definition order_index :: "bool \<Rightarrow> nat \<Rightarrow> nat \<Rightarrow> nat" where
  "order_index little n index = (if little then index else n - 1 - index)"

definition read_integer :: "bytes \<Rightarrow> bool \<Rightarrow> bool \<Rightarrow> (runtime_error, i64) result" where
  "read_integer b little sgnd =
     (let n = length b;
          r = foldl (\<lambda>r index. push_bit 8 r OR ucast (b ! order_index little n index)) (0 :: u64) (rev [0..<min n 8]);
          r = (if n < 8 \<and> sgnd then (let shift = 64 - n * 8 in signed_drop_bit shift (push_bit shift r)) else r);
          extension = (if sgnd \<and> sint r < 0 then 255 else 0)
      in if 8 < n \<and> (\<exists>index\<in>set [8..<n]. b ! order_index little n index \<noteq> extension) then Inl Rt_StringArgument
         else Inr r)"

definition slice :: "bytes \<Rightarrow> nat \<Rightarrow> nat \<Rightarrow> bytes option" where
  "slice b first stop = (if first \<le> stop \<and> stop \<le> length b then Some (take (stop - first) (drop first b)) else None)"

definition find_zero :: "bytes \<Rightarrow> nat option" where
  "find_zero b = (let n = length (takeWhile (\<lambda>x. x \<noteq> 0) b) in if n < length b then Some n else None)"

definition unpack_pass_step :: "lua_profile \<Rightarrow> bytes \<Rightarrow> pack_spec \<Rightarrow> nat \<times> nat \<Rightarrow> (runtime_error, nat \<times> nat) result option" where
  "unpack_pass_step profile data spec st =
     (let (pos, n) = st; sz = ps_size spec
      in case checked_add_usize (ps_pad spec) sz of
           None \<Rightarrow> Some (Inl Rt_StringArgument)
         | Some adv \<Rightarrow>
             if length data - pos < adv then Some (Inl Rt_StringArgument)
             else
               let pos = pos + ps_pad spec;
                   finish = (\<lambda>pos n.
                     Some (rbind (checked_size profile pos sz) (\<lambda>pos. if 65535 \<le> n then Inl Rt_StringArgument else Inr (pos, n))))
               in case ps_kind spec of
                    K_Int sgnd \<Rightarrow>
                      (case slice data pos (pos + sz) of
                         None \<Rightarrow> None
                       | Some b \<Rightarrow>
                           (case read_integer b (ps_little spec) sgnd of
                              Inl e \<Rightarrow> Some (Inl e)
                            | Inr _ \<Rightarrow> finish pos (n + 1)))
                  | K_Float \<Rightarrow> finish pos (n + 1)
                  | K_Char \<Rightarrow> finish pos (n + 1)
                  | K_String \<Rightarrow>
                      (case slice data pos (pos + sz) of
                         None \<Rightarrow> None
                       | Some b \<Rightarrow>
                           (case read_integer b (ps_little spec) False of
                              Inl e \<Rightarrow> Some (Inl e)
                            | Inr len \<Rightarrow>
                                if length data < pos + sz then None
                                else if length data - pos - sz < unat len then Some (Inl Rt_StringArgument)
                                else finish (pos + unat len) (n + 1)))
                  | K_Zero \<Rightarrow>
                      (if length data < pos then None
                       else case find_zero (drop pos data) of
                           None \<Rightarrow> Some (Inl Rt_StringArgument)
                         | Some len \<Rightarrow>
                             (case checked_add_usize pos (len + 1) of
                                None \<Rightarrow> Some (Inl Rt_StringArgument)
                              | Some pos \<Rightarrow> finish pos (n + 1)))
                  | _ \<Rightarrow> finish pos n)"

definition unpack_pass :: "pack_platform \<Rightarrow> lua_profile \<Rightarrow> bytes \<Rightarrow> bytes \<Rightarrow> nat \<Rightarrow> (runtime_error, nat) result option" where
  "unpack_pass plat profile format data initial =
     map_option (\<lambda>r. rbind r (\<lambda>(_, n). Inr n))
       (format_loop plat (unpack_pass_step profile data) fst (parser_new plat profile format) (initial, 0))"

text \<open>What the second pass makes: a value, or the bytes of a string object.\<close>

datatype unpacked = Unpacked lua_value | Unpacked_String bytes

definition float_value :: "bytes \<Rightarrow> bool \<Rightarrow> f64" where
  "float_value b little =
     (let bits = (if little then b else rev b)
      in if length b = 4 then f64_of_f32 (from_le_bytes bits) else F64 (from_le_bytes bits))"

definition string_slice :: "bytes \<Rightarrow> pack_spec \<Rightarrow> nat \<Rightarrow> (runtime_error, nat \<times> nat \<times> nat) result option" where
  "string_slice data spec pos =
     (case ps_kind spec of
        K_Char \<Rightarrow> Some (Inr (pos, pos + ps_size spec, pos))
      | K_String \<Rightarrow>
          map_option (\<lambda>b. rbind (read_integer b (ps_little spec) False) (\<lambda>len.
            let pos = pos + unat len in Inr (pos - unat len + ps_size spec, pos + ps_size spec, pos)))
            (slice data pos (pos + ps_size spec))
      | K_Zero \<Rightarrow>
          (if length data < pos then None
           else Some (rbind (ok_or Rt_StringArgument (find_zero (drop pos data))) (\<lambda>len.
             let pos = pos + len + 1 in Inr (pos - len - 1, pos - 1, pos))))
      | _ \<Rightarrow> Some (Inl Rt_StringArgument))"

definition unpack_step :: "bytes \<Rightarrow> pack_spec \<Rightarrow> nat \<times> unpacked list \<Rightarrow> (runtime_error, nat \<times> unpacked list) result option" where
  "unpack_step data spec st =
     (let (pos, output) = st;
          pos = pos + ps_pad spec;
          sz = ps_size spec
      in case ps_kind spec of
           K_Int sgnd \<Rightarrow>
             map_option (\<lambda>b. rbind (read_integer b (ps_little spec) sgnd) (\<lambda>n.
               Inr (pos + sz, output @ [Unpacked (V_Integer n)]))) (slice data pos (pos + sz))
         | K_Float \<Rightarrow>
             map_option (\<lambda>b. Inr (pos + sz, output @ [Unpacked (V_Float (float_value b (ps_little spec)))]))
               (slice data pos (pos + sz))
         | K_Pad \<Rightarrow> Some (Inr (pos + sz, output))
         | K_Align \<Rightarrow> Some (Inr (pos + sz, output))
         | K_Noop \<Rightarrow> Some (Inr (pos + sz, output))
         | _ \<Rightarrow>
             (case string_slice data spec pos of
                None \<Rightarrow> None
              | Some (Inl e) \<Rightarrow> Some (Inl e)
              | Some (Inr (first, stop, pos)) \<Rightarrow>
                  map_option (\<lambda>b. Inr (pos + sz, output @ [Unpacked_String b])) (slice data first stop)))"

definition unpack_loop :: "pack_platform \<Rightarrow> lua_profile \<Rightarrow> bytes \<Rightarrow> bytes \<Rightarrow> nat \<Rightarrow> (runtime_error, nat \<times> unpacked list) result option" where
  "unpack_loop plat profile format data initial =
     format_loop plat (unpack_step data) fst (parser_new plat profile format) (initial, [])"

text \<open>
  \<open>string.unpack\<close> up to the heap objects for the strings; \<open>root_size\<close> is the size of the root that keeps such an
  object alive while the others are made.
\<close>

definition unpack_values :: "pack_platform \<Rightarrow> lib_env \<Rightarrow> nat \<Rightarrow> 'h vm_heap \<Rightarrow> bytes \<Rightarrow> bytes \<Rightarrow> nat \<Rightarrow> 'h world \<Rightarrow>
    ((runtime_error, unpacked list \<times> 'h reservation) result \<times> 'h world) option" where
  "unpack_values plat env root_size vm format data initial w =
     (case unpack_pass plat (le_profile env) format data initial of
        None \<Rightarrow> None
      | Some (Inl e) \<Rightarrow> Some (Inl e, w)
      | Some (Inr n) \<Rightarrow>
          (case work_reserve env (vh_ledger vm) (n + 1) (le_value_size env) ReturnReserve w of
             (Inl e, w) \<Rightarrow> Some (Inl e, w)
           | (Inr ticket, w) \<Rightarrow>
               (case work_reserve env (vh_ledger vm) n root_size WorkReserve w of
                  (Inl e, w) \<Rightarrow> Some (Inl e, drop_reservation ticket w)
                | (Inr rt, w) \<Rightarrow>
                    (case lift_vm (commit_charge rt w) of
                       (Inl e, w) \<Rightarrow> Some (Inl e, drop_reservation ticket w)
                     | (Inr owner, w) \<Rightarrow>
                         map_option (\<lambda>r.
                           let w = drop_charge owner w;
                               r = rbind r (\<lambda>(pos, vs).
                                 if pos + 1 < 2 ^ 63 then Inr (vs @ [Unpacked (V_Integer (of_nat (pos + 1)))])
                                 else Inl (Rt_Vm ArithmeticOverflow))
                           in case r of
                                Inl e \<Rightarrow> (Inl e, drop_reservation ticket w)
                              | Inr vs \<Rightarrow> (Inr (vs, ticket), w))
                           (unpack_loop plat (le_profile env) format data initial)))))"

definition unpack :: "pack_platform \<Rightarrow> lib_env \<Rightarrow> nat \<Rightarrow> 'h vm_heap \<Rightarrow> lua_value list \<Rightarrow> 'h world \<Rightarrow>
    ((runtime_error, unpacked list \<times> 'h reservation) result \<times> 'h world) option" where
  "unpack plat env root_size vm args w =
     (case string_arg args 0 of
        Inl e \<Rightarrow> Some (Inl e, w)
      | Inr v \<Rightarrow>
          (case owned_bytes env vm v w of
             (Inl e, w) \<Rightarrow> Some (Inl e, w)
           | (Inr format, w) \<Rightarrow>
               (case string_arg args 1 of
                  Inl e \<Rightarrow> Some (Inl e, drop_buffer format w)
                | Inr v \<Rightarrow>
                    (case owned_bytes env vm v w of
                       (Inl e, w) \<Rightarrow> Some (Inl e, drop_buffer format w)
                     | (Inr data, w) \<Rightarrow>
                         let undo = (\<lambda>w. drop_buffer format (drop_buffer data w))
                         in case string_optional_integer env vm (get_at args 2) 1 of
                              Inl e \<Rightarrow> Some (Inl e, undo w)
                            | Inr first \<Rightarrow>
                                let initial = start_position first (length (bf_bytes data)) - 1
                                in if length (bf_bytes data) < initial then Some (Inl Rt_StringArgument, undo w)
                                   else map_option (\<lambda>(r, w). (r, undo w))
                                     (unpack_values plat env root_size vm (bf_bytes format) (bf_bytes data) initial w)))))"

definition packsize_step :: "lua_profile \<Rightarrow> pack_spec \<Rightarrow> nat \<Rightarrow> (runtime_error, nat) result" where
  "packsize_step profile spec sofar =
     (if ps_kind spec = K_String \<or> ps_kind spec = K_Zero then Inl Rt_StringArgument
      else rbind (ok_or Rt_StringArgument (checked_add_usize (ps_pad spec) (ps_size spec))) (checked_size profile sofar))"

definition packsize :: "pack_platform \<Rightarrow> lib_env \<Rightarrow> 'h vm_heap \<Rightarrow> lua_value list \<Rightarrow> (runtime_error, nat) result option" where
  "packsize plat env vm args =
     (case rbind (string_arg args 0) (\<lambda>v. with_bytes env vm v Inr) of
        Inl e \<Rightarrow> Some (Inl e)
      | Inr format \<Rightarrow>
          format_loop plat (\<lambda>spec st. Some (packsize_step (le_profile env) spec st)) id
            (parser_new plat (le_profile env) format) 0)"

end
