(* ===== verification/Pack_Spec.thy ===== *)
theory Pack_Spec
  imports Pack
begin

unbundle bit_operations_syntax

text \<open>
  What packing and unpacking promise: integers, floats and strings that are written are read back, for every
  size, byte order and alignment; a format is written in exactly the size computed beforehand; and the first
  pass of unpacking checks enough for the second never to leave the data.
\<close>

subsection \<open>Integers in bytes\<close>

definition int_parts :: "u64 \<Rightarrow> nat \<Rightarrow> bool \<Rightarrow> bytes" where
  "int_parts number n negative =
     map (\<lambda>index. if 8 \<le> index then (if negative then 255 else 0) else ucast (drop_bit (index * 8) number)) [0..<n]"

definition int_bytes :: "u64 \<Rightarrow> nat \<Rightarrow> bool \<Rightarrow> bool \<Rightarrow> bytes" where
  "int_bytes number n little negative = (if little then int_parts number n negative else rev (int_parts number n negative))"

lemma int_bytes_length [simp]: "length (int_bytes number n little negative) = n"
  by (simp add: int_bytes_def int_parts_def)

lemma write_integer_append: "write_integer output number n little negative = output @ int_bytes number n little negative"
proof (induction n)
  case (Suc n)
  have "write_integer output number (Suc n) little negative =
      (let output = write_integer output number n little negative;
           part = (if 8 \<le> n then (if negative then 255 else 0) else ucast (drop_bit (n * 8) number))
       in if little then output @ [part] else take (length output - n) output @ part # drop (length output - n) output)"
    by (simp add: write_integer_def Let_def)
  then show ?case unfolding Suc.IH by (simp add: int_bytes_def int_parts_def Let_def)
qed (simp add: write_integer_def int_bytes_def int_parts_def)

lemma int_bytes_nth:
  "index < n \<Longrightarrow> int_bytes number n little negative ! order_index little n index = int_parts number n negative ! index"
  by (simp add: int_bytes_def order_index_def rev_nth int_parts_def)

lemma foldl_bytes:
  "foldl (\<lambda>r index. push_bit 8 r OR ucast (ucast (drop_bit (index * 8) (number :: u64)) :: u8)) (a :: u64) (rev [0..<k])
     = push_bit (8 * k) a OR take_bit (8 * k) number"
proof (induction k arbitrary: a)
  case (Suc k)
  have "push_bit (8 * k) (push_bit 8 a OR ucast (ucast (drop_bit (k * 8) number) :: u8)) OR take_bit (8 * k) number
      = push_bit (8 * Suc k) a OR take_bit (8 * Suc k) number"
  proof (rule bit_word_eqI)
    fix i assume "i < LENGTH(64)"
    then show "bit (push_bit (8 * k) (push_bit 8 a OR ucast (ucast (drop_bit (k * 8) number) :: u8)) OR take_bit (8 * k) number) i
        = bit (push_bit (8 * Suc k) a OR take_bit (8 * Suc k) number) i"
      by (cases "i < 8 * k"; cases "i < 8 * Suc k") (auto simp: bit_simps algebra_simps)
  qed
  then show ?case using Suc by simp
qed simp

lemma sign_extend:
  assumes "0 < n" and "n < 8" and "- (2 ^ (n * 8 - 1)) \<le> sint (v :: i64)" and "sint v < 2 ^ (n * 8 - 1)"
  shows "signed_drop_bit (64 - n * 8) (push_bit (64 - n * 8) (take_bit (8 * n) v)) = v"
proof (rule bit_word_eqI)
  fix i assume "i < LENGTH(64)"
  then have i: "i < 64" by simp
  have "signed_take_bit (n * 8 - 1) (sint v) = sint v" using assms(3,4) by (simp add: signed_take_bit_int_eq_self)
  then have "bit (sint v) i = bit (signed_take_bit (n * 8 - 1) (sint v)) i" by (simp only:)
  then have "bit (sint v) i = bit (sint v) (n * 8 - 1)" if "n * 8 - 1 \<le> i"
    using that unfolding bit_signed_take_bit_iff by (simp add: min_def)
  then have same: "bit v i = bit v (n * 8 - 1)" if "n * 8 - 1 \<le> i"
    using that i assms(1,2) by (simp add: bit_signed_iff)
  show "bit (signed_drop_bit (64 - n * 8) (push_bit (64 - n * 8) (take_bit (8 * n) v))) i = bit v i"
    using i assms(1,2) same by (cases "i < n * 8") (auto simp: bit_simps algebra_simps)
qed

lemma read_integer_parts:
  assumes "b = int_bytes number n little negative"
  shows "read_integer b little sgnd =
    (let r = take_bit (8 * min n 8) number;
         r = (if n < 8 \<and> sgnd then (let shift = 64 - n * 8 in signed_drop_bit shift (push_bit shift r)) else r)
     in if 8 < n \<and> negative \<noteq> (sgnd \<and> sint r < 0) then Inl Rt_StringArgument else Inr r)"
proof -
  have n: "length b = n" using assms by simp
  have nth: "b ! order_index little n index = (if 8 \<le> index then (if negative then 255 else 0) else ucast (drop_bit (index * 8) number))"
    if "index < n" for index
    using int_bytes_nth [OF that] that assms by (simp add: int_parts_def)
  have "foldl (\<lambda>r index. push_bit 8 r OR ucast (b ! order_index little n index)) (0 :: u64) (rev [0..<min n 8])
      = foldl (\<lambda>r index. push_bit 8 r OR ucast (ucast (drop_bit (index * 8) number) :: u8)) (0 :: u64) (rev [0..<min n 8])"
    by (rule foldl_cong) (auto simp: nth)
  then have fold: "foldl (\<lambda>r index. push_bit 8 r OR ucast (b ! order_index little n index)) (0 :: u64) (rev [0..<min n 8])
      = take_bit (8 * min n 8) number"
    by (simp only: foldl_bytes) simp
  have ext: "(\<exists>index\<in>set [8..<n]. b ! order_index little n index \<noteq> (if x then 255 else 0)) \<longleftrightarrow> negative \<noteq> x" if "8 < n" for x
  proof -
    have "(\<exists>index\<in>set [8..<n]. b ! order_index little n index \<noteq> (if x then 255 else 0))
        \<longleftrightarrow> (\<exists>index\<in>set [8..<n]. (if negative then 255 else 0 :: u8) \<noteq> (if x then 255 else 0))"
      by (intro bex_cong refl) (simp add: nth)
    also have "\<dots> \<longleftrightarrow> negative \<noteq> x" using that by auto
    finally show ?thesis .
  qed
  show ?thesis unfolding read_integer_def n Let_def fold by (simp only: ext cong: conj_cong)
qed

lemma take_bit_64 [simp]: "take_bit 64 (v :: u64) = v"
  by (rule bit_word_eqI) (simp add: bit_simps)

lemma read_written_signed:
  assumes "0 < n" and "validate_integer v n True = Inr ()"
  shows "read_integer (int_bytes v n little (sint v < 0)) little True = Inr v"
proof (cases "n < 8")
  case True
  have "signed_drop_bit (64 - n * 8) (push_bit (64 - n * 8) (take_bit (8 * n) v)) = v"
    using assms True by (intro sign_extend) (auto simp: validate_integer_def Let_def not_less split: if_splits)
  then show ?thesis using True by (simp add: read_integer_parts [OF refl] Let_def)
next
  case False
  then show ?thesis by (simp add: read_integer_parts [OF refl] Let_def min_absorb2)
qed

lemma read_written_unsigned:
  assumes "n < 8 \<Longrightarrow> uint v < 2 ^ (n * 8)"
  shows "read_integer (int_bytes v n little False) little False = Inr v"
proof (cases "n < 8")
  case True
  then have "uint v < 2 ^ (8 * n)" using assms by (simp add: mult.commute)
  then have "uint (take_bit (8 * n) v) = uint v" by (simp add: unsigned_take_bit_eq take_bit_int_eq_self)
  then have "take_bit (8 * n) v = v" by (rule unsigned_word_eqI)
  then show ?thesis using True by (simp add: read_integer_parts [OF refl] Let_def)
next
  case False
  then show ?thesis by (simp add: read_integer_parts [OF refl] Let_def min_absorb2)
qed

subsection \<open>Floats in bytes\<close>

lemma le_bytes_length [simp]: "length (le_bytes n w) = n"
  by (simp add: le_bytes_def)

lemma from_le_bytes_suffix:
  "j \<le> k \<Longrightarrow> foldr (\<lambda>x u. push_bit 8 u OR ucast x) (map (\<lambda>i. ucast (drop_bit (i * 8) w) :: u8) [j..<k]) (0 :: 'a::len word)
     = take_bit (8 * (k - j)) (drop_bit (8 * j) w)"
proof (induction "k - j" arbitrary: j)
  case (Suc d)
  then have j: "j < k" by simp
  have "push_bit 8 (take_bit (8 * (k - Suc j)) (drop_bit (8 * Suc j) w)) OR ucast (ucast (drop_bit (j * 8) w) :: u8)
      = take_bit (8 * (k - j)) (drop_bit (8 * j) w)" (is "?l = ?r")
  proof (rule bit_word_eqI)
    fix i assume i: "i < LENGTH('a)"
    have e: "8 * (k - j) = 8 * (k - Suc j) + 8" using j by simp
    show "bit ?l i = bit ?r i"
      unfolding e using i by (cases "i < 8") (auto simp: bit_simps algebra_simps)
  qed
  then show ?case using j Suc.hyps(1) [of "Suc j"] Suc.hyps(2) by (simp add: upt_conv_Cons)
qed simp

lemma from_le_bytes_le_bytes:
  fixes w :: "'a::len word"
  assumes "LENGTH('a) \<le> 8 * n"
  shows "from_le_bytes (le_bytes n w) = w"
proof -
  have "take_bit (8 * n) w = w" by (rule bit_word_eqI) (use assms in \<open>auto simp: bit_simps\<close>)
  then show ?thesis using from_le_bytes_suffix [of 0 n w] by (simp add: from_le_bytes_def le_bytes_def)
qed

lemma float_bytes_length: "n = 4 \<or> n = 8 \<Longrightarrow> length (float_bytes v n little) = n"
  by (auto simp: float_bytes_def Let_def)

lemma float_written:
  assumes "n = 4 \<or> n = 8"
  shows "float_value (float_bytes v n little) little = (if n = 4 then f64_of_f32 (f32_of_f64 v) else v)"
proof -
  have a: "from_le_bytes (le_bytes 4 (x :: u32)) = x" for x by (rule from_le_bytes_le_bytes) simp
  have b: "from_le_bytes (le_bytes 8 (x :: u64)) = x" for x by (rule from_le_bytes_le_bytes) simp
  show ?thesis using assms by (auto simp: float_value_def float_bytes_def Let_def a b)
qed

subsection \<open>Specifications\<close>

definition platform_ok :: "pack_platform \<Rightarrow> bool" where
  "platform_ok plat \<longleftrightarrow> 0 < pp_short plat \<and> pp_short plat \<le> 16 \<and> 0 < pp_long plat \<and> pp_long plat \<le> 16"

fun kind_size_ok :: "pack_kind \<Rightarrow> nat \<Rightarrow> bool" where
  "kind_size_ok (K_Int _) n \<longleftrightarrow> 0 < n \<and> n \<le> 16"
| "kind_size_ok K_Float n \<longleftrightarrow> n = 4 \<or> n = 8"
| "kind_size_ok K_Char n \<longleftrightarrow> True"
| "kind_size_ok K_String n \<longleftrightarrow> 0 < n \<and> n \<le> 16"
| "kind_size_ok K_Zero n \<longleftrightarrow> n = 0"
| "kind_size_ok K_Pad n \<longleftrightarrow> n = 1"
| "kind_size_ok K_Align n \<longleftrightarrow> n = 0"
| "kind_size_ok K_Noop n \<longleftrightarrow> n = 0"

definition spec_ok :: "pack_spec \<Rightarrow> bool" where
  "spec_ok spec \<longleftrightarrow> kind_size_ok (ps_kind spec) (ps_size spec)"

lemma parser_limited_size: "parser_limited dflt p = Inr (n, p') \<Longrightarrow> 0 < n \<and> n \<le> 16"
  by (auto simp: parser_limited_def rbind_def split: sum.splits if_splits)

lemma option_code_size:
  "platform_ok plat \<Longrightarrow> option_code plat code p = Inr ((kind, n), p') \<Longrightarrow> kind_size_ok kind n"
  unfolding option_code_def platform_ok_def
  by (auto simp: rbind_def with_kind_def dest!: parser_limited_size split: if_splits sum.splits)

lemma parser_option_size:
  "platform_ok plat \<Longrightarrow> parser_option plat p = Inr (Some (kind, n), p') \<Longrightarrow> kind_size_ok kind n"
  by (auto simp: parser_option_def rbind_def dest!: option_code_size split: option.splits if_splits sum.splits)

lemma parser_next_spec_ok:
  assumes "platform_ok plat" and "parser_next plat p sofar = Inr (Some (spec, p'))"
  shows "spec_ok spec"
proof -
  obtain kind n q where "parser_option plat p = Inr (Some (kind, n), q)" and "ps_kind spec = kind" and "ps_size spec = n"
    using assms(2) by (auto simp: parser_next_def rbind_def Let_def split: sum.splits option.splits if_splits)
  then show ?thesis using parser_option_size [OF assms(1)] by (simp add: spec_ok_def)
qed

subsection \<open>One specification, written and read back\<close>

text \<open>The values that a specification and its argument stand for.\<close>

definition item_values :: "lib_env \<Rightarrow> 'h vm_heap \<Rightarrow> lua_value list \<Rightarrow> pack_spec \<Rightarrow> nat \<Rightarrow> unpacked list" where
  "item_values env vm args spec index =
     (case ps_kind spec of
        K_Int _ \<Rightarrow> (case arg_integer env vm args index of Inl _ \<Rightarrow> [] | Inr n \<Rightarrow> [Unpacked (V_Integer n)])
      | K_Float \<Rightarrow>
          (case arg_number env vm args index of
             Inl _ \<Rightarrow> []
           | Inr v \<Rightarrow> [Unpacked (V_Float (if ps_size spec = 4 then f64_of_f32 (f32_of_f64 v) else v))])
      | K_Char \<Rightarrow>
          (case arg_bytes env vm args index of
             Inl _ \<Rightarrow> [] | Inr b \<Rightarrow> [Unpacked_String (b @ replicate (ps_size spec - length b) 0)])
      | K_String \<Rightarrow> (case arg_bytes env vm args index of Inl _ \<Rightarrow> [] | Inr b \<Rightarrow> [Unpacked_String b])
      | K_Zero \<Rightarrow> (case arg_bytes env vm args index of Inl _ \<Rightarrow> [] | Inr b \<Rightarrow> [Unpacked_String b])
      | _ \<Rightarrow> [])"

text \<open>What the writer appends for a specification, and that both passes of the reader consume it.\<close>

definition step_chunk :: "lib_env \<Rightarrow> 'h vm_heap \<Rightarrow> lua_value list \<Rightarrow> pack_spec \<Rightarrow> bytes \<Rightarrow> nat \<Rightarrow> nat \<Rightarrow> nat \<Rightarrow> bytes \<Rightarrow> bool" where
  "step_chunk env vm args spec out index n' index' chunk \<longleftrightarrow>
     pack_step env vm args spec (out, index) = Some (Inr (out @ chunk, index')) \<and> length (out @ chunk) = n'
     \<and> (\<forall>rest vals. unpack_step (out @ chunk @ rest) spec (length out, vals)
           = Some (Inr (n', vals @ item_values env vm args spec index)))
     \<and> (\<forall>rest n. n + length (item_values env vm args spec index) < 65535 \<longrightarrow>
           unpack_pass_step (le_profile env) (out @ chunk @ rest) spec (length out, n)
           = Some (Inr (n', n + length (item_values env vm args spec index))))"

lemma slice_middle: "slice (a @ b @ c) (length a) (length a + length b) = Some b"
  by (simp add: slice_def)

lemma slice_padded:
  "slice (out @ (replicate pad 0 @ b) @ rest) (length out + pad) (length out + pad + length b) = Some b"
  using slice_middle [of "out @ replicate pad 0" b rest] by simp

lemma checked_size_Inr: "checked_size profile a b = Inr c \<longleftrightarrow> c = a + b \<and> a + b \<le> max_size profile"
proof -
  have "max_size profile \<le> usize_max" by (cases profile) (simp_all add: max_size_def usize_max_def)
  then show ?thesis by (auto simp: checked_size_def checked_add_usize_def rbind_def ok_or_def split: if_splits)
qed

lemma checked_add_fits: "a + b \<le> max_size profile \<Longrightarrow> checked_add_usize a b = Some (a + b)"
  by (cases profile) (simp_all add: checked_add_usize_def max_size_def usize_max_def)

lemma checked_size_fits: "a + b \<le> max_size profile \<Longrightarrow> checked_size profile a b = Inr (a + b)"
  by (simp add: checked_size_Inr)

lemmas step_defs = pack_step_def unpack_step_def unpack_pass_step_def item_values_def write_integer_append
  checked_size_fits

lemma uint_nonneg:
  assumes "0 \<le> sint (v :: i64)"
  shows "uint v = sint v"
proof -
  have "sint v < 2 ^ 63" using sint_less [of v] by simp
  then show ?thesis using assms by (simp add: uint_sint take_bit_int_eq_self)
qed

lemma chunk_Int:
  assumes "ps_kind spec = K_Int sg" and "spec_ok spec" and "pack_size_step env vm args spec (length out, index) = Inr (n', index')"
  shows "\<exists>chunk. step_chunk env vm args spec out index n' index' chunk"
proof -
  let ?sz = "ps_size spec"
  obtain v where v: "arg_integer env vm args index = Inr v" "validate_integer v ?sz sg = Inr ()"
    and n': "n' = length out + ps_pad spec + ?sz" "n' \<le> max_size (le_profile env)" and i: "index' = index + 1"
    using assms(3) by (auto simp: pack_size_step_def assms(1) Let_def rbind_def checked_size_Inr split: sum.splits)
  let ?b = "int_bytes v ?sz (ps_little spec) (sg \<and> sint v < 0)"
  have read: "read_integer ?b (ps_little spec) sg = Inr v"
  proof (cases sg)
    case True
    then show ?thesis using read_written_signed [of ?sz v] v(2) assms(1,2) by (simp add: spec_ok_def)
  next
    case False
    have "uint v < 2 ^ (?sz * 8)" if "?sz < 8"
      using that v(2) False by (auto simp: validate_integer_def uint_nonneg not_less split: if_splits)
    then show ?thesis using read_written_unsigned [of ?sz v] False by simp
  qed
  have "step_chunk env vm args spec out index n' index' (replicate (ps_pad spec) 0 @ ?b)"
    unfolding step_chunk_def
    using v n' i read slice_padded [of out "ps_pad spec" ?b]
    by (simp add: step_defs assms(1) checked_add_fits [of _ _ "le_profile env"])
  then show ?thesis ..
qed

lemma chunk_Float:
  assumes "ps_kind spec = K_Float" and "spec_ok spec" and "pack_size_step env vm args spec (length out, index) = Inr (n', index')"
  shows "\<exists>chunk. step_chunk env vm args spec out index n' index' chunk"
proof -
  let ?sz = "ps_size spec"
  obtain v where v: "arg_number env vm args index = Inr v"
    and n': "n' = length out + ps_pad spec + ?sz" "n' \<le> max_size (le_profile env)" and i: "index' = index + 1"
    using assms(3) by (auto simp: pack_size_step_def assms(1) Let_def rbind_Inr_iff checked_size_Inr)
  let ?b = "float_bytes v ?sz (ps_little spec)"
  have sz: "?sz = 4 \<or> ?sz = 8" using assms(1,2) by (simp add: spec_ok_def)
  note b = float_bytes_length [OF sz, of v "ps_little spec"] float_written [OF sz, of v "ps_little spec"]
  have "step_chunk env vm args spec out index n' index' (replicate (ps_pad spec) 0 @ ?b)"
    unfolding step_chunk_def
    using v n' i b slice_padded [of out "ps_pad spec" ?b]
    by (simp add: step_defs assms(1) checked_add_fits [of _ _ "le_profile env"])
  then show ?thesis ..
qed

lemma string_args:
  assumes "ps_kind spec \<in> {K_Char, K_String, K_Zero}" and "pack_size_step env vm args spec (length out, index) = Inr (n', index')"
  obtains v b extra where "string_arg args index = Inr v" and "value_bytes Rt_StringArgument env vm v = Inr b"
    and "arg_bytes env vm args index = Inr b" and "check_string env vm spec v (length b) = Inr ()"
    and "string_extra (ps_kind spec) (length b) = Inr extra"
    and "n' = length out + ps_pad spec + ps_size spec + extra" and "n' \<le> max_size (le_profile env)" and "index' = index + 1"
  using assms
  by (auto simp: pack_size_step_def Let_def rbind_Inr_iff checked_size_Inr lib_string_len_def with_bytes_def arg_bytes_def)

lemma chunk_Char:
  assumes "ps_kind spec = K_Char" and "pack_size_step env vm args spec (length out, index) = Inr (n', index')"
  shows "\<exists>chunk. step_chunk env vm args spec out index n' index' chunk"
proof -
  have kind: "ps_kind spec \<in> {K_Char, K_String, K_Zero}" using assms(1) by simp
  obtain v b extra where b: "arg_bytes env vm args index = Inr b" "check_string env vm spec v (length b) = Inr ()"
    "string_extra (ps_kind spec) (length b) = Inr extra"
    and n': "n' = length out + ps_pad spec + ps_size spec + extra" "n' \<le> max_size (le_profile env)" and i: "index' = index + 1"
    by (rule string_args [OF kind assms(2)])
  let ?c = "b @ replicate (ps_size spec - length b) 0"
  have len: "length b \<le> ps_size spec" "extra = 0"
    using b(2,3) assms(1) by (auto simp: check_string_def string_extra_def split: if_splits)
  have "step_chunk env vm args spec out index n' index' (replicate (ps_pad spec) 0 @ ?c)"
    unfolding step_chunk_def
    using b(1) n' i len slice_padded [of out "ps_pad spec" ?c]
    by (simp add: step_defs assms(1) checked_add_fits [of _ _ "le_profile env"] string_bytes_def string_slice_def)
  then show ?thesis ..
qed

lemma find_zero_append: "0 \<notin> set b \<Longrightarrow> find_zero (b @ 0 # rest) = Some (length b)"
proof -
  assume "0 \<notin> set b"
  then have "takeWhile (\<lambda>x. x \<noteq> 0) (b @ 0 # rest) = b" by (subst takeWhile_append2) auto
  then show ?thesis by (simp add: find_zero_def Let_def)
qed

lemma chunk_Zero:
  assumes "ps_kind spec = K_Zero" and "spec_ok spec" and "pack_size_step env vm args spec (length out, index) = Inr (n', index')"
  shows "\<exists>chunk. step_chunk env vm args spec out index n' index' chunk"
proof -
  have kind: "ps_kind spec \<in> {K_Char, K_String, K_Zero}" using assms(1) by simp
  obtain v b extra where v: "value_bytes Rt_StringArgument env vm v = Inr b"
    and b: "arg_bytes env vm args index = Inr b" "check_string env vm spec v (length b) = Inr ()"
    "string_extra (ps_kind spec) (length b) = Inr extra"
    and n': "n' = length out + ps_pad spec + ps_size spec + extra" "n' \<le> max_size (le_profile env)" and i: "index' = index + 1"
    by (rule string_args [OF kind assms(3)])
  have z: "0 \<notin> set b" "extra = length b + 1" "ps_size spec = 0"
    using v b(2,3) assms(1,2)
    by (auto simp: check_string_def string_extra_def with_bytes_def spec_ok_def ok_or_Inr_iff checked_add_usize_def split: if_splits)
  note find = find_zero_append [OF z(1)]
  have drp: "drop (length out + ps_pad spec) (out @ replicate (ps_pad spec) 0 @ xs) = xs" for xs :: bytes by simp
  have sl: "slice (out @ replicate (ps_pad spec) 0 @ b @ 0 # rest) (length out + ps_pad spec) (length out + ps_pad spec + length b) = Some b" for rest
    using slice_padded [of out "ps_pad spec" b "0 # rest"] by simp
  have "step_chunk env vm args spec out index n' index' (replicate (ps_pad spec) 0 @ b @ [0])"
    unfolding step_chunk_def
    using b(1) n' i z sl
    by (simp add: step_defs assms(1) checked_add_fits [of _ _ "le_profile env"] string_bytes_def string_slice_def find drp
        del: drop_append)
  then show ?thesis ..
qed

lemma chunk_String:
  assumes "ps_kind spec = K_String" and "spec_ok spec" and "pack_size_step env vm args spec (length out, index) = Inr (n', index')"
  shows "\<exists>chunk. step_chunk env vm args spec out index n' index' chunk"
proof -
  let ?sz = "ps_size spec"
  have kind: "ps_kind spec \<in> {K_Char, K_String, K_Zero}" using assms(1) by simp
  obtain v b extra where b: "arg_bytes env vm args index = Inr b" "check_string env vm spec v (length b) = Inr ()"
    "string_extra (ps_kind spec) (length b) = Inr extra"
    and n': "n' = length out + ps_pad spec + ?sz + extra" "n' \<le> max_size (le_profile env)" and i: "index' = index + 1"
    by (rule string_args [OF kind assms(3)])
  have x: "extra = length b" using b(3) assms(1) by (simp add: string_extra_def)
  have "max_size (le_profile env) < 2 ^ 64" by (cases "le_profile env") (simp_all add: max_size_def)
  then have len: "length b < 2 ^ 64" using n' x by simp
  define w :: u64 where "w = of_nat (length b)"
  define h where "h = int_bytes w ?sz (ps_little spec) False"
  have h: "length h = ?sz" by (simp add: h_def)
  have un: "unat w = length b" using len by (simp add: w_def unat_of_nat)
  have "uint w < 2 ^ (?sz * 8)" if "?sz < 8"
  proof -
    have "length b < 2 ^ (?sz * 8)" using that b(2) assms(1) by (simp add: check_string_def not_le split: if_splits)
    then have "int (length b) < int (2 ^ (?sz * 8))" by (simp only: of_nat_less_iff)
    then have "int (length b) < 2 ^ (?sz * 8)" by simp
    then show ?thesis by (simp only: uint_nat un)
  qed
  then have read: "read_integer h (ps_little spec) False = Inr w" unfolding h_def by (rule read_written_unsigned)
  let ?q = "length out + ps_pad spec"
  have s1: "slice (out @ replicate (ps_pad spec) 0 @ h @ b @ rest) ?q (?q + ?sz) = Some h" for rest
    using slice_padded [of out "ps_pad spec" h "b @ rest"] by (simp add: h)
  have s2: "slice (out @ replicate (ps_pad spec) 0 @ h @ b @ rest) (?q + ?sz) (?q + length b + ?sz) = Some b" for rest
    using slice_middle [of "out @ replicate (ps_pad spec) 0 @ h" b rest] by (simp add: algebra_simps h)
  have w: "pack_step env vm args spec (out, index) = Some (Inr (out @ replicate (ps_pad spec) 0 @ h @ b, index'))"
    using b(1) i by (simp add: pack_step_def assms(1) string_bytes_def write_integer_append h_def w_def)
  have r: "unpack_step (out @ (replicate (ps_pad spec) 0 @ h @ b) @ rest) spec (length out, vals)
      = Some (Inr (n', vals @ item_values env vm args spec index))" for rest vals
    using b(1) n'(1) x read s1 s2 by (simp add: unpack_step_def item_values_def assms(1) string_slice_def un Let_def)
  have p: "unpack_pass_step (le_profile env) (out @ (replicate (ps_pad spec) 0 @ h @ b) @ rest) spec (length out, n)
      = Some (Inr (n', n + length (item_values env vm args spec index)))"
    if "n + length (item_values env vm args spec index) < 65535" for rest n
    using that b(1) n' x read s1 h
    by (simp add: unpack_pass_step_def item_values_def assms(1) checked_size_fits checked_add_fits [of _ _ "le_profile env"] un)
  have "step_chunk env vm args spec out index n' index' (replicate (ps_pad spec) 0 @ h @ b)"
    unfolding step_chunk_def using w r p n'(1) x h by simp
  then show ?thesis ..
qed

lemma chunk_exists:
  assumes "spec_ok spec" and "pack_size_step env vm args spec (length out, index) = Inr (n', index')"
  shows "\<exists>chunk. step_chunk env vm args spec out index n' index' chunk"
proof (cases "ps_kind spec")
  case K_Pad
  then show ?thesis using assms
    by (intro exI [of _ "replicate (ps_pad spec) 0 @ [0]"])
      (auto simp: step_chunk_def step_defs spec_ok_def pack_size_step_def Let_def rbind_Inr_iff checked_size_Inr
        checked_add_fits [of _ _ "le_profile env"])
next
  case K_Align
  then show ?thesis using assms
    by (intro exI [of _ "replicate (ps_pad spec) 0"])
      (auto simp: step_chunk_def step_defs spec_ok_def pack_size_step_def Let_def rbind_Inr_iff checked_size_Inr
        checked_add_fits [of _ _ "le_profile env"])
next
  case K_Noop
  then show ?thesis using assms
    by (intro exI [of _ "replicate (ps_pad spec) 0"])
      (auto simp: step_chunk_def step_defs spec_ok_def pack_size_step_def Let_def rbind_Inr_iff checked_size_Inr
        checked_add_fits [of _ _ "le_profile env"])
next
  case (K_Int sg)
  then show ?thesis using assms by (rule chunk_Int)
next
  case K_Float
  then show ?thesis using assms by (rule chunk_Float)
next
  case K_Char
  then show ?thesis using assms(2) by (rule chunk_Char)
next
  case K_String
  then show ?thesis using assms by (rule chunk_String)
next
  case K_Zero
  then show ?thesis using assms by (rule chunk_Zero)
qed

subsection \<open>Whole formats\<close>

text \<open>The check of the arguments, with the values that they stand for.\<close>

definition values_step :: "lib_env \<Rightarrow> 'h vm_heap \<Rightarrow> lua_value list \<Rightarrow> pack_spec \<Rightarrow> nat \<times> nat \<times> unpacked list \<Rightarrow>
    (runtime_error, nat \<times> nat \<times> unpacked list) result" where
  "values_step env vm args spec st =
     (let (sofar, index, vs) = st
      in rbind (pack_size_step env vm args spec (sofar, index)) (\<lambda>(sofar, index').
         Inr (sofar, index', vs @ item_values env vm args spec index)))"

definition packed_values :: "pack_platform \<Rightarrow> lib_env \<Rightarrow> 'h vm_heap \<Rightarrow> lua_value list \<Rightarrow> bytes \<Rightarrow> unpacked list" where
  "packed_values plat env vm args format =
     (case format_loop plat (\<lambda>spec st. Some (values_step env vm args spec st)) fst
             (parser_new plat (le_profile env) format) (0, 1, []) of
        Some (Inr (_, _, vs)) \<Rightarrow> vs
      | _ \<Rightarrow> [])"

lemma format_loop_done: "parser_next plat p (at st) = Inr None \<Longrightarrow> format_loop plat f at p st = Some (Inr st)"
  by (subst format_loop.simps) simp

lemma format_loop_step:
  "parser_next plat p (at st) = Inr (Some (spec, p')) \<Longrightarrow> f spec st = Some (Inr st') \<Longrightarrow>
   format_loop plat f at p st = format_loop plat f at p' st'"
  by (subst format_loop.simps) simp

lemma format_loop_cases:
  assumes "format_loop plat f at p st = Some (Inr r)"
  obtains (finished) "parser_next plat p (at st) = Inr None" and "r = st"
  | (step) spec p' st' where "parser_next plat p (at st) = Inr (Some (spec, p'))" and "f spec st = Some (Inr st')"
      and "format_loop plat f at p' st' = Some (Inr r)"
proof -
  show thesis
  proof (cases "parser_next plat p (at st)")
    case (Inl e)
    then show ?thesis using assms by (subst (asm) format_loop.simps) simp
  next
    case (Inr o1)
    show ?thesis
    proof (cases o1)
      case None
      then show ?thesis using assms Inr by (intro that(1)) (subst (asm) format_loop.simps, simp)+
    next
      case (Some sp)
      obtain spec p' where sp: "sp = (spec, p')" by fastforce
      then show ?thesis using assms Inr Some that(2)
        by (subst (asm) format_loop.simps) (auto split: option.splits sum.splits)
    qed
  qed
qed

lemma format_loop_induct [consumes 1, case_names finished step]:
  assumes "format_loop plat f at p st = Some (Inr r)"
    and "\<And>p st. parser_next plat p (at st) = Inr None \<Longrightarrow> r = st \<Longrightarrow> P p st"
    and "\<And>p st spec p' st'. parser_next plat p (at st) = Inr (Some (spec, p')) \<Longrightarrow> f spec st = Some (Inr st') \<Longrightarrow>
          format_loop plat f at p' st' = Some (Inr r) \<Longrightarrow> P p' st' \<Longrightarrow> P p st"
  shows "P p st"
  using assms(1)
proof (induction "length (pr_bytes p) - pr_offset p" arbitrary: p st rule: less_induct)
  case less
  from less.prems show ?case
  proof (cases rule: format_loop_cases)
    case finished
    then show ?thesis by (rule assms(2))
  next
    case (step spec p' st')
    note adv = parser_next_advances [OF step(1)]
    have "P p' st'" using adv step(3) by (intro less.hyps) auto
    then show ?thesis by (rule assms(3) [OF step])
  qed
qed

lemma size_loop_values:
  assumes "format_loop plat (\<lambda>spec st. Some (pack_size_step env vm args spec st)) fst p st = Some (Inr (n, index'))"
  shows "\<exists>vs'. format_loop plat (\<lambda>spec st. Some (values_step env vm args spec st)) fst p (fst st, snd st, vs) = Some (Inr (n, index', vs'))"
  using assms
proof (induction arbitrary: vs rule: format_loop_induct)
  case (finished p st)
  then show ?case by (subst format_loop_done) (auto simp: prod_eq_iff)
next
  case (step p st spec p' st')
  have "values_step env vm args spec (fst st, snd st, vs) = Inr (fst st', snd st', vs @ item_values env vm args spec (snd st))"
    using step(2) by (simp add: values_step_def split_beta)
  then show ?case using step.IH step(1) by (subst format_loop_step) (auto)
qed

lemma pack_loop_values:
  assumes plat: "platform_ok plat"
    and "format_loop plat (\<lambda>spec st. Some (values_step env vm args spec st)) fst p (length out, index, vs) = Some (Inr (n, index', vs'))"
  shows "\<exists>chunk new. format_loop plat (pack_step env vm args) (\<lambda>st. length (fst st)) p (out, index) = Some (Inr (out @ chunk, index'))
    \<and> length (out @ chunk) = n \<and> vs' = vs @ new
    \<and> (\<forall>us. format_loop plat (unpack_step (out @ chunk)) fst p (length out, us) = Some (Inr (n, us @ new)))
    \<and> (\<forall>k. k + length new < 65535 \<longrightarrow>
          format_loop plat (unpack_pass_step (le_profile env) (out @ chunk)) fst p (length out, k) = Some (Inr (n, k + length new)))"
proof -
  have "\<exists>chunk new. format_loop plat (pack_step env vm args) (\<lambda>st. length (fst st)) p (out, index) = Some (Inr (out @ chunk, index'))
    \<and> length (out @ chunk) = n \<and> vs' = vs @ new
    \<and> (\<forall>us. format_loop plat (unpack_step (out @ chunk)) fst p (length out, us) = Some (Inr (n, us @ new)))
    \<and> (\<forall>k. k + length new < 65535 \<longrightarrow>
          format_loop plat (unpack_pass_step (le_profile env) (out @ chunk)) fst p (length out, k) = Some (Inr (n, k + length new)))"
    if "st = (length out, index, vs)" for st
    using assms(2) [folded that] that
  proof (induction arbitrary: out index vs rule: format_loop_induct)
    case (finished p st)
    then show ?case by (intro exI [of _ "[]"]) (auto simp: format_loop_done)
  next
    case (step p st spec p' st')
    obtain n1 index1 where size: "pack_size_step env vm args spec (length out, index) = Inr (n1, index1)"
      and st': "st' = (n1, index1, vs @ item_values env vm args spec index)"
      using step(2,5) by (auto simp: values_step_def rbind_Inr_iff)
    have nx: "parser_next plat p (length out) = Inr (Some (spec, p'))" using step(1,5) by simp
    obtain c where c: "step_chunk env vm args spec out index n1 index1 c"
      using chunk_exists [OF parser_next_spec_ok [OF plat nx] size] by blast
    have n1: "length (out @ c) = n1" using c by (simp add: step_chunk_def)
    obtain chunk new where IH: "format_loop plat (pack_step env vm args) (\<lambda>st. length (fst st)) p' (out @ c, index1)
        = Some (Inr ((out @ c) @ chunk, index'))" "length ((out @ c) @ chunk) = n"
      "vs' = (vs @ item_values env vm args spec index) @ new"
      "\<And>us. format_loop plat (unpack_step ((out @ c) @ chunk)) fst p' (n1, us) = Some (Inr (n, us @ new))"
      "\<And>k. k + length new < 65535 \<Longrightarrow>
          format_loop plat (unpack_pass_step (le_profile env) ((out @ c) @ chunk)) fst p' (n1, k) = Some (Inr (n, k + length new))"
      using step.IH [of "out @ c" index1 "vs @ item_values env vm args spec index"] st' n1 by auto
    let ?items = "item_values env vm args spec index"
    have "format_loop plat (pack_step env vm args) (\<lambda>st. length (fst st)) p (out, index) = Some (Inr (out @ c @ chunk, index'))"
      using nx c IH(1) by (subst format_loop_step) (auto simp: step_chunk_def)
    moreover have "format_loop plat (unpack_step (out @ c @ chunk)) fst p (length out, us) = Some (Inr (n, us @ ?items @ new))" for us
      using nx c IH(4) [of "us @ ?items"] by (subst format_loop_step) (auto simp: step_chunk_def)
    moreover have "format_loop plat (unpack_pass_step (le_profile env) (out @ c @ chunk)) fst p (length out, k)
        = Some (Inr (n, k + length (?items @ new)))" if "k + length (?items @ new) < 65535" for k
      using nx c IH(5) [of "k + length ?items"] that by (subst format_loop_step) (auto simp: step_chunk_def add.assoc)
    ultimately show ?case using IH(2,3) by (intro exI [of _ "c @ chunk"] exI [of _ "?items @ new"]) auto
  qed
  then show ?thesis by blast
qed

text \<open>
  C6: What \<open>string.pack\<close> writes, \<open>string.unpack\<close> reads back. When the pass over the arguments accepts them and
  computes a size, the writing pass succeeds, does not overrun that size and fills it exactly; and on these bytes
  both passes of unpacking succeed under the same format and return the packed values: integers unchanged,
  floats unchanged or rounded to single precision, strings unchanged or padded to their fixed size.
\<close>

theorem pack_roundtrip:
  assumes "platform_ok plat" and "arg_bytes env vm args 0 = Inr format" and "pack_size plat env vm args = Some (Inr n)"
  shows "\<exists>out index. pack_loop plat env vm args format = Some (Inr (out, index)) \<and> length out = n
    \<and> unpack_loop plat (le_profile env) format out 0 = Some (Inr (n, packed_values plat env vm args format))
    \<and> (length (packed_values plat env vm args format) < 65535 \<longrightarrow>
        unpack_pass plat (le_profile env) format out 0 = Some (Inr (length (packed_values plat env vm args format))))"
proof -
  let ?p = "parser_new plat (le_profile env) format"
  obtain index where "format_loop plat (\<lambda>spec st. Some (pack_size_step env vm args spec st)) fst ?p (0, 1) = Some (Inr (n, index))"
    using assms(2,3) by (auto simp: pack_size_def arg_bytes_def rbind_Inr_iff)
  from size_loop_values [OF this, of "[]"] obtain vs where
    vs: "format_loop plat (\<lambda>spec st. Some (values_step env vm args spec st)) fst ?p (0, 1, []) = Some (Inr (n, index, vs))"
    by auto
  have "packed_values plat env vm args format = vs" using vs by (simp add: packed_values_def)
  then show ?thesis using pack_loop_values [OF assms(1), of env vm args ?p "[]" 1 "[]" n index vs] vs
    by (fastforce simp: pack_loop_def unpack_loop_def unpack_pass_def)
qed

subsection \<open>Unpacking any data\<close>

lemma slice_inside: "first \<le> stop \<Longrightarrow> stop \<le> length b \<Longrightarrow> slice b first stop = Some (take (stop - first) (drop first b))"
  by (simp add: slice_def)

lemma find_zero_less: "find_zero b = Some n \<Longrightarrow> n < length b"
  by (auto simp: find_zero_def Let_def split: if_splits)

lemma pass_step_safe:
  assumes "spec_ok spec" and "pos \<le> length data" and "length data \<le> usize_max"
  shows "unpack_pass_step profile data spec (pos, n) \<noteq> None"
    and "unpack_pass_step profile data spec (pos, n) = Some (Inr (pos', n')) \<Longrightarrow>
      pos' \<le> length data \<and> n \<le> n'
      \<and> (\<forall>us. \<exists>new. unpack_step data spec (pos, us) = Some (Inr (pos', us @ new)) \<and> n' = n + length new)"
proof -
  let ?q = "pos + ps_pad spec"
  have fits: "?q + ps_size spec \<le> length data" if "checked_add_usize (ps_pad spec) (ps_size spec) = Some adv" "\<not> length data - pos < adv" for adv
    using that assms(2) by (auto simp: checked_add_usize_def split: if_splits)
  show "unpack_pass_step profile data spec (pos, n) \<noteq> None"
  proof (cases "\<exists>adv. checked_add_usize (ps_pad spec) (ps_size spec) = Some adv \<and> \<not> length data - pos < adv")
    case True
    then have "?q + ps_size spec \<le> length data" using fits by blast
    then show ?thesis using True by (cases "ps_kind spec")
      (auto simp: unpack_pass_step_def Let_def slice_inside split: option.splits sum.splits)
  next
    case False
    then show ?thesis by (auto simp: unpack_pass_step_def Let_def split: option.splits)
  qed
  assume step: "unpack_pass_step profile data spec (pos, n) = Some (Inr (pos', n'))"
  then have q: "?q + ps_size spec \<le> length data"
    using fits by (auto simp: unpack_pass_step_def Let_def split: option.splits if_splits)
  show "pos' \<le> length data \<and> n \<le> n'
      \<and> (\<forall>us. \<exists>new. unpack_step data spec (pos, us) = Some (Inr (pos', us @ new)) \<and> n' = n + length new)"
  proof (cases "ps_kind spec")
    case K_Zero
    then have "ps_size spec = 0" using assms(1) by (simp add: spec_ok_def)
    then show ?thesis using step q K_Zero
      by (auto simp: unpack_pass_step_def unpack_step_def string_slice_def Let_def slice_inside rbind_Inr_iff checked_size_Inr
          checked_add_usize_def ok_or_Inr_iff dest!: find_zero_less split: option.splits if_splits)
  qed (use step q in \<open>auto simp: unpack_pass_step_def unpack_step_def string_slice_def Let_def slice_inside rbind_Inr_iff
         checked_size_Inr split: option.splits if_splits sum.splits\<close>)
qed

lemma unpack_loops_safe:
  assumes "platform_ok plat" and "length data \<le> usize_max" and "fst st \<le> length data"
  shows "\<exists>r. format_loop plat (unpack_pass_step profile data) fst p st = Some r
    \<and> (\<forall>pos' n'. r = Inr (pos', n') \<longrightarrow> pos' \<le> length data \<and> snd st \<le> n'
        \<and> (\<forall>us. \<exists>new. format_loop plat (unpack_step data) fst p (fst st, us) = Some (Inr (pos', us @ new)) \<and> n' = snd st + length new))"
  using assms(3)
proof (induction "length (pr_bytes p) - pr_offset p" arbitrary: p st rule: less_induct)
  case less
  obtain pos n where st: "st = (pos, n)" by fastforce
  show ?case
  proof (cases "parser_next plat p pos")
    case (Inl e)
    then show ?thesis by (subst format_loop.simps) (simp add: st)
  next
    case (Inr o1)
    show ?thesis
    proof (cases o1)
      case None
      then show ?thesis using Inr less.prems by (simp add: st format_loop_done)
    next
      case (Some sp)
      obtain spec p' where nx: "parser_next plat p pos = Inr (Some (spec, p'))" using Inr Some by (cases sp) simp
      note step = pass_step_safe [OF parser_next_spec_ok [OF assms(1) nx] _ assms(2), of pos profile n]
      have pos: "pos \<le> length data" using less.prems st by simp
      then obtain r where r: "unpack_pass_step profile data spec (pos, n) = Some r" using step(1) by blast
      show ?thesis
      proof (cases r)
        case (Inl e)
        then show ?thesis using nx r by (subst format_loop.simps) (simp add: st)
      next
        case (Inr st')
        obtain pos1 n1 where st': "st' = (pos1, n1)" by fastforce
        note done1 = step(2) [OF pos r [unfolded Inr st']]
        have adv: "length (pr_bytes p') - pr_offset p' < length (pr_bytes p) - pr_offset p"
          using parser_next_advances [OF nx] by auto
        have eq: "format_loop plat (unpack_pass_step profile data) fst p st = format_loop plat (unpack_pass_step profile data) fst p' (pos1, n1)"
          using nx r Inr st' st by (intro format_loop_step) auto
        from less.hyps [OF adv, of "(pos1, n1)"] done1 obtain r' where
          r': "format_loop plat (unpack_pass_step profile data) fst p' (pos1, n1) = Some r'"
          "\<And>pos' n' us. r' = Inr (pos', n') \<Longrightarrow> pos' \<le> length data \<and> n1 \<le> n'
             \<and> (\<exists>new. format_loop plat (unpack_step data) fst p' (pos1, us) = Some (Inr (pos', us @ new)) \<and> n' = n1 + length new)"
          by fastforce
        have "pos' \<le> length data \<and> n \<le> n' \<and> (\<exists>new. format_loop plat (unpack_step data) fst p (pos, us) = Some (Inr (pos', us @ new)) \<and> n' = n + length new)"
          if rr: "r' = Inr (pos', n')" for pos' n' us
        proof -
          obtain new1 where new1: "unpack_step data spec (pos, us) = Some (Inr (pos1, us @ new1))" "n1 = n + length new1"
            using done1 by blast
          obtain new2 where new2: "format_loop plat (unpack_step data) fst p' (pos1, us @ new1) = Some (Inr (pos', (us @ new1) @ new2))"
            "n' = n1 + length new2" using r'(2) [OF rr] by blast
          have "format_loop plat (unpack_step data) fst p (pos, us) = Some (Inr (pos', us @ new1 @ new2))"
            using nx new1(1) new2(1) by (subst format_loop_step) auto
          then show ?thesis using r'(2) [OF rr] done1 new1(2) new2(2) by auto
        qed
        then show ?thesis using eq r'(1) by (simp add: st)
      qed
    qed
  qed
qed

text \<open>
  C14: The first pass of \<open>string.unpack\<close> checks enough. From a start inside the data it never slices outside of it,
  and when it accepts, the second pass, which allocates the results, neither panics nor fails, makes exactly as
  many values as were counted and stops inside the data.
\<close>

theorem unpack_safe:
  assumes "platform_ok plat" and "length data \<le> usize_max" and "initial \<le> length data"
  shows "\<exists>r. unpack_pass plat profile format data initial = Some r
    \<and> (\<forall>n. r = Inr n \<longrightarrow> (\<exists>pos vs. unpack_loop plat profile format data initial = Some (Inr (pos, vs))
         \<and> length vs = n \<and> pos \<le> length data))"
proof -
  from unpack_loops_safe [OF assms(1,2), of "(initial, 0)" profile "parser_new plat profile format"] assms(3)
  obtain r where r: "format_loop plat (unpack_pass_step profile data) fst (parser_new plat profile format) (initial, 0) = Some r"
    and ok: "\<And>pos n. r = Inr (pos, n) \<Longrightarrow> pos \<le> length data
      \<and> (\<exists>new. format_loop plat (unpack_step data) fst (parser_new plat profile format) (initial, []) = Some (Inr (pos, new)) \<and> n = length new)"
    by fastforce
  show ?thesis
  proof (cases r)
    case (Inl e)
    then show ?thesis using r by (simp add: unpack_pass_def)
  next
    case (Inr st)
    obtain pos n where "st = (pos, n)" by fastforce
    then show ?thesis using r Inr ok [of pos n] by (auto simp: unpack_pass_def unpack_loop_def)
  qed
qed

subsection \<open>Examples\<close>

definition example_platform :: pack_platform where
  "example_platform = \<lparr>pp_little = True, pp_align = 16, pp_short = 2, pp_int = 4, pp_long = 8\<rparr>"

text \<open>A heap with one string, the format \<open>>i2z\<close>.\<close>

definition example_object :: object_ref where
  "example_object = Heap \<lparr>oi_vm = VmId 1, oi_slot = 0, oi_generation = Generation 1\<rparr> None"

definition example_heap :: "unit vm_heap" where
  "example_heap =
     (let l = internal_ledger 0; payload = Payload_ByteString (Owned [0x3e, 0x69, 0x32, 0x7a])
      in \<lparr>vh_id = VmId 1, vh_ledger = l, vh_gc = gc_new Lua54,
          vh_slots = [Occupied \<lparr>os_generation = Generation 1, os_reference = example_object, os_age = Age_Young,
            os_survivals = 0, os_finalizer = Fin_Unregistered, os_finalizer_order = 0, os_finalizer_remarked = False,
            os_object = \<lparr>ho_payload = payload, ho_children = [], ho_charges = paired_new l\<rparr>,
            os_object_charge = \<lparr>ch_ledger = l, ch_bytes = 4, ch_domain = LuaHeap, ch_token = None\<rparr>\<rparr>]\<rparr>)"

definition example_lib :: lib_env where
  "example_lib = \<lparr>le_alloc = \<lparr>ae_ok = \<lambda>_. True, ae_site = \<lambda>_. \<lparr>site_file = [], site_line = 0, site_column = 0\<rparr>\<rparr>,
     le_value_size = 16, le_profile = Lua54, le_pow2 = \<lambda>_. F64 0\<rparr>"

definition example_args :: "lua_value list" where
  "example_args = [V_Object example_object, V_Integer 258, V_Object example_object]"

lemma example_platform_ok: "platform_ok example_platform"
  by (simp add: platform_ok_def example_platform_def)

lemmas example_evals = parser_new_def parser_next_def parser_option_def option_code_def parser_align_def parser_limited_def
  parser_number_def number_loop.simps with_kind_def pad_to_def format_loop.simps native_max_align_def example_platform_def
  string_arg_def with_bytes_def value_bytes_def object_kind_def checked_slot_def with_byte_string_def
  example_heap_def example_lib_def example_args_def example_object_def get_at_def checked_mul_usize_def checked_add_usize_def
  usize_max_def is_ascii_digit_def digit_val_def is_power_of_two_def ok_or_def vm_result_def Let_def

lemma example_format: "arg_bytes example_lib example_heap example_args 0 = Inr [0x3e, 0x69, 0x32, 0x7a]"
  by (simp add: example_evals arg_bytes_def)

lemma example_size: "pack_size example_platform example_lib example_heap example_args = Some (Inr 7)"
  by (simp add: example_evals pack_size_def pack_size_step_def arg_integer_def checked_size_Inr checked_size_fits max_size_def validate_integer_def
      check_string_def string_extra_def string_integer_def lib_string_len_def basic_number_def)

lemma pack_roundtrip_witness:
  "\<exists>out index. pack_loop example_platform example_lib example_heap example_args [0x3e, 0x69, 0x32, 0x7a] = Some (Inr (out, index))
    \<and> length out = 7
    \<and> unpack_loop example_platform (le_profile example_lib) [0x3e, 0x69, 0x32, 0x7a] out 0
        = Some (Inr (7, packed_values example_platform example_lib example_heap example_args [0x3e, 0x69, 0x32, 0x7a]))"
  using pack_roundtrip [OF example_platform_ok example_format example_size] by blast

lemma unpack_safe_witness:
  "\<exists>pos vs. unpack_loop example_platform Lua54 [0x3e, 0x69, 0x32, 0x7a] [1, 2, 9, 9, 0, 7] 0 = Some (Inr (pos, vs))
     \<and> length vs = 2 \<and> pos \<le> length [1, 2, 9, 9, 0, 7 :: u8]"
proof -
  have "unpack_pass example_platform Lua54 [0x3e, 0x69, 0x32, 0x7a] [1, 2, 9, 9, 0, 7] 0 = Some (Inr 2)"
    by (simp add: example_evals unpack_pass_def unpack_pass_step_def slice_def read_integer_def find_zero_def order_index_def checked_size_fits max_size_def)
  then show ?thesis
    using unpack_safe [OF example_platform_ok, of "[1, 2, 9, 9, 0, 7]" 0 Lua54 "[0x3e, 0x69, 0x32, 0x7a]"]
    by (simp add: usize_max_def)
qed

end
