(* ===== verification/Ast.thy ===== *)
theory Ast
  imports Lex_Cursor
begin

text \<open>
  The syntax tree of the compiler (\<open>ast.rs\<close>): blocks, statements, expressions and table fields, each node
  with the span of source it stands for.
\<close>

datatype unary_op = UnOp_Negate | UnOp_Not | UnOp_Length | UnOp_BitNot

datatype binary_op =
    BinOp_Or | BinOp_And | BinOp_Equal | BinOp_NotEqual | BinOp_Less | BinOp_LessEqual | BinOp_Greater | BinOp_GreaterEqual
  | BinOp_Pipe | BinOp_BitXor | BinOp_Ampersand | BinOp_ShiftLeft | BinOp_ShiftRight | BinOp_Concat | BinOp_Add | BinOp_Subtract
  | BinOp_Multiply | BinOp_Divide | BinOp_FloorDivide | BinOp_Modulo | BinOp_Power

datatype field_separator = Sep_Comma | Sep_Semicolon

record attribute =
  attr_name :: bytes
  attr_span :: span

record local_name =
  ln_name :: bytes
  ln_attribute :: "attribute option"
  ln_span :: span

record method_name =
  mn_name :: bytes
  mn_colon_span :: span
  mn_span :: span

record vararg =
  va_table_name :: "local_name option"
  va_span :: span

text \<open>
  A node's span is its last argument. A function body has its parameters, its vararg and its block; a block
  its statements and the span of the keyword that ends it.
\<close>

datatype (plugins only: size code) expr =
    Ex_Literal literal span
  | Ex_Nil span
  | Ex_Bool bool span
  | Ex_Name bytes span
  | Ex_Vararg span
  | Ex_Unary unary_op expr span
  | Ex_Binary binary_op expr expr span
  | Ex_Paren expr span
  | Ex_Index expr expr span
  | Ex_Field expr bytes span
  | Ex_Call expr "expr list" span
  | Ex_MethodCall expr bytes "expr list" span
  | Ex_Function function_body span
  | Ex_TableConstructor "table_field list" span
and table_field =
    Field_Array expr "field_separator option" span
  | Field_Named bytes expr "field_separator option" span
  | Field_Indexed expr expr "field_separator option" span
and function_body = FunctionBody "local_name list" "vararg option" block span
and block = Block "stmt list" "span option" span
and global_declaration =
    Global_Names "local_name list" "expr list" "attribute option" span
  | Global_Star "attribute option" span
  | Global_Function bytes function_body span
and stmt =
    St_Empty span
  | St_Return "expr list" span
  | St_Assignment "expr list" "expr list" span
  | St_Call expr span
  | St_Local "local_name list" "expr list" span
  | St_Global global_declaration span
  | St_Break span
  | St_Goto bytes span span
  | St_Label bytes span span
  | St_Do block span
  | St_If "(expr \<times> block) list" "block option" span
  | St_While expr block span
  | St_Repeat block expr span
  | St_NumericFor local_name expr expr "expr option" block span
  | St_GenericFor "local_name list" "expr list" block span
  | St_Function expr "method_name option" function_body span
  | St_LocalFunction local_name function_body span

record module =
  mod_profile :: lua_profile
  mod_span :: span
  mod_root :: block

fun set_separator :: "table_field \<Rightarrow> field_separator \<Rightarrow> table_field" where
  "set_separator (Field_Array value _ span) separator = Field_Array value (Some separator) span"
| "set_separator (Field_Named name value _ span) separator = Field_Named name value (Some separator) span"
| "set_separator (Field_Indexed key value _ span) separator = Field_Indexed key value (Some separator) span"

fun expr_span :: "expr \<Rightarrow> span" where
  "expr_span (Ex_Literal _ span) = span"
| "expr_span (Ex_Nil span) = span"
| "expr_span (Ex_Bool _ span) = span"
| "expr_span (Ex_Name _ span) = span"
| "expr_span (Ex_Vararg span) = span"
| "expr_span (Ex_Unary _ _ span) = span"
| "expr_span (Ex_Binary _ _ _ span) = span"
| "expr_span (Ex_Paren _ span) = span"
| "expr_span (Ex_Index _ _ span) = span"
| "expr_span (Ex_Field _ _ span) = span"
| "expr_span (Ex_Call _ _ span) = span"
| "expr_span (Ex_MethodCall _ _ _ span) = span"
| "expr_span (Ex_Function _ span) = span"
| "expr_span (Ex_TableConstructor _ span) = span"

end
