(* ===== verification/Parser.thy ===== *)
theory Parser
  imports Ast
begin

text \<open>
  The parser (\<open>parser/mod.rs\<close>): recursive descent over the tokens of the lexer, with precedence climbing for
  binary operators and limits on nodes, depth, statements, list entries and parameters.

  The methods of the parser call each other, so each is a definition over the record \<open>calls\<close> of the methods and
  loops it may call, and \<open>parsers n\<close> ties the knot: it lets calls and iterations nest \<open>n\<close> deep and gives
  \<open>Unfinished\<close> beyond. \<open>Panicked\<close> is a panic of \<open>unwrap\<close> on the literal of a token. The index of a parser stays
  inside the stream when the stream ends with an end marker, so the tokens before and at it exist. The
  counters are unbounded: each is compared with its limit when it grows.
\<close>

subsection \<open>The parser and its results\<close>

record parser =
  pa_tokens :: "token list"
  pa_index :: nat
  pa_limits :: compile_limits
  pa_nodes :: nat
  pa_depth :: nat
  pa_statements :: nat
  pa_profile :: lua_profile

datatype 'a parsed = Parsed 'a parser | Rejected diagnostic | Panicked | Unfinished

definition pbind :: "'a parsed \<Rightarrow> ('a \<Rightarrow> parser \<Rightarrow> 'b parsed) \<Rightarrow> 'b parsed" where
  "pbind r f = (case r of Parsed x p \<Rightarrow> f x p | Rejected d \<Rightarrow> Rejected d | Panicked \<Rightarrow> Panicked | Unfinished \<Rightarrow> Unfinished)"

lemma pbind_simps [simp]:
  "pbind (Parsed x p) f = f x p"
  "pbind (Rejected d) f = Rejected d"
  "pbind Panicked f = Panicked"
  "pbind Unfinished f = Unfinished"
  by (simp_all add: pbind_def)

definition join_span :: "span \<Rightarrow> span \<Rightarrow> span" where
  "join_span a b = \<lparr>span_start = span_start a, span_end = span_end b\<rparr>"

definition token_diagnostic :: "token option \<Rightarrow> diagnostic_code \<Rightarrow> lex_message \<Rightarrow> diagnostic" where
  "token_diagnostic t code message =
     (let (span, first, last) =
        (case t of
           Some t \<Rightarrow> (tok_span t, tok_start t, tok_end t)
         | None \<Rightarrow> (\<lparr>span_start = 0, span_end = 0\<rparr>, \<lparr>pos_line = 1, pos_column = 1\<rparr>, \<lparr>pos_line = 1, pos_column = 1\<rparr>))
      in \<lparr>diag_code = code, diag_span = span, diag_start = first, diag_end = last, diag_message = message\<rparr>)"

subsection \<open>Tokens\<close>

definition current :: "parser \<Rightarrow> token" where
  "current p = pa_tokens p ! min (pa_index p) (length (pa_tokens p) - 1)"

definition previous :: "parser \<Rightarrow> token" where
  "previous p = pa_tokens p ! (pa_index p - 1)"

abbreviation current_span :: "parser \<Rightarrow> span" where
  "current_span p \<equiv> tok_span (current p)"

abbreviation previous_span :: "parser \<Rightarrow> span" where
  "previous_span p \<equiv> tok_span (previous p)"

definition eof :: "parser \<Rightarrow> bool" where
  "eof p \<longleftrightarrow> tok_kind (current p) = Tok_Eof"

definition advance_token :: "parser \<Rightarrow> parser" where
  "advance_token p = (if eof p then p else p\<lparr>pa_index := pa_index p + 1\<rparr>)"

definition finish :: "span \<Rightarrow> parser \<Rightarrow> span" where
  "finish start p = join_span start (previous_span p)"

definition error_at :: "parser \<Rightarrow> lex_message \<Rightarrow> diagnostic" where
  "error_at p message = token_diagnostic (Some (current p)) Diag_Parse message"

definition limit_at :: "parser \<Rightarrow> lex_message \<Rightarrow> diagnostic" where
  "limit_at p message = token_diagnostic (Some (current p)) Diag_CompileLimit message"

definition take_keyword :: "keyword \<Rightarrow> parser \<Rightarrow> bool \<times> parser" where
  "take_keyword k p = (if tok_kind (current p) = Tok_Keyword k then (True, advance_token p) else (False, p))"

definition take_symbol :: "symbol \<Rightarrow> parser \<Rightarrow> bool \<times> parser" where
  "take_symbol s p = (if tok_kind (current p) = Tok_Symbol s then (True, advance_token p) else (False, p))"

text \<open>The two branches of an \<open>if\<close> whose condition takes a token.\<close>

definition if_took :: "bool \<times> parser \<Rightarrow> (parser \<Rightarrow> 'b) \<Rightarrow> (parser \<Rightarrow> 'b) \<Rightarrow> 'b" where
  "if_took r yes no = (if fst r then yes (snd r) else no (snd r))"

definition expect :: "symbol \<Rightarrow> parser \<Rightarrow> unit parsed" where
  "expect s p = if_took (take_symbol s p) (Parsed ()) (\<lambda>p. Rejected (error_at p MissingSymbol))"

definition expect_keyword :: "keyword \<Rightarrow> parser \<Rightarrow> unit parsed" where
  "expect_keyword k p = if_took (take_keyword k p) (Parsed ()) (\<lambda>p. Rejected (error_at p MissingKeyword))"

definition parse_name :: "parser \<Rightarrow> bytes parsed" where
  "parse_name p =
     (let t = current p
      in if tok_kind t \<noteq> Tok_Name then Rejected (error_at p ExpectedName)
         else
           let p = advance_token p
           in case tok_literal t of
                Some (Lit_Name n) \<Rightarrow> Parsed n p
              | _ \<Rightarrow> Rejected (error_at p IncompleteName))"

definition reserve_node :: "parser \<Rightarrow> unit parsed" where
  "reserve_node p =
     (let p = p\<lparr>pa_nodes := pa_nodes p + 1\<rparr>
      in if max_ast_nodes (pa_limits p) < pa_nodes p then Rejected (limit_at p TooManyNodes) else Parsed () p)"

definition list_room :: "'a list \<Rightarrow> parser \<Rightarrow> unit parsed" where
  "list_room xs p = (if max_list_entries (pa_limits p) \<le> length xs then Rejected (limit_at p ListTooLong) else Parsed () p)"

definition deeper :: "parser \<Rightarrow> unit parsed" where
  "deeper p =
     (let p = p\<lparr>pa_depth := pa_depth p + 1\<rparr>
      in if max_parse_depth (pa_limits p) < pa_depth p then Rejected (limit_at p ParseTooDeep) else Parsed () p)"

definition next_statement :: "parser \<Rightarrow> unit parsed" where
  "next_statement p =
     (let p = p\<lparr>pa_statements := pa_statements p + 1\<rparr>
      in if max_statements (pa_limits p) < pa_statements p then Rejected (limit_at p TooManyStatements) else Parsed () p)"

text \<open>The binary operator at the current token: its precedence, and whether it associates to the right.\<close>

fun keyword_operator :: "keyword \<Rightarrow> (binary_op \<times> nat \<times> bool) option" where
  "keyword_operator Kw_Or = Some (BinOp_Or, 1, False)"
| "keyword_operator Kw_And = Some (BinOp_And, 2, False)"
| "keyword_operator _ = None"

fun symbol_operator :: "symbol \<Rightarrow> (binary_op \<times> nat \<times> bool) option" where
  "symbol_operator Caret = Some (BinOp_Power, 13, True)"
| "symbol_operator Concat = Some (BinOp_Concat, 8, True)"
| "symbol_operator Plus = Some (BinOp_Add, 9, False)"
| "symbol_operator Minus = Some (BinOp_Subtract, 9, False)"
| "symbol_operator Star = Some (BinOp_Multiply, 10, False)"
| "symbol_operator Slash = Some (BinOp_Divide, 10, False)"
| "symbol_operator FloorSlash = Some (BinOp_FloorDivide, 10, False)"
| "symbol_operator Percent = Some (BinOp_Modulo, 10, False)"
| "symbol_operator EqualEqual = Some (BinOp_Equal, 3, False)"
| "symbol_operator NotEqual = Some (BinOp_NotEqual, 3, False)"
| "symbol_operator LessSym = Some (BinOp_Less, 3, False)"
| "symbol_operator LessEqual = Some (BinOp_LessEqual, 3, False)"
| "symbol_operator GreaterSym = Some (BinOp_Greater, 3, False)"
| "symbol_operator GreaterEqual = Some (BinOp_GreaterEqual, 3, False)"
| "symbol_operator Pipe = Some (BinOp_Pipe, 4, False)"
| "symbol_operator Tilde = Some (BinOp_BitXor, 5, False)"
| "symbol_operator Ampersand = Some (BinOp_Ampersand, 6, False)"
| "symbol_operator ShiftLeft = Some (BinOp_ShiftLeft, 7, False)"
| "symbol_operator ShiftRight = Some (BinOp_ShiftRight, 7, False)"
| "symbol_operator _ = None"

definition binary_at :: "parser \<Rightarrow> (binary_op \<times> nat \<times> bool) option" where
  "binary_at p =
     (case tok_kind (current p) of
        Tok_Symbol s \<Rightarrow> symbol_operator s
      | Tok_Keyword k \<Rightarrow> keyword_operator k
      | _ \<Rightarrow> None)"

subsection \<open>The methods that call each other\<close>

record calls =
  c_statement :: "parser \<Rightarrow> stmt parsed"
  c_block :: "keyword list \<Rightarrow> parser \<Rightarrow> block parsed"
  c_statements :: "keyword list \<Rightarrow> stmt list \<Rightarrow> parser \<Rightarrow> stmt list parsed"
  c_module :: "stmt list \<Rightarrow> parser \<Rightarrow> stmt list parsed"
  c_clauses :: "(expr \<times> block) list \<Rightarrow> parser \<Rightarrow> (expr \<times> block) list parsed"
  c_for_names :: "local_name list \<Rightarrow> parser \<Rightarrow> local_name list parsed"
  c_local_names :: "attribute option \<Rightarrow> local_name list \<Rightarrow> parser \<Rightarrow> local_name list parsed"
  c_global_names :: "local_name list \<Rightarrow> parser \<Rightarrow> local_name list parsed"
  c_targets :: "expr list \<Rightarrow> parser \<Rightarrow> expr list parsed"
  c_list :: "expr list \<Rightarrow> parser \<Rightarrow> expr list parsed"
  c_expr :: "nat \<Rightarrow> parser \<Rightarrow> expr parsed"
  c_binary :: "nat \<Rightarrow> expr \<Rightarrow> parser \<Rightarrow> expr parsed"
  c_postfix :: "expr \<Rightarrow> parser \<Rightarrow> expr parsed"
  c_prefix :: "parser \<Rightarrow> expr parsed"
  c_fields :: "table_field list \<Rightarrow> parser \<Rightarrow> table_field list parsed"
  c_path :: "expr \<Rightarrow> parser \<Rightarrow> (expr \<times> method_name option) parsed"
  c_params :: "local_name list \<Rightarrow> parser \<Rightarrow> (local_name list \<times> vararg option) parsed"

subsubsection \<open>Expressions\<close>

definition list_loop :: "calls \<Rightarrow> expr list \<Rightarrow> parser \<Rightarrow> expr list parsed" where
  "list_loop c out p =
     pbind (list_room out p) (\<lambda>_ p.
     pbind (c_expr c 0 p) (\<lambda>e p.
     if_took (take_symbol Comma p) (c_list c (out @ [e])) (Parsed (out @ [e]))))"

definition list_expr :: "calls \<Rightarrow> parser \<Rightarrow> expr list parsed" where
  "list_expr c p = (if eof p then Parsed [] p else c_list c [] p)"

definition expr_binary :: "calls \<Rightarrow> nat \<Rightarrow> expr \<Rightarrow> parser \<Rightarrow> expr parsed" where
  "expr_binary c min_prec left p =
     (case binary_at p of
        None \<Rightarrow> Parsed left p
      | Some (op, prec, right) \<Rightarrow>
          if prec < min_prec then Parsed left p
          else
            pbind (c_expr c (if right then prec else prec + 1) (advance_token p)) (\<lambda>rhs p.
            pbind (reserve_node p) (\<lambda>_ p.
            c_binary c min_prec (Ex_Binary op left rhs (join_span (expr_span left) (expr_span rhs))) p)))"

definition expr :: "calls \<Rightarrow> nat \<Rightarrow> parser \<Rightarrow> expr parsed" where
  "expr c min_prec p =
     pbind (deeper p) (\<lambda>_ p.
     pbind (c_prefix c p) (\<lambda>left p.
     pbind (c_postfix c left p) (\<lambda>left p.
     pbind (c_binary c min_prec left p) (\<lambda>left p.
     Parsed left (p\<lparr>pa_depth := pa_depth p - 1\<rparr>)))))"

fun is_prefix_expr :: "expr \<Rightarrow> bool" where
  "is_prefix_expr (Ex_Name _ _) = True"
| "is_prefix_expr (Ex_Paren _ _) = True"
| "is_prefix_expr (Ex_Index _ _ _) = True"
| "is_prefix_expr (Ex_Field _ _ _) = True"
| "is_prefix_expr (Ex_Call _ _ _) = True"
| "is_prefix_expr (Ex_MethodCall _ _ _ _) = True"
| "is_prefix_expr _ = False"

definition starts_argument :: "token_kind \<Rightarrow> bool" where
  "starts_argument k \<longleftrightarrow> k = Tok_String \<or> k = Tok_Symbol OpenBrace"

text \<open>The rest of an argument list after its opening parenthesis.\<close>

definition paren_arguments :: "calls \<Rightarrow> parser \<Rightarrow> expr list parsed" where
  "paren_arguments c p =
     if_took (take_symbol CloseParen p) (Parsed []) (\<lambda>p.
     pbind (list_expr c p) (\<lambda>values p.
     pbind (expect CloseParen p) (\<lambda>_ p. Parsed values p)))"

text \<open>A string or a table as the only argument.\<close>

definition single_argument :: "calls \<Rightarrow> parser \<Rightarrow> expr parsed" where
  "single_argument c p =
     (if max_list_entries (pa_limits p) = 0 then Rejected (limit_at p ListTooLong) else c_prefix c p)"

definition method_arguments :: "calls \<Rightarrow> parser \<Rightarrow> expr list parsed" where
  "method_arguments c p =
     if_took (take_symbol OpenParen p) (paren_arguments c) (\<lambda>p.
     if starts_argument (tok_kind (current p)) then pbind (single_argument c p) (\<lambda>a p. Parsed [a] p)
     else Rejected (error_at p MissingMethodArguments))"

definition postfix :: "calls \<Rightarrow> expr \<Rightarrow> parser \<Rightarrow> expr parsed" where
  "postfix c base p =
     (if \<not> is_prefix_expr base then Parsed base p
      else
        if_took (take_symbol OpenParen p)
          (\<lambda>p. pbind (paren_arguments c p) (\<lambda>arguments p.
             let base = Ex_Call base arguments (join_span (expr_span base) (previous_span p))
             in pbind (reserve_node p) (\<lambda>_. c_postfix c base)))
          (\<lambda>p.
        if starts_argument (tok_kind (current p)) then
          pbind (single_argument c p) (\<lambda>argument p.
          pbind (reserve_node p) (\<lambda>_.
          c_postfix c (Ex_Call base [argument] (join_span (expr_span base) (expr_span argument)))))
        else
        if_took (take_symbol Dot p)
          (\<lambda>p. pbind (parse_name p) (\<lambda>name p.
             let base = Ex_Field base name (join_span (expr_span base) (previous_span p))
             in pbind (reserve_node p) (\<lambda>_. c_postfix c base)))
          (\<lambda>p.
        if_took (take_symbol OpenBracket p)
          (\<lambda>p. pbind (c_expr c 0 p) (\<lambda>index p.
             pbind (expect CloseBracket p) (\<lambda>_ p.
             let base = Ex_Index base index (join_span (expr_span base) (previous_span p))
             in pbind (reserve_node p) (\<lambda>_. c_postfix c base))))
          (\<lambda>p.
        if_took (take_symbol Colon p)
          (\<lambda>p. pbind (parse_name p) (\<lambda>method p.
             pbind (method_arguments c p) (\<lambda>arguments p.
             let base = Ex_MethodCall base method arguments (join_span (expr_span base) (previous_span p))
             in pbind (reserve_node p) (\<lambda>_. c_postfix c base))))
          (Parsed base)))))"

definition table_field :: "calls \<Rightarrow> parser \<Rightarrow> table_field parsed" where
  "table_field c p =
     (let start = current_span p
      in if_took (take_symbol OpenBracket p)
           (\<lambda>p. pbind (c_expr c 0 p) (\<lambda>key p.
              pbind (expect CloseBracket p) (\<lambda>_ p.
              pbind (expect AssignSym p) (\<lambda>_ p.
              pbind (c_expr c 0 p) (\<lambda>value p.
              pbind (reserve_node p) (\<lambda>_ p.
              Parsed (Field_Indexed key value None (join_span start (expr_span value))) p))))))
           (\<lambda>p.
         if tok_kind (current p) = Tok_Name \<and> map_option tok_kind (get_at (pa_tokens p) (pa_index p + 1)) = Some (Tok_Symbol AssignSym) then
           pbind (parse_name p) (\<lambda>name p.
           pbind (expect AssignSym p) (\<lambda>_ p.
           pbind (c_expr c 0 p) (\<lambda>value p.
           pbind (reserve_node p) (\<lambda>_ p.
           Parsed (Field_Named name value None (join_span start (expr_span value))) p))))
         else
           pbind (c_expr c 0 p) (\<lambda>value p.
           pbind (reserve_node p) (\<lambda>_ p.
           Parsed (Field_Array value None (join_span start (expr_span value))) p))))"

definition table_fields :: "calls \<Rightarrow> table_field list \<Rightarrow> parser \<Rightarrow> table_field list parsed" where
  "table_fields c fs p =
     if_took (take_symbol CloseBrace p) (Parsed fs) (\<lambda>p.
     if eof p then Rejected (error_at p MissingTableEnd)
     else
       pbind (list_room fs p) (\<lambda>_ p.
       pbind (table_field c p) (\<lambda>field p.
       if_took (take_symbol Comma p) (c_fields c (fs @ [set_separator field Sep_Comma])) (\<lambda>p.
       if_took (take_symbol Semicolon p) (c_fields c (fs @ [set_separator field Sep_Semicolon])) (\<lambda>p.
       pbind (expect CloseBrace p) (\<lambda>_ p. Parsed (fs @ [field]) p))))))"

definition table :: "calls \<Rightarrow> parser \<Rightarrow> expr parsed" where
  "table c p =
     (let start = current_span p
      in pbind (c_fields c [] (advance_token p)) (\<lambda>fs p.
         pbind (reserve_node p) (\<lambda>_ p.
         Parsed (Ex_TableConstructor fs (join_span start (previous_span p))) p)))"

definition params_loop :: "calls \<Rightarrow> local_name list \<Rightarrow> parser \<Rightarrow> (local_name list \<times> vararg option) parsed" where
  "params_loop c params p =
     if_took (take_symbol CloseParen p) (Parsed (params, None)) (\<lambda>p.
     if max_parameters (pa_limits p) \<le> length params then Rejected (limit_at p TooManyParameters)
     else
       if_took (take_symbol Vararg p)
         (\<lambda>p. let span = previous_span p
            in pbind (if tok_kind (current p) = Tok_Name then
                        if \<not> named_vararg (rules (pa_profile p)) then Rejected (error_at p NamedVarargUnsupported)
                        else
                          let t = current p
                          in pbind (parse_name p) (\<lambda>name p. Parsed (Some \<lparr>ln_name = name, ln_attribute = None, ln_span = tok_span t\<rparr>) p)
                      else Parsed None p) (\<lambda>table_name p.
               pbind (reserve_node p) (\<lambda>_ p.
               pbind (expect CloseParen p) (\<lambda>_ p. Parsed (params, Some \<lparr>va_table_name = table_name, va_span = span\<rparr>) p))))
         (\<lambda>p.
       let t = current p
       in pbind (parse_name p) (\<lambda>name p.
          pbind (reserve_node p) (\<lambda>_ p.
          let params = params @ [\<lparr>ln_name = name, ln_attribute = None, ln_span = tok_span t\<rparr>]
          in if_took (take_symbol Comma p) (c_params c params)
               (\<lambda>p. pbind (expect CloseParen p) (\<lambda>_ p. Parsed (params, None) p))))))"

definition function_body :: "calls \<Rightarrow> span \<Rightarrow> parser \<Rightarrow> function_body parsed" where
  "function_body c start p =
     pbind (expect OpenParen p) (\<lambda>_ p.
     pbind (c_params c [] p) (\<lambda>(params, vararg) p.
     pbind (c_block c [Kw_End] p) (\<lambda>body p.
     pbind (expect_keyword Kw_End p) (\<lambda>_ p.
     Parsed (FunctionBody params vararg body (join_span start (previous_span p))) p))))"

definition function_expr :: "calls \<Rightarrow> parser \<Rightarrow> expr parsed" where
  "function_expr c p =
     (let start = current_span p
      in pbind (function_body c start (advance_token p)) (\<lambda>body p.
         let span = join_span start (previous_span p)
         in pbind (reserve_node p) (\<lambda>_ p. Parsed (Ex_Function body span) p)))"

definition unary :: "calls \<Rightarrow> unary_op \<Rightarrow> token \<Rightarrow> parser \<Rightarrow> expr parsed" where
  "unary c op t p =
     pbind (c_expr c 12 (advance_token p)) (\<lambda>e p.
     Parsed (Ex_Unary op e (join_span (tok_span t) (expr_span e))) p)"

definition literal_prefix :: "token \<Rightarrow> parser \<Rightarrow> expr parsed" where
  "literal_prefix t p =
     (case tok_literal t of
        None \<Rightarrow> Panicked
      | Some l \<Rightarrow> Parsed (Ex_Literal l (tok_span t)) (advance_token p))"

definition name_prefix :: "token \<Rightarrow> parser \<Rightarrow> expr parsed" where
  "name_prefix t p =
     (let p = advance_token p
      in case tok_literal t of
           Some (Lit_Name name) \<Rightarrow> Parsed (Ex_Name name (tok_span t)) p
         | _ \<Rightarrow> Rejected (error_at p IncompleteName))"

definition paren_prefix :: "calls \<Rightarrow> token \<Rightarrow> parser \<Rightarrow> expr parsed" where
  "paren_prefix c t p =
     pbind (c_expr c 0 (advance_token p)) (\<lambda>e p.
     pbind (expect CloseParen p) (\<lambda>_ p.
     Parsed (Ex_Paren e (join_span (tok_span t) (previous_span p))) p))"

definition keyword_prefix :: "calls \<Rightarrow> keyword \<Rightarrow> token \<Rightarrow> parser \<Rightarrow> expr parsed" where
  "keyword_prefix c k t p =
     (if k = Kw_Nil then Parsed (Ex_Nil (tok_span t)) (advance_token p)
      else if k = Kw_True then Parsed (Ex_Bool True (tok_span t)) (advance_token p)
      else if k = Kw_False then Parsed (Ex_Bool False (tok_span t)) (advance_token p)
      else if k = Kw_Not then unary c UnOp_Not t p
      else if k = Kw_Function then function_expr c p
      else Rejected (error_at p UnexpectedSymbol))"

definition symbol_prefix :: "calls \<Rightarrow> symbol \<Rightarrow> token \<Rightarrow> parser \<Rightarrow> expr parsed" where
  "symbol_prefix c s t p =
     (if s = Vararg then Parsed (Ex_Vararg (tok_span t)) (advance_token p)
      else if s = Minus then unary c UnOp_Negate t p
      else if s = Hash then unary c UnOp_Length t p
      else if s = Tilde then unary c UnOp_BitNot t p
      else if s = OpenParen then paren_prefix c t p
      else if s = OpenBrace then table c p
      else Rejected (error_at p UnexpectedSymbol))"

definition token_prefix :: "calls \<Rightarrow> token \<Rightarrow> parser \<Rightarrow> expr parsed" where
  "token_prefix c t p =
     (case tok_kind t of
        Tok_Name \<Rightarrow> name_prefix t p
      | Tok_Integer \<Rightarrow> literal_prefix t p
      | Tok_Float \<Rightarrow> literal_prefix t p
      | Tok_String \<Rightarrow> literal_prefix t p
      | Tok_Keyword k \<Rightarrow> keyword_prefix c k t p
      | Tok_Symbol s \<Rightarrow> symbol_prefix c s t p
      | Tok_Eof \<Rightarrow> Rejected (error_at p UnexpectedSymbol))"

definition prefix :: "calls \<Rightarrow> parser \<Rightarrow> expr parsed" where
  "prefix c p = pbind (reserve_node p) (\<lambda>_ p. token_prefix c (current p) p)"

subsubsection \<open>Blocks\<close>

definition at_terminator :: "keyword list \<Rightarrow> parser \<Rightarrow> bool" where
  "at_terminator terminators p \<longleftrightarrow> (\<exists>k\<in>set terminators. tok_kind (current p) = Tok_Keyword k)"

fun is_return :: "stmt \<Rightarrow> bool" where
  "is_return (St_Return _ _) = True"
| "is_return _ = False"

definition block_statements :: "calls \<Rightarrow> keyword list \<Rightarrow> stmt list \<Rightarrow> parser \<Rightarrow> stmt list parsed" where
  "block_statements c terminators statements p =
     (if eof p \<or> at_terminator terminators p then Parsed statements p
      else
        pbind (next_statement p) (\<lambda>_ p.
        pbind (c_statement c p) (\<lambda>statement p.
        if is_return statement then
          let p = snd (take_symbol Semicolon p)
          in if \<not> eof p \<and> \<not> at_terminator terminators p then Rejected (error_at p ReturnNotLast)
             else c_statements c terminators (statements @ [statement]) p
        else c_statements c terminators (statements @ [statement]) p)))"

definition block_until :: "calls \<Rightarrow> keyword list \<Rightarrow> parser \<Rightarrow> block parsed" where
  "block_until c terminators p =
     pbind (reserve_node p) (\<lambda>_ p.
     pbind (deeper p) (\<lambda>_ p.
     let start = current_span p
     in pbind (c_statements c terminators [] p) (\<lambda>statements p.
        if eof p then Rejected (error_at p MissingBlockEnd)
        else
          let p = p\<lparr>pa_depth := pa_depth p - 1\<rparr>
          in Parsed (Block statements (Some (current_span p)) (join_span start (current_span p))) p)))"

text \<open>A block and the keyword \<open>end\<close>.\<close>

definition block_end :: "calls \<Rightarrow> parser \<Rightarrow> block parsed" where
  "block_end c p =
     pbind (c_block c [Kw_End] p) (\<lambda>body p.
     pbind (expect_keyword Kw_End p) (\<lambda>_ p. Parsed body p))"

subsubsection \<open>Statements\<close>

definition label_statement :: "span \<Rightarrow> parser \<Rightarrow> stmt parsed" where
  "label_statement start p =
     (let name_span = current_span p
      in pbind (parse_name p) (\<lambda>name p.
         pbind (expect DoubleColon p) (\<lambda>_ p.
         pbind (reserve_node p) (\<lambda>_ p. Parsed (St_Label name name_span (finish start p)) p))))"

definition path_loop :: "calls \<Rightarrow> expr \<Rightarrow> parser \<Rightarrow> (expr \<times> method_name option) parsed" where
  "path_loop c value p =
     if_took (take_symbol Dot p)
       (\<lambda>p. let t = current p
          in pbind (parse_name p) (\<lambda>name.
             c_path c (Ex_Field value name (join_span (expr_span value) (tok_span t)))))
       (\<lambda>p.
     if_took (take_symbol Colon p)
       (\<lambda>p. let colon_span = previous_span p; t = current p
          in pbind (parse_name p) (\<lambda>name p.
             Parsed (Ex_Field value name (join_span (expr_span value) (tok_span t)),
               Some \<lparr>mn_name = name, mn_colon_span = colon_span, mn_span = tok_span t\<rparr>) p))
       (Parsed (value, None)))"

definition function_name :: "calls \<Rightarrow> parser \<Rightarrow> (expr \<times> method_name option) parsed" where
  "function_name c p =
     (let t = current p in pbind (parse_name p) (\<lambda>name. c_path c (Ex_Name name (tok_span t))))"

definition function_statement :: "calls \<Rightarrow> span \<Rightarrow> parser \<Rightarrow> stmt parsed" where
  "function_statement c start p =
     pbind (function_name c p) (\<lambda>(name, method) p.
     pbind (function_body c start p) (\<lambda>body p. Parsed (St_Function name method body (finish start p)) p))"

definition do_statement :: "calls \<Rightarrow> span \<Rightarrow> parser \<Rightarrow> stmt parsed" where
  "do_statement c start p = pbind (block_end c p) (\<lambda>body p. Parsed (St_Do body (finish start p)) p)"

definition while_statement :: "calls \<Rightarrow> span \<Rightarrow> parser \<Rightarrow> stmt parsed" where
  "while_statement c start p =
     pbind (c_expr c 0 p) (\<lambda>condition p.
     pbind (expect_keyword Kw_Do p) (\<lambda>_ p.
     pbind (block_end c p) (\<lambda>body p. Parsed (St_While condition body (finish start p)) p)))"

definition repeat_statement :: "calls \<Rightarrow> span \<Rightarrow> parser \<Rightarrow> stmt parsed" where
  "repeat_statement c start p =
     pbind (c_block c [Kw_Until] p) (\<lambda>body p.
     pbind (expect_keyword Kw_Until p) (\<lambda>_ p.
     pbind (c_expr c 0 p) (\<lambda>condition p. Parsed (St_Repeat body condition (finish start p)) p)))"

text \<open>A condition, \<open>then\<close> and its block.\<close>

definition clause :: "calls \<Rightarrow> parser \<Rightarrow> (expr \<times> block) parsed" where
  "clause c p =
     pbind (c_expr c 0 p) (\<lambda>condition p.
     pbind (expect_keyword Kw_Then p) (\<lambda>_ p.
     pbind (c_block c [Kw_ElseIf, Kw_Else, Kw_End] p) (\<lambda>body p. Parsed (condition, body) p)))"

definition clauses_loop :: "calls \<Rightarrow> (expr \<times> block) list \<Rightarrow> parser \<Rightarrow> (expr \<times> block) list parsed" where
  "clauses_loop c clauses p =
     if_took (take_keyword Kw_ElseIf p)
       (\<lambda>p. pbind (clause c p) (\<lambda>cl p.
          pbind (list_room clauses p) (\<lambda>_. c_clauses c (clauses @ [cl]))))
       (Parsed clauses)"

definition if_statement :: "calls \<Rightarrow> span \<Rightarrow> parser \<Rightarrow> stmt parsed" where
  "if_statement c start p =
     pbind (clause c p) (\<lambda>cl p.
     pbind (c_clauses c [cl] p) (\<lambda>clauses p.
     pbind (if_took (take_keyword Kw_Else p)
              (\<lambda>p. pbind (c_block c [Kw_End] p) (\<lambda>body p. Parsed (Some body) p)) (Parsed None)) (\<lambda>else_block p.
     pbind (expect_keyword Kw_End p) (\<lambda>_ p. Parsed (St_If clauses else_block (finish start p)) p))))"

definition for_names_loop :: "calls \<Rightarrow> local_name list \<Rightarrow> parser \<Rightarrow> local_name list parsed" where
  "for_names_loop c names p =
     if_took (take_symbol Comma p)
       (\<lambda>p. pbind (list_room names p) (\<lambda>_ p.
          let s = current_span p
          in pbind (reserve_node p) (\<lambda>_ p.
             pbind (parse_name p) (\<lambda>name.
             c_for_names c (names @ [\<lparr>ln_name = name, ln_attribute = None, ln_span = s\<rparr>])))))
       (Parsed names)"

definition numeric_for :: "calls \<Rightarrow> span \<Rightarrow> local_name \<Rightarrow> parser \<Rightarrow> stmt parsed" where
  "numeric_for c start name p =
     pbind (c_expr c 0 p) (\<lambda>initial p.
     pbind (expect Comma p) (\<lambda>_ p.
     pbind (c_expr c 0 p) (\<lambda>limit p.
     pbind (if_took (take_symbol Comma p) (\<lambda>p. pbind (c_expr c 0 p) (\<lambda>e p. Parsed (Some e) p)) (Parsed None)) (\<lambda>step p.
     pbind (expect_keyword Kw_Do p) (\<lambda>_ p.
     pbind (block_end c p) (\<lambda>body p. Parsed (St_NumericFor name initial limit step body (finish start p)) p))))))"

definition generic_for :: "calls \<Rightarrow> span \<Rightarrow> local_name \<Rightarrow> parser \<Rightarrow> stmt parsed" where
  "generic_for c start name p =
     pbind (c_for_names c [name] p) (\<lambda>names p.
     pbind (expect_keyword Kw_In p) (\<lambda>_ p.
     pbind (list_expr c p) (\<lambda>values p.
     pbind (expect_keyword Kw_Do p) (\<lambda>_ p.
     pbind (block_end c p) (\<lambda>body p. Parsed (St_GenericFor names values body (finish start p)) p)))))"

definition for_statement :: "calls \<Rightarrow> span \<Rightarrow> parser \<Rightarrow> stmt parsed" where
  "for_statement c start p =
     (let name_start = current_span p
      in pbind (parse_name p) (\<lambda>name p.
         pbind (reserve_node p) (\<lambda>_ p.
         let local = \<lparr>ln_name = name, ln_attribute = None, ln_span = name_start\<rparr>
         in if_took (take_symbol AssignSym p) (numeric_for c start local) (generic_for c start local))))"

definition ends_return :: "parser \<Rightarrow> bool" where
  "ends_return p \<longleftrightarrow> eof p \<or> tok_kind (current p) = Tok_Symbol Semicolon
     \<or> tok_kind (current p) \<in> {Tok_Keyword Kw_End, Tok_Keyword Kw_Else, Tok_Keyword Kw_ElseIf, Tok_Keyword Kw_Until}"

fun is_open :: "expr \<Rightarrow> bool" where
  "is_open (Ex_Call _ _ _) = True"
| "is_open (Ex_MethodCall _ _ _ _) = True"
| "is_open (Ex_Vararg _) = True"
| "is_open _ = False"

definition return_statement :: "calls \<Rightarrow> span \<Rightarrow> parser \<Rightarrow> stmt parsed" where
  "return_statement c start p =
     pbind (if ends_return p then Parsed [] p else list_expr c p) (\<lambda>values p.
     if pa_profile p = Lua55 \<and> 254 < length values \<and> \<not> is_open (List.last values)
     then Rejected (token_diagnostic (Some (previous p)) Diag_Parse TooManyReturns)
     else Parsed (St_Return values (finish start p)) p)"

definition goto_statement :: "span \<Rightarrow> parser \<Rightarrow> stmt parsed" where
  "goto_statement start p =
     pbind (parse_name p) (\<lambda>name p. Parsed (St_Goto name (previous_span p) (finish start p)) p)"

definition local_function :: "calls \<Rightarrow> span \<Rightarrow> parser \<Rightarrow> stmt parsed" where
  "local_function c start p =
     (let t = current p
      in pbind (parse_name p) (\<lambda>name p.
         pbind (reserve_node p) (\<lambda>_ p.
         pbind (function_body c start p) (\<lambda>body p.
         Parsed (St_LocalFunction \<lparr>ln_name = name, ln_attribute = None, ln_span = tok_span t\<rparr> body (finish start p)) p))))"

text \<open>The rest of an attribute after the opening angle.\<close>

definition attribute :: "parser \<Rightarrow> attribute parsed" where
  "attribute p =
     (let s = current_span p
      in pbind (parse_name p) (\<lambda>name p.
         pbind (expect GreaterSym p) (\<lambda>_ p. Parsed \<lparr>attr_name = name, attr_span = join_span s (previous_span p)\<rparr> p)))"

definition local_attribute :: "parser \<Rightarrow> attribute option parsed" where
  "local_attribute p =
     (if pa_profile p = Lua55 then
        if_took (take_symbol LessSym p)
          (\<lambda>p. let t = current p
             in pbind (attribute p) (\<lambda>a p.
                if attr_name a \<noteq> bs ''const'' \<and> attr_name a \<noteq> bs ''close''
                then Rejected (token_diagnostic (Some t) Diag_Parse UnknownLocalAttribute)
                else Parsed (Some a) p))
          (Parsed None)
      else Parsed None p)"

definition local_names_loop :: "calls \<Rightarrow> attribute option \<Rightarrow> local_name list \<Rightarrow> parser \<Rightarrow> local_name list parsed" where
  "local_names_loop c prefix_attribute names p =
     pbind (list_room names p) (\<lambda>_ p.
     let name_start = current_span p
     in pbind (parse_name p) (\<lambda>name p.
        pbind (if_took (take_symbol LessSym p)
                 (\<lambda>p. pbind (attribute p) (\<lambda>a p. Parsed (Some a) p)) (Parsed prefix_attribute)) (\<lambda>attr p.
        pbind (if attr \<noteq> None then reserve_node p else Parsed () p) (\<lambda>_ p.
        pbind (reserve_node p) (\<lambda>_ p.
        let names = names @ [\<lparr>ln_name = name, ln_attribute = attr, ln_span = join_span name_start (previous_span p)\<rparr>]
        in if_took (take_symbol Comma p) (c_local_names c prefix_attribute names) (Parsed names))))))"

text \<open>The values of a declaration, when it has any.\<close>

definition initial_values :: "calls \<Rightarrow> parser \<Rightarrow> expr list parsed" where
  "initial_values c p = if_took (take_symbol AssignSym p) (list_expr c) (Parsed [])"

definition local_statement :: "calls \<Rightarrow> span \<Rightarrow> parser \<Rightarrow> stmt parsed" where
  "local_statement c start p =
     if_took (take_keyword Kw_Function p) (local_function c start) (\<lambda>p.
     pbind (local_attribute p) (\<lambda>prefix_attribute p.
     pbind (c_local_names c prefix_attribute [] p) (\<lambda>names p.
     pbind (initial_values c p) (\<lambda>values p. Parsed (St_Local names values (finish start p)) p))))"

definition global_function :: "calls \<Rightarrow> span \<Rightarrow> attribute option \<Rightarrow> parser \<Rightarrow> stmt parsed" where
  "global_function c start prefix_attribute p =
     (if prefix_attribute \<noteq> None then Rejected (error_at p GlobalFunctionAttribute)
      else
        pbind (parse_name p) (\<lambda>name p.
        pbind (function_body c start p) (\<lambda>body p.
        let span = finish start p
        in pbind (reserve_node p) (\<lambda>_ p. Parsed (St_Global (Global_Function name body span) span) p))))"

definition global_names_loop :: "calls \<Rightarrow> local_name list \<Rightarrow> parser \<Rightarrow> local_name list parsed" where
  "global_names_loop c names p =
     pbind (list_room names p) (\<lambda>_ p.
     let span = current_span p
     in pbind (parse_name p) (\<lambda>name p.
        pbind (if_took (take_symbol LessSym p)
                 (\<lambda>p. pbind (attribute p) (\<lambda>a p. Parsed (Some a) p)) (Parsed None)) (\<lambda>attr p.
        pbind (reserve_node p) (\<lambda>_ p.
        let names = names @ [\<lparr>ln_name = name, ln_attribute = attr, ln_span = span\<rparr>]
        in if_took (take_symbol Comma p) (c_global_names c names) (Parsed names)))))"

definition global_statement :: "calls \<Rightarrow> span \<Rightarrow> parser \<Rightarrow> stmt parsed" where
  "global_statement c start p =
     pbind (if_took (take_symbol LessSym p) (\<lambda>p. pbind (attribute p) (\<lambda>a p. Parsed (Some a) p)) (Parsed None)) (\<lambda>prefix_attribute p.
     if_took (take_symbol Star p)
       (\<lambda>p. let span = finish start p
          in pbind (reserve_node p) (\<lambda>_ p. Parsed (St_Global (Global_Star prefix_attribute span) span) p))
       (\<lambda>p.
     if_took (take_keyword Kw_Function p) (global_function c start prefix_attribute) (\<lambda>p.
     pbind (c_global_names c [] p) (\<lambda>names p.
     pbind (initial_values c p) (\<lambda>values p.
     let span = finish start p
     in pbind (reserve_node p) (\<lambda>_ p. Parsed (St_Global (Global_Names names values prefix_attribute span) span) p))))))"

fun is_target :: "expr \<Rightarrow> bool" where
  "is_target (Ex_Name _ _) = True"
| "is_target (Ex_Field _ _ _) = True"
| "is_target (Ex_Index _ _ _) = True"
| "is_target _ = False"

fun is_call :: "expr \<Rightarrow> bool" where
  "is_call (Ex_Call _ _ _) = True"
| "is_call (Ex_MethodCall _ _ _ _) = True"
| "is_call _ = False"

definition targets_loop :: "calls \<Rightarrow> expr list \<Rightarrow> parser \<Rightarrow> expr list parsed" where
  "targets_loop c targets p =
     if_took (take_symbol Comma p)
       (\<lambda>p. pbind (list_room targets p) (\<lambda>_ p.
          pbind (c_expr c 0 p) (\<lambda>e. c_targets c (targets @ [e]))))
       (Parsed targets)"

definition expr_statement :: "calls \<Rightarrow> span \<Rightarrow> parser \<Rightarrow> stmt parsed" where
  "expr_statement c start p =
     pbind (c_expr c 0 p) (\<lambda>first p.
     pbind (c_targets c [first] p) (\<lambda>targets p.
     if_took (take_symbol AssignSym p)
       (\<lambda>p. pbind (list_expr c p) (\<lambda>values p.
          if \<exists>target\<in>set targets. \<not> is_target target then Rejected (error_at p NotAssignable)
          else Parsed (St_Assignment targets values (finish start p)) p))
       (\<lambda>p.
     if length targets \<noteq> 1 then Rejected (error_at p NotAStatement)
     else if is_call (List.last targets) then Parsed (St_Call (List.last targets) (finish start p)) p
     else Rejected (error_at p NotAStatement))))"

definition statement :: "calls \<Rightarrow> parser \<Rightarrow> stmt parsed" where
  "statement c p =
     pbind (reserve_node p) (\<lambda>_ p.
     let start = current_span p
     in if_took (take_symbol DoubleColon p) (label_statement start) (\<lambda>p.
        if_took (take_keyword Kw_Function p) (function_statement c start) (\<lambda>p.
        if_took (take_keyword Kw_Do p) (do_statement c start) (\<lambda>p.
        if_took (take_keyword Kw_While p) (while_statement c start) (\<lambda>p.
        if_took (take_keyword Kw_Repeat p) (repeat_statement c start) (\<lambda>p.
        if_took (take_keyword Kw_If p) (if_statement c start) (\<lambda>p.
        if_took (take_keyword Kw_For p) (for_statement c start) (\<lambda>p.
        if_took (take_keyword Kw_Return p) (return_statement c start) (\<lambda>p.
        if_took (take_keyword Kw_Break p) (\<lambda>p. Parsed (St_Break (finish start p)) p) (\<lambda>p.
        if_took (take_keyword Kw_Goto p) (goto_statement start) (\<lambda>p.
        if_took (take_symbol Semicolon p) (Parsed (St_Empty start)) (\<lambda>p.
        if_took (take_keyword Kw_Local p) (local_statement c start) (\<lambda>p.
        if_took (take_keyword Kw_Global p) (global_statement c start) (expr_statement c start))))))))))))))"

subsubsection \<open>Modules\<close>

definition module_statements :: "calls \<Rightarrow> stmt list \<Rightarrow> parser \<Rightarrow> stmt list parsed" where
  "module_statements c statements p =
     (if eof p then Parsed statements p
      else
        pbind (next_statement p) (\<lambda>_ p.
        pbind (c_statement c p) (\<lambda>statement p.
        if is_return statement then
          let p = snd (take_symbol Semicolon p)
          in if \<not> eof p then Rejected (error_at p ReturnNotLast) else c_module c (statements @ [statement]) p
        else c_module c (statements @ [statement]) p)))"

definition parse_module :: "calls \<Rightarrow> lua_profile \<Rightarrow> nat \<Rightarrow> parser \<Rightarrow> module parsed" where
  "parse_module c profile len p =
     pbind (reserve_node p) (\<lambda>_ p.
     pbind (c_module c [] p) (\<lambda>statements p.
     pbind (reserve_node p) (\<lambda>_ p.
     let span = \<lparr>span_start = 0, span_end = len\<rparr>
     in Parsed \<lparr>mod_profile = profile, mod_span = span, mod_root = Block statements None span\<rparr> p)))"

subsection \<open>Tying the knot\<close>

primrec parsers :: "nat \<Rightarrow> calls" where
  "parsers 0 = \<lparr>c_statement = \<lambda>_. Unfinished, c_block = \<lambda>_ _. Unfinished, c_statements = \<lambda>_ _ _. Unfinished,
     c_module = \<lambda>_ _. Unfinished, c_clauses = \<lambda>_ _. Unfinished, c_for_names = \<lambda>_ _. Unfinished,
     c_local_names = \<lambda>_ _ _. Unfinished, c_global_names = \<lambda>_ _. Unfinished, c_targets = \<lambda>_ _. Unfinished,
     c_list = \<lambda>_ _. Unfinished, c_expr = \<lambda>_ _. Unfinished, c_binary = \<lambda>_ _ _. Unfinished, c_postfix = \<lambda>_ _. Unfinished,
     c_prefix = \<lambda>_. Unfinished, c_fields = \<lambda>_ _. Unfinished, c_path = \<lambda>_ _. Unfinished, c_params = \<lambda>_ _. Unfinished\<rparr>"
| "parsers (Suc n) = \<lparr>c_statement = statement (parsers n), c_block = block_until (parsers n),
     c_statements = block_statements (parsers n), c_module = module_statements (parsers n),
     c_clauses = clauses_loop (parsers n), c_for_names = for_names_loop (parsers n),
     c_local_names = local_names_loop (parsers n), c_global_names = global_names_loop (parsers n),
     c_targets = targets_loop (parsers n), c_list = list_loop (parsers n), c_expr = expr (parsers n),
     c_binary = expr_binary (parsers n), c_postfix = postfix (parsers n), c_prefix = prefix (parsers n),
     c_fields = table_fields (parsers n), c_path = path_loop (parsers n), c_params = params_loop (parsers n)\<rparr>"

definition parser_start :: "lexed_chunk \<Rightarrow> lua_profile \<Rightarrow> compile_limits \<Rightarrow> parser" where
  "parser_start chunk profile limits =
     \<lparr>pa_tokens = tokens chunk, pa_index = 0, pa_limits = limits, pa_nodes = 0, pa_depth = 0, pa_statements = 0,
      pa_profile = profile\<rparr>"

text \<open>The count of nodes, which \<open>parse_with_metrics\<close> returns beside the module, is in the parser of the result.\<close>

definition parse_with_metrics :: "nat \<Rightarrow> lexed_chunk \<Rightarrow> lua_profile \<Rightarrow> compile_limits \<Rightarrow> module parsed" where
  "parse_with_metrics fuel chunk expected_profile limits =
     (if tokens chunk = [] then Rejected (token_diagnostic None Diag_Parse MissingEof)
      else if chunk_profile chunk \<noteq> expected_profile
      then Rejected (token_diagnostic (Some (tokens chunk ! 0)) Diag_Parse ProfileMismatch)
      else parse_module (parsers fuel) expected_profile (source_len chunk) (parser_start chunk expected_profile limits))"

end
