(* ===== verification/Grammar.thy ===== *)
theory Grammar
  imports Parser
begin

text \<open>
  The grammar of Lua as relations between lists of tokens and syntax trees: which tokens spell a tree, with
  the precedence and associativity of operators, the statement \<open>return\<close> last in its block, and the span of
  every node given by its tokens. It does not mention the parser, whose results are shown to be derivations. The flag
  \<open>lib\<close> admits what the parser accepts beyond Lua: an empty list of values after \<open>=\<close>, and a comma
  before the parenthesis that closes a list of parameters.
\<close>

definition sym :: "symbol \<Rightarrow> token \<Rightarrow> bool" where
  "sym s t \<longleftrightarrow> tok_kind t = Tok_Symbol s"

definition kw :: "keyword \<Rightarrow> token \<Rightarrow> bool" where
  "kw k t \<longleftrightarrow> tok_kind t = Tok_Keyword k"

definition name_token :: "bytes \<Rightarrow> token \<Rightarrow> bool" where
  "name_token n t \<longleftrightarrow> tok_kind t = Tok_Name \<and> tok_literal t = Some (Lit_Name n)"

definition operator :: "token \<Rightarrow> (binary_op \<times> nat \<times> bool) option" where
  "operator t =
     (case tok_kind t of Tok_Symbol s \<Rightarrow> symbol_operator s | Tok_Keyword k \<Rightarrow> keyword_operator k | _ \<Rightarrow> None)"

definition unary_operator :: "token \<Rightarrow> unary_op option" where
  "unary_operator t =
     (if sym Minus t then Some UnOp_Negate else if kw Kw_Not t then Some UnOp_Not
      else if sym Hash t then Some UnOp_Length else if sym Tilde t then Some UnOp_BitNot else None)"

fun is_unary :: "expr \<Rightarrow> bool" where
  "is_unary (Ex_Unary _ _ _) = True"
| "is_unary _ = False"

abbreviation join_tokens :: "token \<Rightarrow> token \<Rightarrow> span" where
  "join_tokens a b \<equiv> join_span (tok_span a) (tok_span b)"

definition plain_name :: "bytes \<Rightarrow> token \<Rightarrow> local_name" where
  "plain_name n t = \<lparr>ln_name = n, ln_attribute = None, ln_span = tok_span t\<rparr>"

text \<open>The block with the tokens \<open>ts\<close> that the keyword \<open>z\<close> ends.\<close>

definition block_node :: "token list \<Rightarrow> stmt list \<Rightarrow> token \<Rightarrow> block" where
  "block_node ts sts z = Block sts (Some (tok_span z)) (join_tokens (hd (ts @ [z])) z)"

subsection \<open>Names\<close>

inductive g_dotted :: "token list \<Rightarrow> expr \<Rightarrow> bool" where
  dotted_name: "name_token n t \<Longrightarrow> g_dotted [t] (Ex_Name n (tok_span t))"
| dotted_field: "g_dotted ts e \<Longrightarrow> sym Dot d \<Longrightarrow> name_token n t \<Longrightarrow>
    g_dotted (ts @ [d, t]) (Ex_Field e n (join_span (expr_span e) (tok_span t)))"

inductive g_path :: "token list \<Rightarrow> expr \<Rightarrow> method_name option \<Rightarrow> bool" where
  path_plain: "g_dotted ts e \<Longrightarrow> g_path ts e None"
| path_method: "g_dotted ts e \<Longrightarrow> sym Colon d \<Longrightarrow> name_token n t \<Longrightarrow>
    g_path (ts @ [d, t]) (Ex_Field e n (join_span (expr_span e) (tok_span t)))
      (Some \<lparr>mn_name = n, mn_colon_span = tok_span d, mn_span = tok_span t\<rparr>)"

text \<open>An attribute in angles.\<close>

inductive g_attribute :: "token list \<Rightarrow> attribute \<Rightarrow> bool" where
  attribute: "sym LessSym a \<Longrightarrow> name_token n t \<Longrightarrow> sym GreaterSym z \<Longrightarrow>
    g_attribute [a, t, z] \<lparr>attr_name = n, attr_span = join_tokens t z\<rparr>"

inductive g_optional_attribute :: "token list \<Rightarrow> attribute option \<Rightarrow> bool" where
  no_attribute: "g_optional_attribute [] None"
| some_attribute: "g_attribute ts a \<Longrightarrow> g_optional_attribute ts (Some a)"

text \<open>A prefix attribute of a local declaration: Lua 5.5 only, and one of the two known ones.\<close>

definition local_prefix_ok :: "lua_profile \<Rightarrow> attribute option \<Rightarrow> bool" where
  "local_prefix_ok prof pre \<longleftrightarrow>
     (case pre of None \<Rightarrow> True | Some a \<Rightarrow> prof = Lua55 \<and> (attr_name a = bs ''const'' \<or> attr_name a = bs ''close''))"

text \<open>The prefix attribute holds for the names that have none of their own.\<close>

definition own_or :: "attribute option \<Rightarrow> attribute option \<Rightarrow> attribute option" where
  "own_or pre own = (if own = None then pre else own)"

inductive g_local_name :: "attribute option \<Rightarrow> token list \<Rightarrow> local_name \<Rightarrow> bool" for pre where
  local_name: "name_token n t \<Longrightarrow> g_optional_attribute ts own \<Longrightarrow>
    g_local_name pre (t # ts)
      \<lparr>ln_name = n, ln_attribute = own_or pre own, ln_span = join_tokens t (last (t # ts))\<rparr>"

inductive g_local_names :: "attribute option \<Rightarrow> token list \<Rightarrow> local_name list \<Rightarrow> bool" for pre where
  local_one: "g_local_name pre ts n \<Longrightarrow> g_local_names pre ts [n]"
| local_more: "g_local_name pre ts n \<Longrightarrow> sym Comma c \<Longrightarrow> g_local_names pre us ns \<Longrightarrow> g_local_names pre (ts @ c # us) (n # ns)"

inductive g_global_names :: "token list \<Rightarrow> local_name list \<Rightarrow> bool" where
  global_one: "name_token n t \<Longrightarrow> g_optional_attribute ts a \<Longrightarrow>
    g_global_names (t # ts) [\<lparr>ln_name = n, ln_attribute = a, ln_span = tok_span t\<rparr>]"
| global_more: "name_token n t \<Longrightarrow> g_optional_attribute ts a \<Longrightarrow> sym Comma c \<Longrightarrow> g_global_names us ns \<Longrightarrow>
    g_global_names (t # ts @ c # us) (\<lparr>ln_name = n, ln_attribute = a, ln_span = tok_span t\<rparr> # ns)"

text \<open>Further names of a generic \<open>for\<close>, each after a comma.\<close>

inductive g_for_names :: "token list \<Rightarrow> local_name list \<Rightarrow> bool" where
  for_none: "g_for_names [] []"
| for_more: "sym Comma c \<Longrightarrow> name_token n t \<Longrightarrow> g_for_names us ns \<Longrightarrow> g_for_names (c # t # us) (plain_name n t # ns)"

text \<open>The parameters of a function with the closing parenthesis.\<close>

inductive g_params :: "bool \<Rightarrow> lua_profile \<Rightarrow> token list \<Rightarrow> local_name list \<Rightarrow> vararg option \<Rightarrow> bool" for lib prof where
  params_none: "sym CloseParen z \<Longrightarrow> g_params lib prof [z] [] None"
| params_last: "name_token n t \<Longrightarrow> sym CloseParen z \<Longrightarrow> g_params lib prof [t, z] [plain_name n t] None"
| params_more: "name_token n t \<Longrightarrow> sym Comma c \<Longrightarrow> g_params lib prof us ps va \<Longrightarrow> ps \<noteq> [] \<or> va \<noteq> None \<or> lib \<Longrightarrow>
    g_params lib prof (t # c # us) (plain_name n t # ps) va"
| params_vararg: "sym Vararg t \<Longrightarrow> sym CloseParen z \<Longrightarrow>
    g_params lib prof [t, z] [] (Some \<lparr>va_table_name = None, va_span = tok_span t\<rparr>)"
| params_named: "named_vararg (rules prof) \<Longrightarrow> sym Vararg t \<Longrightarrow> name_token n s \<Longrightarrow> sym CloseParen z \<Longrightarrow>
    g_params lib prof [t, s, z] [] (Some \<lparr>va_table_name = Some (plain_name n s), va_span = tok_span t\<rparr>)"

subsection \<open>Expressions and statements\<close>

inductive
  g_expr :: "bool \<Rightarrow> lua_profile \<Rightarrow> nat \<Rightarrow> token list \<Rightarrow> expr \<Rightarrow> bool" and
  g_suffixed :: "bool \<Rightarrow> lua_profile \<Rightarrow> token list \<Rightarrow> expr \<Rightarrow> bool" and
  g_atom :: "bool \<Rightarrow> lua_profile \<Rightarrow> token list \<Rightarrow> expr \<Rightarrow> bool" and
  g_exprs :: "bool \<Rightarrow> lua_profile \<Rightarrow> token list \<Rightarrow> expr list \<Rightarrow> bool" and
  g_optional_exprs :: "bool \<Rightarrow> lua_profile \<Rightarrow> token list \<Rightarrow> expr list \<Rightarrow> bool" and
  g_values :: "bool \<Rightarrow> lua_profile \<Rightarrow> token list \<Rightarrow> expr list \<Rightarrow> bool" and
  g_initial :: "bool \<Rightarrow> lua_profile \<Rightarrow> token list \<Rightarrow> expr list \<Rightarrow> bool" and
  g_field :: "bool \<Rightarrow> lua_profile \<Rightarrow> token list \<Rightarrow> table_field \<Rightarrow> bool" and
  g_fields :: "bool \<Rightarrow> lua_profile \<Rightarrow> token list \<Rightarrow> table_field list \<Rightarrow> bool" and
  g_body :: "bool \<Rightarrow> lua_profile \<Rightarrow> span \<Rightarrow> token list \<Rightarrow> function_body \<Rightarrow> bool" and
  g_clause :: "bool \<Rightarrow> lua_profile \<Rightarrow> token \<Rightarrow> token list \<Rightarrow> expr \<times> block \<Rightarrow> bool" and
  g_clauses :: "bool \<Rightarrow> lua_profile \<Rightarrow> token \<Rightarrow> token list \<Rightarrow> (expr \<times> block) list \<Rightarrow> bool" and
  g_step :: "bool \<Rightarrow> lua_profile \<Rightarrow> token list \<Rightarrow> expr option \<Rightarrow> bool" and
  g_stmt :: "bool \<Rightarrow> lua_profile \<Rightarrow> token list \<Rightarrow> stmt \<Rightarrow> bool" and
  g_stmts :: "bool \<Rightarrow> lua_profile \<Rightarrow> token list \<Rightarrow> stmt list \<Rightarrow> bool"
  for lib prof
where
  expr_suffixed: "g_suffixed lib prof ts e \<Longrightarrow> g_expr lib prof m ts e"
| expr_unary: "unary_operator t = Some u \<Longrightarrow> g_expr lib prof 12 ts e \<Longrightarrow>
    g_expr lib prof m (t # ts) (Ex_Unary u e (join_span (tok_span t) (expr_span e)))"
| expr_binary: "operator t = Some (op, prec, right) \<Longrightarrow> m \<le> prec \<Longrightarrow>
    g_expr lib prof (if right then Suc prec else prec) ls l \<Longrightarrow> is_unary l \<longrightarrow> prec < 12 \<Longrightarrow>
    g_expr lib prof (if right then prec else Suc prec) rs r \<Longrightarrow>
    g_expr lib prof m (ls @ t # rs) (Ex_Binary op l r (join_span (expr_span l) (expr_span r)))"

| suffixed_atom: "g_atom lib prof ts e \<Longrightarrow> g_suffixed lib prof ts e"
| suffixed_call: "g_suffixed lib prof us b \<Longrightarrow> is_prefix_expr b \<Longrightarrow> sym OpenParen a \<Longrightarrow> g_optional_exprs lib prof ts es \<Longrightarrow>
    sym CloseParen z \<Longrightarrow> g_suffixed lib prof (us @ a # ts @ [z]) (Ex_Call b es (join_span (expr_span b) (tok_span z)))"
| suffixed_argument: "g_suffixed lib prof us b \<Longrightarrow> is_prefix_expr b \<Longrightarrow> starts_argument (tok_kind (hd ts)) \<Longrightarrow> g_atom lib prof ts e \<Longrightarrow>
    g_suffixed lib prof (us @ ts) (Ex_Call b [e] (join_span (expr_span b) (expr_span e)))"
| suffixed_field: "g_suffixed lib prof us b \<Longrightarrow> is_prefix_expr b \<Longrightarrow> sym Dot d \<Longrightarrow> name_token n t \<Longrightarrow>
    g_suffixed lib prof (us @ [d, t]) (Ex_Field b n (join_span (expr_span b) (tok_span t)))"
| suffixed_index: "g_suffixed lib prof us b \<Longrightarrow> is_prefix_expr b \<Longrightarrow> sym OpenBracket a \<Longrightarrow> g_expr lib prof 0 ts e \<Longrightarrow>
    sym CloseBracket z \<Longrightarrow> g_suffixed lib prof (us @ a # ts @ [z]) (Ex_Index b e (join_span (expr_span b) (tok_span z)))"
| suffixed_method: "g_suffixed lib prof us b \<Longrightarrow> is_prefix_expr b \<Longrightarrow> sym Colon d \<Longrightarrow> name_token n t \<Longrightarrow> sym OpenParen a \<Longrightarrow>
    g_optional_exprs lib prof ts es \<Longrightarrow> sym CloseParen z \<Longrightarrow>
    g_suffixed lib prof (us @ d # t # a # ts @ [z]) (Ex_MethodCall b n es (join_span (expr_span b) (tok_span z)))"
| suffixed_method_argument: "g_suffixed lib prof us b \<Longrightarrow> is_prefix_expr b \<Longrightarrow> sym Colon d \<Longrightarrow> name_token n t \<Longrightarrow>
    starts_argument (tok_kind (hd ts)) \<Longrightarrow> g_atom lib prof ts e \<Longrightarrow>
    g_suffixed lib prof (us @ d # t # ts) (Ex_MethodCall b n [e] (join_span (expr_span b) (tok_span (last ts))))"

| atom_literal: "tok_kind t \<in> {Tok_Integer, Tok_Float, Tok_String} \<Longrightarrow> tok_literal t = Some l \<Longrightarrow>
    g_atom lib prof [t] (Ex_Literal l (tok_span t))"
| atom_name: "name_token n t \<Longrightarrow> g_atom lib prof [t] (Ex_Name n (tok_span t))"
| atom_nil: "kw Kw_Nil t \<Longrightarrow> g_atom lib prof [t] (Ex_Nil (tok_span t))"
| atom_true: "kw Kw_True t \<Longrightarrow> g_atom lib prof [t] (Ex_Bool True (tok_span t))"
| atom_false: "kw Kw_False t \<Longrightarrow> g_atom lib prof [t] (Ex_Bool False (tok_span t))"
| atom_vararg: "sym Vararg t \<Longrightarrow> g_atom lib prof [t] (Ex_Vararg (tok_span t))"
| atom_paren: "sym OpenParen a \<Longrightarrow> g_expr lib prof 0 ts e \<Longrightarrow> sym CloseParen z \<Longrightarrow>
    g_atom lib prof (a # ts @ [z]) (Ex_Paren e (join_tokens a z))"
| atom_table: "sym OpenBrace a \<Longrightarrow> g_fields lib prof ts fs \<Longrightarrow>
    g_atom lib prof (a # ts) (Ex_TableConstructor fs (join_tokens a (last ts)))"
| atom_function: "kw Kw_Function a \<Longrightarrow> g_body lib prof (tok_span a) ts b \<Longrightarrow>
    g_atom lib prof (a # ts) (Ex_Function b (join_tokens a (last ts)))"

| exprs_one: "g_expr lib prof 0 ts e \<Longrightarrow> g_exprs lib prof ts [e]"
| exprs_more: "g_expr lib prof 0 ts e \<Longrightarrow> sym Comma c \<Longrightarrow> g_exprs lib prof us es \<Longrightarrow> g_exprs lib prof (ts @ c # us) (e # es)"

| optional_none: "g_optional_exprs lib prof [] []"
| optional_some: "g_exprs lib prof ts es \<Longrightarrow> g_optional_exprs lib prof ts es"

| values_list: "g_exprs lib prof ts es \<Longrightarrow> g_values lib prof ts es"
| values_empty: "lib \<Longrightarrow> g_values lib prof [] []"

| initial_none: "g_initial lib prof [] []"
| initial_values: "sym AssignSym t \<Longrightarrow> g_values lib prof ts es \<Longrightarrow> g_initial lib prof (t # ts) es"

| field_array: "g_expr lib prof 0 ts e \<Longrightarrow> g_field lib prof ts (Field_Array e None (join_span (tok_span (hd ts)) (expr_span e)))"
| field_named: "name_token n t \<Longrightarrow> sym AssignSym s \<Longrightarrow> g_expr lib prof 0 ts e \<Longrightarrow>
    g_field lib prof (t # s # ts) (Field_Named n e None (join_span (tok_span t) (expr_span e)))"
| field_indexed: "sym OpenBracket a \<Longrightarrow> g_expr lib prof 0 ks k \<Longrightarrow> sym CloseBracket z \<Longrightarrow> sym AssignSym s \<Longrightarrow> g_expr lib prof 0 ts e \<Longrightarrow>
    g_field lib prof (a # ks @ z # s # ts) (Field_Indexed k e None (join_span (tok_span a) (expr_span e)))"

| fields_close: "sym CloseBrace z \<Longrightarrow> g_fields lib prof [z] []"
| fields_last: "g_field lib prof ts f \<Longrightarrow> sym CloseBrace z \<Longrightarrow> g_fields lib prof (ts @ [z]) [f]"
| fields_comma: "g_field lib prof ts f \<Longrightarrow> sym Comma s \<Longrightarrow> g_fields lib prof us fs \<Longrightarrow>
    g_fields lib prof (ts @ s # us) (set_separator f Sep_Comma # fs)"
| fields_semicolon: "g_field lib prof ts f \<Longrightarrow> sym Semicolon s \<Longrightarrow> g_fields lib prof us fs \<Longrightarrow>
    g_fields lib prof (ts @ s # us) (set_separator f Sep_Semicolon # fs)"

| body: "sym OpenParen a \<Longrightarrow> g_params lib prof ps names va \<Longrightarrow> g_stmts lib prof ts sts \<Longrightarrow> kw Kw_End z \<Longrightarrow>
    g_body lib prof start (a # ps @ ts @ [z]) (FunctionBody names va (block_node ts sts z) (join_span start (tok_span z)))"

| clause: "g_expr lib prof 0 cs e \<Longrightarrow> kw Kw_Then t \<Longrightarrow> g_stmts lib prof ts sts \<Longrightarrow>
    g_clause lib prof z (cs @ t # ts) (e, block_node ts sts z)"
| clauses_last: "g_clause lib prof z ts cl \<Longrightarrow> g_clauses lib prof z ts [cl]"
| clauses_more: "g_clause lib prof y ts cl \<Longrightarrow> kw Kw_ElseIf y \<Longrightarrow> g_clauses lib prof z us cls \<Longrightarrow>
    g_clauses lib prof z (ts @ y # us) (cl # cls)"

| step_none: "g_step lib prof [] None"
| step_some: "sym Comma c \<Longrightarrow> g_expr lib prof 0 ts e \<Longrightarrow> g_step lib prof (c # ts) (Some e)"

| stmt_label: "sym DoubleColon a \<Longrightarrow> name_token n t \<Longrightarrow> sym DoubleColon z \<Longrightarrow>
    g_stmt lib prof [a, t, z] (St_Label n (tok_span t) (join_tokens a z))"
| stmt_function: "kw Kw_Function a \<Longrightarrow> g_path ps e method \<Longrightarrow> g_body lib prof (tok_span a) ts b \<Longrightarrow>
    g_stmt lib prof (a # ps @ ts) (St_Function e method b (join_tokens a (last ts)))"
| stmt_do: "kw Kw_Do a \<Longrightarrow> g_stmts lib prof ts sts \<Longrightarrow> kw Kw_End z \<Longrightarrow>
    g_stmt lib prof (a # ts @ [z]) (St_Do (block_node ts sts z) (join_tokens a z))"
| stmt_while: "kw Kw_While a \<Longrightarrow> g_expr lib prof 0 cs e \<Longrightarrow> kw Kw_Do d \<Longrightarrow> g_stmts lib prof ts sts \<Longrightarrow> kw Kw_End z \<Longrightarrow>
    g_stmt lib prof (a # cs @ d # ts @ [z]) (St_While e (block_node ts sts z) (join_tokens a z))"
| stmt_repeat: "kw Kw_Repeat a \<Longrightarrow> g_stmts lib prof ts sts \<Longrightarrow> kw Kw_Until u \<Longrightarrow> g_expr lib prof 0 cs e \<Longrightarrow>
    g_stmt lib prof (a # ts @ u # cs) (St_Repeat (block_node ts sts u) e (join_tokens a (last cs)))"
| stmt_if: "kw Kw_If a \<Longrightarrow> g_clauses lib prof z ts cls \<Longrightarrow> kw Kw_End z \<Longrightarrow>
    g_stmt lib prof (a # ts @ [z]) (St_If cls None (join_tokens a z))"
| stmt_if_else: "kw Kw_If a \<Longrightarrow> g_clauses lib prof y ts cls \<Longrightarrow> kw Kw_Else y \<Longrightarrow> g_stmts lib prof us sts \<Longrightarrow> kw Kw_End z \<Longrightarrow>
    g_stmt lib prof (a # ts @ y # us @ [z]) (St_If cls (Some (block_node us sts z)) (join_tokens a z))"
| stmt_numeric_for: "kw Kw_For a \<Longrightarrow> name_token n t \<Longrightarrow> sym AssignSym s \<Longrightarrow> g_expr lib prof 0 is i \<Longrightarrow> sym Comma c \<Longrightarrow>
    g_expr lib prof 0 ls l \<Longrightarrow> g_step lib prof ss step \<Longrightarrow> kw Kw_Do d \<Longrightarrow> g_stmts lib prof ts sts \<Longrightarrow> kw Kw_End z \<Longrightarrow>
    g_stmt lib prof (a # t # s # is @ c # ls @ ss @ d # ts @ [z])
      (St_NumericFor (plain_name n t) i l step (block_node ts sts z) (join_tokens a z))"
| stmt_generic_for: "kw Kw_For a \<Longrightarrow> name_token n t \<Longrightarrow> g_for_names ns names \<Longrightarrow> kw Kw_In i \<Longrightarrow> g_exprs lib prof vs es \<Longrightarrow>
    kw Kw_Do d \<Longrightarrow> g_stmts lib prof ts sts \<Longrightarrow> kw Kw_End z \<Longrightarrow>
    g_stmt lib prof (a # t # ns @ i # vs @ d # ts @ [z])
      (St_GenericFor (plain_name n t # names) es (block_node ts sts z) (join_tokens a z))"
| stmt_return: "kw Kw_Return a \<Longrightarrow> g_optional_exprs lib prof ts es \<Longrightarrow> prof = Lua55 \<longrightarrow> length es \<le> 254 \<or> is_open (last es) \<Longrightarrow>
    g_stmt lib prof (a # ts) (St_Return es (join_tokens a (last (a # ts))))"
| stmt_break: "kw Kw_Break a \<Longrightarrow> g_stmt lib prof [a] (St_Break (join_tokens a a))"
| stmt_goto: "kw Kw_Goto a \<Longrightarrow> name_token n t \<Longrightarrow> g_stmt lib prof [a, t] (St_Goto n (tok_span t) (join_tokens a t))"
| stmt_empty: "sym Semicolon a \<Longrightarrow> g_stmt lib prof [a] (St_Empty (tok_span a))"
| stmt_local_function: "kw Kw_Local a \<Longrightarrow> kw Kw_Function f \<Longrightarrow> name_token n t \<Longrightarrow> g_body lib prof (tok_span a) ts b \<Longrightarrow>
    g_stmt lib prof (a # f # t # ts) (St_LocalFunction (plain_name n t) b (join_tokens a (last ts)))"
| stmt_local: "kw Kw_Local a \<Longrightarrow> g_optional_attribute ps pre \<Longrightarrow> local_prefix_ok prof pre \<Longrightarrow> g_local_names pre ns names \<Longrightarrow>
    g_initial lib prof vs es \<Longrightarrow>
    g_stmt lib prof (a # ps @ ns @ vs) (St_Local names es (join_tokens a (last (ns @ vs))))"
| stmt_global_star: "kw Kw_Global a \<Longrightarrow> g_optional_attribute ps pre \<Longrightarrow> sym Star s \<Longrightarrow>
    g_stmt lib prof (a # ps @ [s]) (St_Global (Global_Star pre (join_tokens a s)) (join_tokens a s))"
| stmt_global_function: "kw Kw_Global a \<Longrightarrow> kw Kw_Function f \<Longrightarrow> name_token n t \<Longrightarrow> g_body lib prof (tok_span a) ts b \<Longrightarrow>
    g_stmt lib prof (a # f # t # ts) (St_Global (Global_Function n b (join_tokens a (last ts))) (join_tokens a (last ts)))"
| stmt_global_names: "kw Kw_Global a \<Longrightarrow> g_optional_attribute ps pre \<Longrightarrow> g_global_names ns names \<Longrightarrow> g_initial lib prof vs es \<Longrightarrow>
    g_stmt lib prof (a # ps @ ns @ vs)
      (St_Global (Global_Names names es pre (join_tokens a (last (ns @ vs)))) (join_tokens a (last (ns @ vs))))"
| stmt_assignment: "g_exprs lib prof ts es \<Longrightarrow> list_all is_target es \<Longrightarrow> sym AssignSym s \<Longrightarrow> g_values lib prof us vs \<Longrightarrow>
    g_stmt lib prof (ts @ s # us) (St_Assignment es vs (join_tokens (hd ts) (last (s # us))))"
| stmt_call: "g_suffixed lib prof ts e \<Longrightarrow> is_call e \<Longrightarrow> g_stmt lib prof ts (St_Call e (join_tokens (hd ts) (last ts)))"

| stmts_none: "g_stmts lib prof [] []"
| stmts_more: "g_stmt lib prof ts s \<Longrightarrow> \<not> is_return s \<Longrightarrow> g_stmts lib prof us ss \<Longrightarrow> g_stmts lib prof (ts @ us) (s # ss)"
| stmts_return: "g_stmt lib prof ts s \<Longrightarrow> is_return s \<Longrightarrow> g_stmts lib prof ts [s]"
| stmts_return_semicolon: "g_stmt lib prof ts s \<Longrightarrow> is_return s \<Longrightarrow> sym Semicolon z \<Longrightarrow> g_stmts lib prof (ts @ [z]) [s]"

text \<open>A chunk: statements up to the end marker.\<close>

definition g_chunk :: "bool \<Rightarrow> lexed_chunk \<Rightarrow> module \<Rightarrow> bool" where
  "g_chunk lib chunk m \<longleftrightarrow>
     (\<exists>sts. g_stmts lib (chunk_profile chunk) (butlast (tokens chunk)) sts \<and> tok_kind (last (tokens chunk)) = Tok_Eof
        \<and> m = (let span = \<lparr>span_start = 0, span_end = source_len chunk\<rparr>
               in \<lparr>mod_profile = chunk_profile chunk, mod_span = span, mod_root = Block sts None span\<rparr>))"

text \<open>Streams without the two sequences that only the liberal grammar allows.\<close>

definition strict_pair :: "token \<Rightarrow> token \<Rightarrow> bool" where
  "strict_pair a b \<longleftrightarrow> \<not> (sym AssignSym a \<and> tok_kind b = Tok_Eof) \<and> \<not> (sym Comma a \<and> sym CloseParen b)"

fun strict_tokens :: "token list \<Rightarrow> bool" where
  "strict_tokens (a # b # ts) \<longleftrightarrow> strict_pair a b \<and> strict_tokens (b # ts)"
| "strict_tokens _ \<longleftrightarrow> True"

inductive_cases g_expr_call [elim]: "g_expr lib prof m ts (Ex_Call b es sp)"
inductive_cases g_expr_method_call [elim]: "g_expr lib prof m ts (Ex_MethodCall b n es sp)"

end
