(* ===== verification/Parser_Rules.thy ===== *)
theory Parser_Rules
  imports Grammar Lexer_Spec
begin

text \<open>
  The rules by which results of the parser are shown to meet a specification: positions in a stream of tokens and the
  tokens passed between two of them, the invariant of a parser, and one rule for each way in which the methods compose.
\<close>

subsection \<open>Streams and positions\<close>

fun literal_ok :: "token \<Rightarrow> bool" where
  "literal_ok t \<longleftrightarrow> (tok_kind t = Tok_Name \<longrightarrow> (\<exists>n. tok_literal t = Some (Lit_Name n)))
     \<and> (tok_kind t \<in> {Tok_Integer, Tok_Float, Tok_String} \<longrightarrow> tok_literal t \<noteq> None)"

text \<open>What the lexer promises: one end marker, at the end, and literals that carry their payload.\<close>

definition token_stream :: "token list \<Rightarrow> bool" where
  "token_stream ts \<longleftrightarrow> ts \<noteq> [] \<and> tok_kind (last ts) = Tok_Eof \<and> (\<forall>t\<in>set (butlast ts). tok_kind t \<noteq> Tok_Eof)
     \<and> (\<forall>t\<in>set ts. literal_ok t)"

text \<open>The invariant of a parser: its position is inside the stream, and its counters are within the limits.\<close>

definition parser_ok :: "bool \<Rightarrow> lua_profile \<Rightarrow> parser \<Rightarrow> bool" where
  "parser_ok lib prof p \<longleftrightarrow> pa_profile p = prof \<and> token_stream (pa_tokens p) \<and> pa_index p < length (pa_tokens p)
     \<and> (lib \<or> strict_tokens (pa_tokens p)) \<and> pa_nodes p \<le> max_ast_nodes (pa_limits p)
     \<and> pa_statements p \<le> max_statements (pa_limits p) \<and> pa_depth p \<le> max_parse_depth (pa_limits p)"

definition remaining :: "parser \<Rightarrow> nat" where
  "remaining p = length (pa_tokens p) - pa_index p"

text \<open>A parser passes over tokens, to another position of the same stream.\<close>

definition passes :: "parser \<Rightarrow> token list \<Rightarrow> parser \<Rightarrow> bool" where
  "passes p ts p' \<longleftrightarrow> pa_tokens p' = pa_tokens p \<and> pa_limits p' = pa_limits p \<and> pa_profile p' = pa_profile p
     \<and> pa_depth p' = pa_depth p \<and> drop (pa_index p) (pa_tokens p) = ts @ drop (pa_index p') (pa_tokens p)
     \<and> pa_index p' = pa_index p + length ts"

lemma passes_refl [simp]: "passes p [] p"
  by (simp add: passes_def)

lemma passes_trans: "passes p ts p1 \<Longrightarrow> passes p1 us p2 \<Longrightarrow> passes p (ts @ us) p2"
  by (auto simp: passes_def)

lemma passes_remaining: "passes p ts p' \<Longrightarrow> parser_ok lib prof p' \<Longrightarrow> remaining p = remaining p' + length ts"
  by (auto simp: passes_def remaining_def parser_ok_def)

lemma passes_profile: "passes p ts p' \<Longrightarrow> pa_profile p' = pa_profile p"
  by (simp add: passes_def)

lemma parser_ok_parts:
  "parser_ok lib prof p \<Longrightarrow> pa_index p < length (pa_tokens p)"
  "parser_ok lib prof p \<Longrightarrow> token_stream (pa_tokens p)"
  "parser_ok lib prof p \<Longrightarrow> lib \<or> strict_tokens (pa_tokens p)"
  "parser_ok lib prof p \<Longrightarrow> pa_profile p = prof"
  by (simp_all add: parser_ok_def)

lemma current_nth: "parser_ok lib prof p \<Longrightarrow> current p = pa_tokens p ! pa_index p"
  using parser_ok_parts(1) [of lib prof p] by (auto simp: current_def min_def intro!: arg_cong [where f = "nth (pa_tokens p)"])

lemma passes_hd:
  assumes "passes p ts p'" and "parser_ok lib prof p" and "ts \<noteq> []"
  shows "current p = hd ts"
proof -
  have "pa_tokens p ! pa_index p = hd (drop (pa_index p) (pa_tokens p))"
    using parser_ok_parts(1) [OF assms(2)] by (simp add: hd_drop_conv_nth)
  then show ?thesis using assms(1,3) by (simp add: passes_def current_nth [OF assms(2)])
qed

lemma passes_previous:
  assumes "passes p ts p'" and "parser_ok lib prof p'" and "ts \<noteq> []"
  shows "previous p' = last ts"
proof -
  have m: "pa_index p' = pa_index p + length ts" "pa_tokens p' = pa_tokens p"
    "drop (pa_index p) (pa_tokens p) = ts @ drop (pa_index p') (pa_tokens p)"
    using assms(1) by (simp_all add: passes_def)
  have n: "pa_index p + (length ts - 1) = pa_index p' - 1" "length ts - 1 < length ts" using assms(3) m(1) by (cases ts; simp)+
  have "pa_tokens p ! (pa_index p' - 1) = drop (pa_index p) (pa_tokens p) ! (length ts - 1)"
    using parser_ok_parts(1) [OF assms(2)] m(1,2) n(1) by (subst nth_drop) auto
  also have "\<dots> = last ts" unfolding m(3) using n(2) assms(3) by (simp add: nth_append last_conv_nth)
  finally show ?thesis using m(2) by (simp add: previous_def)
qed

lemma passes_previous_or:
  "passes p ts p' \<Longrightarrow> parser_ok lib prof p' \<Longrightarrow> previous p' = (if ts = [] then previous p else last ts)"
  using passes_previous [of p ts p' lib prof] by (auto simp: passes_def previous_def)

lemma eof_iff: "eof p \<longleftrightarrow> tok_kind (current p) = Tok_Eof"
  by (simp add: eof_def)

lemma eof_current [simp]: "eof p \<Longrightarrow> \<not> kw k (current p)" "eof p \<Longrightarrow> \<not> sym s (current p)"
  by (simp_all add: eof_def kw_def sym_def)

lemma not_last: "parser_ok lib prof p \<Longrightarrow> tok_kind (current p) \<noteq> Tok_Eof \<Longrightarrow> pa_index p + 1 < length (pa_tokens p)"
proof -
  assume ok: "parser_ok lib prof p" and k: "tok_kind (current p) \<noteq> Tok_Eof"
  have "pa_index p \<noteq> length (pa_tokens p) - 1"
  proof
    assume "pa_index p = length (pa_tokens p) - 1"
    then have "current p = last (pa_tokens p)"
      using parser_ok_parts(2) [OF ok] current_nth [OF ok] by (simp add: token_stream_def last_conv_nth)
    then show False using parser_ok_parts(2) [OF ok] k by (simp add: token_stream_def)
  qed
  then show ?thesis using parser_ok_parts(1) [OF ok] by simp
qed

lemma advance_ok:
  assumes "parser_ok lib prof p" and "tok_kind (current p) \<noteq> Tok_Eof"
  shows "passes p [current p] (advance_token p)" and "parser_ok lib prof (advance_token p)"
    and "remaining p = Suc (remaining (advance_token p))" and "previous (advance_token p) = current p"
proof -
  have "drop (pa_index p) (pa_tokens p) = current p # drop (Suc (pa_index p)) (pa_tokens p)"
    using current_nth [OF assms(1)] parser_ok_parts(1) [OF assms(1)] by (simp add: Cons_nth_drop_Suc)
  then show "passes p [current p] (advance_token p)" using assms(2) by (simp add: passes_def advance_token_def eof_def)
  show "parser_ok lib prof (advance_token p)"
    using not_last [OF assms] assms by (simp add: parser_ok_def advance_token_def eof_def)
  show "remaining p = Suc (remaining (advance_token p))"
    using assms(2) not_last [OF assms] by (simp add: remaining_def advance_token_def eof_def)
  show "previous (advance_token p) = current p"
    using assms(2) current_nth [OF assms(1)] by (simp add: previous_def advance_token_def eof_def)
qed

lemma strict_nth: "strict_tokens ts \<Longrightarrow> Suc i < length ts \<Longrightarrow> strict_pair (ts ! i) (ts ! Suc i)"
  by (induction ts arbitrary: i rule: strict_tokens.induct) (auto simp: nth_Cons split: nat.splits)

lemma advance_strict:
  assumes "parser_ok lib prof p" and "tok_kind (current p) \<noteq> Tok_Eof" and "\<not> lib"
  shows "strict_pair (current p) (current (advance_token p))"
proof -
  note adv = advance_ok [OF assms(1,2)]
  have "current (advance_token p) = pa_tokens p ! Suc (pa_index p)"
    using current_nth [OF adv(2)] assms(2) by (simp add: advance_token_def eof_def)
  then show ?thesis using strict_nth [of "pa_tokens p" "pa_index p"] not_last [OF assms(1,2)] assms(3) parser_ok_parts(3) [OF assms(1)]
    by (simp add: current_nth [OF assms(1)])
qed

lemma current_literal: "parser_ok lib prof p \<Longrightarrow> literal_ok (current p)"
  using parser_ok_parts(1,2) by (simp add: current_nth token_stream_def)

subsection \<open>Results of a parser\<close>

definition points_at :: "parser \<Rightarrow> diagnostic \<Rightarrow> bool" where
  "points_at p d \<longleftrightarrow> (\<exists>t\<in>set (pa_tokens p). diag_span d = tok_span t \<and> diag_start d = tok_start t \<and> diag_end d = tok_end t)
     \<and> diag_code d \<in> {Diag_Parse, Diag_CompileLimit}"

text \<open>
  A result that started at \<open>p\<close>: it does not panic, it finishes when there was enough fuel, which is \<open>fed\<close>, a
  rejection points at a token, and the tokens passed satisfy \<open>Q\<close> with the value and the new parser.
\<close>

definition meets :: "bool \<Rightarrow> lua_profile \<Rightarrow> bool \<Rightarrow> parser \<Rightarrow> ('a \<Rightarrow> token list \<Rightarrow> parser \<Rightarrow> bool) \<Rightarrow> 'a parsed \<Rightarrow> bool" where
  "meets lib prof fed p Q r \<longleftrightarrow> (case r of
       Parsed x p' \<Rightarrow> \<exists>ts. passes p ts p' \<and> parser_ok lib prof p' \<and> Q x ts p'
     | Rejected d \<Rightarrow> points_at p d
     | Panicked \<Rightarrow> False
     | Unfinished \<Rightarrow> \<not> fed)"

lemma meets_Parsed: "parser_ok lib prof p \<Longrightarrow> Q x [] p \<Longrightarrow> meets lib prof fed p Q (Parsed x p)"
  by (auto simp: meets_def intro: passes_refl)

lemma current_in: "parser_ok lib prof p \<Longrightarrow> current p \<in> set (pa_tokens p)"
  using parser_ok_parts(1) by (simp add: current_nth)

lemma meets_error:
  assumes "parser_ok lib prof p"
  shows "meets lib prof fed p Q (Rejected (error_at p m))" and "meets lib prof fed p Q (Rejected (limit_at p m))"
  using current_in [OF assms] by (auto simp: meets_def points_at_def error_at_def limit_at_def token_diagnostic_def)

lemma meets_reject: "t \<in> set (pa_tokens p) \<Longrightarrow> meets lib prof fed p Q (Rejected (token_diagnostic (Some t) Diag_Parse m))"
  by (auto simp: meets_def points_at_def token_diagnostic_def)

lemma meets_mono:
  assumes "meets lib prof fed' p Q r" and "fed \<Longrightarrow> fed'"
    and "\<And>x ts p'. passes p ts p' \<Longrightarrow> parser_ok lib prof p' \<Longrightarrow> remaining p = remaining p' + length ts \<Longrightarrow> Q x ts p' \<Longrightarrow> R x ts p'"
  shows "meets lib prof fed p R r"
  using assms passes_remaining by (fastforce simp: meets_def split: parsed.splits)

lemma meets_shift:
  assumes "passes p ts p1" and "meets lib prof fed p1 (\<lambda>x us. R x (ts @ us)) r"
  shows "meets lib prof fed p R r"
  using assms by (auto simp: meets_def points_at_def passes_def split: parsed.splits)

lemma meets_bind:
  assumes "meets lib prof fed' p Q r" and "fed \<Longrightarrow> fed'"
    and "\<And>x ts p1. passes p ts p1 \<Longrightarrow> parser_ok lib prof p1 \<Longrightarrow> remaining p = remaining p1 + length ts \<Longrightarrow> Q x ts p1 \<Longrightarrow>
      meets lib prof fed p1 (\<lambda>y us. R y (ts @ us)) (f x p1)"
  shows "meets lib prof fed p R (pbind r f)"
proof (cases r)
  case (Parsed x p1)
  then obtain ts where "passes p ts p1" "parser_ok lib prof p1" "Q x ts p1" using assms(1) by (auto simp: meets_def)
  then show ?thesis using meets_shift assms(3) passes_remaining Parsed by fastforce
qed (use assms in \<open>auto simp: meets_def\<close>)

lemma meets_take_symbol:
  assumes "parser_ok lib prof p"
    and "sym s (current p) \<Longrightarrow> passes p [current p] (advance_token p) \<Longrightarrow> parser_ok lib prof (advance_token p) \<Longrightarrow>
      remaining p = Suc (remaining (advance_token p)) \<Longrightarrow> previous (advance_token p) = current p \<Longrightarrow>
      meets lib prof fed (advance_token p) (\<lambda>y us. R y (current p # us)) (yes (advance_token p))"
    and "\<not> sym s (current p) \<Longrightarrow> meets lib prof fed p R (no p)"
  shows "meets lib prof fed p R (if_took (take_symbol s p) yes no)"
proof (cases "sym s (current p)")
  case True
  then have k: "tok_kind (current p) \<noteq> Tok_Eof" by (simp add: sym_def)
  note adv = advance_ok [OF assms(1) k]
  show ?thesis using meets_shift [OF adv(1)] assms(2) [OF True adv] True by (simp add: if_took_def take_symbol_def sym_def)
qed (use assms(3) in \<open>simp add: if_took_def take_symbol_def sym_def\<close>)

lemma meets_take_keyword:
  assumes "parser_ok lib prof p"
    and "kw k (current p) \<Longrightarrow> passes p [current p] (advance_token p) \<Longrightarrow> parser_ok lib prof (advance_token p) \<Longrightarrow>
      remaining p = Suc (remaining (advance_token p)) \<Longrightarrow> previous (advance_token p) = current p \<Longrightarrow>
      meets lib prof fed (advance_token p) (\<lambda>y us. R y (current p # us)) (yes (advance_token p))"
    and "\<not> kw k (current p) \<Longrightarrow> meets lib prof fed p R (no p)"
  shows "meets lib prof fed p R (if_took (take_keyword k p) yes no)"
proof (cases "kw k (current p)")
  case True
  then have k: "tok_kind (current p) \<noteq> Tok_Eof" by (simp add: kw_def)
  note adv = advance_ok [OF assms(1) k]
  show ?thesis using meets_shift [OF adv(1)] assms(2) [OF True adv] True by (simp add: if_took_def take_keyword_def kw_def)
qed (use assms(3) in \<open>simp add: if_took_def take_keyword_def kw_def\<close>)

lemma meets_advance:
  assumes "parser_ok lib prof p" and "tok_kind (current p) \<noteq> Tok_Eof"
    and "passes p [current p] (advance_token p) \<Longrightarrow> parser_ok lib prof (advance_token p) \<Longrightarrow>
      remaining p = Suc (remaining (advance_token p)) \<Longrightarrow> previous (advance_token p) = current p \<Longrightarrow>
      meets lib prof fed (advance_token p) (\<lambda>y us. R y (current p # us)) r"
  shows "meets lib prof fed p R r"
  using meets_shift [OF advance_ok(1) [OF assms(1,2)]] assms(3) [OF advance_ok [OF assms(1,2)]] by simp

lemma meets_if:
  assumes "b \<Longrightarrow> meets lib prof fed p Q r" and "\<not> b \<Longrightarrow> meets lib prof fed p Q s"
  shows "meets lib prof fed p Q (if b then r else s)"
  using assms by simp

lemma meets_prod:
  assumes "\<And>a b. x = (a, b) \<Longrightarrow> meets lib prof fed p Q (f a b p)"
  shows "meets lib prof fed p Q ((case x of (a, b) \<Rightarrow> f a b) p)"
  using assms by (cases x) simp

subsection \<open>Rules for the steps\<close>

lemma bind_expect:
  assumes "parser_ok lib prof p"
    and "\<And>t p1. sym s t \<Longrightarrow> t = current p \<Longrightarrow> passes p [t] p1 \<Longrightarrow> parser_ok lib prof p1 \<Longrightarrow> remaining p = Suc (remaining p1) \<Longrightarrow>
      previous p1 = t \<Longrightarrow> p1 = advance_token p \<Longrightarrow> meets lib prof fed p1 (\<lambda>y us. R y (t # us)) (f () p1)"
  shows "meets lib prof fed p R (pbind (expect s p) f)"
proof (rule meets_bind [where Q = "\<lambda>_ ts p1. sym s (current p) \<and> ts = [current p] \<and> p1 = advance_token p \<and> previous p1 = current p" and fed' = fed])
  show "meets lib prof fed p (\<lambda>_ ts p1. sym s (current p) \<and> ts = [current p] \<and> p1 = advance_token p \<and> previous p1 = current p) (expect s p)"
    unfolding expect_def
    by (rule meets_take_symbol [OF assms(1)]) (auto intro: meets_Parsed meets_error [OF assms(1)])
qed (use assms(2) in auto)

lemma bind_expect_keyword:
  assumes "parser_ok lib prof p"
    and "\<And>t p1. kw k t \<Longrightarrow> t = current p \<Longrightarrow> passes p [t] p1 \<Longrightarrow> parser_ok lib prof p1 \<Longrightarrow> remaining p = Suc (remaining p1) \<Longrightarrow>
      previous p1 = t \<Longrightarrow> meets lib prof fed p1 (\<lambda>y us. R y (t # us)) (f () p1)"
  shows "meets lib prof fed p R (pbind (expect_keyword k p) f)"
proof (rule meets_bind [where Q = "\<lambda>_ ts p1. kw k (current p) \<and> ts = [current p] \<and> previous p1 = current p" and fed' = fed])
  show "meets lib prof fed p (\<lambda>_ ts p1. kw k (current p) \<and> ts = [current p] \<and> previous p1 = current p) (expect_keyword k p)"
    unfolding expect_keyword_def
    by (rule meets_take_keyword [OF assms(1)]) (auto intro: meets_Parsed meets_error [OF assms(1)])
qed (use assms(2) in auto)

lemma bind_name:
  assumes "parser_ok lib prof p"
    and "\<And>n t p1. name_token n t \<Longrightarrow> t = current p \<Longrightarrow> passes p [t] p1 \<Longrightarrow> parser_ok lib prof p1 \<Longrightarrow> remaining p = Suc (remaining p1) \<Longrightarrow>
      previous p1 = t \<Longrightarrow> p1 = advance_token p \<Longrightarrow> meets lib prof fed p1 (\<lambda>y us. R y (t # us)) (f n p1)"
  shows "meets lib prof fed p R (pbind (parse_name p) f)"
proof (rule meets_bind [where Q = "\<lambda>n ts p1. name_token n (current p) \<and> ts = [current p] \<and> p1 = advance_token p \<and> previous p1 = current p" and fed' = fed])
  show "meets lib prof fed p (\<lambda>n ts p1. name_token n (current p) \<and> ts = [current p] \<and> p1 = advance_token p \<and> previous p1 = current p) (parse_name p)"
  proof (cases "tok_kind (current p) = Tok_Name")
    case True
    then obtain n where n: "tok_literal (current p) = Some (Lit_Name n)" using current_literal [OF assms(1)] by auto
    show ?thesis
      by (rule meets_advance [OF assms(1)]) (use True n in \<open>auto simp: parse_name_def Let_def name_token_def intro: meets_Parsed\<close>)
  qed (use meets_error [OF assms(1)] in \<open>simp add: parse_name_def Let_def\<close>)
qed (use assms(2) in auto)

text \<open>Steps that count and take no token.\<close>

lemma counted:
  assumes "passes p [] p1" and "parser_ok lib prof p" and "pa_index p1 = pa_index p"
  shows "current p1 = current p" and "previous p1 = previous p" and "remaining p1 = remaining p" and "binary_at p1 = binary_at p"
    and "eof p1 = eof p"
  using assms by (simp_all add: passes_def current_def previous_def remaining_def binary_at_def eof_def)

lemma bind_reserve:
  assumes "parser_ok lib prof p"
    and "\<And>p1. passes p [] p1 \<Longrightarrow> parser_ok lib prof p1 \<Longrightarrow> current p1 = current p \<Longrightarrow> previous p1 = previous p \<Longrightarrow> remaining p1 = remaining p \<Longrightarrow>
      binary_at p1 = binary_at p \<Longrightarrow> meets lib prof fed p1 R (f () p1)"
  shows "meets lib prof fed p R (pbind (reserve_node p) f)"
proof (cases "max_ast_nodes (pa_limits p) < pa_nodes p + 1")
  case True
  have "current (p\<lparr>pa_nodes := pa_nodes p + 1\<rparr>) = current p" by (simp add: current_def)
  then show ?thesis using True meets_error(2) [OF assms(1), of fed R TooManyNodes]
    by (simp add: reserve_node_def Let_def limit_at_def)
next
  case False
  let ?p = "p\<lparr>pa_nodes := pa_nodes p + 1\<rparr>"
  have m: "passes p [] ?p" by (simp add: passes_def)
  have "parser_ok lib prof ?p" using assms(1) False by (simp add: parser_ok_def)
  then have "meets lib prof fed ?p R (f () ?p)" using assms(2) [OF m] counted [OF m assms(1)] by simp
  then show ?thesis using meets_shift [OF m, of lib prof fed R "f () ?p"] False by (simp add: reserve_node_def Let_def)
qed

lemma bind_reserve_if:
  assumes "parser_ok lib prof p"
    and "\<And>p1. passes p [] p1 \<Longrightarrow> parser_ok lib prof p1 \<Longrightarrow> current p1 = current p \<Longrightarrow> previous p1 = previous p \<Longrightarrow> remaining p1 = remaining p \<Longrightarrow>
      meets lib prof fed p1 R (f () p1)"
  shows "meets lib prof fed p R (pbind (if b then reserve_node p else Parsed () p) f)"
  using bind_reserve [OF assms(1), of fed R f] assms by (cases b) auto

lemma bind_next_statement:
  assumes "parser_ok lib prof p"
    and "\<And>p1. passes p [] p1 \<Longrightarrow> parser_ok lib prof p1 \<Longrightarrow> current p1 = current p \<Longrightarrow> remaining p1 = remaining p \<Longrightarrow> meets lib prof fed p1 R (f () p1)"
  shows "meets lib prof fed p R (pbind (next_statement p) f)"
proof (cases "max_statements (pa_limits p) < pa_statements p + 1")
  case True
  have "current (p\<lparr>pa_statements := pa_statements p + 1\<rparr>) = current p" by (simp add: current_def)
  then show ?thesis using True meets_error(2) [OF assms(1), of fed R TooManyStatements]
    by (simp add: next_statement_def Let_def limit_at_def)
next
  case False
  let ?p = "p\<lparr>pa_statements := pa_statements p + 1\<rparr>"
  have m: "passes p [] ?p" by (simp add: passes_def)
  have "parser_ok lib prof ?p" using assms(1) False by (simp add: parser_ok_def)
  then have "meets lib prof fed ?p R (f () ?p)" using assms(2) [OF m] counted [OF m assms(1)] by simp
  then show ?thesis using meets_shift [OF m, of lib prof fed R "f () ?p"] False by (simp add: next_statement_def Let_def)
qed

lemma bind_list_room:
  assumes "parser_ok lib prof p" and "meets lib prof fed p R (f () p)"
  shows "meets lib prof fed p R (pbind (list_room xs p) f)"
  using assms by (auto simp: list_room_def intro: meets_error(2))

text \<open>A part that is one level deeper.\<close>

lemma bind_deeper:
  assumes "parser_ok lib prof p"
    and "\<And>p1. parser_ok lib prof p1 \<Longrightarrow> pa_profile p1 = pa_profile p \<Longrightarrow> current p1 = current p \<Longrightarrow> remaining p1 = remaining p \<Longrightarrow>
      meets lib prof fed p1 (\<lambda>x ts p2. Q x ts (p2\<lparr>pa_depth := pa_depth p2 - 1\<rparr>)) (f () p1)"
    and "\<And>x p2. g x p2 = Parsed x (p2\<lparr>pa_depth := pa_depth p2 - 1\<rparr>)"
  shows "meets lib prof fed p Q (pbind (pbind (deeper p) f) g)"
proof (cases "max_parse_depth (pa_limits p) < pa_depth p + 1")
  case True
  have "current (p\<lparr>pa_depth := pa_depth p + 1\<rparr>) = current p" by (simp add: current_def)
  then show ?thesis using True meets_error(2) [OF assms(1), of fed Q ParseTooDeep]
    by (simp add: deeper_def Let_def limit_at_def)
next
  case False
  let ?p = "p\<lparr>pa_depth := pa_depth p + 1\<rparr>"
  have ok: "parser_ok lib prof ?p" using assms(1) False by (simp add: parser_ok_def)
  have c: "current ?p = current p" "remaining ?p = remaining p" "pa_profile ?p = pa_profile p"
    by (simp_all add: current_def remaining_def)
  have restore: "meets lib prof fed p Q (pbind r g)"
    if "meets lib prof fed ?p (\<lambda>x ts p2. Q x ts (p2\<lparr>pa_depth := pa_depth p2 - 1\<rparr>)) r" for r
    using that assms(1) by (auto simp: meets_def points_at_def passes_def parser_ok_def assms(3) split: parsed.splits)
  show ?thesis using restore [OF assms(2) [OF ok c(3,1,2)]] False by (simp add: deeper_def Let_def)
qed

end
