(* ===== verification/Parser_Methods.thy ===== *)
theory Parser_Methods
  imports Parser_Rules
begin

text \<open>
  What each method of the parser promises, in terms of the grammar, and the proof that it keeps its promise. The locale
  holds the contract of the methods that a method may call, each with the fuel it needs; its lemmas are the methods
  built on such calls.
\<close>

text \<open>The fuel is computed from the lengths of lists.\<close>

declare length_greater_0_conv [simp del]

lemma nonempty: "0 < length ts \<Longrightarrow> ts \<noteq> []"
  by auto

subsection \<open>What each method promises\<close>

text \<open>After an expression of level \<open>m\<close>, no operator follows that would continue it.\<close>

definition stops :: "nat \<Rightarrow> parser \<Rightarrow> bool" where
  "stops m p \<longleftrightarrow> (\<forall>op prec right. binary_at p = Some (op, prec, right) \<longrightarrow> prec < m)"

text \<open>An expression that may be the left operand of the operator that follows.\<close>

definition left_ready :: "bool \<Rightarrow> lua_profile \<Rightarrow> nat \<Rightarrow> token list \<Rightarrow> expr \<Rightarrow> parser \<Rightarrow> bool" where
  "left_ready lib prof m ts e p \<longleftrightarrow> g_expr lib prof m ts e
     \<and> (\<forall>op prec right. binary_at p = Some (op, prec, right) \<longrightarrow>
          g_expr lib prof (if right then Suc prec else prec) ts e \<and> (is_unary e \<longrightarrow> prec < 12))"

definition expr_post :: "bool \<Rightarrow> lua_profile \<Rightarrow> nat \<Rightarrow> expr \<Rightarrow> token list \<Rightarrow> parser \<Rightarrow> bool" where
  "expr_post lib prof m e ts p' \<longleftrightarrow> 0 < length ts \<and> g_expr lib prof m ts e \<and> stops m p'"

definition binary_post :: "bool \<Rightarrow> lua_profile \<Rightarrow> nat \<Rightarrow> token list \<Rightarrow> expr \<Rightarrow> token list \<Rightarrow> parser \<Rightarrow> bool" where
  "binary_post lib prof m us e ts p' \<longleftrightarrow> g_expr lib prof m (us @ ts) e \<and> stops m p'"

definition prefix_post :: "bool \<Rightarrow> lua_profile \<Rightarrow> parser \<Rightarrow> expr \<Rightarrow> token list \<Rightarrow> parser \<Rightarrow> bool" where
  "prefix_post lib prof p e ts p' \<longleftrightarrow> 0 < length ts \<and>
     (g_atom lib prof ts e
      \<or> (is_unary e \<and> unary_operator (current p) \<noteq> None \<and> (\<forall>m. g_expr lib prof m ts e) \<and> stops 12 p'))"

definition postfix_post :: "bool \<Rightarrow> lua_profile \<Rightarrow> parser \<Rightarrow> expr \<Rightarrow> expr \<Rightarrow> token list \<Rightarrow> parser \<Rightarrow> bool" where
  "postfix_post lib prof p base e ts p' \<longleftrightarrow> (\<forall>us. g_suffixed lib prof us base \<longrightarrow> g_suffixed lib prof (us @ ts) e)
     \<and> (\<not> is_prefix_expr base \<longrightarrow> e = base \<and> ts = [] \<and> p' = p)"

text \<open>A loop that appends to a list what it reads.\<close>

definition appends :: "(token list \<Rightarrow> 'a list \<Rightarrow> bool) \<Rightarrow> 'a list \<Rightarrow> 'a list \<Rightarrow> token list \<Rightarrow> parser \<Rightarrow> bool" where
  "appends G acc xs ts p' \<longleftrightarrow> (\<exists>new. xs = acc @ new \<and> G ts new)"

lemma appendsI: "G ts new \<Longrightarrow> appends G acc (acc @ new) ts p'"
  by (auto simp: appends_def)

definition params_post :: "bool \<Rightarrow> lua_profile \<Rightarrow> parser \<Rightarrow> local_name list \<Rightarrow> local_name list \<times> vararg option \<Rightarrow> token list \<Rightarrow> parser \<Rightarrow> bool" where
  "params_post lib prof p acc r ts p' \<longleftrightarrow>
     (\<exists>new. fst r = acc @ new \<and> g_params lib prof ts new (snd r) \<and> (new = [] \<and> snd r = None \<longrightarrow> sym CloseParen (current p)))"

definition path_post :: "expr \<Rightarrow> expr \<times> method_name option \<Rightarrow> token list \<Rightarrow> parser \<Rightarrow> bool" where
  "path_post value r ts p' \<longleftrightarrow> (\<forall>us. g_dotted us value \<longrightarrow> g_path (us @ ts) (fst r) (snd r))"

definition block_post :: "bool \<Rightarrow> lua_profile \<Rightarrow> keyword list \<Rightarrow> block \<Rightarrow> token list \<Rightarrow> parser \<Rightarrow> bool" where
  "block_post lib prof terminators b ts p' \<longleftrightarrow>
     (\<exists>sts. g_stmts lib prof ts sts \<and> b = block_node ts sts (current p') \<and> at_terminator terminators p')"

definition statements_post :: "bool \<Rightarrow> lua_profile \<Rightarrow> keyword list \<Rightarrow> parser \<Rightarrow> stmt list \<Rightarrow> stmt list \<Rightarrow> token list \<Rightarrow> parser \<Rightarrow> bool" where
  "statements_post lib prof terminators p acc sts ts p' \<longleftrightarrow>
     (\<exists>new. sts = acc @ new \<and> g_stmts lib prof ts new \<and> (eof p' \<or> at_terminator terminators p')
        \<and> (eof p \<or> at_terminator terminators p \<longrightarrow> ts = [] \<and> new = []))"

definition clauses_post :: "bool \<Rightarrow> lua_profile \<Rightarrow> parser \<Rightarrow> (expr \<times> block) list \<Rightarrow> (expr \<times> block) list \<Rightarrow> token list \<Rightarrow> parser \<Rightarrow> bool" where
  "clauses_post lib prof p acc cls ts p' \<longleftrightarrow>
     (\<exists>new. cls = acc @ new
        \<and> (\<forall>us cl. g_clause lib prof (current p) us cl \<longrightarrow> g_clauses lib prof (current p') (us @ ts) (cl # new)))"

definition targets_post :: "bool \<Rightarrow> lua_profile \<Rightarrow> expr list \<Rightarrow> expr list \<Rightarrow> token list \<Rightarrow> parser \<Rightarrow> bool" where
  "targets_post lib prof acc es ts p' \<longleftrightarrow>
     (\<exists>new. es = acc @ new \<and> (\<forall>us e. g_expr lib prof 0 us e \<longrightarrow> g_exprs lib prof (us @ ts) (e # new)))"

definition statement_post :: "bool \<Rightarrow> lua_profile \<Rightarrow> stmt \<Rightarrow> token list \<Rightarrow> parser \<Rightarrow> bool" where
  "statement_post lib prof s ts p' \<longleftrightarrow> 0 < length ts \<and> g_stmt lib prof ts s"

text \<open>
  The methods that a method may call, with fuel \<open>n\<close>: a call at a position finishes when the fuel is six for each
  remaining token and a few more, by the rank of the method.
\<close>

locale sub_parsers =
  fixes lib :: bool and prof :: lua_profile and c :: calls and n :: nat
  assumes prefix_call: "parser_ok lib prof p \<Longrightarrow>
      meets lib prof (6 * remaining p \<le> n) p (prefix_post lib prof p) (c_prefix c p)"
    and postfix_call: "parser_ok lib prof p \<Longrightarrow>
      meets lib prof (6 * remaining p + 1 \<le> n) p (postfix_post lib prof p base) (c_postfix c base p)"
    and expr_call: "parser_ok lib prof p \<Longrightarrow>
      meets lib prof (6 * remaining p + 1 \<le> n) p (expr_post lib prof m) (c_expr c m p)"
    and binary_call: "parser_ok lib prof p \<Longrightarrow> left_ready lib prof m us left p \<Longrightarrow>
      meets lib prof (6 * remaining p \<le> n) p (binary_post lib prof m us) (c_binary c m left p)"
    and list_call: "parser_ok lib prof p \<Longrightarrow>
      meets lib prof (6 * remaining p + 2 \<le> n) p (appends (g_exprs lib prof) es) (c_list c es p)"
    and fields_call: "parser_ok lib prof p \<Longrightarrow>
      meets lib prof (6 * remaining p + 2 \<le> n) p (appends (g_fields lib prof) fs) (c_fields c fs p)"
    and params_call: "parser_ok lib prof p \<Longrightarrow>
      meets lib prof (6 * remaining p \<le> n) p (params_post lib prof p ps) (c_params c ps p)"
    and path_call: "parser_ok lib prof p \<Longrightarrow>
      meets lib prof (6 * remaining p \<le> n) p (path_post value) (c_path c value p)"
    and block_call: "parser_ok lib prof p \<Longrightarrow>
      meets lib prof (6 * remaining p + 5 \<le> n) p (block_post lib prof ks) (c_block c ks p)"
    and statements_call: "parser_ok lib prof p \<Longrightarrow>
      meets lib prof (6 * remaining p + 4 \<le> n) p (statements_post lib prof ks p sts) (c_statements c ks sts p)"
    and module_call: "parser_ok lib prof p \<Longrightarrow>
      meets lib prof (6 * remaining p + 4 \<le> n) p (statements_post lib prof [] p sts) (c_module c sts p)"
    and clauses_call: "parser_ok lib prof p \<Longrightarrow>
      meets lib prof (6 * remaining p \<le> n) p (clauses_post lib prof p cls) (c_clauses c cls p)"
    and for_names_call: "parser_ok lib prof p \<Longrightarrow>
      meets lib prof (6 * remaining p \<le> n) p (appends g_for_names ns) (c_for_names c ns p)"
    and local_names_call: "parser_ok lib prof p \<Longrightarrow>
      meets lib prof (6 * remaining p \<le> n) p (appends (g_local_names pre) ns) (c_local_names c pre ns p)"
    and global_names_call: "parser_ok lib prof p \<Longrightarrow>
      meets lib prof (6 * remaining p \<le> n) p (appends g_global_names ns) (c_global_names c ns p)"
    and targets_call: "parser_ok lib prof p \<Longrightarrow>
      meets lib prof (6 * remaining p \<le> n) p (targets_post lib prof es) (c_targets c es p)"
    and statement_call: "parser_ok lib prof p \<Longrightarrow>
      meets lib prof (6 * remaining p + 3 \<le> n) p (statement_post lib prof) (c_statement c p)"
begin

lemmas call_binds = meets_bind [OF prefix_call] meets_bind [OF postfix_call] meets_bind [OF expr_call]
  meets_bind [OF list_call] meets_bind [OF fields_call] meets_bind [OF params_call]
  meets_bind [OF path_call] meets_bind [OF block_call] meets_bind [OF statements_call] meets_bind [OF module_call]
  meets_bind [OF clauses_call] meets_bind [OF for_names_call] meets_bind [OF local_names_call]
  meets_bind [OF global_names_call] meets_bind [OF targets_call] meets_bind [OF statement_call]

lemmas call_ends = meets_mono [OF prefix_call] meets_mono [OF postfix_call] meets_mono [OF expr_call]
  meets_mono [OF list_call] meets_mono [OF fields_call] meets_mono [OF params_call]
  meets_mono [OF path_call] meets_mono [OF block_call] meets_mono [OF statements_call] meets_mono [OF module_call]
  meets_mono [OF clauses_call] meets_mono [OF for_names_call] meets_mono [OF local_names_call]
  meets_mono [OF global_names_call] meets_mono [OF targets_call] meets_mono [OF statement_call]

lemmas step_rules = bind_expect bind_expect_keyword bind_name bind_reserve bind_next_statement bind_list_room
  meets_take_symbol meets_take_keyword meets_error meets_Parsed meets_if meets_prod call_binds call_ends

lemma list_loop_meets:
  assumes "parser_ok lib prof p"
  shows "meets lib prof (6 * remaining p + 2 \<le> Suc n) p (appends (g_exprs lib prof) es) (list_loop c es p)"
  unfolding list_loop_def
  by (intro step_rules) (use assms in \<open>auto simp: appends_def expr_post_def intro: exprs_one exprs_more\<close>)

end

lemma pbind_assoc: "pbind (pbind r f) g = pbind r (\<lambda>x p. pbind (f x p) g)"
  by (cases r) simp_all

lemma pbind_if: "pbind (if b then r else s) f = (if b then pbind r f else pbind s f)"
  by simp

lemma pbind_if_took: "pbind (if_took t yes no) f = if_took t (\<lambda>p. pbind (yes p) f) (\<lambda>p. pbind (no p) f)"
  by (simp add: if_took_def)

lemmas pbind_norm = pbind_assoc pbind_if pbind_if_took pbind_simps

lemma operator_current: "binary_at p = operator (current p)"
  by (simp add: binary_at_def operator_def)

text \<open>Operators of the same precedence associate to the same side.\<close>

definition right_level :: "nat \<Rightarrow> bool" where
  "right_level prec \<longleftrightarrow> prec = 8 \<or> prec = 13"

lemma operator_side: "operator t = Some (op, prec, right) \<Longrightarrow> right = right_level prec"
proof -
  assume a: "operator t = Some (op, prec, right)"
  show ?thesis
  proof (cases "tok_kind t")
    case (Tok_Symbol s)
    then show ?thesis using a by (cases s) (auto simp: operator_def right_level_def)
  next
    case (Tok_Keyword k)
    then show ?thesis using a by (cases k) (auto simp: operator_def right_level_def)
  qed (use a in \<open>auto simp: operator_def\<close>)
qed

lemma operator_not_eof: "operator t = Some r \<Longrightarrow> tok_kind t \<noteq> Tok_Eof"
  by (auto simp: operator_def)

lemma binary_ready:
  assumes op: "operator t = Some (op, prec, right)" and "m \<le> prec"
    and left: "g_expr lib prof (if right then Suc prec else prec) ls l" "is_unary l \<longrightarrow> prec < 12"
    and right: "g_expr lib prof (if right then prec else Suc prec) rs r" "stops (if right then prec else Suc prec) p"
  shows "left_ready lib prof m (ls @ t # rs) (Ex_Binary op l r (join_span (expr_span l) (expr_span r))) p"
proof -
  have g: "g_expr lib prof m' (ls @ t # rs) (Ex_Binary op l r (join_span (expr_span l) (expr_span r)))" if "m' \<le> prec" for m'
    using expr_binary [OF op that left right(1)] .
  have "(if right' then Suc prec' else prec') \<le> prec" if "binary_at p = Some (op', prec', right')" for op' prec' right'
  proof -
    have "prec' < (if right then prec else Suc prec)" using that right(2) by (auto simp: stops_def)
    moreover have "right = right_level prec" "right' = right_level prec'"
      using operator_side op that by (auto simp: operator_current)
    ultimately show ?thesis by (cases "prec' = prec") (auto split: if_splits)
  qed
  then show ?thesis using g assms(2) by (auto simp: left_ready_def)
qed

lemma suffixed_ready: "g_suffixed lib prof ts e \<Longrightarrow> \<not> is_unary e \<Longrightarrow> left_ready lib prof m ts e p"
  by (auto simp: left_ready_def intro: expr_suffixed)

lemma g_not_unary:
  "g_expr lib prof m ts e \<Longrightarrow> True"
  "g_suffixed lib prof ts e \<Longrightarrow> \<not> is_unary e"
  "g_atom lib prof ts e \<Longrightarrow> \<not> is_unary e"
  "g_exprs lib prof ts es \<Longrightarrow> True"
  "g_optional_exprs lib prof ts es \<Longrightarrow> True"
  "g_values lib prof ts es \<Longrightarrow> True"
  "g_initial lib prof ts es \<Longrightarrow> True"
  "g_field lib prof ts f \<Longrightarrow> True"
  "g_fields lib prof ts fs \<Longrightarrow> True"
  "g_body lib prof start ts b \<Longrightarrow> True"
  "g_clause lib prof z ts cl \<Longrightarrow> True"
  "g_clauses lib prof z ts cls \<Longrightarrow> True"
  "g_step lib prof ts st \<Longrightarrow> True"
  "g_stmt lib prof ts s \<Longrightarrow> True"
  "g_stmts lib prof ts sts \<Longrightarrow> True"
  by (induction rule: g_expr_g_suffixed_g_atom_g_exprs_g_optional_exprs_g_values_g_initial_g_field_g_fields_g_body_g_clause_g_clauses_g_step_g_stmt_g_stmts.inducts) simp_all

lemma g_nonempty:
  "g_expr lib prof m ts e \<Longrightarrow> ts \<noteq> []"
  "g_suffixed lib prof ts e \<Longrightarrow> ts \<noteq> []"
  "g_atom lib prof ts e \<Longrightarrow> ts \<noteq> []"
  "g_exprs lib prof ts es \<Longrightarrow> ts \<noteq> []"
  "g_optional_exprs lib prof ts es \<Longrightarrow> True"
  "g_values lib prof ts es \<Longrightarrow> True"
  "g_initial lib prof ts es \<Longrightarrow> True"
  "g_field lib prof ts f \<Longrightarrow> ts \<noteq> []"
  "g_fields lib prof ts fs \<Longrightarrow> ts \<noteq> []"
  "g_body lib prof start ts b \<Longrightarrow> ts \<noteq> []"
  "g_clause lib prof z ts cl \<Longrightarrow> ts \<noteq> []"
  "g_clauses lib prof z ts cls \<Longrightarrow> ts \<noteq> []"
  "g_step lib prof ts st \<Longrightarrow> True"
  "g_stmt lib prof ts s \<Longrightarrow> ts \<noteq> []"
  "g_stmts lib prof ts sts \<Longrightarrow> True"
  by (induction rule: g_expr_g_suffixed_g_atom_g_exprs_g_optional_exprs_g_values_g_initial_g_field_g_fields_g_body_g_clause_g_clauses_g_step_g_stmt_g_stmts.inducts) simp_all

context sub_parsers
begin

lemma list_expr_meets:
  assumes "parser_ok lib prof p"
  shows "meets lib prof (6 * remaining p + 2 \<le> n) p
    (\<lambda>es ts p'. g_exprs lib prof ts es \<or> (ts = [] \<and> es = [] \<and> eof p \<and> p' = p)) (list_expr c p)"
  unfolding list_expr_def by (intro step_rules) (use assms in \<open>auto simp: appends_def\<close>)

lemma expr_binary_meets:
  assumes "parser_ok lib prof p" and "left_ready lib prof m us left p"
  shows "meets lib prof (6 * remaining p \<le> Suc n) p (binary_post lib prof m us) (expr_binary c m left p)"
proof (cases "\<exists>op prec right. binary_at p = Some (op, prec, right) \<and> m \<le> prec")
  case True
  then obtain op prec right where op: "operator (current p) = Some (op, prec, right)" and m: "m \<le> prec"
    by (auto simp: operator_current)
  have left: "g_expr lib prof (if right then Suc prec else prec) us left" "is_unary left \<longrightarrow> prec < 12"
    using assms(2) op by (auto simp: left_ready_def operator_current)
  show ?thesis
  proof (rule meets_advance [OF assms(1) operator_not_eof [OF op]])
    let ?p = "advance_token p"
    assume ok: "parser_ok lib prof ?p" and rem: "remaining p = Suc (remaining ?p)"
    show "meets lib prof (6 * remaining p \<le> Suc n) ?p (\<lambda>y us'. binary_post lib prof m us y (current p # us')) (expr_binary c m left p)"
      unfolding expr_binary_def using op m
      by (simp add: operator_current, intro conjI impI meets_bind [OF expr_call [OF ok]] bind_reserve)
        (use rem in \<open>auto simp: expr_post_def binary_post_def stops_def operator_current
           intro!: meets_mono [OF binary_call [OF _ binary_ready [OF op m left]]]\<close>)
  qed
next
  case False
  then show ?thesis using assms
    by (auto simp: expr_binary_def binary_post_def left_ready_def stops_def not_le intro!: meets_Parsed split: option.split)
qed

lemma expr_meets:
  assumes "parser_ok lib prof p"
  shows "meets lib prof (6 * remaining p + 1 \<le> Suc n) p (expr_post lib prof m) (expr c m p)"
proof -
  let ?f = "\<lambda>_ p. pbind (c_prefix c p) (\<lambda>left p. pbind (c_postfix c left p) (c_binary c m))"
  have eq: "expr c m p = pbind (pbind (deeper p) ?f) (\<lambda>left p. Parsed left (p\<lparr>pa_depth := pa_depth p - 1\<rparr>))"
    by (simp add: expr_def pbind_assoc)
  show ?thesis unfolding eq
  proof (rule bind_deeper [OF assms])
    fix p1 assume ok: "parser_ok lib prof p1" and rem: "remaining p1 = remaining p"
    show "meets lib prof (6 * remaining p + 1 \<le> Suc n) p1 (\<lambda>x ts p2. expr_post lib prof m x ts (p2\<lparr>pa_depth := pa_depth p2 - 1\<rparr>)) (?f () p1)"
    proof (rule meets_bind [OF prefix_call [OF ok]])
      fix left ts p2
      assume ok2: "parser_ok lib prof p2" and rem2: "remaining p1 = remaining p2 + length ts" and pre: "prefix_post lib prof p1 left ts p2"
      have len: "0 < length ts" using pre by (simp add: prefix_post_def)
      show "meets lib prof (6 * remaining p + 1 \<le> Suc n) p2
          (\<lambda>y us p'. expr_post lib prof m y (ts @ us) (p'\<lparr>pa_depth := pa_depth p' - 1\<rparr>)) (pbind (c_postfix c left p2) (c_binary c m))"
      proof (rule meets_bind [OF postfix_call [OF ok2]])
        fix e us p3
        assume ok3: "parser_ok lib prof p3" and rem3: "remaining p2 = remaining p3 + length us" and post: "postfix_post lib prof p2 left e us p3"
        have ready: "left_ready lib prof m (ts @ us) e p3"
        proof (cases "g_atom lib prof ts left")
          case True
          then have "g_suffixed lib prof (ts @ us) e" using post by (auto simp: postfix_post_def intro: suffixed_atom)
          then show ?thesis using suffixed_ready g_not_unary(2) by blast
        next
          case False
          then have u: "is_unary left" "\<And>m. g_expr lib prof m ts left" "stops 12 p2" using pre by (auto simp: prefix_post_def)
          then have "\<not> is_prefix_expr left" by (cases left) auto
          then show ?thesis using post u by (auto simp: postfix_post_def left_ready_def stops_def)
        qed
        show "meets lib prof (6 * remaining p + 1 \<le> Suc n) p3
          (\<lambda>y vs p'. expr_post lib prof m y (ts @ us @ vs) (p'\<lparr>pa_depth := pa_depth p' - 1\<rparr>)) (c_binary c m e p3)"
          by (rule meets_mono [OF binary_call [OF ok3 ready]])
            (use rem rem2 rem3 len in \<open>auto simp: binary_post_def expr_post_def stops_def binary_at_def current_def\<close>)
      qed (use rem rem2 len in auto)
    qed (use rem in auto)
  qed simp
qed
end

lemma extend: "\<forall>us. P us e \<longrightarrow> P (us @ ts) e' \<Longrightarrow> P (us @ xs) e \<Longrightarrow> P (us @ xs @ ts) e'"
  by fastforce

lemmas suffixed_rules = suffixed_call suffixed_argument suffixed_field suffixed_index suffixed_method suffixed_method_argument

lemmas suffixed_more = suffixed_rules [THEN [2] extend [where P = "g_suffixed lib prof" for lib prof], simplified append_assoc append_Cons append_Nil]

context sub_parsers
begin

lemma paren_arguments_meets:
  assumes "parser_ok lib prof p"
  shows "meets lib prof (6 * remaining p + 2 \<le> n) p
    (\<lambda>es ts p'. \<exists>us z. ts = us @ [z] \<and> sym CloseParen z \<and> g_optional_exprs lib prof us es \<and> previous p' = z) (paren_arguments c p)"
  unfolding paren_arguments_def
  by (intro step_rules meets_bind [OF list_expr_meets])
    (use assms in \<open>auto intro: optional_none optional_some\<close>)

lemma single_argument_meets:
  assumes "parser_ok lib prof p" and "starts_argument (tok_kind (current p))"
  shows "meets lib prof (6 * remaining p \<le> n) p
    (\<lambda>e ts p'. g_atom lib prof ts e \<and> starts_argument (tok_kind (hd ts)) \<and> 0 < length ts \<and> previous p' = last ts) (single_argument c p)"
proof -
  have "unary_operator (current p) = None"
    using assms(2) by (auto simp: unary_operator_def sym_def kw_def starts_argument_def)
  then show ?thesis unfolding single_argument_def
    by (intro step_rules) (use assms passes_hd [OF _ assms(1)] passes_previous in \<open>auto simp: prefix_post_def\<close>)
qed

lemma method_arguments_meets:
  assumes "parser_ok lib prof p"
  shows "meets lib prof (6 * remaining p \<le> n) p
    (\<lambda>es ts p'. 0 < length ts \<and> previous p' = last ts \<and>
       ((\<exists>a us z. ts = a # us @ [z] \<and> sym OpenParen a \<and> sym CloseParen z \<and> g_optional_exprs lib prof us es)
        \<or> (\<exists>e. es = [e] \<and> g_atom lib prof ts e \<and> starts_argument (tok_kind (hd ts))))) (method_arguments c p)"
  unfolding method_arguments_def
  by (intro step_rules meets_mono [OF paren_arguments_meets] meets_bind [OF single_argument_meets])
    (use assms in auto)

lemma postfix_meets:
  assumes "parser_ok lib prof p"
  shows "meets lib prof (6 * remaining p + 1 \<le> Suc n) p (postfix_post lib prof p base) (postfix c base p)"
proof (cases "is_prefix_expr base")
  case True
  show ?thesis unfolding postfix_def Let_def
    by (intro step_rules meets_bind [OF paren_arguments_meets] meets_bind [OF single_argument_meets] meets_bind [OF method_arguments_meets],
      (use assms True in \<open>auto simp: postfix_post_def expr_post_def\<close>), (rule suffixed_more, assumption+)+)
next
  case False
  then show ?thesis using assms by (auto simp: postfix_def postfix_post_def intro!: meets_Parsed)
qed
end

context sub_parsers
begin

lemma field_array_at:
  "g_expr lib prof 0 ts e \<Longrightarrow> passes p ts p' \<Longrightarrow> parser_ok lib prof p \<Longrightarrow>
   g_field lib prof ts (Field_Array e None (join_span (current_span p) (expr_span e)))"
  using field_array passes_hd g_nonempty(1) by metis

lemma table_field_meets:
  assumes "parser_ok lib prof p"
  shows "meets lib prof (6 * remaining p + 1 \<le> n) p (\<lambda>f ts p'. 0 < length ts \<and> g_field lib prof ts f) (table_field c p)"
  unfolding table_field_def Let_def
  by (intro step_rules, (use assms in \<open>auto simp: expr_post_def\<close>),
      (rule field_indexed field_named field_array_at, assumption+)+)

lemma table_fields_meets:
  assumes "parser_ok lib prof p"
  shows "meets lib prof (6 * remaining p + 2 \<le> Suc n) p (appends (g_fields lib prof) fs) (table_fields c fs p)"
  unfolding table_fields_def
  by (intro step_rules meets_bind [OF table_field_meets])
    (use assms in \<open>auto simp: appends_def intro: fields_close fields_last fields_comma fields_semicolon\<close>)

lemma table_meets:
  assumes "parser_ok lib prof p" and "sym OpenBrace (current p)"
  shows "meets lib prof (6 * remaining p \<le> Suc n) p (\<lambda>e ts p'. 0 < length ts \<and> g_atom lib prof ts e) (table c p)"
proof (rule meets_advance [OF assms(1)])
  show "tok_kind (current p) \<noteq> Tok_Eof" using assms(2) by (simp add: sym_def)
  assume "parser_ok lib prof (advance_token p)" "remaining p = Suc (remaining (advance_token p))" "previous (advance_token p) = current p"
  then show "meets lib prof (6 * remaining p \<le> Suc n) (advance_token p)
      (\<lambda>e ts p'. 0 < length (current p # ts) \<and> g_atom lib prof (current p # ts) e) (table c p)"
    unfolding table_def Let_def
    by (intro step_rules) (use assms in \<open>auto simp: appends_def passes_previous g_nonempty intro: atom_table\<close>)
qed

lemma params_trailing:
  assumes "parser_ok lib prof p" and "sym Comma (current p)" and "sym CloseParen (current (advance_token p))"
  shows lib
proof (rule ccontr)
  assume "\<not> lib"
  then show False using advance_strict [OF assms(1)] assms(2,3) by (auto simp: strict_pair_def sym_def)
qed

lemma params_post_more:
  assumes "parser_ok lib prof p1" and "current p1 = d" and "sym Comma d" and "name_token name t"
    and "params_post lib prof (advance_token p1) (ps @ [plain_name name t]) r ts p'"
  shows "params_post lib prof p ps r (t # d # ts) p'"
  using assms params_trailing [OF assms(1)] by (fastforce simp: params_post_def intro: params_more)

lemma params_post_end:
  "g_params lib prof ts [] va \<Longrightarrow> va = None \<longrightarrow> sym CloseParen (current p) \<Longrightarrow> params_post lib prof p ps (ps, va) ts p'"
  "g_params lib prof ts [name] va \<Longrightarrow> params_post lib prof p ps (ps @ [name], va) ts p'"
  by (auto simp: params_post_def)

lemma params_loop_meets:
  assumes "parser_ok lib prof p"
  shows "meets lib prof (6 * remaining p \<le> Suc n) p (params_post lib prof p ps) (params_loop c ps p)"
  unfolding params_loop_def Let_def pbind_norm plain_name_def [symmetric]
  by (intro step_rules)
    (use assms in \<open>auto simp: parser_ok_parts intro!: params_post_end intro: params_none params_last params_vararg params_named params_post_more\<close>)

lemma function_body_meets:
  assumes "parser_ok lib prof p"
  shows "meets lib prof (6 * remaining p \<le> n) p (\<lambda>b ts p'. 0 < length ts \<and> g_body lib prof start ts b \<and> previous p' = last ts) (function_body c start p)"
  unfolding function_body_def
  by (intro step_rules) (use assms in \<open>auto simp: params_post_def block_post_def intro: body\<close>)

lemma function_expr_meets:
  assumes "parser_ok lib prof p" and "kw Kw_Function (current p)"
  shows "meets lib prof (6 * remaining p \<le> Suc n) p (\<lambda>e ts p'. 0 < length ts \<and> g_atom lib prof ts e) (function_expr c p)"
proof (rule meets_advance [OF assms(1)])
  show "tok_kind (current p) \<noteq> Tok_Eof" using assms(2) by (simp add: kw_def)
  assume "parser_ok lib prof (advance_token p)" "remaining p = Suc (remaining (advance_token p))"
  then show "meets lib prof (6 * remaining p \<le> Suc n) (advance_token p)
      (\<lambda>e ts p'. 0 < length (current p # ts) \<and> g_atom lib prof (current p # ts) e) (function_expr c p)"
    unfolding function_expr_def Let_def
    by (intro step_rules meets_bind [OF function_body_meets]) (use assms in \<open>auto intro: atom_function\<close>)
qed

lemma unary_meets:
  assumes "parser_ok lib prof p" and "unary_operator (current p) = Some u"
  shows "meets lib prof (6 * remaining p \<le> Suc n) p (prefix_post lib prof p) (unary c u (current p) p)"
proof (rule meets_advance [OF assms(1)])
  show "tok_kind (current p) \<noteq> Tok_Eof" using assms(2) by (auto simp: unary_operator_def sym_def kw_def split: if_splits)
  assume "parser_ok lib prof (advance_token p)" "remaining p = Suc (remaining (advance_token p))"
  then show "meets lib prof (6 * remaining p \<le> Suc n) (advance_token p)
      (\<lambda>e ts. prefix_post lib prof p e (current p # ts)) (unary c u (current p) p)"
    unfolding unary_def
    by (intro step_rules) (use assms in \<open>auto simp: prefix_post_def expr_post_def intro: expr_unary\<close>)
qed

lemma atom_token:
  assumes "parser_ok lib prof p" and "tok_kind (current p) \<noteq> Tok_Eof" and "g_atom lib prof [current p] e"
  shows "meets lib prof fed p (prefix_post lib prof p) (Parsed e (advance_token p))"
  by (rule meets_advance [OF assms(1,2)], rule meets_Parsed) (use assms(3) in \<open>simp_all add: prefix_post_def\<close>)

lemma literal_prefix_meets:
  assumes "parser_ok lib prof p" and "tok_kind (current p) \<in> {Tok_Integer, Tok_Float, Tok_String}"
  shows "meets lib prof fed p (prefix_post lib prof p) (literal_prefix (current p) p)"
proof -
  obtain l where "tok_literal (current p) = Some l" using current_literal [OF assms(1)] assms(2) by auto
  then show ?thesis using assms by (auto simp: literal_prefix_def intro!: atom_token atom_literal)
qed

lemma paren_prefix_meets:
  assumes "parser_ok lib prof p" and "sym OpenParen (current p)"
  shows "meets lib prof (6 * remaining p \<le> Suc n) p (prefix_post lib prof p) (paren_prefix c (current p) p)"
  unfolding paren_prefix_def
proof (rule meets_advance [OF assms(1)])
  show "tok_kind (current p) \<noteq> Tok_Eof" using assms(2) by (simp add: sym_def)
qed (intro step_rules, (use assms in \<open>auto simp: prefix_post_def expr_post_def intro: atom_paren\<close>))

lemma atom_meets:
  assumes "meets lib prof fed p (\<lambda>e ts p'. 0 < length ts \<and> g_atom lib prof ts e) r"
  shows "meets lib prof fed p (prefix_post lib prof p) r"
  by (rule meets_mono [OF assms]) (auto simp: prefix_post_def)

lemma token_prefix_meets:
  assumes ok: "parser_ok lib prof p"
  shows "meets lib prof (6 * remaining p \<le> Suc n) p (prefix_post lib prof p) (token_prefix c (current p) p)"
proof (cases "tok_kind (current p)")
  case Tok_Name
  then obtain name where "tok_literal (current p) = Some (Lit_Name name)" using current_literal [OF ok] by auto
  then show ?thesis using Tok_Name atom_token [OF ok] atom_name
    by (simp add: token_prefix_def name_prefix_def Let_def name_token_def)
next
  case (Tok_Keyword k)
  then show ?thesis
    using atom_token [OF ok] unary_meets [OF ok] atom_meets [OF function_expr_meets [OF ok]] meets_error(1) [OF ok]
      atom_nil atom_true atom_false
    by (auto simp: token_prefix_def keyword_prefix_def kw_def unary_operator_def sym_def)
next
  case (Tok_Symbol s)
  then show ?thesis
    using atom_token [OF ok] unary_meets [OF ok] atom_meets [OF table_meets [OF ok]] paren_prefix_meets [OF ok] meets_error(1) [OF ok]
      atom_vararg
    by (auto simp: token_prefix_def symbol_prefix_def sym_def unary_operator_def kw_def)
qed (use literal_prefix_meets [OF ok] meets_error(1) [OF ok] in \<open>simp_all add: token_prefix_def\<close>)

lemma prefix_meets:
  assumes "parser_ok lib prof p"
  shows "meets lib prof (6 * remaining p \<le> Suc n) p (prefix_post lib prof p) (prefix c p)"
  unfolding prefix_def
  by (intro bind_reserve meets_mono [OF token_prefix_meets]) (use assms in \<open>auto simp: prefix_post_def\<close>)
end

lemma g_nonempty_names: "g_local_name pre ts x \<Longrightarrow> ts \<noteq> []" "g_local_names pre ts xs \<Longrightarrow> ts \<noteq> []" "g_global_names ts ys \<Longrightarrow> ts \<noteq> []"
  by (auto elim: g_local_name.cases g_local_names.cases g_global_names.cases)

lemma current_depth: "current (p\<lparr>pa_depth := d\<rparr>) = current p"
  by (simp add: current_def)

context sub_parsers
begin

lemma take_semicolon:
  assumes "parser_ok lib prof p"
  obtains ts where "passes p ts (snd (take_symbol Semicolon p))" and "parser_ok lib prof (snd (take_symbol Semicolon p))"
    and "ts = [] \<or> (\<exists>z. ts = [z] \<and> sym Semicolon z)" and "remaining p = remaining (snd (take_symbol Semicolon p)) + length ts"
proof (cases "sym Semicolon (current p)")
  case True
  then have "tok_kind (current p) \<noteq> Tok_Eof" by (simp add: sym_def)
  from advance_ok [OF assms this] True show thesis by (intro that [of "[current p]"]) (auto simp: take_symbol_def sym_def)
next
  case False
  then show thesis using assms by (intro that [of "[]"]) (auto simp: take_symbol_def sym_def)
qed

text \<open>After a \<open>return\<close> comes an optional semicolon and then the end of the block.\<close>

lemma statements_end:
  assumes "statements_post lib prof ks p (sts @ [s]) r ts p'" and "g_stmt lib prof us s" and "is_return s"
    and "eof p \<or> at_terminator ks p" and "vs = [] \<or> (\<exists>z. vs = [z] \<and> sym Semicolon z)" and "\<not> (eof q \<or> at_terminator ks q)"
  shows "statements_post lib prof ks q sts r (us @ vs @ ts) p'"
  using assms by (auto simp: statements_post_def intro: stmts_return stmts_return_semicolon)

lemma statements_more:
  assumes "statements_post lib prof ks p (sts @ [s]) r ts p'" and "g_stmt lib prof us s" and "\<not> is_return s"
    and "\<not> (eof q \<or> at_terminator ks q)"
  shows "statements_post lib prof ks q sts r (us @ ts) p'"
  using assms by (fastforce simp: statements_post_def intro: stmts_more)

lemma statements_none: "eof p \<or> at_terminator ks p \<Longrightarrow> statements_post lib prof ks p sts sts [] p"
  by (auto simp: statements_post_def intro: stmts_none)

lemma after_return:
  assumes "parser_ok lib prof p1" and "is_return s" and "g_stmt lib prof us s" and "\<not> (eof q \<or> at_terminator ks q)"
    and "fed \<Longrightarrow> 6 * remaining p1 + 4 \<le> n"
    and "\<And>p2. parser_ok lib prof p2 \<Longrightarrow> meets lib prof (6 * remaining p2 + 4 \<le> n) p2 (statements_post lib prof ks p2 (sts @ [s])) (rest p2)"
  shows "meets lib prof fed p1 (\<lambda>y vs. statements_post lib prof ks q sts y (us @ vs))
      (let p = snd (take_symbol Semicolon p1)
       in if \<not> eof p \<and> \<not> at_terminator ks p then Rejected (error_at p ReturnNotLast) else rest p)"
proof -
  let ?p = "snd (take_symbol Semicolon p1)"
  from take_semicolon [OF assms(1)] obtain vs where vs: "passes p1 vs ?p" "parser_ok lib prof ?p"
    "vs = [] \<or> (\<exists>z. vs = [z] \<and> sym Semicolon z)" "remaining p1 = remaining ?p + length vs" by blast
  show ?thesis unfolding Let_def
    by (rule meets_shift [OF vs(1)], intro meets_if meets_error [OF vs(2)] meets_mono [OF assms(6) [OF vs(2)]])
      (use assms vs statements_end in auto)
qed

lemma block_statements_meets:
  assumes "parser_ok lib prof p"
  shows "meets lib prof (6 * remaining p + 4 \<le> Suc n) p (statements_post lib prof ks p sts) (block_statements c ks sts p)"
  unfolding block_statements_def
  by (intro step_rules after_return)
    (use assms in \<open>auto simp: statement_post_def intro: statements_none statements_more intro!: statements_call\<close>)

lemma module_statements_meets:
  assumes "parser_ok lib prof p"
  shows "meets lib prof (6 * remaining p + 4 \<le> Suc n) p (statements_post lib prof [] p sts) (module_statements c sts p)"
proof -
  have nil: "\<not> at_terminator [] p" for p by (simp add: at_terminator_def)
  show ?thesis unfolding module_statements_def
    by (intro step_rules after_return [where ks = "[]" and rest = "c_module c (sts @ [s])" for s, simplified nil simp_thms])
      (use assms in \<open>auto simp: statement_post_def nil intro: statements_none statements_more intro!: module_call\<close>)
qed

lemma block_until_meets:
  assumes "parser_ok lib prof p"
  shows "meets lib prof (6 * remaining p + 5 \<le> Suc n) p (block_post lib prof ks) (block_until c ks p)"
proof -
  let ?f = "\<lambda>_ p. pbind (c_statements c ks [] p) (\<lambda>sts p'. if eof p' then Rejected (error_at p' MissingBlockEnd)
      else Parsed (Block sts (Some (current_span p')) (join_span (current_span p) (current_span p'))) p')"
  have eq: "block_until c ks p = pbind (reserve_node p) (\<lambda>_ p. pbind (pbind (deeper p) ?f)
      (\<lambda>b p. Parsed b (p\<lparr>pa_depth := pa_depth p - 1\<rparr>)))"
    unfolding block_until_def Let_def pbind_norm current_depth ..
  have body: "meets lib prof (6 * remaining p + 5 \<le> Suc n) p2
      (\<lambda>x ts p3. block_post lib prof ks x ts (p3\<lparr>pa_depth := pa_depth p3 - 1\<rparr>)) (?f () p2)"
    if ok: "parser_ok lib prof p2" and rem: "remaining p2 = remaining p" for p2
  proof (rule meets_bind [OF statements_call [OF ok]])
    fix sts ts p3
    assume m: "passes p2 ts p3" and ok3: "parser_ok lib prof p3" and post: "statements_post lib prof ks p2 [] sts ts p3"
    have "hd (ts @ [current p3]) = current p2"
    proof (cases "ts = []")
      case True
      then show ?thesis using m current_nth [OF ok] current_nth [OF ok3] by (simp add: passes_def)
    qed (use passes_hd [OF m ok] in simp)
    then show "meets lib prof (6 * remaining p + 5 \<le> Suc n) p3
        (\<lambda>y us p'. block_post lib prof ks y (ts @ us) (p'\<lparr>pa_depth := pa_depth p' - 1\<rparr>))
        (if eof p3 then Rejected (error_at p3 MissingBlockEnd)
         else Parsed (Block sts (Some (current_span p3)) (join_span (current_span p2) (current_span p3))) p3)"
      by (intro meets_if meets_error meets_Parsed)
        (use ok3 post in \<open>auto simp: statements_post_def block_post_def block_node_def current_def at_terminator_def\<close>)
  qed (use rem in auto)
  show ?thesis unfolding eq
    by (rule bind_reserve [OF assms], rule bind_deeper) (use body in auto)
qed

lemma block_end_meets:
  assumes "parser_ok lib prof p"
  shows "meets lib prof (6 * remaining p + 5 \<le> n) p
    (\<lambda>b ts p'. \<exists>us sts z. ts = us @ [z] \<and> g_stmts lib prof us sts \<and> b = block_node us sts z \<and> kw Kw_End z \<and> previous p' = z) (block_end c p)"
  unfolding block_end_def by (intro step_rules) (use assms in \<open>auto simp: block_post_def\<close>)
end

text \<open>The rest of a statement after its first token \<open>a\<close>.\<close>

definition rest_post :: "bool \<Rightarrow> lua_profile \<Rightarrow> token \<Rightarrow> stmt \<Rightarrow> token list \<Rightarrow> parser \<Rightarrow> bool" where
  "rest_post lib prof a s ts p' \<longleftrightarrow> g_stmt lib prof (a # ts) s"

context sub_parsers
begin

lemmas part_rules = meets_bind [OF list_expr_meets] meets_mono [OF list_expr_meets] meets_bind [OF function_body_meets]
  meets_bind [OF block_end_meets] step_rules

lemma label_statement_meets:
  assumes "parser_ok lib prof p" and "sym DoubleColon a"
  shows "meets lib prof fed p (rest_post lib prof a) (label_statement (tok_span a) p)"
  unfolding label_statement_def Let_def finish_def
  by (intro part_rules) (use assms in \<open>auto simp: rest_post_def intro: stmt_label\<close>)

lemma path_loop_meets:
  assumes "parser_ok lib prof p"
  shows "meets lib prof (6 * remaining p \<le> Suc n) p (path_post value) (path_loop c value p)"
  unfolding path_loop_def Let_def
  by (intro part_rules, (use assms in \<open>auto simp: path_post_def intro: path_plain path_method\<close>))
    (metis append_Cons append_Nil append_assoc dotted_field)

lemma function_name_meets:
  assumes "parser_ok lib prof p"
  shows "meets lib prof (6 * remaining p \<le> n) p (\<lambda>r ts p'. 0 < length ts \<and> g_path ts (fst r) (snd r)) (function_name c p)"
  unfolding function_name_def Let_def
  by (intro part_rules, (use assms in \<open>auto simp: path_post_def\<close>)) (metis append_Cons append_Nil dotted_name)

lemma function_statement_meets:
  assumes "parser_ok lib prof p" and "kw Kw_Function a"
  shows "meets lib prof (6 * remaining p \<le> n) p (rest_post lib prof a) (function_statement c (tok_span a) p)"
  unfolding function_statement_def finish_def
  by (intro part_rules meets_bind [OF function_name_meets]) (use assms in \<open>auto simp: rest_post_def intro: stmt_function\<close>)

lemma do_statement_meets:
  assumes "parser_ok lib prof p" and "kw Kw_Do a"
  shows "meets lib prof (6 * remaining p + 5 \<le> n) p (rest_post lib prof a) (do_statement c (tok_span a) p)"
  unfolding do_statement_def finish_def
  by (intro part_rules) (use assms in \<open>auto simp: rest_post_def intro: stmt_do\<close>)

lemma while_statement_meets:
  assumes "parser_ok lib prof p" and "kw Kw_While a"
  shows "meets lib prof (6 * remaining p + 5 \<le> n) p (rest_post lib prof a) (while_statement c (tok_span a) p)"
  unfolding while_statement_def finish_def
  by (intro part_rules) (use assms in \<open>auto simp: rest_post_def expr_post_def intro: stmt_while\<close>)

lemma repeat_statement_meets:
  assumes "parser_ok lib prof p" and "kw Kw_Repeat a"
  shows "meets lib prof (6 * remaining p + 5 \<le> n) p (rest_post lib prof a) (repeat_statement c (tok_span a) p)"
  unfolding repeat_statement_def finish_def
  by (intro part_rules) (use assms in \<open>auto simp: rest_post_def expr_post_def block_post_def passes_previous intro: stmt_repeat dest: nonempty\<close>)

lemma clause_meets:
  assumes "parser_ok lib prof p"
  shows "meets lib prof (6 * remaining p + 5 \<le> n) p
    (\<lambda>cl ts p'. 0 < length ts \<and> g_clause lib prof (current p') ts cl \<and> at_terminator [Kw_ElseIf, Kw_Else, Kw_End] p') (clause c p)"
  unfolding clause_def
  by (intro part_rules) (use assms in \<open>auto simp: expr_post_def block_post_def intro: clause\<close>)

lemma clauses_post_none: "clauses_post lib prof p cls cls [] p"
  by (auto simp: clauses_post_def intro: clauses_last)

lemma clauses_post_more:
  assumes "kw Kw_ElseIf (current p)" and "g_clause lib prof (current p1) ts cl" and "clauses_post lib prof p1 (cls @ [cl]) r us p'"
  shows "clauses_post lib prof p cls r (current p # ts @ us) p'"
proof -
  obtain new where new: "r = (cls @ [cl]) @ new" and g: "g_clauses lib prof (current p') (ts @ us) (cl # new)"
    using assms(2,3) unfolding clauses_post_def by blast
  have "g_clauses lib prof (current p') (vs @ current p # ts @ us) (cl0 # cl # new)" if "g_clause lib prof (current p) vs cl0" for vs cl0
    using clauses_more [OF that assms(1) g] .
  then show ?thesis unfolding clauses_post_def new by (intro exI [of _ "cl # new"]) auto
qed

lemma clauses_post_use:
  assumes "clauses_post lib prof p1 [cl] r us p'" and "g_clause lib prof (current p1) ts cl" and "kw Kw_If a"
  shows "kw Kw_End (current p') \<Longrightarrow> g_stmt lib prof (a # ts @ us @ [current p']) (St_If r None (join_tokens a (current p')))"
    and "kw Kw_Else (current p') \<Longrightarrow> g_stmts lib prof vs sts \<Longrightarrow> kw Kw_End z \<Longrightarrow>
      g_stmt lib prof (a # ts @ us @ current p' # vs @ [z]) (St_If r (Some (block_node vs sts z)) (join_tokens a z))"
proof -
  have g: "g_clauses lib prof (current p') (ts @ us) r" using assms(1,2) by (cases cl) (auto simp: clauses_post_def)
  show "g_stmt lib prof (a # ts @ us @ [current p']) (St_If r None (join_tokens a (current p')))" if "kw Kw_End (current p')"
    using stmt_if [OF assms(3) g that] by simp
  show "g_stmt lib prof (a # ts @ us @ current p' # vs @ [z]) (St_If r (Some (block_node vs sts z)) (join_tokens a z))"
    if "kw Kw_Else (current p')" "g_stmts lib prof vs sts" "kw Kw_End z"
    using stmt_if_else [OF assms(3) g that] by simp
qed

lemma clauses_loop_meets:
  assumes "parser_ok lib prof p"
  shows "meets lib prof (6 * remaining p \<le> Suc n) p (clauses_post lib prof p cls) (clauses_loop c cls p)"
  unfolding clauses_loop_def
  by (intro part_rules meets_bind [OF clause_meets])
    (use assms in \<open>auto intro: clauses_post_none clauses_post_more\<close>)

lemma if_statement_meets:
  assumes "parser_ok lib prof p" and "kw Kw_If a"
  shows "meets lib prof (6 * remaining p + 5 \<le> n) p (rest_post lib prof a) (if_statement c (tok_span a) p)"
  unfolding if_statement_def finish_def pbind_norm
  by (intro part_rules meets_bind [OF clause_meets])
    (use assms in \<open>auto simp: rest_post_def block_post_def intro: clauses_post_use\<close>)

lemma for_names_loop_meets:
  assumes "parser_ok lib prof p"
  shows "meets lib prof (6 * remaining p \<le> Suc n) p (appends g_for_names ns) (for_names_loop c ns p)"
  unfolding for_names_loop_def Let_def
  by (intro part_rules) (use assms for_more in \<open>auto simp: appends_def plain_name_def intro: for_none\<close>)

lemmas numeric_for_rules = stmt_numeric_for [OF _ _ _ _ _ _ step_none, simplified append_Nil]
  stmt_numeric_for [OF _ _ _ _ _ _ step_some, simplified append_Cons]

lemma numeric_for_meets:
  assumes "parser_ok lib prof p" and "kw Kw_For a" and "name_token name t" and "sym AssignSym s"
  shows "meets lib prof (6 * remaining p + 5 \<le> n) p (\<lambda>st ts. rest_post lib prof a st ([t, s] @ ts))
    (numeric_for c (tok_span a) (plain_name name t) p)"
  unfolding numeric_for_def finish_def pbind_norm
  by (intro part_rules, (use assms in \<open>auto simp: rest_post_def expr_post_def\<close>), (rule numeric_for_rules, assumption+)+)

lemma generic_for_meets:
  assumes "parser_ok lib prof p" and "kw Kw_For a" and "name_token name t"
  shows "meets lib prof (6 * remaining p + 5 \<le> n) p (\<lambda>st ts. rest_post lib prof a st (t # ts))
    (generic_for c (tok_span a) (plain_name name t) p)"
  unfolding generic_for_def finish_def
  by (intro part_rules, (use assms in \<open>auto simp: rest_post_def appends_def\<close>), rule stmt_generic_for, assumption+)
end

lemma list_all_targets: "\<not> (\<exists>e\<in>set es. \<not> is_target e) \<Longrightarrow> list_all is_target es"
  by (auto simp: list_all_iff)

lemma call_suffixed: "g_expr lib prof m ts e \<Longrightarrow> is_call e \<Longrightarrow> g_suffixed lib prof ts e"
  by (cases e) auto

lemma own_or_simps [simp]: "own_or pre None = pre" "own_or pre (Some at) = Some at" "own_or None own = own"
  by (simp_all add: own_or_def)

lemma local_names_at:
  assumes "name_token name t"
  shows "g_optional_attribute [] own \<Longrightarrow>
      g_local_names pre [t] [\<lparr>ln_name = name, ln_attribute = own_or pre own, ln_span = join_tokens t t\<rparr>]"
    and "g_optional_attribute ts own \<Longrightarrow> ts \<noteq> [] \<Longrightarrow>
      g_local_names pre (t # ts) [\<lparr>ln_name = name, ln_attribute = own_or pre own, ln_span = join_tokens t (last ts)\<rparr>]"
    and "g_optional_attribute [] own \<Longrightarrow> sym Comma d \<Longrightarrow> g_local_names pre us ns \<Longrightarrow>
      g_local_names pre (t # d # us) (\<lparr>ln_name = name, ln_attribute = own_or pre own, ln_span = join_tokens t t\<rparr> # ns)"
    and "g_optional_attribute ts own \<Longrightarrow> ts \<noteq> [] \<Longrightarrow> sym Comma d \<Longrightarrow> g_local_names pre us ns \<Longrightarrow>
      g_local_names pre (t # ts @ d # us) (\<lparr>ln_name = name, ln_attribute = own_or pre own, ln_span = join_tokens t (last ts)\<rparr> # ns)"
  using local_one [OF local_name [OF assms]] local_more [OF local_name [OF assms]] by fastforce+

context sub_parsers
begin

lemma for_statement_meets:
  assumes "parser_ok lib prof p" and "kw Kw_For a"
  shows "meets lib prof (6 * remaining p + 5 \<le> n) p (rest_post lib prof a) (for_statement c (tok_span a) p)"
  unfolding for_statement_def Let_def
  by (intro part_rules meets_mono [OF numeric_for_meets [unfolded plain_name_def]] meets_mono [OF generic_for_meets [unfolded plain_name_def]])
    (use assms in auto)

lemma return_values_meets:
  assumes ok: "parser_ok lib prof p1" and "passes p ts p1" and "g_optional_exprs lib prof ts es" and "kw Kw_Return (previous p)"
  shows "meets lib prof fed p1 (\<lambda>y us. rest_post lib prof (previous p) y (ts @ us))
      (if pa_profile p1 = Lua55 \<and> 254 < length es \<and> \<not> is_open (last es)
       then Rejected (token_diagnostic (Some (previous p1)) Diag_Parse TooManyReturns)
       else Parsed (St_Return es (finish (previous_span p) p1)) p1)"
proof (intro meets_if)
  have "pa_index p1 - 1 < length (pa_tokens p1)" using parser_ok_parts(1) [OF ok] by simp
  then show "meets lib prof fed p1 (\<lambda>y us. rest_post lib prof (previous p) y (ts @ us))
      (Rejected (token_diagnostic (Some (previous p1)) Diag_Parse TooManyReturns))"
    by (intro meets_reject) (simp add: previous_def)
  assume "\<not> (pa_profile p1 = Lua55 \<and> 254 < length es \<and> \<not> is_open (last es))"
  then have "prof = Lua55 \<longrightarrow> length es \<le> 254 \<or> is_open (last es)" using parser_ok_parts(4) [OF ok] by auto
  from stmt_return [OF assms(4,3) this] show "meets lib prof fed p1 (\<lambda>y us. rest_post lib prof (previous p) y (ts @ us))
      (Parsed (St_Return es (finish (previous_span p) p1)) p1)"
    by (intro meets_Parsed [OF ok]) (simp add: rest_post_def finish_def passes_previous_or [OF assms(2) ok] last_ConsL last_ConsR)
qed

lemma return_statement_meets:
  assumes "parser_ok lib prof p" and "kw Kw_Return (previous p)"
  shows "meets lib prof (6 * remaining p + 2 \<le> n) p (rest_post lib prof (previous p)) (return_statement c (previous_span p) p)"
proof -
  have "meets lib prof (6 * remaining p + 2 \<le> n) p (\<lambda>vs ts p'. g_optional_exprs lib prof ts vs)
      (if ends_return p then Parsed [] p else list_expr c p)"
    by (intro part_rules) (use assms(1) in \<open>auto intro: optional_none optional_some\<close>)
  then show ?thesis unfolding return_statement_def
    by (rule meets_bind) (assumption, rule return_values_meets [OF _ _ _ assms(2)])
qed

lemma goto_statement_meets:
  assumes "parser_ok lib prof p" and "kw Kw_Goto a"
  shows "meets lib prof fed p (rest_post lib prof a) (goto_statement (tok_span a) p)"
  unfolding goto_statement_def finish_def
  by (intro part_rules) (use assms in \<open>auto simp: rest_post_def intro: stmt_goto\<close>)

lemma local_function_meets:
  assumes "parser_ok lib prof p" and "kw Kw_Local a" and "kw Kw_Function f"
  shows "meets lib prof (6 * remaining p \<le> n) p (\<lambda>s ts. rest_post lib prof a s (f # ts)) (local_function c (tok_span a) p)"
  unfolding local_function_def Let_def finish_def plain_name_def [symmetric]
  by (intro part_rules) (use assms in \<open>auto simp: rest_post_def intro: stmt_local_function\<close>)

lemma attribute_meets:
  assumes "parser_ok lib prof p" and "sym LessSym a"
  shows "meets lib prof fed p (\<lambda>at ts p'. 0 < length ts \<and> g_attribute (a # ts) at) (attribute p)"
  unfolding attribute_def Let_def
  by (intro part_rules) (use assms in \<open>auto intro: g_attribute.attribute\<close>)

text \<open>An attribute in angles, where one may stand.\<close>

lemma optional_attribute_meets:
  assumes "parser_ok lib prof p"
    and "\<And>own ts p1. passes p ts p1 \<Longrightarrow> parser_ok lib prof p1 \<Longrightarrow> remaining p = remaining p1 + length ts \<Longrightarrow>
      previous p1 = (if ts = [] then previous p else last ts) \<Longrightarrow> g_optional_attribute ts own \<Longrightarrow> meets lib prof fed p1 (\<lambda>y us. R y (ts @ us)) (f (own_or pre own) p1)"
  shows "meets lib prof fed p R
    (pbind (if_took (take_symbol LessSym p) (\<lambda>p. pbind (attribute p) (\<lambda>at p. Parsed (Some at) p)) (Parsed pre)) f)"
proof (rule meets_bind [where fed' = fed and Q = "\<lambda>r ts p'. \<exists>own. g_optional_attribute ts own \<and> r = (own_or pre own)"])
  show "meets lib prof fed p (\<lambda>r ts p'. \<exists>own. g_optional_attribute ts own \<and> r = (own_or pre own))
      (if_took (take_symbol LessSym p) (\<lambda>p. pbind (attribute p) (\<lambda>at p. Parsed (Some at) p)) (Parsed pre))"
    by (intro part_rules meets_bind [OF attribute_meets])
      (use assms(1) in \<open>auto intro: exI [of _ None] exI [of _ "Some _"] no_attribute some_attribute\<close>)
qed (use assms(2) passes_previous_or in auto)

lemma local_attribute_meets:
  assumes "parser_ok lib prof p"
  shows "meets lib prof fed p (\<lambda>pre ts p'. g_optional_attribute ts pre \<and> local_prefix_ok prof pre) (local_attribute p)"
proof -
  have "meets lib prof fed p1 (\<lambda>pre ts p'. g_optional_attribute (a # ts) pre \<and> local_prefix_ok prof pre)
      (let t = current p1 in pbind (attribute p1) (\<lambda>at p2.
         if attr_name at \<noteq> bs ''const'' \<and> attr_name at \<noteq> bs ''close''
         then Rejected (token_diagnostic (Some t) Diag_Parse UnknownLocalAttribute) else Parsed (Some at) p2))"
    if "parser_ok lib prof p1" "sym LessSym a" "prof = Lua55" for p1 a
    unfolding Let_def
    by (intro meets_bind [OF attribute_meets [OF that(1,2)]] meets_if meets_reject meets_Parsed)
      (use that current_in [OF that(1)] in \<open>auto simp: local_prefix_ok_def passes_def intro: some_attribute\<close>)
  then show ?thesis unfolding local_attribute_def
    by (intro meets_if meets_take_symbol meets_Parsed)
      (use assms parser_ok_parts(4) [OF assms] in \<open>auto simp: local_prefix_ok_def intro: no_attribute\<close>)
qed

lemma local_names_loop_meets:
  assumes "parser_ok lib prof p"
  shows "meets lib prof (6 * remaining p \<le> Suc n) p (appends (g_local_names pre) ns) (local_names_loop c pre ns p)"
  unfolding local_names_loop_def Let_def
  by (intro optional_attribute_meets bind_reserve_if part_rules)
    (use assms in \<open>auto simp: appends_def intro: local_names_at\<close>)

lemma global_names_loop_meets:
  assumes "parser_ok lib prof p"
  shows "meets lib prof (6 * remaining p \<le> Suc n) p (appends g_global_names ns) (global_names_loop c ns p)"
  unfolding global_names_loop_def Let_def
  by (intro optional_attribute_meets part_rules) (use assms in \<open>auto simp: appends_def intro: global_one global_more\<close>)

lemma initial_values_meets:
  assumes "parser_ok lib prof p"
  shows "meets lib prof (6 * remaining p \<le> n) p (\<lambda>es ts p'. g_initial lib prof ts es) (initial_values c p)"
proof -
  have "lib" if "sym AssignSym (current p)" "eof (advance_token p)"
    using advance_strict [OF assms] that by (auto simp: strict_pair_def sym_def eof_def)
  then show ?thesis unfolding initial_values_def
    by (intro part_rules) (use assms in \<open>auto intro: initial_none g_expr_g_suffixed_g_atom_g_exprs_g_optional_exprs_g_values_g_initial_g_field_g_fields_g_body_g_clause_g_clauses_g_step_g_stmt_g_stmts.initial_values values_list values_empty\<close>)
qed

lemma no_prefix: "g_optional_attribute ts None \<longleftrightarrow> ts = []"
  by (auto elim: g_optional_attribute.cases intro: no_attribute)

lemma previous_after:
  assumes "passes p ts p1" and "passes p1 us p2" and "parser_ok lib prof p2" and "ts \<noteq> []"
  shows "previous p2 = last (ts @ us)"
  using passes_previous [OF passes_trans [OF assms(1,2)] assms(3)] assms(4) by simp

lemma local_statement_meets:
  assumes "parser_ok lib prof p" and "kw Kw_Local a"
  shows "meets lib prof (6 * remaining p \<le> n) p (rest_post lib prof a) (local_statement c (tok_span a) p)"
  unfolding local_statement_def finish_def
  by (intro meets_mono [OF local_function_meets] meets_bind [OF local_attribute_meets] meets_bind [OF initial_values_meets] part_rules)
    (use assms in \<open>auto simp: appends_def rest_post_def previous_after g_nonempty_names intro: stmt_local\<close>)

lemma global_statement_meets:
  assumes "parser_ok lib prof p" and "kw Kw_Global a"
  shows "meets lib prof (6 * remaining p \<le> n) p (rest_post lib prof a) (global_statement c (tok_span a) p)"
  unfolding global_statement_def global_function_def finish_def Let_def
  by (intro optional_attribute_meets meets_bind [OF initial_values_meets] part_rules)
    (use assms in \<open>auto simp: appends_def rest_post_def previous_after g_nonempty_names no_prefix
      intro: stmt_global_star stmt_global_function stmt_global_names\<close>)

lemma targets_loop_meets:
  assumes "parser_ok lib prof p"
  shows "meets lib prof (6 * remaining p \<le> Suc n) p (targets_post lib prof es) (targets_loop c es p)"
  unfolding targets_loop_def
  by (intro part_rules) (use assms in \<open>auto simp: targets_post_def expr_post_def intro: exprs_one exprs_more\<close>)

lemma targets_use:
  assumes "targets_post lib prof [e] es us p'" and "g_expr lib prof 0 ts e"
  shows "g_exprs lib prof (ts @ us) es"
  using assms by (auto simp: targets_post_def)


lemma exprs_nonempty: "g_exprs lib prof ts es \<Longrightarrow> es \<noteq> []"
  by (erule g_exprs.cases) auto

lemma single_expr: "g_exprs lib prof ts [e] \<Longrightarrow> g_expr lib prof 0 ts e"
  by (erule g_exprs.cases) (auto dest: exprs_nonempty)

lemma single_target:
  assumes "targets_post lib prof [e] es us p'" and "g_expr lib prof 0 ts e" and "length es = Suc 0" and "is_call (last es)"
  shows "g_suffixed lib prof (ts @ us) (last es)"
proof -
  obtain e' where e': "es = [e']" using assms(3) by (cases es) auto
  with targets_use [OF assms(1,2)] have "g_exprs lib prof (ts @ us) [e']" by simp
  then have "g_expr lib prof 0 (ts @ us) e'" by (rule single_expr)
  then show ?thesis using assms(4) e' call_suffixed by simp
qed

lemma assignment_at:
  assumes "parser_ok lib prof p" and "parser_ok lib prof p1" and "parser_ok lib prof p3" and "passes p ts p1" and "passes p1 us p2"
    and "targets_post lib prof [e] es us p2" and "g_expr lib prof 0 ts e" and "\<forall>e\<in>set es. is_target e"
    and "sym AssignSym s" and "g_values lib prof vs xs" and "passes p2 [s] p2'" and "passes p2' vs p3"
  shows "g_stmt lib prof (ts @ us @ s # vs) (St_Assignment es xs (join_tokens (current p) (previous p3)))"
proof -
  have "list_all is_target es" using assms(8) by (simp add: list_all_iff)
  from stmt_assignment [OF targets_use [OF assms(6,7)] this assms(9,10)]
  have g: "g_stmt lib prof ((ts @ us) @ s # vs) (St_Assignment es xs (join_tokens (hd (ts @ us)) (last (s # vs))))" .
  have "ts \<noteq> []" using g_nonempty(1) [OF assms(7)] .
  moreover have "current p = hd ts" using passes_hd [OF assms(4,1)] calculation by simp
  moreover have "previous p3 = last (s # vs)" using previous_after [OF assms(11,12,3)] by simp
  ultimately show ?thesis using g by simp
qed

lemma empty_assignment_at:
  assumes "parser_ok lib prof p" and "parser_ok lib prof p1" and "parser_ok lib prof p2" and "passes p ts p1" and "passes p1 us p2"
    and "targets_post lib prof [e] es us p2" and "g_expr lib prof 0 ts e" and "\<forall>e\<in>set es. is_target e"
    and "sym AssignSym (current p2)" and "eof (advance_token p2)"
  shows "g_stmt lib prof (ts @ us @ [current p2]) (St_Assignment es [] (join_tokens (current p) (current p2)))"
proof -
  have k: "tok_kind (current p2) \<noteq> Tok_Eof" using assms(9) by (simp add: sym_def)
  note adv = advance_ok [OF assms(3) k]
  have "lib" using advance_strict [OF assms(3) k] assms(9,10) by (auto simp: strict_pair_def eof_def)
  from assignment_at [OF assms(1,2) adv(2) assms(4-9) values_empty [OF this] adv(1) passes_refl] adv(4)
  show ?thesis by simp
qed

lemma call_at:
  assumes "parser_ok lib prof p" and "parser_ok lib prof p2" and "passes p ts p1" and "passes p1 us p2"
    and "targets_post lib prof [e] es us p2" and "g_expr lib prof 0 ts e" and "length es = Suc 0" and "is_call (last es)"
  shows "g_stmt lib prof (ts @ us) (St_Call (last es) (join_tokens (current p) (previous p2)))"
proof -
  have ts: "ts \<noteq> []" using g_nonempty(1) [OF assms(6)] .
  then show ?thesis using stmt_call [OF single_target [OF assms(5-8)] assms(8)] passes_hd [OF assms(3,1)] previous_after [OF assms(3,4,2)]
    by simp
qed

lemma expr_statement_meets:
  assumes "parser_ok lib prof p"
  shows "meets lib prof (6 * remaining p + 1 \<le> n) p (statement_post lib prof) (expr_statement c (current_span p) p)"
  unfolding expr_statement_def finish_def
  by (intro part_rules, (use assms in \<open>auto simp: expr_post_def statement_post_def\<close>))
    (rule assignment_at [OF _ _ _ _ _ _ _ _ _ values_list], assumption+ |
      rule empty_assignment_at, assumption+ | rule call_at, assumption+)+
end

end
