(* ===== verification/Parser_Spec.thy ===== *)
theory Parser_Spec
  imports Parser_Methods
begin

text \<open>
  The parser for every fuel, by induction from the contract of its methods, and what follows for a whole chunk: the
  parser is sound for the grammar, and it finishes without a panic on everything the lexer produces.
\<close>

context sub_parsers
begin

lemma keyword_case:
  assumes "parser_ok lib prof p"
    and "\<And>p1. parser_ok lib prof p1 \<Longrightarrow> kw k (current p) \<Longrightarrow> remaining p = Suc (remaining p1) \<Longrightarrow> previous p1 = current p \<Longrightarrow>
      meets lib prof fed p1 (rest_post lib prof (current p)) (yes p1)"
    and "meets lib prof fed p (statement_post lib prof) (no p)"
  shows "meets lib prof fed p (statement_post lib prof) (if_took (take_keyword k p) yes no)"
  by (rule meets_take_keyword [OF assms(1)], rule meets_mono [OF assms(2)])
    (use assms(3) in \<open>auto simp: rest_post_def statement_post_def\<close>)

lemma symbol_case:
  assumes "parser_ok lib prof p"
    and "\<And>p1. parser_ok lib prof p1 \<Longrightarrow> sym s (current p) \<Longrightarrow> remaining p = Suc (remaining p1) \<Longrightarrow> previous p1 = current p \<Longrightarrow>
      meets lib prof fed p1 (rest_post lib prof (current p)) (yes p1)"
    and "meets lib prof fed p (statement_post lib prof) (no p)"
  shows "meets lib prof fed p (statement_post lib prof) (if_took (take_symbol s p) yes no)"
  by (rule meets_take_symbol [OF assms(1)], rule meets_mono [OF assms(2)])
    (use assms(3) in \<open>auto simp: rest_post_def statement_post_def\<close>)

lemmas statement_rules = meets_mono [OF label_statement_meets] meets_mono [OF function_statement_meets]
  meets_mono [OF do_statement_meets] meets_mono [OF while_statement_meets] meets_mono [OF repeat_statement_meets]
  meets_mono [OF if_statement_meets] meets_mono [OF for_statement_meets] 
  meets_mono [OF goto_statement_meets] meets_mono [OF local_statement_meets] meets_mono [OF global_statement_meets]
  meets_mono [OF expr_statement_meets]

lemma return_case:
  assumes "parser_ok lib prof p" and "kw Kw_Return a" and "previous p = a"
  shows "meets lib prof (6 * remaining p + 2 \<le> n) p (rest_post lib prof a) (return_statement c (tok_span a) p)"
  using return_statement_meets [OF assms(1)] assms(2,3) by simp

lemma statement_meets:
  assumes "parser_ok lib prof p"
  shows "meets lib prof (6 * remaining p + 3 \<le> Suc n) p (statement_post lib prof) (statement c p)"
  unfolding statement_def Let_def
  by (intro bind_reserve keyword_case symbol_case meets_Parsed statement_rules meets_mono [OF return_case])
    (use assms in \<open>auto simp: rest_post_def finish_def intro: stmt_break stmt_empty\<close>)

text \<open>One more round of the methods keeps the contract with one more unit of fuel.\<close>

lemmas method_meets = prefix_meets postfix_meets expr_meets expr_binary_meets list_loop_meets table_fields_meets params_loop_meets
  path_loop_meets block_until_meets block_statements_meets module_statements_meets clauses_loop_meets for_names_loop_meets
  local_names_loop_meets global_names_loop_meets targets_loop_meets statement_meets

lemma next_round:
  "sub_parsers lib prof \<lparr>c_statement = statement c, c_block = block_until c, c_statements = block_statements c,
     c_module = module_statements c, c_clauses = clauses_loop c, c_for_names = for_names_loop c,
     c_local_names = local_names_loop c, c_global_names = global_names_loop c, c_targets = targets_loop c, c_list = list_loop c,
     c_expr = expr c, c_binary = expr_binary c, c_postfix = postfix c, c_prefix = prefix c, c_fields = table_fields c,
     c_path = path_loop c, c_params = params_loop c\<rparr> (Suc n)"
  by unfold_locales (simp_all only: calls.simps method_meets)

end

subsection \<open>All methods, for every fuel\<close>

lemma unfinished:
  "parser_ok lib prof p \<Longrightarrow> meets lib prof (remaining p = 0) p Q Unfinished" "meets lib prof False p Q Unfinished"
  using parser_ok_parts(1) by (fastforce simp: meets_def remaining_def)+

lemma parsers_meet: "sub_parsers lib prof (parsers n) n"
proof (induction n)
  case 0
  show ?case by unfold_locales (simp_all add: unfinished)
next
  case (Suc n)
  then show ?case unfolding parsers.simps by (rule sub_parsers.next_round)
qed

interpretation lua: sub_parsers lib prof "parsers n" n for lib prof n
  by (rule parsers_meet)

definition module_post :: "bool \<Rightarrow> lua_profile \<Rightarrow> nat \<Rightarrow> module \<Rightarrow> token list \<Rightarrow> parser \<Rightarrow> bool" where
  "module_post lib prof len m ts p' \<longleftrightarrow> eof p' \<and> (\<exists>sts. g_stmts lib prof ts sts
     \<and> m = (let span = \<lparr>span_start = 0, span_end = len\<rparr> in \<lparr>mod_profile = prof, mod_span = span, mod_root = Block sts None span\<rparr>))"

lemma no_terminator [simp]: "\<not> at_terminator [] p"
  by (simp add: at_terminator_def)

lemma parse_module_meets:
  assumes "parser_ok lib prof p"
  shows "meets lib prof (6 * remaining p + 4 \<le> n) p (module_post lib prof len) (parse_module (parsers n) prof len p)"
  unfolding parse_module_def Let_def
  by (intro bind_reserve lua.call_binds meets_Parsed) (use assms in \<open>auto simp: module_post_def statements_post_def eof_def Let_def\<close>)

lemma parser_start_ok:
  assumes "token_stream (tokens chunk)" and "lib \<or> strict_tokens (tokens chunk)"
  shows "parser_ok lib prof (parser_start chunk prof limits)" and "remaining (parser_start chunk prof limits) = length (tokens chunk)"
  using assms by (auto simp: parser_ok_def parser_start_def token_stream_def remaining_def)

lemma at_end:
  assumes "parser_ok lib prof p" and "eof p"
  shows "Suc (pa_index p) = length (pa_tokens p)"
proof (rule ccontr)
  assume "Suc (pa_index p) \<noteq> length (pa_tokens p)"
  then have "pa_index p < length (butlast (pa_tokens p))" using parser_ok_parts(1) [OF assms(1)] by simp
  then have "current p \<in> set (butlast (pa_tokens p))"
    using current_nth [OF assms(1)] by (metis nth_butlast nth_mem)
  then show False using parser_ok_parts(2) [OF assms(1)] assms(2) by (simp add: token_stream_def eof_def)
qed

lemma parse_meets:
  assumes "token_stream (tokens chunk)" and "lib \<or> strict_tokens (tokens chunk)" and "chunk_profile chunk = prof"
  shows "meets lib prof (6 * length (tokens chunk) + 4 \<le> fuel) (parser_start chunk prof limits)
    (module_post lib prof (source_len chunk)) (parse_with_metrics fuel chunk prof limits)"
  using parse_module_meets [OF parser_start_ok(1) [OF assms(1,2)], of prof limits fuel "source_len chunk"]
    parser_start_ok(2) [OF assms(1,2)] assms(1,3)
  by (simp add: parse_with_metrics_def token_stream_def)

lemma whole_chunk:
  assumes "passes (parser_start chunk prof limits) ts p'" and "parser_ok lib prof p'" and "eof p'"
  shows "ts = butlast (tokens chunk)"
proof -
  have i: "pa_index p' = length ts" "pa_tokens p' = tokens chunk" "tokens chunk = ts @ drop (pa_index p') (tokens chunk)"
    using assms(1) unfolding passes_def parser_start_def parser.simps drop_0 add_0 by blast+
  have "length (tokens chunk) = Suc (length ts)" using at_end [OF assms(2,3)] i by simp
  then show ?thesis using i(1,3) by (metis append_eq_conv_conj butlast_conv_take diff_Suc_1)
qed

lemma lexed_stream:
  assumes "lex_with_numeric_budget env inp prof limits budget = (Inr chunk, budget')" and "length inp \<le> usize_max"
  shows "token_stream (tokens chunk) \<and> chunk_profile chunk = prof"
proof (rule lex_stream [OF assms])
  fix ts c
  assume st: "stream_ok prof inp limits ts c" and chunk: "chunk = \<lparr>chunk_profile = prof, source_len = length inp,
      tokens = ts @ [\<lparr>tok_kind = Tok_Eof, tok_span = \<lparr>span_start = length inp, span_end = length inp\<rparr>,
        tok_start = position_at inp (length inp), tok_end = position_at inp (length inp), tok_literal = None\<rparr>]\<rparr>"
  have "tok_kind t \<noteq> Tok_Eof \<and> literal_ok t" if "t \<in> set ts" for t
  proof -
    have "spells prof inp (token_start t) (token_end t) (tok_kind t) (tok_literal t)"
      using st that by (auto simp: stream_ok_def token_ok_def)
    then show ?thesis by (cases "tok_kind t") auto
  qed
  then show ?thesis by (auto simp: chunk token_stream_def)
qed

lemma sound_module:
  assumes "meets lib prof fed (parser_start chunk prof limits) (module_post lib prof (source_len chunk)) (Parsed m p)"
    and "chunk_profile chunk = prof"
  shows "g_chunk lib chunk m \<and> pa_nodes p \<le> max_ast_nodes limits \<and> pa_statements p \<le> max_statements limits"
proof -
  obtain ts where mv: "passes (parser_start chunk prof limits) ts p" and ok: "parser_ok lib prof p"
    and q: "module_post lib prof (source_len chunk) m ts p"
    using assms(1) by (auto simp: meets_def)
  have e: "eof p" using q by (simp add: module_post_def)
  have ts: "ts = butlast (tokens chunk)" using whole_chunk [OF mv ok e] .
  have p: "pa_tokens p = tokens chunk" "pa_limits p = limits" using mv by (simp_all add: passes_def parser_start_def)
  have "tok_kind (last (tokens chunk)) = Tok_Eof" using parser_ok_parts(2) [OF ok] p(1) by (simp add: token_stream_def)
  then show ?thesis using q ok assms(2) p(2) unfolding module_post_def g_chunk_def ts by (auto simp: parser_ok_def)
qed

subsection \<open>The parser against the grammar\<close>

text \<open>
  C1: What the parser accepts is a derivation of the grammar of Lua for exactly the tokens before the end marker: the
  tree has the precedence and associativity of its operators, every statement and list its delimiters, every node the
  span of its tokens. Only for streams with \<open>=\<close> before the end or a comma before a closing parenthesis is the
  grammar the liberal one. The counts of nodes and statements are within the limits.
\<close>

theorem parse_sound:
  assumes "token_stream (tokens chunk)" and "parse_with_metrics fuel chunk prof limits = Parsed m p"
  shows "chunk_profile chunk = prof \<and> g_chunk (\<not> strict_tokens (tokens chunk)) chunk m
    \<and> pa_nodes p \<le> max_ast_nodes limits \<and> pa_statements p \<le> max_statements limits"
proof -
  have prof: "chunk_profile chunk = prof" using assms(2) by (auto simp: parse_with_metrics_def split: if_splits)
  have "meets (\<not> strict_tokens (tokens chunk)) prof (6 * length (tokens chunk) + 4 \<le> fuel) (parser_start chunk prof limits)
      (module_post (\<not> strict_tokens (tokens chunk)) prof (source_len chunk)) (Parsed m p)"
    using parse_meets [OF assms(1) _ prof, of _ fuel limits] assms(2) by simp
  from sound_module [OF this prof] prof show ?thesis by blast
qed

text \<open>
  C4: The parser finishes on every stream that the lexer produced, with six calls deep for each token and four more, and
  does not panic: no \<open>expect\<close> on a literal fails. It gives a derivation of the grammar, or a diagnostic that points at
  a token of the stream.
\<close>

theorem parse_total:
  assumes "lex_with_numeric_budget env inp prof limits budget = (Inr chunk, budget')" and "length inp \<le> usize_max"
    and "6 * length (tokens chunk) + 4 \<le> fuel"
  shows "(\<exists>m p. parse_with_metrics fuel chunk prof limits' = Parsed m p \<and> g_chunk (\<not> strict_tokens (tokens chunk)) chunk m)
    \<or> (\<exists>d t. parse_with_metrics fuel chunk prof limits' = Rejected d \<and> t \<in> set (tokens chunk)
         \<and> diag_span d = tok_span t \<and> diag_code d \<in> {Diag_Parse, Diag_CompileLimit})"
proof -
  let ?lib = "\<not> strict_tokens (tokens chunk)"
  note stream = lexed_stream [OF assms(1,2)]
  have m: "meets ?lib prof True (parser_start chunk prof limits') (module_post ?lib prof (source_len chunk))
      (parse_with_metrics fuel chunk prof limits')"
    using parse_meets [of chunk ?lib prof fuel limits'] stream assms(3) by simp
  show ?thesis
  proof (cases "parse_with_metrics fuel chunk prof limits'")
    case (Parsed x p)
    then show ?thesis using sound_module [of ?lib prof True chunk limits' x p] m stream by simp
  qed (use m in \<open>auto simp: meets_def points_at_def parser_start_def\<close>)
qed

subsection \<open>Programs to evaluate\<close>

text \<open>Evaluation goes into a continuation only with its argument.\<close>

lemma pbind_weak: "r = r' \<Longrightarrow> pbind r f = pbind r' f"
  by simp

lemma if_took_weak: "r = r' \<Longrightarrow> if_took r f g = if_took r' f g"
  by simp

lemma if_took_eval: "if_took (True, p) f g = f p" "if_took (False, p) f g = g p"
  by (simp_all add: if_took_def)

lemma parsers_eval:
  "c_statement (parsers (numeral k)) p = statement (parsers (pred_numeral k)) p"
  "c_block (parsers (numeral k)) ks p = block_until (parsers (pred_numeral k)) ks p"
  "c_statements (parsers (numeral k)) ks sts p = block_statements (parsers (pred_numeral k)) ks sts p"
  "c_module (parsers (numeral k)) sts p = module_statements (parsers (pred_numeral k)) sts p"
  "c_targets (parsers (numeral k)) es p = targets_loop (parsers (pred_numeral k)) es p"
  "c_list (parsers (numeral k)) es p = list_loop (parsers (pred_numeral k)) es p"
  "c_expr (parsers (numeral k)) m p = expr (parsers (pred_numeral k)) m p"
  "c_binary (parsers (numeral k)) m e p = expr_binary (parsers (pred_numeral k)) m e p"
  "c_postfix (parsers (numeral k)) e p = postfix (parsers (pred_numeral k)) e p"
  "c_prefix (parsers (numeral k)) p = prefix (parsers (pred_numeral k)) p"
  "c_local_names (parsers (numeral k)) pre ns p = local_names_loop (parsers (pred_numeral k)) pre ns p"
  "c_path (parsers (numeral k)) e p = path_loop (parsers (pred_numeral k)) e p"
  "c_params (parsers (numeral k)) ns p = params_loop (parsers (pred_numeral k)) ns p"
  by (simp_all add: numeral_eq_Suc)

lemmas parse_eval = parsers_eval if_took_eval parse_with_metrics_def parser_start_def parse_module_def module_statements_def
  reserve_node_def next_statement_def current_def eof_def take_symbol_def take_keyword_def advance_token_def finish_def previous_def
  statement_def expr_statement_def return_statement_def ends_return_def local_statement_def local_attribute_def local_names_loop_def
  initial_values_def function_statement_def function_name_def function_body_def path_loop_def params_loop_def block_end_def
  block_until_def block_statements_def at_terminator_def expect_def expect_keyword_def parse_name_def
  expr_def prefix_def deeper_def token_prefix_def name_prefix_def literal_prefix_def symbol_prefix_def unary_def postfix_def
  starts_argument_def expr_binary_def binary_at_def targets_loop_def list_expr_def list_loop_def list_room_def join_span_def
  parser.simps Let_def

definition roomy_limits :: compile_limits where
  "roomy_limits = default_limits\<lparr>max_ast_nodes := 40, max_parse_depth := 10\<rparr>"

definition token_of :: "nat \<Rightarrow> token_kind \<Rightarrow> literal option \<Rightarrow> token" where
  "token_of i kind lit = \<lparr>tok_kind = kind, tok_span = \<lparr>span_start = i, span_end = Suc i\<rparr>,
     tok_start = \<lparr>pos_line = 1, pos_column = i + 1\<rparr>, tok_end = \<lparr>pos_line = 1, pos_column = i + 2\<rparr>, tok_literal = lit\<rparr>"

abbreviation name_of :: "nat \<Rightarrow> string \<Rightarrow> token" where
  "name_of i n \<equiv> token_of i Tok_Name (Some (Lit_Name (bs n)))"

abbreviation symbol_of :: "nat \<Rightarrow> symbol \<Rightarrow> token" where
  "symbol_of i s \<equiv> token_of i (Tok_Symbol s) None"

abbreviation chunk_of :: "token list \<Rightarrow> lexed_chunk" where
  "chunk_of ts \<equiv> \<lparr>chunk_profile = Lua54, source_len = length ts, tokens = ts @ [token_of (length ts) Tok_Eof None]\<rparr>"

lemmas sample_eval = parse_eval roomy_limits_def default_limits_def token_of_def

text \<open>An assignment without values at the end of the source.\<close>

definition unfinished_chunk :: lexed_chunk where
  "unfinished_chunk = chunk_of [name_of 0 ''x'', symbol_of 1 AssignSym]"

lemma empty_values_accepted:
  "\<exists>m p. parse_with_metrics 22 unfinished_chunk Lua54 roomy_limits = Parsed m p
     \<and> mod_root m = Block [St_Assignment [Ex_Name (bs ''x'') \<lparr>span_start = 0, span_end = 1\<rparr>] [] \<lparr>span_start = 0, span_end = 2\<rparr>]
         None \<lparr>span_start = 0, span_end = 2\<rparr>"
  by (simp cong: pbind_weak if_took_weak add: unfinished_chunk_def sample_eval)

text \<open>A comma before the parenthesis that closes the parameters, in \<open>function f(a,) end\<close>.\<close>

definition comma_chunk :: lexed_chunk where
  "comma_chunk = chunk_of [token_of 0 (Tok_Keyword Kw_Function) None, name_of 1 ''f'', symbol_of 2 OpenParen, name_of 3 ''a'',
     symbol_of 4 Comma, symbol_of 5 CloseParen, token_of 6 (Tok_Keyword Kw_End) None]"

lemma trailing_comma_accepted: "\<exists>m p. parse_with_metrics 52 comma_chunk Lua54 roomy_limits = Parsed m p"
  by (simp cong: pbind_weak if_took_weak add: comma_chunk_def sample_eval)

text \<open>The tokens of \<open>return -a^b..c\<close>.\<close>

definition operator_chunk :: lexed_chunk where
  "operator_chunk = chunk_of [token_of 0 (Tok_Keyword Kw_Return) None, symbol_of 1 Minus, name_of 2 ''a'', symbol_of 3 Caret,
     name_of 4 ''b'', symbol_of 5 Concat, name_of 6 ''c'']"

definition operator_tree :: expr where
  "operator_tree = Ex_Binary BinOp_Concat
     (Ex_Unary UnOp_Negate
       (Ex_Binary BinOp_Power (Ex_Name (bs ''a'') \<lparr>span_start = 2, span_end = 3\<rparr>) (Ex_Name (bs ''b'') \<lparr>span_start = 4, span_end = 5\<rparr>)
         \<lparr>span_start = 2, span_end = 5\<rparr>)
       \<lparr>span_start = 1, span_end = 5\<rparr>)
     (Ex_Name (bs ''c'') \<lparr>span_start = 6, span_end = 7\<rparr>) \<lparr>span_start = 1, span_end = 7\<rparr>"

definition operator_module :: module where
  "operator_module = \<lparr>mod_profile = Lua54, mod_span = \<lparr>span_start = 0, span_end = 7\<rparr>,
     mod_root = Block [St_Return [operator_tree] \<lparr>span_start = 0, span_end = 7\<rparr>] None \<lparr>span_start = 0, span_end = 7\<rparr>\<rparr>"

lemma operators_parse: "\<exists>p. parse_with_metrics 52 operator_chunk Lua54 roomy_limits = Parsed operator_module p"
  by (simp cong: pbind_weak if_took_weak add: operator_chunk_def operator_module_def operator_tree_def sample_eval)

theorem parse_sound_witness: "g_chunk False operator_chunk operator_module"
proof -
  obtain p where p: "parse_with_metrics 52 operator_chunk Lua54 roomy_limits = Parsed operator_module p"
    using operators_parse by blast
  have "token_stream (tokens operator_chunk)" "strict_tokens (tokens operator_chunk)"
    by (simp_all add: operator_chunk_def token_stream_def token_of_def strict_pair_def sym_def)
  with parse_sound [OF _ p] show ?thesis by simp
qed

theorem parse_total_witness:
  "\<exists>m p. parse_with_metrics 52 sample_chunk Lua54 roomy_limits = Parsed m p \<and> g_chunk False sample_chunk m"
proof -
  have l: "6 * length (tokens sample_chunk) + 4 \<le> 52" "strict_tokens (tokens sample_chunk)"
    by (simp_all add: sample_chunk_def token_at_def strict_pair_def sym_def)
  have "\<exists>m p. parse_with_metrics 52 sample_chunk Lua54 roomy_limits = Parsed m p"
    by (simp cong: pbind_weak if_took_weak add: sample_chunk_def token_at_def sample_eval)
  with parse_total [OF sample_lexes sample_length l(1), of roomy_limits] l(2) show ?thesis by auto
qed

end
