(* ===== verification/Resolved_Ast.thy ===== *)
theory Resolved_Ast
  imports Ast
begin

text \<open>
  The tree that the resolver produces (first part of \<open>resolve/mod.rs\<close>): the syntax tree with every name linked to
  a binding, an upvalue or a field of an environment, and with the bindings that each exit from a scope leaves and
  closes. The newtypes over \<open>u32\<close> are natural numbers, whose range the resolver checks where it makes new ones.
\<close>

type_synonym function_id = nat
type_synonym upvalue_id = nat
type_synonym scope_id = nat

record binding_id =
  bi_function :: function_id
  bi_ordinal :: nat

datatype upvalue_source = ParentLocal binding_id | ParentUpvalue upvalue_id

datatype binding_kind =
    Bind_Local | Bind_Parameter | Bind_NumericFor | Bind_GenericFor | Bind_GenericForClose | Bind_LocalFunction
  | Bind_VarargTable | Bind_Environment | Bind_Global

record binding_meta =
  bm_id :: binding_id
  bm_name :: bytes
  bm_span :: span
  bm_kind :: binding_kind
  bm_owner :: function_id
  bm_scope_depth :: nat
  bm_readonly :: bool
  bm_attribute :: "attribute option"
  bm_close_marker :: "span option"

datatype resolved_name =
  Name_Local binding_id | Name_Upvalue upvalue_id | Name_EnvField binding_id bytes | Name_Global binding_id

datatype exit_kind = Exit_Normal | Exit_Return | Exit_Break | Exit_Goto | Exit_Error

record close_path =
  cp_kind :: exit_kind
  cp_span :: span
  cp_from_scope :: scope_id
  cp_target_scope :: "scope_id option"
  cp_bindings :: "binding_id list"
  cp_exited_bindings :: "binding_id list"

record resolved_local_name =
  rn_binding :: binding_id
  rn_name :: bytes
  rn_attribute :: "attribute option"
  rn_span :: span

record generic_for_close =
  gc_binding :: binding_id
  gc_span :: span

record resolved_vararg =
  rv_table_binding :: "binding_id option"
  rv_span :: span

record resolved_function =
  rf_id :: function_id
  rf_parent :: "function_id option"
  rf_span :: span
  rf_bindings :: "binding_meta list"
  rf_upvalues :: "upvalue_source list"

text \<open>As in the syntax tree, the span of a node is its last argument.\<close>

datatype (plugins only: size code) resolved_expr =
    Rx_Literal literal span
  | Rx_Nil span
  | Rx_Bool bool span
  | Rx_Name bytes resolved_name span
  | Rx_Vararg "binding_id option" span
  | Rx_Unary unary_op resolved_expr span
  | Rx_Binary binary_op resolved_expr resolved_expr span
  | Rx_Paren resolved_expr span
  | Rx_Index resolved_expr resolved_expr span
  | Rx_Field resolved_expr bytes span
  | Rx_Call resolved_expr "resolved_expr list" span
  | Rx_MethodCall resolved_expr bytes "resolved_expr list" span
  | Rx_Function resolved_function_body span
  | Rx_TableConstructor "resolved_table_field list" span
and resolved_table_field =
    Rf_Array resolved_expr "field_separator option" span
  | Rf_Named bytes resolved_expr "field_separator option" span
  | Rf_Indexed resolved_expr resolved_expr "field_separator option" span
and resolved_function_body =
    ResolvedFunctionBody function_id "resolved_local_name list" "resolved_vararg option" resolved_block span
and resolved_block = ResolvedBlock scope_id "resolved_stmt list" "span option" span close_path close_path
and resolved_global =
    Rg_Names "resolved_local_name list" "resolved_expr list" "attribute option" span
  | Rg_Star "attribute option" span
  | Rg_Function binding_id bytes resolved_function_body span
and resolved_stmt =
    Rs_Empty span
  | Rs_Return "resolved_expr list" close_path span
  | Rs_Assignment "resolved_expr list" "resolved_expr list" span
  | Rs_Call resolved_expr span
  | Rs_Local "binding_id list" "resolved_local_name list" "resolved_expr list" span
  | Rs_Global resolved_global span
  | Rs_Break close_path span
  | Rs_Goto bytes span close_path span
  | Rs_Label bytes span span
  | Rs_Do resolved_block span
  | Rs_If "(resolved_expr \<times> resolved_block) list" "resolved_block option" span
  | Rs_While resolved_expr resolved_block span
  | Rs_Repeat resolved_block resolved_expr span
  | Rs_NumericFor resolved_local_name resolved_expr resolved_expr "resolved_expr option" resolved_block span
  | Rs_GenericFor "resolved_local_name list" "resolved_expr list" generic_for_close resolved_block close_path span
  | Rs_Function resolved_expr "method_name option" resolved_function_body span
  | Rs_LocalFunction resolved_local_name resolved_function_body span

record resolved_module =
  rm_profile :: lua_profile
  rm_span :: span
  rm_root :: resolved_block
  rm_functions :: "resolved_function list"

fun block_span :: "block \<Rightarrow> span" where
  "block_span (Block _ _ span) = span"

end
