(* ===== verification/Resolve.thy ===== *)
theory Resolve
  imports Resolved_Ast "HOL-Library.AList"
begin

text \<open>
  The resolver (\<open>resolve/mod.rs\<close>): it links names to bindings, turns free names of functions into upvalues, checks
  attributes, labels and gotos, and computes for every exit from a scope the bindings that it leaves.

  Hash maps are association lists with distinct keys; their order is not observed. Every error leaves the resolver, so
  an error carries no state. \<open>Resolver_Panic\<close> is a panic of \<open>expect\<close> on the stack of scopes. The failures of
  \<open>try_reserve\<close>, when the host has no memory, are not modelled. Each arm of a match is a definition over the
  resolvers of its parts, and the recursion over the syntax tree puts them together.
\<close>

subsection \<open>State\<close>

datatype global_mode = NamedOnly | Wildcard bool

record label_info =
  li_scope :: scope_id
  li_terminal :: bool
  li_span :: span

record scope_frame =
  sf_id :: scope_id
  sf_bindings :: "(bytes \<times> binding_id) list"
  sf_local_bindings :: "binding_id list"
  sf_close_bindings :: "binding_id list"
  sf_labels :: "(bytes \<times> label_info) list"
  sf_declaration_spans :: "span list"
  sf_global_mode :: "global_mode option"

record binding_access =
  ba_readonly :: bool

datatype parent_binding = Parent_Direct binding_id | Parent_Ancestor binding_id | Parent_Global binding_id

record resolver =
  rs_lexed :: lexed_chunk
  rs_limits :: compile_limits
  rs_profile :: lua_profile
  rs_owner :: function_id
  rs_next_binding :: nat
  rs_next_function :: nat
  rs_next_scope :: nat
  rs_bindings :: "binding_meta list"
  rs_upvalues :: "upvalue_source list"
  rs_upvalue_ids :: "(binding_id \<times> upvalue_id) list"
  rs_upvalue_bindings :: "binding_id list"
  rs_pending :: "(binding_id \<times> upvalue_id) list"
  rs_scopes :: "scope_frame list"
  rs_loops :: "scope_id list"
  rs_parent_metadata :: "(binding_id \<times> binding_access) list"
  rs_vararg_available :: bool
  rs_vararg_binding :: "binding_id option"
  rs_label_count :: nat
  rs_goto_count :: nat
  rs_parent_visible :: "(bytes \<times> parent_binding) list option"
  rs_root_environment :: "binding_id option"
  rs_inherited_mode :: "global_mode option"
  rs_implicit_globals :: "(bytes \<times> binding_id option \<times> binding_id option) list"
  rs_completed :: "resolved_function list"

definition u32_max :: nat where
  "u32_max = 4294967295"

subsection \<open>Errors\<close>

datatype resolve_failure = Unresolved diagnostic | Resolver_Panic

type_synonym 'a resolving = "(resolve_failure, 'a \<times> resolver) result"

definition resolve_diagnostic :: "token option \<Rightarrow> diagnostic_code \<Rightarrow> lex_message \<Rightarrow> diagnostic" where
  "resolve_diagnostic token code message =
     (case token of
        Some t \<Rightarrow> \<lparr>diag_code = code, diag_span = tok_span t, diag_start = tok_start t, diag_end = tok_end t, diag_message = message\<rparr>
      | None \<Rightarrow> \<lparr>diag_code = code, diag_span = \<lparr>span_start = 0, span_end = 0\<rparr>, diag_start = \<lparr>pos_line = 1, pos_column = 1\<rparr>,
          diag_end = \<lparr>pos_line = 1, pos_column = 1\<rparr>, diag_message = message\<rparr>)"

definition last_token :: "lexed_chunk \<Rightarrow> token option" where
  "last_token lexed = (if tokens lexed = [] then None else Some (last (tokens lexed)))"

definition diagnostic_at_span :: "lexed_chunk \<Rightarrow> span \<Rightarrow> diagnostic_code \<Rightarrow> lex_message \<Rightarrow> diagnostic" where
  "diagnostic_at_span lexed span code message =
     (let token = (case find (\<lambda>t. span_start (tok_span t) = span_start span) (tokens lexed) of
          Some t \<Rightarrow> Some t | None \<Rightarrow> last_token lexed)
      in resolve_diagnostic token code message)"

definition limit_error :: "resolver \<Rightarrow> span \<Rightarrow> lex_message \<Rightarrow> (resolve_failure, 'a) result" where
  "limit_error r span message = Inl (Unresolved (diagnostic_at_span (rs_lexed r) span Diag_CompileLimit message))"

definition resolve_error :: "resolver \<Rightarrow> span \<Rightarrow> resolve_message \<Rightarrow> (resolve_failure, 'a) result" where
  "resolve_error r span message =
     Inl (Unresolved (diagnostic_at_span (rs_lexed r) span Diag_Resolve (Resolve_Message message)))"

abbreviation resolve_limit :: "resolver \<Rightarrow> span \<Rightarrow> resolve_message \<Rightarrow> (resolve_failure, 'a) result" where
  "resolve_limit r span message \<equiv> limit_error r span (Resolve_Message message)"

subsection \<open>Scopes\<close>

definition enter_scope :: "span \<Rightarrow> resolver \<Rightarrow> unit resolving" where
  "enter_scope span r =
     (if max_scope_depth (rs_limits r) \<le> length (rs_scopes r) then resolve_limit r span ScopeTooDeep
      else if u32_max < rs_next_scope r + 1 then resolve_limit r span TooManyScopes
      else Inr ((), r\<lparr>rs_next_scope := rs_next_scope r + 1,
        rs_scopes := rs_scopes r @ [\<lparr>sf_id = rs_next_scope r, sf_bindings = [], sf_local_bindings = [], sf_close_bindings = [],
          sf_labels = [], sf_declaration_spans = [], sf_global_mode = None\<rparr>]\<rparr>))"

definition leave_scope :: "resolver \<Rightarrow> resolver" where
  "leave_scope r = r\<lparr>rs_scopes := butlast (rs_scopes r)\<rparr>"

text \<open>The innermost scope and its update.\<close>

definition innermost :: "resolver \<Rightarrow> (resolve_failure, scope_frame) result" where
  "innermost r = (if rs_scopes r = [] then Inl Resolver_Panic else Inr (last (rs_scopes r)))"

definition set_innermost :: "scope_frame \<Rightarrow> resolver \<Rightarrow> resolver" where
  "set_innermost frame r = r\<lparr>rs_scopes := butlast (rs_scopes r) @ [frame]\<rparr>"

definition current_scope :: "resolver \<Rightarrow> (resolve_failure, scope_id) result" where
  "current_scope r = rbind (innermost r) (\<lambda>frame. Inr (sf_id frame))"

fun exited_scopes :: "scope_id option \<Rightarrow> scope_frame list \<Rightarrow> scope_frame list" where
  "exited_scopes target [] = []"
| "exited_scopes target (frame # frames) = (if Some (sf_id frame) = target then [] else frame # exited_scopes target frames)"

definition close_path_to :: "exit_kind \<Rightarrow> scope_id option \<Rightarrow> span \<Rightarrow> resolver \<Rightarrow> (resolve_failure, close_path) result" where
  "close_path_to kind target_scope span r =
     (let exited = exited_scopes target_scope (rev (rs_scopes r))
      in rbind (current_scope r) (\<lambda>from_scope.
         Inr \<lparr>cp_kind = kind, cp_span = span, cp_from_scope = from_scope, cp_target_scope = target_scope,
           cp_bindings = concat (map (\<lambda>frame. rev (sf_close_bindings frame)) exited),
           cp_exited_bindings = concat (map (\<lambda>frame. rev (sf_local_bindings frame)) exited)\<rparr>))"

subsection \<open>Limits\<close>

definition ensure_list :: "nat \<Rightarrow> span \<Rightarrow> resolver \<Rightarrow> (resolve_failure, unit) result" where
  "ensure_list len span r = (if max_ast_nodes (rs_limits r) < len then limit_error r span ListTooLong else Inr ())"

definition ensure_binding_capacity :: "nat \<Rightarrow> span \<Rightarrow> resolver \<Rightarrow> (resolve_failure, unit) result" where
  "ensure_binding_capacity count span r =
     (if max_bindings_per_function (rs_limits r) - length (rs_bindings r) < count then resolve_limit r span TooManyBindings
      else Inr ())"

subsection \<open>Bindings\<close>

definition binding_flags :: "attribute option \<Rightarrow> bool \<Rightarrow> span \<Rightarrow> resolver \<Rightarrow> (resolve_failure, bool \<times> span option) result" where
  "binding_flags attribute requested_readonly span r =
     (case attribute of
        None \<Rightarrow> Inr (requested_readonly, None)
      | Some a \<Rightarrow>
          if attr_name a = bs ''const'' then Inr (True, None)
          else if attr_name a = bs ''close'' then Inr (True, Some (attr_span a))
          else Inl (Unresolved (diagnostic_at_span (rs_lexed r) span Diag_Resolve UnknownLocalAttribute)))"

definition allocate_binding ::
    "bytes \<Rightarrow> span \<Rightarrow> attribute option \<Rightarrow> binding_kind \<Rightarrow> bool \<Rightarrow> span option \<Rightarrow> nat \<Rightarrow> resolver \<Rightarrow> binding_id resolving" where
  "allocate_binding name span attribute kind readonly close_marker scope_depth r =
     (if max_bindings_per_function (rs_limits r) \<le> length (rs_bindings r) then resolve_limit r span TooManyBindings
      else if u32_max < rs_next_binding r then resolve_limit r span TooManyBindings
      else
        let id = \<lparr>bi_function = rs_owner r, bi_ordinal = rs_next_binding r\<rparr>
        in Inr (id, r\<lparr>rs_next_binding := rs_next_binding r + 1,
             rs_bindings := rs_bindings r @ [\<lparr>bm_id = id, bm_name = name, bm_span = span, bm_kind = kind, bm_owner = rs_owner r,
               bm_scope_depth = scope_depth, bm_readonly = readonly, bm_attribute = attribute, bm_close_marker = close_marker\<rparr>]\<rparr>))"

definition declare_binding :: "bytes \<Rightarrow> span \<Rightarrow> attribute option \<Rightarrow> binding_kind \<Rightarrow> bool \<Rightarrow> resolver \<Rightarrow> binding_id resolving" where
  "declare_binding name span attribute kind readonly r =
     rbind (binding_flags attribute readonly span r) (\<lambda>(readonly, close_marker).
     rbind (allocate_binding name span attribute kind readonly close_marker (length (rs_scopes r) - 1) r) (\<lambda>(id, r).
     rbind (innermost r) (\<lambda>frame.
     Inr (id, set_innermost (frame\<lparr>sf_bindings := AList.update name id (sf_bindings frame),
        sf_local_bindings := (if kind = Bind_Environment \<or> kind = Bind_Global then sf_local_bindings frame
          else sf_local_bindings frame @ [id]),
        sf_close_bindings := (if close_marker \<noteq> None then sf_close_bindings frame @ [id] else sf_close_bindings frame)\<rparr>) r))))"

abbreviation declare_local :: "bytes \<Rightarrow> span \<Rightarrow> attribute option \<Rightarrow> resolver \<Rightarrow> binding_id resolving" where
  "declare_local name span attribute \<equiv> declare_binding name span attribute Bind_Local False"

definition declare_generic_for_close :: "span \<Rightarrow> resolver \<Rightarrow> binding_id resolving" where
  "declare_generic_for_close span r =
     rbind (allocate_binding (bs ''<generic-for-close>'') span None Bind_GenericForClose True (Some span)
       (length (rs_scopes r) - 1) r) (\<lambda>(binding, r).
     rbind (innermost r) (\<lambda>frame.
     Inr (binding, set_innermost (frame\<lparr>sf_local_bindings := sf_local_bindings frame @ [binding],
       sf_close_bindings := sf_close_bindings frame @ [binding]\<rparr>) r)))"

definition implicit_global :: "bytes \<Rightarrow> bool \<Rightarrow> resolver \<Rightarrow> binding_id option" where
  "implicit_global name readonly r =
     (case map_of (rs_implicit_globals r) name of
        None \<Rightarrow> None
      | Some (writable, constant) \<Rightarrow> if readonly then constant else writable)"

definition declare_implicit_global :: "bytes \<Rightarrow> span \<Rightarrow> bool \<Rightarrow> resolver \<Rightarrow> binding_id resolving" where
  "declare_implicit_global name span readonly r =
     (case implicit_global name readonly r of
        Some binding \<Rightarrow> Inr (binding, r)
      | None \<Rightarrow>
          rbind (allocate_binding name span None Bind_Global readonly None 0 r) (\<lambda>(binding, r).
          let (writable, constant) = (case map_of (rs_implicit_globals r) name of None \<Rightarrow> (None, None) | Some p \<Rightarrow> p);
              entry = (if readonly then (writable, Some binding) else (Some binding, constant))
          in Inr (binding, r\<lparr>rs_implicit_globals := AList.update name entry (rs_implicit_globals r)\<rparr>)))"

definition binding_kind_of :: "binding_id \<Rightarrow> resolver \<Rightarrow> binding_kind option" where
  "binding_kind_of binding r = map_option bm_kind (find (\<lambda>meta. bm_id meta = binding) (rs_bindings r))"

definition binding_readonly :: "binding_id \<Rightarrow> resolver \<Rightarrow> bool option" where
  "binding_readonly binding r =
     (case find (\<lambda>meta. bm_id meta = binding) (rs_bindings r) of
        Some meta \<Rightarrow> Some (bm_readonly meta)
      | None \<Rightarrow> map_option ba_readonly (map_of (rs_parent_metadata r) binding))"

subsection \<open>Upvalues\<close>

definition reserve_upvalue :: "binding_id \<Rightarrow> upvalue_source \<Rightarrow> span \<Rightarrow> resolver \<Rightarrow> upvalue_id resolving" where
  "reserve_upvalue binding source span r =
     (case map_of (rs_upvalue_ids r) binding of
        Some u \<Rightarrow> Inr (u, r)
      | None \<Rightarrow>
          if max_upvalues_per_function (rs_limits r) \<le> length (rs_upvalues r) then resolve_limit r span TooManyUpvalues
          else if u32_max < length (rs_upvalues r) then resolve_limit r span TooManyUpvalues
          else
            let id = length (rs_upvalues r)
            in Inr (id, r\<lparr>rs_upvalues := rs_upvalues r @ [source], rs_upvalue_bindings := rs_upvalue_bindings r @ [binding],
                 rs_upvalue_ids := AList.update binding id (rs_upvalue_ids r)\<rparr>))"

definition capture_parent_local :: "binding_id \<Rightarrow> span \<Rightarrow> resolver \<Rightarrow> upvalue_id resolving" where
  "capture_parent_local binding = reserve_upvalue binding (ParentLocal binding)"

definition capture_ancestor :: "binding_id \<Rightarrow> span \<Rightarrow> resolver \<Rightarrow> upvalue_id resolving" where
  "capture_ancestor binding span r =
     (case map_of (rs_upvalue_ids r) binding of
        Some u \<Rightarrow> Inr (u, r)
      | None \<Rightarrow>
          rbind (reserve_upvalue binding (ParentLocal binding) span r) (\<lambda>(id, r).
          Inr (id, r\<lparr>rs_pending := rs_pending r @ [(binding, id)]\<rparr>)))"

fun captures :: "binding_id \<Rightarrow> parent_binding \<Rightarrow> bool" where
  "captures binding (Parent_Direct candidate) = (candidate = binding)"
| "captures binding (Parent_Ancestor candidate) = (candidate = binding)"
| "captures binding (Parent_Global _) = False"

definition capture_for_child :: "binding_id \<Rightarrow> span \<Rightarrow> resolver \<Rightarrow> upvalue_id resolving" where
  "capture_for_child binding span r =
     (case (case rs_parent_visible r of None \<Rightarrow> None | Some visible \<Rightarrow> find (captures binding) (map snd visible)) of
        None \<Rightarrow> resolve_error r span NoUpvalueSource
      | Some (Parent_Direct b) \<Rightarrow> capture_parent_local b span r
      | Some (Parent_Ancestor b) \<Rightarrow> capture_ancestor b span r
      | Some (Parent_Global _) \<Rightarrow> resolve_error r span GlobalUpvalue)"

definition upvalue_binding :: "upvalue_id \<Rightarrow> span \<Rightarrow> resolver \<Rightarrow> (resolve_failure, binding_id) result" where
  "upvalue_binding upvalue span r =
     (case get_at (rs_upvalue_bindings r) upvalue of Some b \<Rightarrow> Inr b | None \<Rightarrow> resolve_error r span UpvalueBindingIndex)"

subsection \<open>Names\<close>

fun find_in_scopes :: "bytes \<Rightarrow> scope_frame list \<Rightarrow> binding_id option" where
  "find_in_scopes name [] = None"
| "find_in_scopes name (frame # frames) =
     (case map_of (sf_bindings frame) name of Some b \<Rightarrow> Some b | None \<Rightarrow> find_in_scopes name frames)"

definition lookup :: "bytes \<Rightarrow> span \<Rightarrow> resolver \<Rightarrow> resolved_name option resolving" where
  "lookup name span r =
     (case find_in_scopes name (rev (rs_scopes r)) of
        Some binding \<Rightarrow>
          Inr (Some (if binding_kind_of binding r = Some Bind_Global then Name_Global binding else Name_Local binding), r)
      | None \<Rightarrow>
          (case (case rs_parent_visible r of None \<Rightarrow> None | Some visible \<Rightarrow> map_of visible name) of
             None \<Rightarrow> Inr (None, r)
           | Some (Parent_Direct binding) \<Rightarrow>
               rbind (capture_parent_local binding span r) (\<lambda>(u, r). Inr (Some (Name_Upvalue u), r))
           | Some (Parent_Ancestor binding) \<Rightarrow>
               rbind (capture_ancestor binding span r) (\<lambda>(u, r). Inr (Some (Name_Upvalue u), r))
           | Some (Parent_Global binding) \<Rightarrow> Inr (Some (Name_Global binding), r)))"

definition environment_origin :: "resolver \<Rightarrow> binding_id option" where
  "environment_origin r =
     (case find_in_scopes (bs ''_ENV'') (rev (rs_scopes r)) of
        Some binding \<Rightarrow> if binding_kind_of binding r = Some Bind_Global then None else Some binding
      | None \<Rightarrow>
          (case (case rs_parent_visible r of None \<Rightarrow> None | Some visible \<Rightarrow> map_of visible (bs ''_ENV'')) of
             Some (Parent_Direct binding) \<Rightarrow> Some binding
           | Some (Parent_Ancestor binding) \<Rightarrow> Some binding
           | _ \<Rightarrow> None))"

definition lexical_environment_shadow :: "span \<Rightarrow> resolver \<Rightarrow> binding_id option resolving" where
  "lexical_environment_shadow span r =
     (let origin = environment_origin r
      in if origin = None \<or> origin = rs_root_environment r then Inr (None, r)
         else
           rbind (lookup (bs ''_ENV'') span r) (\<lambda>(found, r).
           case found of
             Some (Name_Local env) \<Rightarrow> Inr (Some env, r)
           | Some (Name_Upvalue upvalue) \<Rightarrow> rbind (upvalue_binding upvalue span r) (\<lambda>env. Inr (Some env, r))
           | _ \<Rightarrow> Inr (None, r)))"

fun mode_of_scopes :: "bool \<Rightarrow> scope_frame list \<Rightarrow> bool \<times> global_mode option" where
  "mode_of_scopes named [] = (named, None)"
| "mode_of_scopes named (frame # frames) =
     (case sf_global_mode frame of
        Some (Wildcard readonly) \<Rightarrow> (named, Some (Wildcard readonly))
      | Some NamedOnly \<Rightarrow> mode_of_scopes True frames
      | None \<Rightarrow> mode_of_scopes named frames)"

definition effective_global_mode :: "resolver \<Rightarrow> global_mode option" where
  "effective_global_mode r =
     (case mode_of_scopes False (rev (rs_scopes r)) of
        (_, Some mode) \<Rightarrow> Some mode
      | (named, None) \<Rightarrow>
          (case rs_inherited_mode r of
             Some mode \<Rightarrow> Some mode
           | None \<Rightarrow> if named then Some NamedOnly else None))"

definition set_named_global_mode :: "resolver \<Rightarrow> unit resolving" where
  "set_named_global_mode r =
     rbind (innermost r) (\<lambda>frame.
     Inr ((), if sf_global_mode frame = None then set_innermost (frame\<lparr>sf_global_mode := Some NamedOnly\<rparr>) r else r))"

definition set_wildcard_global_mode :: "bool \<Rightarrow> resolver \<Rightarrow> unit resolving" where
  "set_wildcard_global_mode readonly r =
     rbind (innermost r) (\<lambda>frame. Inr ((), set_innermost (frame\<lparr>sf_global_mode := Some (Wildcard readonly)\<rparr>) r))"

definition global_attribute_readonly :: "attribute option \<Rightarrow> span \<Rightarrow> resolver \<Rightarrow> (resolve_failure, bool) result" where
  "global_attribute_readonly attribute span r =
     (case attribute of
        None \<Rightarrow> Inr False
      | Some a \<Rightarrow>
          if attr_name a = bs ''const'' then Inr True
          else if attr_name a = bs ''close'' then resolve_error r span GlobalClose
          else resolve_error r span UnknownGlobalAttribute)"

definition visible_named_global :: "bytes \<Rightarrow> resolver \<Rightarrow> binding_id option" where
  "visible_named_global name r =
     (case (case find_in_scopes name (rev (rs_scopes r)) of
              Some b \<Rightarrow> if binding_kind_of b r = Some Bind_Global then Some b else None | None \<Rightarrow> None) of
        Some b \<Rightarrow> Some b
      | None \<Rightarrow>
          (case (case rs_parent_visible r of None \<Rightarrow> None | Some visible \<Rightarrow> map_of visible name) of
             Some (Parent_Global b) \<Rightarrow> Some b
           | _ \<Rightarrow> None))"

definition resolve_free_name :: "bytes \<Rightarrow> span \<Rightarrow> resolver \<Rightarrow> resolved_name option resolving" where
  "resolve_free_name name span r =
     (if name = bs ''_ENV'' then Inr (None, r)
      else if global_declarations (rules (rs_profile r)) then
        let mode = effective_global_mode r
        in if mode = Some NamedOnly then Inr (None, r)
           else
             rbind (lexical_environment_shadow span r) (\<lambda>(shadow, r).
             case shadow of
               Some env \<Rightarrow> Inr (Some (Name_EnvField env name), r)
             | None \<Rightarrow>
                 rbind (declare_implicit_global name span (mode = Some (Wildcard True)) r) (\<lambda>(binding, r).
                 Inr (Some (Name_Global binding), r)))
      else
        rbind (lookup (bs ''_ENV'') span r) (\<lambda>(found, r).
        case found of
          Some (Name_Local env) \<Rightarrow> Inr (Some (Name_EnvField env name), r)
        | Some (Name_Upvalue upvalue) \<Rightarrow>
            rbind (upvalue_binding upvalue span r) (\<lambda>env. Inr (Some (Name_EnvField env name), r))
        | _ \<Rightarrow> Inr (None, r)))"

definition ensure_writable :: "resolved_name \<Rightarrow> span \<Rightarrow> resolver \<Rightarrow> (resolve_failure, unit) result" where
  "ensure_writable resolution span r =
     rbind (case resolution of
              Name_Local b \<Rightarrow> Inr (Some b)
            | Name_Upvalue u \<Rightarrow> rbind (upvalue_binding u span r) (\<lambda>b. Inr (Some b))
            | Name_Global b \<Rightarrow> Inr (Some b)
            | Name_EnvField _ name \<Rightarrow>
                Inr (if global_declarations (rules (rs_profile r)) then visible_named_global name r else None)) (\<lambda>binding.
     if (case binding of Some b \<Rightarrow> binding_readonly b r = Some True | None \<Rightarrow> False) then resolve_error r span ReadonlyBinding
     else if (case resolution of Name_EnvField _ _ \<Rightarrow> True | _ \<Rightarrow> False) \<and> binding = None
         \<and> effective_global_mode r = Some (Wildcard True) then resolve_error r span ReadonlyBinding
     else Inr ())"

subsection \<open>What a child function sees\<close>

definition visible_binding_access :: "resolver \<Rightarrow> (binding_id \<times> binding_access) list" where
  "visible_binding_access r =
     foldl (\<lambda>visible meta. AList.update (bm_id meta) \<lparr>ba_readonly = bm_readonly meta\<rparr> visible) (rs_parent_metadata r) (rs_bindings r)"

fun as_ancestor :: "parent_binding \<Rightarrow> parent_binding" where
  "as_ancestor (Parent_Direct b) = Parent_Ancestor b"
| "as_ancestor (Parent_Ancestor b) = Parent_Ancestor b"
| "as_ancestor (Parent_Global b) = Parent_Global b"

definition as_parent :: "resolver \<Rightarrow> binding_id \<Rightarrow> parent_binding" where
  "as_parent r b = (if binding_kind_of b r = Some Bind_Global then Parent_Global b else Parent_Direct b)"

definition visible_bindings :: "resolver \<Rightarrow> (bytes \<times> parent_binding) list" where
  "visible_bindings r =
     (let inherited = (case rs_parent_visible r of None \<Rightarrow> [] | Some visible \<Rightarrow> map (\<lambda>(name, b). (name, as_ancestor b)) visible)
      in foldl (\<lambda>visible frame. foldl (\<lambda>visible (name, b). AList.update name (as_parent r b) visible) visible (sf_bindings frame))
           inherited (rs_scopes r))"

subsection \<open>Labels and gotos\<close>

fun is_label :: "stmt \<Rightarrow> bool" where
  "is_label (St_Label _ _ _) = True"
| "is_label _ = False"

fun is_void :: "stmt \<Rightarrow> bool" where
  "is_void (St_Empty _) = True"
| "is_void (St_Label _ _ _) = True"
| "is_void _ = False"

fun is_goto :: "stmt \<Rightarrow> bool" where
  "is_goto (St_Goto _ _ _) = True"
| "is_goto _ = False"

fun declared_spans :: "stmt \<Rightarrow> span list" where
  "declared_spans (St_Local names _ _) = map ln_span names"
| "declared_spans (St_LocalFunction name _ _) = [ln_span name]"
| "declared_spans _ = []"

definition last_non_void :: "stmt list \<Rightarrow> nat option" where
  "last_non_void statements = find (\<lambda>i. \<not> is_void (statements ! i)) (rev [0..<length statements])"

fun register_statement :: "scope_id \<Rightarrow> bool \<Rightarrow> stmt \<Rightarrow> resolver \<Rightarrow> scope_frame \<Rightarrow> (resolve_failure, scope_frame) result" where
  "register_statement scope terminal (St_Label name name_span _) r frame =
     (if map_of (sf_labels frame) name \<noteq> None then resolve_error r name_span DuplicateLabel
      else Inr (frame\<lparr>sf_labels :=
        AList.update name \<lparr>li_scope = scope, li_terminal = terminal, li_span = name_span\<rparr> (sf_labels frame)\<rparr>))"
| "register_statement scope terminal statement r frame =
     Inr (frame\<lparr>sf_declaration_spans := sf_declaration_spans frame @ declared_spans statement\<rparr>)"

fun register_statements ::
    "scope_id \<Rightarrow> bool \<Rightarrow> nat option \<Rightarrow> nat \<Rightarrow> stmt list \<Rightarrow> resolver \<Rightarrow> scope_frame \<Rightarrow> (resolve_failure, scope_frame) result" where
  "register_statements scope end_scope non_void index [] r frame = Inr frame"
| "register_statements scope end_scope non_void index (statement # statements) r frame =
     rbind (register_statement scope (end_scope \<and> (case non_void of None \<Rightarrow> True | Some i \<Rightarrow> i < index)) statement r frame) (\<lambda>frame.
     register_statements scope end_scope non_void (index + 1) statements r frame)"

definition register_labels :: "stmt list \<Rightarrow> span \<Rightarrow> bool \<Rightarrow> resolver \<Rightarrow> unit resolving" where
  "register_labels statements span terminal_labels_end_scope r =
     rbind (current_scope r) (\<lambda>scope.
     if max_labels (rs_limits r) < rs_label_count r + length (filter is_label statements) then resolve_limit r span TooManyLabels
     else
       rbind (ensure_binding_capacity (sum_list (map (length \<circ> declared_spans) statements)) span r) (\<lambda>_.
       rbind (innermost r) (\<lambda>frame.
       rbind (register_statements scope terminal_labels_end_scope (last_non_void statements) 0 statements r frame) (\<lambda>frame.
       Inr ((), set_innermost frame r)))))"

fun find_label :: "bytes \<Rightarrow> scope_frame list \<Rightarrow> label_info option" where
  "find_label name [] = None"
| "find_label name (frame # frames) =
     (case map_of (sf_labels frame) name of Some label \<Rightarrow> Some label | None \<Rightarrow> find_label name frames)"

definition enters_local :: "label_info \<Rightarrow> span \<Rightarrow> resolver \<Rightarrow> bool" where
  "enters_local label span r =
     (case find (\<lambda>frame. sf_id frame = li_scope label) (rs_scopes r) of
        None \<Rightarrow> False
      | Some frame \<Rightarrow> list_ex (\<lambda>declaration. span_start span < span_start declaration
          \<and> span_start declaration < span_start (li_span label)) (sf_declaration_spans frame))"

fun validate_goto :: "stmt \<Rightarrow> resolver \<Rightarrow> (resolve_failure, unit) result" where
  "validate_goto (St_Goto name _ span) r =
     (case find_label name (rev (rs_scopes r)) of
        None \<Rightarrow> resolve_error r span NoLabel
      | Some label \<Rightarrow>
          if enters_local label span r \<and> \<not> li_terminal label then resolve_error r span GotoIntoLocal else Inr ())"
| "validate_goto _ r = Inr ()"

fun validate_gotos :: "stmt list \<Rightarrow> resolver \<Rightarrow> (resolve_failure, unit) result" where
  "validate_gotos [] r = Inr ()"
| "validate_gotos (statement # statements) r = rbind (validate_goto statement r) (\<lambda>_. validate_gotos statements r)"

definition validate_block_gotos :: "stmt list \<Rightarrow> span \<Rightarrow> resolver \<Rightarrow> (resolve_failure, unit) result" where
  "validate_block_gotos statements span r =
     (if max_gotos (rs_limits r) < rs_goto_count r + length (filter is_goto statements) then resolve_limit r span TooManyGotos
      else validate_gotos statements r)"

text \<open>The bindings of the target scope that a goto leaves, from the last one; the second component needs closing.\<close>

fun goto_exits ::
    "label_info \<Rightarrow> span \<Rightarrow> binding_id list \<Rightarrow> resolver \<Rightarrow> (resolve_failure, binding_id list \<times> binding_id list) result" where
  "goto_exits label span [] r = Inr ([], [])"
| "goto_exits label span (binding # bindings) r =
     (case get_at (rs_bindings r) (bi_ordinal binding) of
        None \<Rightarrow> resolve_error r span GotoBinding
      | Some meta \<Rightarrow>
          if bm_id meta \<noteq> binding then resolve_error r span GotoBinding
          else if \<not> li_terminal label \<and> span_start (bm_span meta) \<le> span_start (li_span label) then Inr ([], [])
          else
            rbind (goto_exits label span bindings r) (\<lambda>(exited, closed).
            if span_start (bm_span meta) < span_start span
            then Inr (binding # exited, if bm_close_marker meta \<noteq> None then binding # closed else closed)
            else Inr (exited, closed)))"

definition goto_close_path :: "label_info \<Rightarrow> span \<Rightarrow> resolver \<Rightarrow> (resolve_failure, close_path) result" where
  "goto_close_path label span r =
     rbind (close_path_to Exit_Goto (Some (li_scope label)) span r) (\<lambda>path.
     if \<not> li_terminal label \<and> span_start span \<le> span_start (li_span label) then Inr path
     else
       (case find (\<lambda>frame. sf_id frame = li_scope label) (rs_scopes r) of
          None \<Rightarrow> resolve_error r span GotoScope
        | Some target \<Rightarrow>
            rbind (goto_exits label span (rev (sf_local_bindings target)) r) (\<lambda>(exited, closed).
            Inr (path\<lparr>cp_exited_bindings := cp_exited_bindings path @ exited, cp_bindings := cp_bindings path @ closed\<rparr>))))"

subsection \<open>Parts of the tree\<close>

text \<open>Running a resolver inside a new scope, and inside a loop that starts in the scope \<open>target\<close>.\<close>

definition in_scope :: "span \<Rightarrow> (resolver \<Rightarrow> 'a resolving) \<Rightarrow> resolver \<Rightarrow> 'a resolving" where
  "in_scope span f r = rbind (enter_scope span r) (\<lambda>(_, r). rbind (f r) (\<lambda>(x, r). Inr (x, leave_scope r)))"

definition in_loop :: "scope_id \<Rightarrow> (resolver \<Rightarrow> 'a resolving) \<Rightarrow> resolver \<Rightarrow> 'a resolving" where
  "in_loop target f r =
     rbind (f (r\<lparr>rs_loops := rs_loops r @ [target]\<rparr>)) (\<lambda>(x, r). Inr (x, r\<lparr>rs_loops := butlast (rs_loops r)\<rparr>))"

definition resolve_name :: "bytes \<Rightarrow> span \<Rightarrow> resolver \<Rightarrow> resolved_expr resolving" where
  "resolve_name name span r =
     rbind (lookup name span r) (\<lambda>(found, r).
     rbind (case found of
              Some (Name_Global binding) \<Rightarrow>
                if global_declarations (rules (rs_profile r)) then
                  rbind (lexical_environment_shadow span r) (\<lambda>(shadow, r).
                  Inr (Some (case shadow of Some env \<Rightarrow> Name_EnvField env name | None \<Rightarrow> Name_Global binding), r))
                else Inr (Some (Name_Global binding), r)
            | Some resolution \<Rightarrow> Inr (Some resolution, r)
            | None \<Rightarrow> resolve_free_name name span r) (\<lambda>(resolution, r).
     case resolution of
       Some resolution \<Rightarrow> Inr (Rx_Name name resolution span, r)
     | None \<Rightarrow> resolve_error r span Undeclared))"

definition resolve_vararg_expr :: "span \<Rightarrow> resolver \<Rightarrow> resolved_expr resolving" where
  "resolve_vararg_expr span r =
     (if \<not> rs_vararg_available r then resolve_error r span VarargOutsideFunction
      else Inr (Rx_Vararg (rs_vararg_binding r) span, r))"

text \<open>A list of \<open>n\<close> parts, with its limit.\<close>

definition resolve_list :: "nat \<Rightarrow> span \<Rightarrow> (resolver \<Rightarrow> 'a resolving) \<Rightarrow> resolver \<Rightarrow> 'a resolving" where
  "resolve_list n span f r = rbind (ensure_list n span r) (\<lambda>_. f r)"

definition map_resolved :: "('a \<Rightarrow> 'b) \<Rightarrow> 'a resolving \<Rightarrow> 'b resolving" where
  "map_resolved g m = rbind m (\<lambda>(x, r). Inr (g x, r))"

definition resolve_two :: "('a \<Rightarrow> 'b \<Rightarrow> 'c) \<Rightarrow> (resolver \<Rightarrow> 'a resolving) \<Rightarrow> (resolver \<Rightarrow> 'b resolving) \<Rightarrow> resolver \<Rightarrow> 'c resolving" where
  "resolve_two g f f' r = rbind (f r) (\<lambda>(x, r). rbind (f' r) (\<lambda>(y, r). Inr (g x y, r)))"

text \<open>The check on an assignment target after it is resolved.\<close>

fun writable_target :: "span \<Rightarrow> resolved_expr \<Rightarrow> resolver \<Rightarrow> (resolve_failure, unit) result" where
  "writable_target target_span (Rx_Name _ resolution span) r = ensure_writable resolution span r"
| "writable_target target_span (Rx_Index _ _ _) r = Inr ()"
| "writable_target target_span (Rx_Field _ _ _) r = Inr ()"
| "writable_target target_span _ r = resolve_error r target_span BadTarget"

definition resolve_assignment_target :: "span \<Rightarrow> (resolver \<Rightarrow> resolved_expr resolving) \<Rightarrow> resolver \<Rightarrow> resolved_expr resolving" where
  "resolve_assignment_target target_span f r =
     rbind (f r) (\<lambda>(resolved, r). rbind (writable_target target_span resolved r) (\<lambda>_. Inr (resolved, r)))"

subsection \<open>Statements\<close>

definition resolved_local :: "local_name \<Rightarrow> binding_id \<Rightarrow> resolved_local_name" where
  "resolved_local name binding =
     \<lparr>rn_binding = binding, rn_name = ln_name name, rn_attribute = ln_attribute name, rn_span = ln_span name\<rparr>"

fun declare_locals :: "local_name list \<Rightarrow> nat \<Rightarrow> resolver \<Rightarrow> binding_id list resolving" where
  "declare_locals [] close_count r = Inr ([], r)"
| "declare_locals (name # names) close_count r =
     rbind (declare_local (ln_name name) (ln_span name) (ln_attribute name) r) (\<lambda>(binding, r).
     let close_count = (case ln_attribute name of Some a \<Rightarrow> if attr_name a = bs ''close'' then close_count + 1 else close_count
           | None \<Rightarrow> close_count)
     in if 1 < close_count then resolve_error r (ln_span name) MultipleClose
        else rbind (declare_locals names close_count r) (\<lambda>(bindings, r). Inr (binding # bindings, r)))"

definition resolve_local :: "local_name list \<Rightarrow> nat \<Rightarrow> (resolver \<Rightarrow> resolved_expr list resolving) \<Rightarrow> span \<Rightarrow> resolver \<Rightarrow> resolved_stmt resolving" where
  "resolve_local names n values span r =
     rbind (ensure_list n span r) (\<lambda>_.
     rbind (ensure_list (length names) span r) (\<lambda>_.
     rbind (ensure_binding_capacity (length names) span r) (\<lambda>_.
     rbind (values r) (\<lambda>(resolved_values, r).
     rbind (declare_locals names 0 r) (\<lambda>(bindings, r).
     Inr (Rs_Local bindings (map2 resolved_local names bindings) resolved_values span, r))))))"

definition resolve_local_function ::
    "local_name \<Rightarrow> (resolver \<Rightarrow> resolved_function_body resolving) \<Rightarrow> span \<Rightarrow> resolver \<Rightarrow> resolved_stmt resolving" where
  "resolve_local_function name body span r =
     rbind (ensure_binding_capacity 1 span r) (\<lambda>_.
     rbind (declare_binding (ln_name name) (ln_span name) (ln_attribute name) Bind_LocalFunction False r) (\<lambda>(binding, r).
     rbind (body r) (\<lambda>(body, r). Inr (Rs_LocalFunction (resolved_local name binding) body span, r))))"

definition resolve_return :: "(resolver \<Rightarrow> resolved_expr list resolving) \<Rightarrow> span \<Rightarrow> resolver \<Rightarrow> resolved_stmt resolving" where
  "resolve_return values span r =
     rbind (values r) (\<lambda>(values, r).
     rbind (close_path_to Exit_Return None span r) (\<lambda>path. Inr (Rs_Return values path span, r)))"

definition resolve_call :: "(resolver \<Rightarrow> resolved_expr resolving) \<Rightarrow> span \<Rightarrow> resolver \<Rightarrow> resolved_stmt resolving" where
  "resolve_call call span r =
     rbind (call r) (\<lambda>(call, r).
     case call of
       Rx_Call _ _ _ \<Rightarrow> Inr (Rs_Call call span, r)
     | Rx_MethodCall _ _ _ _ \<Rightarrow> Inr (Rs_Call call span, r)
     | _ \<Rightarrow> resolve_error r span NotACall)"

definition resolve_break :: "span \<Rightarrow> resolver \<Rightarrow> resolved_stmt resolving" where
  "resolve_break span r =
     (if rs_loops r = [] then resolve_error r span BreakOutsideLoop
      else rbind (close_path_to Exit_Break (Some (last (rs_loops r))) span r) (\<lambda>path. Inr (Rs_Break path span, r)))"

definition resolve_goto :: "bytes \<Rightarrow> span \<Rightarrow> span \<Rightarrow> resolver \<Rightarrow> resolved_stmt resolving" where
  "resolve_goto name name_span span r =
     (if max_gotos (rs_limits r) \<le> rs_goto_count r then resolve_limit r span TooManyGotos
      else
        let r = r\<lparr>rs_goto_count := rs_goto_count r + 1\<rparr>
        in case find_label name (rev (rs_scopes r)) of
             None \<Rightarrow> resolve_error r span NoLabel
           | Some label \<Rightarrow> rbind (goto_close_path label span r) (\<lambda>path. Inr (Rs_Goto name name_span path span, r)))"

definition resolve_label :: "bytes \<Rightarrow> span \<Rightarrow> span \<Rightarrow> resolver \<Rightarrow> resolved_stmt resolving" where
  "resolve_label name name_span span r =
     (if max_labels (rs_limits r) \<le> rs_label_count r then resolve_limit r span TooManyLabels
      else Inr (Rs_Label name name_span span, r\<lparr>rs_label_count := rs_label_count r + 1\<rparr>))"

definition resolve_while ::
    "(resolver \<Rightarrow> resolved_expr resolving) \<Rightarrow> (resolver \<Rightarrow> resolved_block resolving) \<Rightarrow> span \<Rightarrow> resolver \<Rightarrow> resolved_stmt resolving" where
  "resolve_while condition body span r =
     rbind (condition r) (\<lambda>(condition, r).
     rbind (current_scope r) (\<lambda>target.
     rbind (in_loop target body r) (\<lambda>(body, r). Inr (Rs_While condition body span, r))))"

definition resolve_repeat ::
    "span \<Rightarrow> (resolver \<Rightarrow> resolved_block resolving) \<Rightarrow> (resolver \<Rightarrow> resolved_expr resolving) \<Rightarrow> span \<Rightarrow> resolver \<Rightarrow> resolved_stmt resolving" where
  "resolve_repeat scope_span body condition span r =
     rbind (current_scope r) (\<lambda>target.
     in_scope scope_span (in_loop target (resolve_two (\<lambda>body condition. Rs_Repeat body condition span) body condition)) r)"

definition resolve_numeric_for ::
    "local_name \<Rightarrow> (resolver \<Rightarrow> resolved_expr resolving) \<Rightarrow> (resolver \<Rightarrow> resolved_expr resolving) \<Rightarrow> (resolver \<Rightarrow> resolved_expr option resolving) \<Rightarrow>
     (resolver \<Rightarrow> resolved_block resolving) \<Rightarrow> span \<Rightarrow> resolver \<Rightarrow> resolved_stmt resolving" where
  "resolve_numeric_for name initial limit step body span r =
     rbind (initial r) (\<lambda>(initial, r).
     rbind (limit r) (\<lambda>(limit, r).
     rbind (step r) (\<lambda>(step, r).
     rbind (ensure_binding_capacity 1 span r) (\<lambda>_.
     rbind (current_scope r) (\<lambda>target.
     in_scope span (\<lambda>r.
       rbind (declare_binding (ln_name name) (ln_span name) (ln_attribute name) Bind_NumericFor
         (readonly_for_control (rules (rs_profile r))) r) (\<lambda>(binding, r).
       rbind (in_loop target body r) (\<lambda>(body, r).
       Inr (Rs_NumericFor (resolved_local name binding) initial limit step body span, r)))) r)))))"

text \<open>The names of a generic \<open>for\<close> (the first one may be read-only) and the parameters of a function.\<close>

fun declare_names :: "binding_kind \<Rightarrow> bool \<Rightarrow> local_name list \<Rightarrow> resolver \<Rightarrow> resolved_local_name list resolving" where
  "declare_names kind readonly [] r = Inr ([], r)"
| "declare_names kind readonly (name # names) r =
     rbind (declare_binding (ln_name name) (ln_span name) (ln_attribute name) kind readonly r) (\<lambda>(binding, r).
     rbind (declare_names kind False names r) (\<lambda>(resolved, r). Inr (resolved_local name binding # resolved, r)))"

definition resolve_generic_for ::
    "local_name list \<Rightarrow> expr list \<Rightarrow> (resolver \<Rightarrow> resolved_expr list resolving) \<Rightarrow> (resolver \<Rightarrow> resolved_block resolving) \<Rightarrow> span \<Rightarrow>
     resolver \<Rightarrow> resolved_stmt resolving" where
  "resolve_generic_for names exprs values body span r =
     (let closing_span = (case get_at exprs 3 of Some e \<Rightarrow> expr_span e | None \<Rightarrow> span)
      in rbind (values r) (\<lambda>(values, r).
         rbind (ensure_list (length names) span r) (\<lambda>_.
         rbind (case checked_add_usize (length names) 1 of None \<Rightarrow> resolve_limit r span TooManyForBindings | Some n \<Rightarrow> Inr n) (\<lambda>n.
         rbind (ensure_binding_capacity n span r) (\<lambda>_.
         rbind (current_scope r) (\<lambda>target.
         in_scope span (\<lambda>r.
           rbind (declare_generic_for_close closing_span r) (\<lambda>(closing, r).
           rbind (declare_names Bind_GenericFor (readonly_for_control (rules (rs_profile r))) names r) (\<lambda>(resolved_names, r).
           rbind (in_loop target body r) (\<lambda>(body, r).
           rbind (close_path_to Exit_Normal (Some target) span r) (\<lambda>path.
           Inr (Rs_GenericFor resolved_names values \<lparr>gc_binding = closing, gc_span = closing_span\<rparr> body path span, r)))))) r))))))"

definition resolve_function_statement ::
    "(resolver \<Rightarrow> resolved_expr resolving) \<Rightarrow> method_name option \<Rightarrow> (resolver \<Rightarrow> resolved_function_body resolving) \<Rightarrow> span \<Rightarrow>
     resolver \<Rightarrow> resolved_stmt resolving" where
  "resolve_function_statement name method body span =
     resolve_two (\<lambda>name body. Rs_Function name method body span) name body"

text \<open>Declarations of globals, in Lua 5.5.\<close>

definition resolve_global_star :: "attribute option \<Rightarrow> span \<Rightarrow> resolver \<Rightarrow> resolved_stmt resolving" where
  "resolve_global_star prefix_attribute span r =
     rbind (global_attribute_readonly prefix_attribute span r) (\<lambda>readonly.
     rbind (set_wildcard_global_mode readonly r) (\<lambda>(_, r). Inr (Rs_Global (Rg_Star prefix_attribute span) span, r)))"

fun declare_globals :: "attribute option \<Rightarrow> local_name list \<Rightarrow> resolver \<Rightarrow> resolved_local_name list resolving" where
  "declare_globals prefix_attribute [] r = Inr ([], r)"
| "declare_globals prefix_attribute (name # names) r =
     (let attribute = (case ln_attribute name of Some a \<Rightarrow> Some a | None \<Rightarrow> prefix_attribute)
      in rbind (global_attribute_readonly attribute (ln_span name) r) (\<lambda>_.
         rbind (declare_binding (ln_name name) (ln_span name) attribute Bind_Global False r) (\<lambda>(binding, r).
         rbind (declare_globals prefix_attribute names r) (\<lambda>(resolved, r). Inr (resolved_local name binding # resolved, r)))))"

definition resolve_global_names ::
    "local_name list \<Rightarrow> nat \<Rightarrow> (resolver \<Rightarrow> resolved_expr list resolving) \<Rightarrow> attribute option \<Rightarrow> span \<Rightarrow> resolver \<Rightarrow> resolved_stmt resolving" where
  "resolve_global_names names n values prefix_attribute span r =
     rbind (ensure_list (length names) span r) (\<lambda>_.
     rbind (ensure_list n span r) (\<lambda>_.
     rbind (ensure_binding_capacity (length names) span r) (\<lambda>_.
     rbind (set_named_global_mode r) (\<lambda>(_, r).
     rbind (declare_globals prefix_attribute names r) (\<lambda>(resolved_names, r).
     rbind (resolve_list n span values r) (\<lambda>(values, r).
     Inr (Rs_Global (Rg_Names resolved_names values prefix_attribute span) span, r)))))))"

definition resolve_global_function ::
    "bytes \<Rightarrow> (resolver \<Rightarrow> resolved_function_body resolving) \<Rightarrow> span \<Rightarrow> resolver \<Rightarrow> resolved_stmt resolving" where
  "resolve_global_function name body span r =
     rbind (ensure_binding_capacity 1 span r) (\<lambda>_.
     rbind (set_named_global_mode r) (\<lambda>(_, r).
     rbind (declare_binding name span None Bind_Global False r) (\<lambda>(binding, r).
     rbind (body r) (\<lambda>(body, r). Inr (Rs_Global (Rg_Function binding name body span) span, r)))))"

definition resolve_global_with :: "span \<Rightarrow> (resolver \<Rightarrow> resolved_stmt resolving) \<Rightarrow> resolver \<Rightarrow> resolved_stmt resolving" where
  "resolve_global_with span f r =
     (if \<not> global_declarations (rules (rs_profile r)) then resolve_error r span GlobalUnsupported else f r)"

subsection \<open>Blocks\<close>

definition resolve_block_with ::
    "stmt list \<Rightarrow> span option \<Rightarrow> span \<Rightarrow> bool \<Rightarrow> (resolver \<Rightarrow> resolved_stmt list resolving) \<Rightarrow> resolver \<Rightarrow> resolved_block resolving" where
  "resolve_block_with sts terminator span terminal_labels_end_scope f r =
     (if max_statements (rs_limits r) < length sts \<or> max_ast_nodes (rs_limits r) < length sts
      then limit_error r span TooManyStatements
      else
        rbind (register_labels sts span terminal_labels_end_scope r) (\<lambda>(_, r).
        rbind (validate_block_gotos sts span r) (\<lambda>_.
        rbind (f r) (\<lambda>(statements, r).
        let terminal_suffix_start = (case last_non_void sts of None \<Rightarrow> 0 | Some i \<Rightarrow> i + 1);
            root_terminal_label = (length (rs_scopes r) = 1 \<and> list_ex is_label (drop terminal_suffix_start sts));
            target_scope = (if root_terminal_label then None
              else map_option sf_id (get_at (rs_scopes r) (length (rs_scopes r) - 2)))
        in rbind (current_scope r) (\<lambda>scope.
           rbind (close_path_to Exit_Normal target_scope span r) (\<lambda>normal.
           rbind (close_path_to Exit_Error None span r) (\<lambda>error.
           Inr (ResolvedBlock scope statements terminator span normal error, r))))))))"

subsection \<open>Functions\<close>

definition child_resolver :: "function_id \<Rightarrow> resolver \<Rightarrow> resolver" where
  "child_resolver function r =
     \<lparr>rs_lexed = rs_lexed r, rs_limits = rs_limits r, rs_profile = rs_profile r, rs_owner = function, rs_next_binding = 0,
      rs_next_function = rs_next_function r, rs_next_scope = 0, rs_bindings = [], rs_upvalues = [], rs_upvalue_ids = [],
      rs_upvalue_bindings = [], rs_pending = [], rs_scopes = [], rs_loops = [], rs_parent_metadata = visible_binding_access r,
      rs_vararg_available = False, rs_vararg_binding = None, rs_label_count = 0, rs_goto_count = 0,
      rs_parent_visible = Some (visible_bindings r), rs_root_environment = rs_root_environment r,
      rs_inherited_mode = effective_global_mode r, rs_implicit_globals = [], rs_completed = []\<rparr>"

definition declare_self :: "method_name option \<Rightarrow> resolver \<Rightarrow> resolved_local_name list resolving" where
  "declare_self method r =
     (case method of
        None \<Rightarrow> Inr ([], r)
      | Some m \<Rightarrow>
          rbind (declare_binding (bs ''self'') (mn_colon_span m) None Bind_Parameter False r) (\<lambda>(binding, r).
          Inr ([\<lparr>rn_binding = binding, rn_name = bs ''self'', rn_attribute = None, rn_span = mn_colon_span m\<rparr>], r)))"

definition declare_parameters :: "local_name list \<Rightarrow> method_name option \<Rightarrow> span \<Rightarrow> resolver \<Rightarrow> resolved_local_name list resolving" where
  "declare_parameters parameters method span child =
     rbind (ensure_list (length parameters) span child) (\<lambda>_.
     rbind (case checked_add_usize (length parameters) (if method \<noteq> None then 1 else 0) of
              None \<Rightarrow> limit_error child span TooManyParameters | Some n \<Rightarrow> Inr n) (\<lambda>parameter_count.
     if max_parameters (rs_limits child) < parameter_count then limit_error child span TooManyParameters
     else
       rbind (ensure_binding_capacity parameter_count span child) (\<lambda>_.
       rbind (declare_self method child) (\<lambda>(self, child).
       rbind (declare_names Bind_Parameter False parameters child) (\<lambda>(names, child). Inr (self @ names, child))))))"

definition declare_vararg :: "vararg option \<Rightarrow> resolver \<Rightarrow> resolved_vararg option resolving" where
  "declare_vararg vararg child =
     (case vararg of
        None \<Rightarrow> Inr (None, child)
      | Some v \<Rightarrow>
          if \<not> named_vararg (rules (rs_profile child)) \<and> va_table_name v \<noteq> None then resolve_error child (va_span v) NamedVarargTable
          else
            rbind (case va_table_name v of
                     None \<Rightarrow> Inr (None, child)
                   | Some name \<Rightarrow>
                       rbind (ensure_binding_capacity 1 (ln_span name) child) (\<lambda>_.
                       rbind (declare_binding (ln_name name) (ln_span name) (ln_attribute name) Bind_VarargTable True child) (\<lambda>(b, child).
                       Inr (Some b, child)))) (\<lambda>(table_binding, child).
            Inr (Some \<lparr>rv_table_binding = table_binding, rv_span = va_span v\<rparr>, child)))"

text \<open>
  The captures of the child that go through its parent: the parent captures each binding, and the upvalue of the child
  is redirected to that of the parent.
\<close>

fun adopt_captures :: "(binding_id \<times> upvalue_id) list \<Rightarrow> span \<Rightarrow> upvalue_source list \<Rightarrow> resolver \<Rightarrow> upvalue_source list resolving" where
  "adopt_captures [] span upvalues r = Inr (upvalues, r)"
| "adopt_captures ((binding, child_upvalue) # pending) span upvalues r =
     rbind (capture_for_child binding span r) (\<lambda>(parent_upvalue, r).
     if length upvalues \<le> child_upvalue then resolve_error r span UpvalueIndex
     else adopt_captures pending span (upvalues[child_upvalue := ParentUpvalue parent_upvalue]) r)"

definition resolve_child ::
    "local_name list \<Rightarrow> vararg option \<Rightarrow> method_name option \<Rightarrow> (resolver \<Rightarrow> resolved_block resolving) \<Rightarrow> span \<Rightarrow> resolver \<Rightarrow>
     (resolved_local_name list \<times> resolved_vararg option \<times> resolved_block) resolving" where
  "resolve_child parameters vararg method body span child =
     rbind (enter_scope span child) (\<lambda>(_, child).
     rbind (declare_parameters parameters method span child) (\<lambda>(parameters, child).
     rbind (declare_vararg vararg child) (\<lambda>(vararg, child).
     let child = child\<lparr>rs_vararg_available := vararg \<noteq> None,
           rs_vararg_binding := (case vararg of None \<Rightarrow> None | Some v \<Rightarrow> rv_table_binding v)\<rparr>
     in rbind (body child) (\<lambda>(body, child). Inr ((parameters, vararg, body), leave_scope child)))))"

definition resolve_function_with ::
    "local_name list \<Rightarrow> vararg option \<Rightarrow> method_name option \<Rightarrow> (resolver \<Rightarrow> resolved_block resolving) \<Rightarrow> span \<Rightarrow> resolver \<Rightarrow>
     resolved_function_body resolving" where
  "resolve_function_with parameters vararg method body span r =
     (let function = rs_next_function r
      in if u32_max < rs_next_function r + 1 then resolve_limit r span TooManyFunctions
         else
           let r = r\<lparr>rs_next_function := rs_next_function r + 1\<rparr>
           in rbind (resolve_child parameters vararg method body span (child_resolver function r)) (\<lambda>((parameters, vararg, body), child).
              rbind (adopt_captures (rs_pending child) span (rs_upvalues child) r) (\<lambda>(upvalues, r).
              let metadata = \<lparr>rf_id = function, rf_parent = Some (rs_owner r), rf_span = span, rf_bindings = rs_bindings child,
                    rf_upvalues = upvalues\<rparr>
              in Inr (ResolvedFunctionBody function parameters vararg body span,
                   r\<lparr>rs_next_function := rs_next_function child,
                     rs_completed := rs_completed r @ [metadata] @ rs_completed child\<rparr>))))"

subsection \<open>The recursion over the syntax tree\<close>

text \<open>Resolving the parts of a list in order, and a part that may be missing.\<close>

fun resolve_all :: "(resolver \<Rightarrow> 'a resolving) list \<Rightarrow> resolver \<Rightarrow> 'a list resolving" where
  "resolve_all [] r = Inr ([], r)"
| "resolve_all (f # fs) r = resolve_two (#) f (resolve_all fs) r"

fun resolve_optional :: "(resolver \<Rightarrow> 'a resolving) option \<Rightarrow> resolver \<Rightarrow> 'a option resolving" where
  "resolve_optional None r = Inr (None, r)"
| "resolve_optional (Some f) r = map_resolved Some (f r)"

abbreviation resolve_expression_list :: "(resolver \<Rightarrow> resolved_expr resolving) list \<Rightarrow> span \<Rightarrow> resolver \<Rightarrow> resolved_expr list resolving" where
  "resolve_expression_list fs span \<equiv> resolve_list (length fs) span (resolve_all fs)"

definition resolve_nested_block :: "span \<Rightarrow> (bool \<Rightarrow> resolver \<Rightarrow> resolved_block resolving) \<Rightarrow> resolver \<Rightarrow> resolved_block resolving" where
  "resolve_nested_block span body = in_scope span (body True)"

fun resolve_clause ::
    "span \<Rightarrow> (resolver \<Rightarrow> resolved_expr resolving) \<times> (bool \<Rightarrow> resolver \<Rightarrow> resolved_block resolving) \<Rightarrow>
     resolver \<Rightarrow> (resolved_expr \<times> resolved_block) resolving" where
  "resolve_clause scope_span (condition, body) = resolve_two Pair condition (resolve_nested_block scope_span body)"

fun resolve_else ::
    "span option \<Rightarrow> (bool \<Rightarrow> resolver \<Rightarrow> resolved_block resolving) option \<Rightarrow> resolver \<Rightarrow> resolved_block option resolving" where
  "resolve_else (Some scope_span) (Some body) r = map_resolved Some (resolve_nested_block scope_span body r)"
| "resolve_else _ _ r = Inr (None, r)"

primrec resolve_expr :: "expr \<Rightarrow> resolver \<Rightarrow> resolved_expr resolving"
and resolve_table_field :: "table_field \<Rightarrow> resolver \<Rightarrow> resolved_table_field resolving"
and resolve_function_body :: "function_body \<Rightarrow> method_name option \<Rightarrow> resolver \<Rightarrow> resolved_function_body resolving"
and resolve_block_with_terminal_labels :: "block \<Rightarrow> bool \<Rightarrow> resolver \<Rightarrow> resolved_block resolving"
and resolve_global :: "global_declaration \<Rightarrow> span \<Rightarrow> resolver \<Rightarrow> resolved_stmt resolving"
and resolve_statement :: "stmt \<Rightarrow> resolver \<Rightarrow> resolved_stmt resolving" where
  "resolve_expr (Ex_Literal literal span) = (\<lambda>r. Inr (Rx_Literal literal span, r))"
| "resolve_expr (Ex_Nil span) = (\<lambda>r. Inr (Rx_Nil span, r))"
| "resolve_expr (Ex_Bool value span) = (\<lambda>r. Inr (Rx_Bool value span, r))"
| "resolve_expr (Ex_Name name span) = resolve_name name span"
| "resolve_expr (Ex_Unary op e span) = (\<lambda>r. map_resolved (\<lambda>e. Rx_Unary op e span) (resolve_expr e r))"
| "resolve_expr (Ex_Binary op left right span) =
     resolve_two (\<lambda>left right. Rx_Binary op left right span) (resolve_expr left) (resolve_expr right)"
| "resolve_expr (Ex_Paren e span) = (\<lambda>r. map_resolved (\<lambda>e. Rx_Paren e span) (resolve_expr e r))"
| "resolve_expr (Ex_Index base index span) =
     resolve_two (\<lambda>base index. Rx_Index base index span) (resolve_expr base) (resolve_expr index)"
| "resolve_expr (Ex_Field base name span) = (\<lambda>r. map_resolved (\<lambda>base. Rx_Field base name span) (resolve_expr base r))"
| "resolve_expr (Ex_Call callee arguments span) =
     resolve_two (\<lambda>callee arguments. Rx_Call callee arguments span) (resolve_expr callee)
       (resolve_expression_list (map resolve_expr arguments) span)"
| "resolve_expr (Ex_MethodCall receiver method arguments span) =
     resolve_two (\<lambda>receiver arguments. Rx_MethodCall receiver method arguments span) (resolve_expr receiver)
       (resolve_expression_list (map resolve_expr arguments) span)"
| "resolve_expr (Ex_Function body span) = (\<lambda>r. map_resolved (\<lambda>body. Rx_Function body span) (resolve_function_body body None r))"
| "resolve_expr (Ex_TableConstructor entries span) =
     (\<lambda>r. map_resolved (\<lambda>entries. Rx_TableConstructor entries span)
        (resolve_list (length entries) span (resolve_all (map resolve_table_field entries)) r))"
| "resolve_expr (Ex_Vararg span) = resolve_vararg_expr span"

| "resolve_table_field (Field_Array value separator span) =
     (\<lambda>r. map_resolved (\<lambda>value. Rf_Array value separator span) (resolve_expr value r))"
| "resolve_table_field (Field_Named name value separator span) =
     (\<lambda>r. map_resolved (\<lambda>value. Rf_Named name value separator span) (resolve_expr value r))"
| "resolve_table_field (Field_Indexed key value separator span) =
     resolve_two (\<lambda>key value. Rf_Indexed key value separator span) (resolve_expr key) (resolve_expr value)"

| "resolve_function_body (FunctionBody parameters vararg body span) =
     (\<lambda>method. resolve_function_with parameters vararg method (resolve_block_with_terminal_labels body True) span)"

| "resolve_block_with_terminal_labels (Block statements terminator span) =
     (\<lambda>terminal_labels_end_scope. resolve_block_with statements terminator span terminal_labels_end_scope
        (resolve_all (map resolve_statement statements)))"

| "resolve_global (Global_Star prefix_attribute span) =
     (\<lambda>statement_span. resolve_global_with statement_span (resolve_global_star prefix_attribute span))"
| "resolve_global (Global_Names names values prefix_attribute span) =
     (\<lambda>statement_span. resolve_global_with statement_span
        (resolve_global_names names (length values) (resolve_all (map resolve_expr values)) prefix_attribute span))"
| "resolve_global (Global_Function name body span) =
     (\<lambda>statement_span. resolve_global_with statement_span (resolve_global_function name (resolve_function_body body None) span))"

| "resolve_statement (St_Empty span) = (\<lambda>r. Inr (Rs_Empty span, r))"
| "resolve_statement (St_Do body span) =
     (\<lambda>r. map_resolved (\<lambda>body. Rs_Do body span)
        (resolve_nested_block (block_span body) (resolve_block_with_terminal_labels body) r))"
| "resolve_statement (St_Local names values span) =
     resolve_local names (length values) (resolve_all (map resolve_expr values)) span"
| "resolve_statement (St_LocalFunction name body span) = resolve_local_function name (resolve_function_body body None) span"
| "resolve_statement (St_Return values span) = resolve_return (resolve_expression_list (map resolve_expr values) span) span"
| "resolve_statement (St_Assignment targets values span) =
     resolve_two (\<lambda>targets values. Rs_Assignment targets values span)
       (resolve_list (length targets) span
          (resolve_all (map2 resolve_assignment_target (map expr_span targets) (map resolve_expr targets))))
       (resolve_expression_list (map resolve_expr values) span)"
| "resolve_statement (St_Call call span) = resolve_call (resolve_expr call) span"
| "resolve_statement (St_Break span) = resolve_break span"
| "resolve_statement (St_Goto name name_span span) = resolve_goto name name_span span"
| "resolve_statement (St_Label name name_span span) = resolve_label name name_span span"
| "resolve_statement (St_If clauses else_block span) =
     resolve_two (\<lambda>clauses else_block. Rs_If clauses else_block span)
       (resolve_list (length clauses) span
          (resolve_all (map2 resolve_clause (map (block_span \<circ> snd) clauses)
             (map (map_prod resolve_expr resolve_block_with_terminal_labels) clauses))))
       (resolve_else (map_option block_span else_block) (map_option resolve_block_with_terminal_labels else_block))"
| "resolve_statement (St_While condition body span) =
     resolve_while (resolve_expr condition) (resolve_nested_block (block_span body) (resolve_block_with_terminal_labels body)) span"
| "resolve_statement (St_Repeat body condition span) =
     resolve_repeat (block_span body) (resolve_block_with_terminal_labels body False) (resolve_expr condition) span"
| "resolve_statement (St_NumericFor name initial limit step body span) =
     resolve_numeric_for name (resolve_expr initial) (resolve_expr limit) (resolve_optional (map_option resolve_expr step))
       (resolve_nested_block (block_span body) (resolve_block_with_terminal_labels body)) span"
| "resolve_statement (St_GenericFor names values body span) =
     resolve_generic_for names values (resolve_expression_list (map resolve_expr values) span)
       (resolve_nested_block (block_span body) (resolve_block_with_terminal_labels body)) span"
| "resolve_statement (St_Function name method body span) =
     resolve_function_statement (resolve_assignment_target (expr_span name) (resolve_expr name)) method
       (resolve_function_body body method) span"
| "resolve_statement (St_Global declaration span) = resolve_global declaration span"

subsection \<open>Modules\<close>

definition validate_input :: "module \<Rightarrow> lexed_chunk \<Rightarrow> lua_profile \<Rightarrow> (resolve_failure, unit) result" where
  "validate_input m lexed expected_profile =
     (case last_token lexed of
        None \<Rightarrow> Inl (Unresolved (resolve_diagnostic None Diag_Resolve MissingEof))
      | Some end_token \<Rightarrow>
          if mod_profile m \<noteq> expected_profile \<or> chunk_profile lexed \<noteq> expected_profile
          then Inl (Unresolved (resolve_diagnostic (Some end_token) Diag_Resolve ProfileMismatch))
          else if span_end (mod_span m) \<noteq> source_len lexed
          then Inl (Unresolved (resolve_diagnostic (Some end_token) Diag_Resolve (Resolve_Message ModuleLengthMismatch)))
          else if tok_kind end_token \<noteq> Tok_Eof \<or> span_start (tok_span end_token) \<noteq> source_len lexed
              \<or> span_end (tok_span end_token) \<noteq> source_len lexed
          then Inl (Unresolved (resolve_diagnostic (Some end_token) Diag_Resolve (Resolve_Message EofMismatch)))
          else Inr ())"

definition root_resolver :: "lexed_chunk \<Rightarrow> lua_profile \<Rightarrow> compile_limits \<Rightarrow> resolver" where
  "root_resolver lexed profile limits =
     \<lparr>rs_lexed = lexed, rs_limits = limits, rs_profile = profile, rs_owner = 0, rs_next_binding = 0,
      rs_next_function = 1, rs_next_scope = 0, rs_bindings = [], rs_upvalues = [], rs_upvalue_ids = [],
      rs_upvalue_bindings = [], rs_pending = [], rs_scopes = [], rs_loops = [], rs_parent_metadata = [],
      rs_vararg_available = True, rs_vararg_binding = None, rs_label_count = 0, rs_goto_count = 0,
      rs_parent_visible = None, rs_root_environment = None, rs_inherited_mode = None, rs_implicit_globals = [],
      rs_completed = []\<rparr>"

definition resolve_root :: "module \<Rightarrow> resolver \<Rightarrow> resolved_block resolving" where
  "resolve_root m r =
     rbind (enter_scope (mod_span m) r) (\<lambda>(_, r).
     rbind (declare_binding (bs ''_ENV'') (mod_span m) None Bind_Environment False r) (\<lambda>(env, r).
     rbind (resolve_block_with_terminal_labels (mod_root m) True (r\<lparr>rs_root_environment := Some env\<rparr>)) (\<lambda>(root, r).
     Inr (root, leave_scope r))))"

definition resolve :: "module \<Rightarrow> lexed_chunk \<Rightarrow> lua_profile \<Rightarrow> compile_limits \<Rightarrow> (resolve_failure, resolved_module) result" where
  "resolve m lexed expected_profile limits =
     rbind (validate_input m lexed expected_profile) (\<lambda>_.
     rbind (resolve_root m (root_resolver lexed expected_profile limits)) (\<lambda>(root, r).
     let functions = \<lparr>rf_id = rs_owner r, rf_parent = None, rf_span = mod_span m, rf_bindings = rs_bindings r,
           rf_upvalues = rs_upvalues r\<rparr> # rs_completed r
     in Inr \<lparr>rm_profile = expected_profile, rm_span = mod_span m, rm_root = root, rm_functions = functions\<rparr>))"

end
