(* ===== verification/Spec2Isabelle.thy ===== *)
theory Spec2Isabelle
  imports Numeric_For Gc_State Root_Set Pattern Lexer_Spec Vm_Table Number_Round Utf8_Spec Pack_Spec Parser_Spec Resolve
begin

text \<open>
  RivetLua is an implementation of Lua 5.4 and 5.5 in Rust. This development models the parts of it that carry
  its own logic, from the bytes of a source file to its resolved tree, and from the numbers and strings of the runtime to its
  tables, its memory accounts and the state of its collector. Paths below are relative to \<open>src/crates/\<close>.

  \<^bold>\<open>How the program is put together.\<close> \<open>rivetlua-core\<close> holds values and numbers, \<open>rivetlua-compiler\<close> turns source into a
  tree (lexer, parser, resolver) and the tree into bytecode, \<open>rivetlua-runtime\<close> executes bytecode on a heap. Everything
  that takes memory in the runtime first reserves it in an allocation ledger, commits the reservation to a charge
  when the memory is taken, and refunds the charge when it is dropped. Tables, strings, roots and the buffers of the
  libraries are clients of the ledger; tables inform the collector of the references they store by a write barrier.

  \<^bold>\<open>Conventions.\<close> A Rust struct is a \<open>record\<close>, an enum a \<open>datatype\<close>; \<open>u64\<close> and \<open>i64\<close> are words, a \<open>usize\<close> is a
  natural number with its bound written out where the code checks it. \<open>Result\<close> is a sum with the error on the left
  (\<open>rbind\<close> is the question mark operator); a panic is a value (\<open>None\<close>, or an error constructor with Panic in its name), so
  that its absence is a theorem. Mutable state is passed explicitly; state shared through \<open>Rc\<close> lives in a world of cells, and
  \<open>Drop\<close> is an operation called where Rust runs it. Behaviour that is not fixed by the sources is a parameter: admission
  callbacks and metering closures of the host, answers of the allocator, the hasher, \<open>f64::powi\<close>, byte order and C sizes.

  \<^bold>\<open>Prelude.\<close> \<open>Lua_Prelude\<close> (results, checked arithmetic, lemmas on lists and words, the collections \<open>result_simps\<close> and
  \<open>byte_simps\<close>), \<open>Ascii\<close> (classes of bytes), \<open>F64\<close> (IEEE 754 binary64 on bit patterns, exact up to one rounding).

  \<^bold>\<open>Core\<close> (\<open>rivetlua-core/src\<close>). \<open>Lua_Value\<close>: \<open>value.rs\<close>, \<open>profile.rs\<close>, \<open>error.rs\<close>; identities are unique. \<open>Lua_Number\<close>:
  \<open>number.rs\<close>; comparison across the subtypes is the order of exact values, transitive and antisymmetric; division,
  remainder, shifts and conversions are the mathematical ones. \<open>Numeric_For\<close>: \<open>vm/numeric_for.rs\<close>; a loop ends and visits its
  progression exactly.

  \<^bold>\<open>Compiler\<close> (\<open>rivetlua-compiler/src\<close>). \<open>Lex_Cursor\<close>, \<open>Lex_Number\<close>, \<open>Lexer\<close>: \<open>lexer/mod.rs\<close>, \<open>cursor.rs\<close>, \<open>scanner.rs\<close>;
  \<open>Lexer_Spec\<close> shows what the tokens of a successful run are and that no unwrap panics. \<open>Ast\<close>, \<open>Parser\<close>: \<open>ast.rs\<close>,
  \<open>parser/mod.rs\<close>, one definition for each method over the methods it calls. \<open>Grammar\<close> is an independent relational grammar of
  Lua; \<open>Parser_Rules\<close> has the rules by which the methods are verified, \<open>Parser_Methods\<close> verifies them against the
  contract \<open>sub_parsers\<close> of the methods they call, and \<open>Parser_Spec\<close> ties the knot: what the parser accepts is derivable
  and the parser is total on what the lexer produces. \<open>Resolved_Ast\<close>, \<open>Resolve\<close>: \<open>resolve/mod.rs\<close>, one definition for each arm
  over the resolvers of its parts, put together by recursion over the tree.

  \<^bold>\<open>Memory\<close> (\<open>rivetlua-runtime/src\<close>). \<open>Alloc_Ledger\<close>: \<open>alloc.rs\<close>; over every sequence of operations the counters are the
  bytes of the live tickets and stay within the limit, and a live reservation can be committed. \<open>Root_Set\<close>: \<open>roots.rs\<close>;
  identities of roots are never reused. \<open>Gc_State\<close>: \<open>gc/mod.rs\<close>; the slot summary stays consistent, the paged search finds
  the first slot. \<open>Byte_String\<close>: \<open>string.rs\<close>; a shared string is refunded once.

  \<^bold>\<open>Tables.\<close> \<open>Table_Key\<close>, \<open>Lua_Table\<close>, \<open>Table_Write\<close>: \<open>table.rs\<close>; \<open>Table_Spec\<close> gives the abstract map that a table stands for
  and shows that lookup and assignment refine it, \<open>Table_Pair\<close> the same for the paired write. \<open>Vm_Heap\<close>, \<open>Vm_Table\<close>: the
  raw operations on tables in a machine (\<open>heap.rs\<close>, \<open>vm/ops.rs\<close>); equality of keys is raw equality, and \<open>next\<close> visits every
  field once.

  \<^bold>\<open>Libraries\<close> (\<open>stdlib/\<close>). \<open>Pattern\<close>: \<open>pattern.rs\<close>; searches are bounded and free of panics, the plain search is the first
  occurrence. \<open>Number_Text\<close>, \<open>Number_Round\<close>: numbers as text (\<open>vm/ops.rs\<close>, \<open>basic.rs\<close>) and their round trip. \<open>String_Support\<close>,
  \<open>Utf8\<close>, \<open>Utf8_Spec\<close>, \<open>Pack\<close>, \<open>Pack_Spec\<close>: \<open>utf8.rs\<close> and \<open>pack.rs\<close> with their round trips.

  \<^bold>\<open>Bounds and fuel.\<close> Loops are functions with a termination proof. Two recursions carry fuel. The matcher of
  patterns takes the fuel its step budget allows, and the error \<open>Pat_Fuel\<close> is shown not to occur. The methods of the parser are tied
  by \<open>parsers\<close> with fuel \<open>6 * length ts + 4\<close> for the tokens \<open>ts\<close>: every cycle of calls goes through at most six methods
  before it takes a token, and \<open>parse_total\<close> shows that the fuel is never used up. Limits of the compiler are fields of
  \<open>compile_limits\<close> with arbitrary values in the theorems.

  \<^bold>\<open>Not modelled.\<close> Code generation and the interpreter loop (they need a semantics of the bytecode), the
  collection cycles and finalizers of \<open>heap.rs\<close>, coroutines, metamethods, the chunk formats of the reference
  implementation, native code, the C interface, the libraries of the operating system, the command line and the tooling. Of \<open>heap.rs\<close>
  only tables and strings have contents; of \<open>string.rs\<close> of the libraries only what UTF-8 and packing use is modelled.
\<close>

text \<open>
  C39: Identities are handed out once: however many times one of the process-wide counters is drawn
  from, no two draws return the same identity (the counter stops at its maximum and does not wrap).
\<close>

theorem identities_unique:
  assumes "i < j" and "j < n" and "draw_ids n c ! i = Some x" and "draw_ids n c ! j = Some y"
  shows "x \<noteq> y \<and> x \<noteq> 0"
proof -
  have "length (draw_ids n c) = n" by (induction n arbitrary: c) (auto simp: Let_def split: prod.split)
  then have "Some x \<in> set (draw_ids n c)" using assms nth_mem [of i "draw_ids n c"] by simp
  then show ?thesis using draw_ids_distinct [OF assms] draw_ids_bounds by blast
qed

lemma identities_unique_witness:
  "draw_ids (Suc (Suc 0)) 1 = [Some 1, Some 2] \<and> (1 :: u64) \<noteq> 2 \<and> (1 :: u64) \<noteq> 0"
proof -
  have ids: "draw_ids (Suc (Suc 0)) 1 = [Some 1, Some 2]" by (simp add: next_unique_id_def)
  have "(1 :: u64) \<noteq> 2 \<and> (1 :: u64) \<noteq> 0" by (rule identities_unique [of 0 1 "Suc (Suc 0)" 1]) (simp_all only: ids, simp_all)
  with ids show ?thesis by blast
qed

end
